(* ===== verification/Swicc_Prelude.thy ===== *)
theory Swicc_Prelude
  imports Main "HOL-Library.Word" "HOL-Library.Monad_Syntax"
begin

text \<open>
  Shared vocabulary of the development: the machine integers of the C code, byte buffers with
  bounds-checked access, and the lemmas about them that every component uses.

  A C function that can run into undefined behaviour (an access outside a buffer, a division by
  zero, a failed \<^verbatim>\<open>assert\<close>) or that may not return is a HOL function into an option type:
  \<^term>\<open>None\<close> says that the call has no defined result, \<^term>\<open>Some r\<close> that it returns \<open>r\<close>.
  A theorem that concludes \<open>= Some \<dots>\<close> therefore says that the code returns and that every memory
  access on the way is inside its buffer.  The return codes of the library (success, errors) are
  ordinary values inside \<^term>\<open>Some\<close>.

  The host is little-endian, the case the first branch of \<^verbatim>\<open>SWICC_DISK_MAGIC\<close> in
  \<^verbatim>\<open>include/swicc/fs/disk.h\<close> selects.
\<close>

unbundle bit_operations_syntax

section \<open>Machine integers and buffers\<close>

type_synonym u8 = "8 word"
type_synonym u16 = "16 word"
type_synonym u32 = "32 word"
type_synonym u64 = "64 word"
type_synonym bytes = "u8 list"

named_theorems mem_simps \<open>when a buffer access is defined, and what it gives\<close>

definition rd :: "'a list \<Rightarrow> nat \<Rightarrow> 'a option" where
  "rd xs i = (if i < length xs then Some (xs ! i) else None)"

definition rdn :: "'a list \<Rightarrow> nat \<Rightarrow> nat \<Rightarrow> 'a list option" where
  "rdn xs off n = (if off + n \<le> length xs then Some (take n (drop off xs)) else None)"

definition wrn :: "'a list \<Rightarrow> nat \<Rightarrow> 'a list \<Rightarrow> 'a list option" where
  "wrn xs off ys =
     (if off + length ys \<le> length xs
      then Some (take off xs @ ys @ drop (off + length ys) xs) else None)"

definition assert_ub :: "bool \<Rightarrow> unit option" where
  "assert_ub b = (if b then Some () else None)"

lemma rd_Some [mem_simps]: "rd xs i = Some x \<longleftrightarrow> i < length xs \<and> x = xs ! i"
  by (auto simp: rd_def)

lemma rdn_Some [mem_simps]:
  "rdn xs off n = Some ys \<longleftrightarrow> off + n \<le> length xs \<and> ys = take n (drop off xs)"
  by (auto simp: rdn_def)

lemma wrn_Some [mem_simps]:
  "wrn xs off ys = Some zs \<longleftrightarrow>
     off + length ys \<le> length xs \<and> zs = take off xs @ ys @ drop (off + length ys) xs"
  by (auto simp: wrn_def)

lemma assert_ub_Some [mem_simps]: "assert_ub b = Some u \<longleftrightarrow> b"
  by (simp add: assert_ub_def)

lemma rd_ok: "i < length xs \<Longrightarrow> rd xs i = Some (xs ! i)"
  by (simp add: rd_def)

lemma rdn_ok: "off + n \<le> length xs \<Longrightarrow> rdn xs off n = Some (take n (drop off xs))"
  by (simp add: rdn_def)

lemma wrn_ok:
  "off + length ys \<le> length xs \<Longrightarrow>
     wrn xs off ys = Some (take off xs @ ys @ drop (off + length ys) xs)"
  by (simp add: wrn_def)

lemma rd_None: "rd xs i = None \<longleftrightarrow> length xs \<le> i"
  by (auto simp: rd_def)

lemma rdn_None: "rdn xs off n = None \<longleftrightarrow> length xs < off + n"
  by (auto simp: rdn_def)

lemma wrn_None: "wrn xs off ys = None \<longleftrightarrow> length xs < off + length ys"
  by (auto simp: wrn_def)

lemma rdn_0: "off \<le> length xs \<Longrightarrow> rdn xs off 0 = Some []"
  by (simp add: rdn_def)

lemma length_rdn: "rdn xs off n = Some ys \<Longrightarrow> length ys = n"
  by (auto simp: rdn_Some)

lemma length_wrn: "wrn xs off ys = Some zs \<Longrightarrow> length zs = length xs"
  by (auto simp: wrn_Some)

text \<open>What was written is read back, and reads outside the written range are not disturbed.\<close>

lemma rdn_wrn_same: "wrn xs off ys = Some zs \<Longrightarrow> rdn zs off (length ys) = Some ys"
  by (auto simp: wrn_Some rdn_Some)

lemma rdn_wrn_before:
  "wrn xs off ys = Some zs \<Longrightarrow> i + n \<le> off \<Longrightarrow> rdn zs i n = rdn xs i n"
  by (auto simp: wrn_Some rdn_def drop_take)

lemma rdn_wrn_after:
  "wrn xs off ys = Some zs \<Longrightarrow> off + length ys \<le> i \<Longrightarrow> rdn zs i n = rdn xs i n"
  by (auto simp: wrn_Some rdn_def drop_append)

lemma take_wrn: "wrn xs off ys = Some zs \<Longrightarrow> i \<le> off \<Longrightarrow> take i zs = take i xs"
  by (auto simp: wrn_Some)

lemma replicate_2: "replicate 2 x = [x, x]"
  by (simp add: numeral_2_eq_2)

lemma bind_Some_iff: "Option.bind m f = Some y \<longleftrightarrow> (\<exists>x. m = Some x \<and> f x = Some y)"
  by (cases m) auto

lemma bind_None_iff: "Option.bind m f = None \<longleftrightarrow> m = None \<or> (\<exists>x. m = Some x \<and> f x = None)"
  by (cases m) auto

section \<open>Byte order\<close>

definition le16_put :: "u16 \<Rightarrow> bytes" where
  "le16_put x = [ucast x, ucast (drop_bit 8 x)]"

definition le32_put :: "u32 \<Rightarrow> bytes" where
  "le32_put x = [ucast x, ucast (drop_bit 8 x), ucast (drop_bit 16 x), ucast (drop_bit 24 x)]"

definition le16_get :: "bytes \<Rightarrow> nat \<Rightarrow> u16 option" where
  "le16_get b i = do { x0 \<leftarrow> rd b i; x1 \<leftarrow> rd b (i + 1);
     Some (ucast x0 OR push_bit 8 (ucast x1)) }"

definition le32_get :: "bytes \<Rightarrow> nat \<Rightarrow> u32 option" where
  "le32_get b i = do { x0 \<leftarrow> rd b i; x1 \<leftarrow> rd b (i + 1); x2 \<leftarrow> rd b (i + 2); x3 \<leftarrow> rd b (i + 3);
     Some (ucast x0 OR push_bit 8 (ucast x1) OR push_bit 16 (ucast x2) OR push_bit 24 (ucast x3)) }"

definition htobe16 :: "u16 \<Rightarrow> u16" where
  "htobe16 x = push_bit 8 x OR drop_bit 8 x"

definition htobe32 :: "u32 \<Rightarrow> u32" where
  "htobe32 x = push_bit 24 x OR push_bit 8 (x AND 0xFF00) OR (drop_bit 8 x AND 0xFF00)
     OR drop_bit 24 x"

lemma length_le16_put [simp]: "length (le16_put x) = 2"
  by (simp add: le16_put_def)

lemma length_le32_put [simp]: "length (le32_put x) = 4"
  by (simp add: le32_put_def)

lemma ucast_split16: "(ucast (ucast (x :: u16) :: u8) :: u16) OR push_bit 8 (ucast (ucast (drop_bit 8 x) :: u8)) = x"
  by (rule bit_word_eqI) (auto simp: bit_simps)

lemma ucast_split32:
  "(ucast (ucast (x :: u32) :: u8) :: u32) OR push_bit 8 (ucast (ucast (drop_bit 8 x) :: u8))
     OR push_bit 16 (ucast (ucast (drop_bit 16 x) :: u8))
     OR push_bit 24 (ucast (ucast (drop_bit 24 x) :: u8)) = x"
proof (rule bit_word_eqI)
  fix n assume "n < LENGTH(32)"
  then consider "n < 8" | "8 \<le> n \<and> n < 16" | "16 \<le> n \<and> n < 24" | "24 \<le> n \<and> n < 32"
    by fastforce
  then show "bit ((ucast (ucast x :: u8) :: u32) OR push_bit 8 (ucast (ucast (drop_bit 8 x) :: u8))
     OR push_bit 16 (ucast (ucast (drop_bit 16 x) :: u8))
     OR push_bit 24 (ucast (ucast (drop_bit 24 x) :: u8))) n = bit x n"
    by cases (auto simp: bit_simps)
qed

lemma le16_get_put: "le16_get (pre @ le16_put x @ post) (length pre) = Some x"
  by (simp add: le16_get_def le16_put_def rd_def nth_append ucast_split16)

lemma le32_get_put: "le32_get (pre @ le32_put x @ post) (length pre) = Some x"
  by (simp add: le32_get_def le32_put_def rd_def nth_append ucast_split32)

lemma le16_get_defined: "i + 2 \<le> length b \<Longrightarrow> \<exists>x. le16_get b i = Some x"
  by (simp add: le16_get_def rd_def)

lemma le32_get_defined: "i + 4 \<le> length b \<Longrightarrow> \<exists>x. le32_get b i = Some x"
  by (simp add: le32_get_def rd_def)

text \<open>Reading at an offset behind which the rest of the buffer is known.\<close>

lemma rd_drop: "drop i b = x # r \<Longrightarrow> rd b i = Some x"
  by (auto simp: rd_def dest: nth_via_drop) (metis drop_eq_Nil list.distinct(1) not_le)

lemma rdn_drop:
  assumes d: "drop i b = ys @ r" and "ys \<noteq> []"
  shows "rdn b i (length ys) = Some ys"
proof -
  have "length b - i = length ys + length r" using arg_cong [OF d, of length] by simp
  moreover have "0 < length ys" using assms(2) by simp
  ultimately have "i + length ys \<le> length b" by linarith
  then show ?thesis by (simp add: rdn_def d)
qed

lemma drop_more: "drop i b = xs @ r \<Longrightarrow> drop (i + length xs) b = r"
  by (metis append_eq_conv_conj drop_drop add.commute)

lemma drop_more_Cons: "drop i b = x # r \<Longrightarrow> drop (Suc i) b = r"
  by (metis drop_Suc list.sel(3) tl_drop)

lemma le32_get_drop: "drop i b = le32_put x @ r \<Longrightarrow> le32_get b i = Some x"
  using le32_get_put [of "take i b" x r]
  by (cases "i \<le> length b") (auto simp: le32_put_def dest: arg_cong [where f = length]
      | metis append_take_drop_id length_take min.absorb2 le32_put_def)+

lemma le16_get_drop: "drop i b = le16_put x @ r \<Longrightarrow> le16_get b i = Some x"
  using le16_get_put [of "take i b" x r]
  by (cases "i \<le> length b") (auto simp: le16_put_def dest: arg_cong [where f = length]
      | metis append_take_drop_id length_take min.absorb2 le16_put_def)+

lemma htobe16_involution [simp]: "htobe16 (htobe16 x) = x"
  by (rule bit_word_eqI) (auto simp: htobe16_def bit_simps)

text \<open>Numbers in big-endian order.\<close>

definition be16 :: "u16 \<Rightarrow> bytes" where
  "be16 x = [ucast (drop_bit 8 x), ucast x]"

lemma be16_put: "le16_put (htobe16 x) = be16 x"
proof -
  have "(ucast (push_bit 8 x OR drop_bit 8 x) :: u8) = ucast (drop_bit 8 x)"
    by (rule bit_word_eqI) (auto simp: bit_simps)
  moreover have "(ucast (drop_bit 8 (push_bit 8 x OR drop_bit 8 x)) :: u8) = ucast x"
    by (rule bit_word_eqI) (auto simp: bit_simps)
  ultimately show ?thesis by (simp add: le16_put_def be16_def htobe16_def)
qed

section \<open>Words\<close>

lemma forall_u8: "(\<forall>x :: u8. P x) \<longleftrightarrow> (\<forall>n \<in> set [0..<256]. P (word_of_nat n))"
proof
  assume a: "\<forall>n \<in> set [0..<256]. P (word_of_nat n)"
  show "\<forall>x :: u8. P x"
  proof
    fix x :: u8
    have "unat x \<in> set [0..<256]" using unsigned_less [of x] by simp
    with a have "P (word_of_nat (unat x))" by (rule bspec)
    then show "P x" by simp
  qed
qed simp

lemma unat_ucast_8_32 [simp]: "unat (ucast (x :: u8) :: u32) = unat x"
  by (simp add: unsigned_ucast_eq take_bit_nat_eq_self order_less_le_trans [OF unsigned_less])

lemma unat_ucast_8_16 [simp]: "unat (ucast (x :: u8) :: u16) = unat x"
  by (simp add: unsigned_ucast_eq take_bit_nat_eq_self order_less_le_trans [OF unsigned_less])

lemma unat_ucast_16_32 [simp]: "unat (ucast (x :: u16) :: u32) = unat x"
  by (simp add: unsigned_ucast_eq take_bit_nat_eq_self order_less_le_trans [OF unsigned_less])

lemma unat_u8_less [simp]: "unat (x :: u8) < 256"
  using unsigned_less [of x] by simp

lemma unat_u8_le [simp]: "unat (x :: u8) \<le> 255"
  using unat_u8_less [of x] by linarith

lemma unat_u16_less [simp]: "unat (x :: u16) < 65536"
  using unsigned_less [of x] by simp

lemma unat_u32_less [simp]: "unat (x :: u32) < 4294967296"
  using unsigned_less [of x] by simp

lemma unat_of_nat_u8: "n < 256 \<Longrightarrow> unat (word_of_nat n :: u8) = n"
  by (simp add: unsigned_of_nat take_bit_nat_eq_self)

lemma unat_of_nat_u16: "n < 65536 \<Longrightarrow> unat (word_of_nat n :: u16) = n"
  by (simp add: unsigned_of_nat take_bit_nat_eq_self)

lemma unat_of_nat_u32: "n < 4294967296 \<Longrightarrow> unat (word_of_nat n :: u32) = n"
  by (simp add: unsigned_of_nat take_bit_nat_eq_self)

lemma unat_add_u32: "unat a + unat b < 4294967296 \<Longrightarrow> unat (a + b :: u32) = unat a + unat b"
  by (simp add: unat_word_ariths)

lemma unat_add_u16: "unat a + unat b < 65536 \<Longrightarrow> unat (a + b :: u16) = unat a + unat b"
  by (simp add: unat_word_ariths)

lemma unat_add_u8: "unat a + unat b < 256 \<Longrightarrow> unat (a + b :: u8) = unat a + unat b"
  by (simp add: unat_word_ariths)

lemmas unat_of_nat_uN = unat_of_nat_u8 unat_of_nat_u16 unat_of_nat_u32

lemma u8_ff [simp]: "(x :: u8) XOR 0xFF = NOT x" "(x :: u8) AND 0xFF = x"
proof -
  have *: "(0xFF :: u8) = - 1" by simp
  show "x XOR 0xFF = NOT x" "x AND 0xFF = x" by (simp_all only: *) simp_all
qed

lemma u8_and_bits:
  "(x :: u8) AND 0x10 = 0 \<longleftrightarrow> \<not> bit x 4" "x AND 0x20 = 0 \<longleftrightarrow> \<not> bit x 5"
  "x AND 0x40 = 0 \<longleftrightarrow> \<not> bit x 6" "x AND 0x80 = 0 \<longleftrightarrow> \<not> bit x 7"
proof -
  have *: "x AND 2 ^ n = 0 \<longleftrightarrow> \<not> bit x n" if "n < 8" for n
    using that by (auto simp: and_exp_eq_0_iff_not_bit)
  show "x AND 0x10 = 0 \<longleftrightarrow> \<not> bit x 4" "x AND 0x20 = 0 \<longleftrightarrow> \<not> bit x 5"
    "x AND 0x40 = 0 \<longleftrightarrow> \<not> bit x 6" "x AND 0x80 = 0 \<longleftrightarrow> \<not> bit x 7"
    using * [of 4] * [of 5] * [of 6] * [of 7] by simp_all
qed

lemma nibbles:
  "(x :: u8) AND 0x0F = take_bit 4 x" "drop_bit 4 (x AND 0xF0) = drop_bit 4 x"
  "push_bit 4 (drop_bit 4 x) OR take_bit 4 x = x"
  "take_bit 4 x AND 0xF0 = 0" "drop_bit 4 x AND 0xF0 = 0" "take_bit 4 (drop_bit 4 x) = drop_bit 4 x"
proof -
  have f0: "(0xF0 :: u8) = push_bit 4 (mask 4)" by (simp add: mask_eq_exp_minus_1)
  show "x AND 0x0F = take_bit 4 x"
    by (simp add: take_bit_eq_mask mask_eq_exp_minus_1)
  show "drop_bit 4 (x AND 0xF0) = drop_bit 4 x" "push_bit 4 (drop_bit 4 x) OR take_bit 4 x = x"
    "take_bit 4 x AND 0xF0 = 0" "drop_bit 4 x AND 0xF0 = 0" "take_bit 4 (drop_bit 4 x) = drop_bit 4 x"
    unfolding f0 by (rule bit_word_eqI; auto simp: bit_simps dest: bit_imp_le_length)+
qed

definition xor_all :: "bytes \<Rightarrow> u8" where
  "xor_all bs = foldr (XOR) bs 0"

lemma xor_all_simps [simp]:
  "xor_all [] = 0"
  "xor_all (b # bs) = b XOR xor_all bs"
  by (simp_all add: xor_all_def)

lemma xor_all_append [simp]: "xor_all (xs @ ys) = xor_all xs XOR xor_all ys"
  by (induction xs) (simp_all add: xor.assoc)

text \<open>Widening keeps the value.\<close>

lemma unat_ucast_widen [simp]:
  "unat (ucast (x :: u8) :: u16) = unat x"
  "unat (ucast (x :: u8) :: u32) = unat x"
  "unat (ucast (z :: u16) :: u32) = unat z"
proof -
  have x: "unat x < 2 ^ 8" and z: "unat z < 2 ^ 16" by simp_all
  show "unat (ucast x :: u16) = unat x"
    unfolding unsigned_ucast_eq by (rule take_bit_nat_eq_self) (rule order.strict_trans [OF x], simp)
  show "unat (ucast x :: u32) = unat x"
    unfolding unsigned_ucast_eq by (rule take_bit_nat_eq_self) (rule order.strict_trans [OF x], simp)
  show "unat (ucast z :: u32) = unat z"
    unfolding unsigned_ucast_eq by (rule take_bit_nat_eq_self) (rule order.strict_trans [OF z], simp)
qed

end
