(* ===== verification/Swicc_Common.thy ===== *)
theory Swicc_Common
  imports Swicc_Prelude
begin

text \<open>
  \<^verbatim>\<open>include/swicc/common.h\<close> and the state-free part of \<^verbatim>\<open>src/common.c\<close>: the return codes of the
  library, the data size limit, the elementary time unit, the check byte and the conversion of a
  hex string into a byte array.
\<close>

section \<open>Return codes\<close>

datatype swicc_ret =
    SWICC_RET_UNKNOWN
  | SWICC_RET_SUCCESS
  | SWICC_RET_ERROR
  | SWICC_RET_PARAM_BAD
  | SWICC_RET_APDU_HDR_TOO_SHORT
  | SWICC_RET_APDU_UNHANDLED
  | SWICC_RET_APDU_RES_INVALID
  | SWICC_RET_TPDU_HDR_TOO_SHORT
  | SWICC_RET_BUFFER_TOO_SHORT
  | SWICC_RET_PPS_INVALID
  | SWICC_RET_PPS_FAILED
  | SWICC_RET_ATR_INVALID
  | SWICC_RET_FS_NOT_FOUND
  | SWICC_RET_DATO_END
  | SWICC_RET_NET_CONN_QUEUE_EMPTY
  | SWICC_RET_NET_DISCONNECTED

abbreviation SWICC_DATA_MAX_SHRT :: nat where "SWICC_DATA_MAX_SHRT \<equiv> 256"
abbreviation SWICC_DATA_MAX :: nat where "SWICC_DATA_MAX \<equiv> SWICC_DATA_MAX_SHRT"

section \<open>Elementary time unit\<close>

text \<open>
  The two \<^verbatim>\<open>assert\<close>s abort the program; the product is a 32-bit product (the baud rate factor is
  promoted) and may wrap to zero, in which case the division is undefined.
\<close>

definition swicc_etu :: "u16 \<Rightarrow> u8 \<Rightarrow> u32 \<Rightarrow> u32 option" where
  "swicc_etu fi di fmax = do {
     assert_ub (fmax \<noteq> 0);
     assert_ub (di \<noteq> 0);
     let den = ucast di * fmax;
     assert_ub (den \<noteq> 0);
     Some (ucast fi div den) }"

section \<open>Check byte\<close>

text \<open>The loop of \<^verbatim>\<open>swicc_ck\<close>: \<open>n\<close> bytes are left, the next one is at \<open>i\<close>.\<close>

fun ck_loop :: "bytes \<Rightarrow> nat \<Rightarrow> nat \<Rightarrow> u8 \<Rightarrow> u8 option" where
  "ck_loop b i 0 tck = Some tck"
| "ck_loop b i (Suc n) tck = do { x \<leftarrow> rd b i; ck_loop b (Suc i) n (tck XOR x) }"

definition swicc_ck :: "bytes \<Rightarrow> u16 \<Rightarrow> u8 option" where
  "swicc_ck b len = ck_loop b 0 (unat len) 0"

lemma ck_loop_eq:
  "i + n \<le> length b \<Longrightarrow> ck_loop b i n t = Some (t XOR xor_all (take n (drop i b)))"
proof (induction n arbitrary: i t)
  case (Suc n)
  then have "drop i b = b ! i # drop (Suc i) b"
    by (simp add: Cons_nth_drop_Suc)
  with Suc show ?case by (simp add: rd_ok xor.assoc)
qed simp

lemma swicc_ck_eq:
  "unat len \<le> length b \<Longrightarrow> swicc_ck b len = Some (xor_all (take (unat len) b))"
  by (simp add: swicc_ck_def ck_loop_eq)

lemma ck_loop_overrun: "i \<le> length b \<Longrightarrow> length b < i + n \<Longrightarrow> ck_loop b i n t = None"
proof (induction n arbitrary: i t)
  case (Suc n)
  then show ?case by (cases "i < length b") (auto simp: rd_def)
qed simp

lemma swicc_ck_overrun: "length b < unat len \<Longrightarrow> swicc_ck b len = None"
  by (simp add: swicc_ck_def ck_loop_overrun)

section \<open>Hex strings\<close>

text \<open>
  The conversion of one nibble; \<^term>\<open>None\<close> is the last \<^verbatim>\<open>else\<close> branch, which makes the caller
  return a bad parameter.
\<close>

definition hex_nibble :: "u8 \<Rightarrow> u8 option" where
  "hex_nibble c =
     (if 0x30 \<le> c \<and> c \<le> 0x39 then Some (c - 0x30)
      else if 0x41 \<le> c \<and> c \<le> 0x46 then Some (0x0A + (c - 0x41))
      else None)"

text \<open>
  One iteration per pair of characters.  The length of a hex string that gets here is even, so the
  32-bit index does not wrap and is a natural number; \<open>blen\<close> is the size the caller announces for
  the byte array, the list \<open>arr\<close> is the memory it really has.
\<close>

function hexstr_loop ::
    "bytes \<Rightarrow> nat \<Rightarrow> nat \<Rightarrow> bytes \<Rightarrow> nat \<Rightarrow> (swicc_ret \<times> bytes) option" where
  "hexstr_loop hs n blen arr i =
     (if i < n then
        if blen < i div 2 then Some (SWICC_RET_BUFFER_TOO_SHORT, arr)
        else do {
          c0 \<leftarrow> rd hs i;
          c1 \<leftarrow> rd hs (i + 1);
          case (hex_nibble c0, hex_nibble c1) of
            (Some n0, Some n1) \<Rightarrow> do {
              arr' \<leftarrow> wrn arr (i div 2) [push_bit 4 n0 OR n1];
              hexstr_loop hs n blen arr' (i + 2) }
          | _ \<Rightarrow> Some (SWICC_RET_PARAM_BAD, arr) }
      else Some (SWICC_RET_SUCCESS, arr))"
  by pat_completeness auto
termination
  by (relation "measure (\<lambda>(hs, n, blen, arr, i). n - i)") auto

declare hexstr_loop.simps [simp del]

definition swicc_hexstr_bytearr ::
    "bytes \<Rightarrow> u32 \<Rightarrow> bytes \<Rightarrow> u32 \<Rightarrow> (swicc_ret \<times> bytes \<times> u32) option" where
  "swicc_hexstr_bytearr hexstr hexstr_len bytearr bytearr_len =
     (if hexstr_len mod 2 \<noteq> 0 then Some (SWICC_RET_PARAM_BAD, bytearr, bytearr_len)
      else do {
        (ret, arr) \<leftarrow> hexstr_loop hexstr (unat hexstr_len) (unat bytearr_len) bytearr 0;
        Some (ret, arr,
          if ret = SWICC_RET_SUCCESS then hexstr_len div 2 else bytearr_len) })"

subsection \<open>The text form of a byte array\<close>

definition hex_digit :: "u8 \<Rightarrow> u8" where
  "hex_digit x = (if x < 10 then 0x30 + x else 0x41 + (x - 10))"

definition hex_of :: "bytes \<Rightarrow> bytes" where
  "hex_of bs = concat (map (\<lambda>b. [hex_digit (drop_bit 4 b), hex_digit (b AND 0xF)]) bs)"

lemma hex_of_simps [simp]:
  "hex_of [] = []"
  "hex_of (b # bs) = hex_digit (drop_bit 4 b) # hex_digit (b AND 0xF) # hex_of bs"
  by (simp_all add: hex_of_def)

lemma length_hex_of [simp]: "length (hex_of bs) = 2 * length bs"
  by (induction bs) simp_all

lemma hex_nibble_digit: "(x :: u8) < 16 \<Longrightarrow> hex_nibble (hex_digit x) = Some x"
  unfolding hex_nibble_def hex_digit_def by (auto simp: word_le_nat_alt word_less_nat_alt unat_word_ariths)

lemma hex_nibble_digits:
  "hex_nibble (hex_digit (drop_bit 4 (b :: u8))) = Some (drop_bit 4 b)"
  "hex_nibble (hex_digit (b AND 0xF)) = Some (b AND 0xF)"
  "push_bit 4 (drop_bit 4 b) OR (b AND 0xF) = b"
proof -
  have "b AND 0xF = take_bit 4 b"
    by (simp add: take_bit_eq_mask mask_eq_exp_minus_1)
  then show "hex_nibble (hex_digit (b AND 0xF)) = Some (b AND 0xF)"
    using take_bit_nat_less_exp [of 4 "unat b"]
    by (intro hex_nibble_digit) (simp add: word_less_nat_alt unsigned_take_bit_eq)
  have "unat (drop_bit 4 b) < 16"
    using unat_u8_less [of b] less_mult_imp_div_less [of "unat b" 16 16]
    by (simp add: drop_bit_eq_div unat_div)
  then show "hex_nibble (hex_digit (drop_bit 4 b)) = Some (drop_bit 4 b)"
    by (intro hex_nibble_digit) (simp add: word_less_nat_alt)
  show "push_bit 4 (drop_bit 4 b) OR (b AND 0xF) = b"
    unfolding \<open>b AND 0xF = take_bit 4 b\<close>
    by (rule bit_word_eqI) (auto simp: bit_simps)
qed

lemma hexstr_loop_hex_of:
  assumes "hs = hex_of (ds @ bs)" and "n = length hs" and "i = 2 * length ds"
    and "length ds + length bs \<le> length arr" and "length ds + length bs \<le> blen"
    and "take (length ds) arr = ds"
  shows "hexstr_loop hs n blen arr i =
    Some (SWICC_RET_SUCCESS, ds @ bs @ drop (length ds + length bs) arr)"
  using assms
proof (induction bs arbitrary: ds arr i)
  case Nil
  have "arr = ds @ drop (length ds) arr"
    using Nil.prems(6) append_take_drop_id [of "length ds" arr] by simp
  with Nil show ?case by (simp add: hexstr_loop.simps)
next
  case (Cons b bs)
  have split: "hs = hex_of ds @ hex_digit (drop_bit 4 b) # hex_digit (b AND 0xF) # hex_of bs"
    using Cons.prems(1) by (simp add: hex_of_def)
  have c0: "rd hs i = Some (hex_digit (drop_bit 4 b))"
    and c1: "rd hs (Suc i) = Some (hex_digit (b AND 0xF))"
    using Cons.prems(3) by (simp_all add: split rd_def nth_append)
  let ?arr = "take (length ds) arr @ [b] @ drop (Suc (length ds)) arr"
  have wr: "wrn arr (length ds) [b] = Some ?arr"
    using Cons.prems(4) by (simp add: wrn_ok)
  have "hexstr_loop hs n blen ?arr (i + 2) =
      Some (SWICC_RET_SUCCESS, (ds @ [b]) @ bs @ drop (length (ds @ [b]) + length bs) ?arr)"
    by (rule Cons.IH) (use Cons.prems in auto)
  moreover have "i < n" "\<not> blen < i div 2" "i div 2 = length ds"
    using Cons.prems(1-3,5) by auto
  ultimately show ?case
    using hex_nibble_digits [of b] Cons.prems(4,6)
    by (simp add: hexstr_loop.simps [of hs n blen arr i] c0 c1 wr add.commute)
qed

lemma hexstr_of_run:
  assumes "length bs \<le> unat bytearr_len" and "length bs \<le> length arr"
    and "2 * length bs < 2 ^ 32"
  shows "swicc_hexstr_bytearr (hex_of bs) (word_of_nat (2 * length bs)) arr bytearr_len =
    Some (SWICC_RET_SUCCESS, bs @ drop (length bs) arr, word_of_nat (length bs))"
proof -
  define N :: u32 where "N = word_of_nat (2 * length bs)"
  have n: "unat N = 2 * length bs"
    unfolding N_def by (rule unat_of_nat_u32) (use assms(3) in simp)
  have even: "N mod 2 = 0"
    by (rule word_unat_eq_iff [THEN iffD2]) (simp add: unat_mod n)
  have half: "N div 2 = word_of_nat (length bs)"
  proof (rule word_unat_eq_iff [THEN iffD2])
    have "unat (word_of_nat (length bs) :: u32) = length bs"
      by (rule unat_of_nat_u32) (use assms(3) in simp)
    then show "unat (N div 2) = unat (word_of_nat (length bs) :: u32)"
      by (simp add: unat_div n)
  qed
  have "hexstr_loop (hex_of bs) (2 * length bs) (unat bytearr_len) arr 0 =
      Some (SWICC_RET_SUCCESS, bs @ drop (length bs) arr)"
    using hexstr_loop_hex_of [of "hex_of bs" "[]" bs "2 * length bs" 0 arr "unat bytearr_len"]
      assms(1,2) by simp
  then show ?thesis
    unfolding N_def [symmetric] by (simp add: swicc_hexstr_bytearr_def n even half)
qed

text \<open>
  Conversion of the upper-case hex text of a byte string gives the bytes back: the call
  succeeds, reports their number, writes them at the front of the byte array and leaves the rest
  of the array alone, whenever the announced size is honest and large enough.
\<close>

theorem hexstr_roundtrip:
  assumes "length bs \<le> unat bytearr_len" and "length bs \<le> length arr"
    and "2 * length bs < 2 ^ 32"
  shows "swicc_hexstr_bytearr (hex_of bs) (word_of_nat (2 * length bs)) arr bytearr_len =
    Some (SWICC_RET_SUCCESS, bs @ drop (length bs) arr, word_of_nat (length bs))"
  by (rule hexstr_of_run [OF assms])

theorem hexstr_roundtrip_witness:
  "swicc_hexstr_bytearr (hex_of [0xA0, 0x7F]) (word_of_nat (2 * length [0xA0 :: u8, 0x7F])) [0, 0, 0xEE] 3 =
    Some (SWICC_RET_SUCCESS, [0xA0, 0x7F] @ drop (length [0xA0 :: u8, 0x7F]) [0, 0, 0xEE],
      word_of_nat (length [0xA0 :: u8, 0x7F]))"
  by (rule hexstr_roundtrip) simp_all

end
