(* ===== verification/Swicc_Apdu.thy ===== *)
theory Swicc_Apdu
  imports Swicc_Common
begin

text \<open>
  \<^verbatim>\<open>include/swicc/apdu.h\<close>, \<^verbatim>\<open>include/swicc/tpdu.h\<close>, \<^verbatim>\<open>src/apdu.c\<close> and \<^verbatim>\<open>src/tpdu.c\<close>: the class
  byte, command and response APDUs, and the command TPDU of the T=0 protocol.

  The command APDU of the code is three pointers into a command TPDU (header, P3, data); its model
  is the record of the values they point to, which is the TPDU itself.  The status byte SW1 is an
  enum of the code whose values travel through an unsigned int; it is kept as a 32-bit word, so
  that values outside the enum reach the \<^verbatim>\<open>default\<close> branch as they do in the code.
\<close>

section \<open>Data types\<close>

datatype swicc_apdu_cla_ccc =
    SWICC_APDU_CLA_CCC_INVALID
  | SWICC_APDU_CLA_CCC_LAST
  | SWICC_APDU_CLA_CCC_MORE

datatype swicc_apdu_cla_sm =
    SWICC_APDU_CLA_SM_INVALID
  | SWICC_APDU_CLA_SM_NO
  | SWICC_APDU_CLA_SM_PROPRIETARY
  | SWICC_APDU_CLA_SM_CMD_HDR_SKIP
  | SWICC_APDU_CLA_SM_CMD_HDR_AUTH

datatype swicc_apdu_cla_type =
    SWICC_APDU_CLA_TYPE_INVALID
  | SWICC_APDU_CLA_TYPE_INTERINDUSTRY
  | SWICC_APDU_CLA_TYPE_PROPRIETARY
  | SWICC_APDU_CLA_TYPE_RFU

abbreviation SWICC_APDU_SW1_NORM_NONE :: u32 where "SWICC_APDU_SW1_NORM_NONE \<equiv> 0x90"
abbreviation SWICC_APDU_SW1_NORM_BYTES_AVAILABLE :: u32 where "SWICC_APDU_SW1_NORM_BYTES_AVAILABLE \<equiv> 0x61"
abbreviation SWICC_APDU_SW1_WARN_NVM_CHGN :: u32 where "SWICC_APDU_SW1_WARN_NVM_CHGN \<equiv> 0x62"
abbreviation SWICC_APDU_SW1_WARN_NVM_CHGM :: u32 where "SWICC_APDU_SW1_WARN_NVM_CHGM \<equiv> 0x63"
abbreviation SWICC_APDU_SW1_EXER_NVM_CHGN :: u32 where "SWICC_APDU_SW1_EXER_NVM_CHGN \<equiv> 0x64"
abbreviation SWICC_APDU_SW1_EXER_NVM_CHGM :: u32 where "SWICC_APDU_SW1_EXER_NVM_CHGM \<equiv> 0x65"
abbreviation SWICC_APDU_SW1_EXER_SEC :: u32 where "SWICC_APDU_SW1_EXER_SEC \<equiv> 0x66"
abbreviation SWICC_APDU_SW1_CHER_LEN :: u32 where "SWICC_APDU_SW1_CHER_LEN \<equiv> 0x67"
abbreviation SWICC_APDU_SW1_CHER_CLA_FUNC :: u32 where "SWICC_APDU_SW1_CHER_CLA_FUNC \<equiv> 0x68"
abbreviation SWICC_APDU_SW1_CHER_CMD :: u32 where "SWICC_APDU_SW1_CHER_CMD \<equiv> 0x69"
abbreviation SWICC_APDU_SW1_CHER_P1P2_INFO :: u32 where "SWICC_APDU_SW1_CHER_P1P2_INFO \<equiv> 0x6A"
abbreviation SWICC_APDU_SW1_CHER_P1P2 :: u32 where "SWICC_APDU_SW1_CHER_P1P2 \<equiv> 0x6B"
abbreviation SWICC_APDU_SW1_CHER_LE :: u32 where "SWICC_APDU_SW1_CHER_LE \<equiv> 0x6C"
abbreviation SWICC_APDU_SW1_CHER_INS :: u32 where "SWICC_APDU_SW1_CHER_INS \<equiv> 0x6D"
abbreviation SWICC_APDU_SW1_CHER_CLA :: u32 where "SWICC_APDU_SW1_CHER_CLA \<equiv> 0x6E"
abbreviation SWICC_APDU_SW1_CHER_UNK :: u32 where "SWICC_APDU_SW1_CHER_UNK \<equiv> 0x6F"
abbreviation SWICC_APDU_SW1_PROC_NULL :: u32 where "SWICC_APDU_SW1_PROC_NULL \<equiv> 0x60"
abbreviation SWICC_APDU_SW1_PROC_ACK_ONE :: u32 where "SWICC_APDU_SW1_PROC_ACK_ONE \<equiv> 0xFE"
abbreviation SWICC_APDU_SW1_PROC_ACK_ALL :: u32 where "SWICC_APDU_SW1_PROC_ACK_ALL \<equiv> 0xFF"

record swicc_apdu_cla =
  cla_raw :: u8
  cla_ccc :: swicc_apdu_cla_ccc
  cla_sm :: swicc_apdu_cla_sm
  cla_type :: swicc_apdu_cla_type
  cla_lchan :: u16

record swicc_apdu_cmd_hdr =
  hdr_cla :: swicc_apdu_cla
  hdr_ins :: u8
  hdr_p1 :: u8
  hdr_p2 :: u8

text \<open>The array of an APDU data field holds \<^term>\<open>SWICC_DATA_MAX\<close> bytes, \<open>data_len\<close> of them in use.\<close>

record swicc_apdu_data =
  data_len :: u16
  data_b :: bytes

record swicc_tpdu_cmd =
  cmd_hdr :: swicc_apdu_cmd_hdr
  cmd_p3 :: u8
  cmd_data :: swicc_apdu_data

type_synonym swicc_apdu_cmd = swicc_tpdu_cmd

record swicc_apdu_res =
  res_sw1 :: u32
  res_sw2 :: u8
  res_data :: swicc_apdu_data

abbreviation hdr_raw_size :: nat where "hdr_raw_size \<equiv> 4"

definition data_ok :: "swicc_apdu_data \<Rightarrow> bool" where
  "data_ok d \<longleftrightarrow> length (data_b d) = SWICC_DATA_MAX"

definition data_zero :: swicc_apdu_data where
  "data_zero = \<lparr>data_len = 0, data_b = replicate SWICC_DATA_MAX 0\<rparr>"

section \<open>Class byte\<close>

definition cla_zero :: swicc_apdu_cla where
  "cla_zero = \<lparr>cla_raw = 0, cla_ccc = SWICC_APDU_CLA_CCC_INVALID, cla_sm = SWICC_APDU_CLA_SM_INVALID,
     cla_type = SWICC_APDU_CLA_TYPE_INVALID, cla_lchan = 0\<rparr>"

definition swicc_apdu_cmd_cla_parse :: "u8 \<Rightarrow> swicc_apdu_cla" where
  "swicc_apdu_cmd_cla_parse raw =
     (let cla = cla_zero\<lparr>cla_raw := raw\<rparr> in
      if drop_bit 5 raw = 0 then
        cla\<lparr>cla_lchan := ucast (raw AND 3),
            cla_type := SWICC_APDU_CLA_TYPE_INTERINDUSTRY,
            cla_ccc := (if raw AND 16 = 0 then SWICC_APDU_CLA_CCC_LAST
                        else SWICC_APDU_CLA_CCC_MORE),
            cla_sm := (let sm = drop_bit 2 (raw AND 12) in
                       if sm = 0 then SWICC_APDU_CLA_SM_NO
                       else if sm = 1 then SWICC_APDU_CLA_SM_PROPRIETARY
                       else if sm = 2 then SWICC_APDU_CLA_SM_CMD_HDR_SKIP
                       else if sm = 3 then SWICC_APDU_CLA_SM_CMD_HDR_AUTH
                       else SWICC_APDU_CLA_SM_INVALID)\<rparr>
      else if drop_bit 6 raw = 1 then
        cla\<lparr>cla_lchan := ucast ((raw AND 15) + 4),
            cla_type := SWICC_APDU_CLA_TYPE_INTERINDUSTRY,
            cla_ccc := (if raw AND 16 = 0 then SWICC_APDU_CLA_CCC_LAST
                        else SWICC_APDU_CLA_CCC_MORE),
            cla_sm := (if raw AND 32 = 0 then SWICC_APDU_CLA_SM_NO
                       else SWICC_APDU_CLA_SM_CMD_HDR_SKIP)\<rparr>
      else if drop_bit 5 raw = 1 then cla\<lparr>cla_type := SWICC_APDU_CLA_TYPE_RFU\<rparr>
      else cla\<lparr>cla_type := SWICC_APDU_CLA_TYPE_PROPRIETARY\<rparr>)"

definition tpdu_zero :: swicc_tpdu_cmd where
  "tpdu_zero = \<lparr>cmd_hdr = \<lparr>hdr_cla = cla_zero, hdr_ins = 0, hdr_p1 = 0, hdr_p2 = 0\<rparr>, cmd_p3 = 0,
     cmd_data = data_zero\<rparr>"

section \<open>Parsing commands\<close>

definition swicc_apdu_cmd_parse ::
    "bytes \<Rightarrow> u16 \<Rightarrow> swicc_apdu_cmd \<Rightarrow> (swicc_ret \<times> swicc_apdu_cmd) option" where
  "swicc_apdu_cmd_parse buf buf_len cmd =
     (if unat buf_len < hdr_raw_size \<or> unat buf_len > hdr_raw_size + SWICC_DATA_MAX
      then Some (SWICC_RET_APDU_HDR_TOO_SHORT, cmd)
      else do {
        b0 \<leftarrow> rd buf 0; b1 \<leftarrow> rd buf 1; b2 \<leftarrow> rd buf 2; b3 \<leftarrow> rd buf 3;
        let n = unat buf_len - hdr_raw_size;
        src \<leftarrow> rdn buf hdr_raw_size n;
        b' \<leftarrow> wrn (data_b (cmd_data cmd)) 0 src;
        Some (SWICC_RET_SUCCESS,
          cmd\<lparr>cmd_hdr := \<lparr>hdr_cla = swicc_apdu_cmd_cla_parse b0, hdr_ins = b1, hdr_p1 = b2, hdr_p2 = b3\<rparr>,
              cmd_data := \<lparr>data_len = word_of_nat n, data_b = b'\<rparr>\<rparr>) })"

text \<open>The record is cleared first; a TPDU longer than the data array is an access outside of it.\<close>

definition swicc_tpdu_cmd_parse ::
    "bytes \<Rightarrow> u16 \<Rightarrow> swicc_tpdu_cmd \<Rightarrow> (swicc_ret \<times> swicc_tpdu_cmd) option" where
  "swicc_tpdu_cmd_parse buf buf_len cmd =
     (if unat buf_len < hdr_raw_size + 1 then Some (SWICC_RET_TPDU_HDR_TOO_SHORT, cmd)
      else do {
        b0 \<leftarrow> rd buf 0; b1 \<leftarrow> rd buf 1; b2 \<leftarrow> rd buf 2; b3 \<leftarrow> rd buf 3; b4 \<leftarrow> rd buf 4;
        let n = unat buf_len - (hdr_raw_size + 1);
        src \<leftarrow> rdn buf (hdr_raw_size + 1) n;
        b' \<leftarrow> wrn (replicate SWICC_DATA_MAX 0) 0 src;
        Some (SWICC_RET_SUCCESS,
          \<lparr>cmd_hdr = \<lparr>hdr_cla = swicc_apdu_cmd_cla_parse b0, hdr_ins = b1, hdr_p1 = b2, hdr_p2 = b3\<rparr>,
           cmd_p3 = b4,
           cmd_data = \<lparr>data_len = word_of_nat n, data_b = b'\<rparr>\<rparr>) })"

definition swicc_tpdu_to_apdu :: "swicc_tpdu_cmd \<Rightarrow> swicc_ret \<times> swicc_apdu_cmd" where
  "swicc_tpdu_to_apdu tpdu = (SWICC_RET_SUCCESS, tpdu)"

section \<open>Deparsing responses\<close>

abbreviation sw1_is_proc :: "u32 \<Rightarrow> bool" where
  "sw1_is_proc sw1 \<equiv> sw1 = SWICC_APDU_SW1_PROC_NULL \<or> sw1 = SWICC_APDU_SW1_PROC_ACK_ONE
     \<or> sw1 = SWICC_APDU_SW1_PROC_ACK_ALL"

abbreviation sw1_needs_sw2_zero :: "u32 \<Rightarrow> bool" where
  "sw1_needs_sw2_zero sw1 \<equiv> sw1 = SWICC_APDU_SW1_NORM_NONE \<or> sw1 = SWICC_APDU_SW1_CHER_P1P2
     \<or> sw1 = SWICC_APDU_SW1_CHER_INS \<or> sw1 = SWICC_APDU_SW1_CHER_CLA
     \<or> sw1 = SWICC_APDU_SW1_CHER_UNK"

text \<open>
  The result is the return code, the raw buffer and its length; the branches that return early
  leave in them what was stored before.  The branches of the \<^verbatim>\<open>switch\<close> that store SW1 and SW2 (the
  listed ones and the \<^verbatim>\<open>default\<close>) do the same and are one branch here.
\<close>

definition swicc_apdu_res_deparse ::
    "bytes \<Rightarrow> u16 \<Rightarrow> swicc_apdu_cmd \<Rightarrow> swicc_apdu_res \<Rightarrow> (swicc_ret \<times> bytes \<times> u16) option" where
  "swicc_apdu_res_deparse buf buf_len cmd res =
     (let n = unat (data_len (res_data res)); sw1 = res_sw1 res; sw2 = res_sw2 res in
      if unat buf_len < n + (if sw1_is_proc sw1 then 1 else 2)
      then Some (SWICC_RET_BUFFER_TOO_SHORT, buf, buf_len)
      else if n > SWICC_DATA_MAX then Some (SWICC_RET_ERROR, buf, buf_len)
      else do {
        let len1 = data_len (res_data res);
        src \<leftarrow> rdn (data_b (res_data res)) 0 n;
        buf1 \<leftarrow> wrn buf 0 src;
        if sw1_needs_sw2_zero sw1 \<and> sw2 \<noteq> 0
        then Some (SWICC_RET_APDU_RES_INVALID, buf1, len1)
        else if sw1 = SWICC_APDU_SW1_PROC_NULL then
          (if n \<noteq> 0 \<or> sw2 \<noteq> 0 then Some (SWICC_RET_APDU_RES_INVALID, buf1, len1)
           else do { buf2 \<leftarrow> wrn buf1 0 [ucast sw1]; Some (SWICC_RET_SUCCESS, buf2, 1) })
        else if sw1 = SWICC_APDU_SW1_PROC_ACK_ALL \<or> sw1 = SWICC_APDU_SW1_PROC_ACK_ONE then
          (if sw2 \<noteq> 0 then Some (SWICC_RET_APDU_RES_INVALID, buf1, len1)
           else do {
             buf2 \<leftarrow> wrn buf1 0
               [if sw1 = SWICC_APDU_SW1_PROC_ACK_ONE then hdr_ins (cmd_hdr cmd) XOR 0xFF
                else hdr_ins (cmd_hdr cmd)];
             Some (SWICC_RET_SUCCESS, buf2, 1) })
        else do {
          buf2 \<leftarrow> wrn buf1 n [ucast sw1, sw2];
          Some (SWICC_RET_SUCCESS, buf2, len1 + 2) } })"

section \<open>Properties\<close>

text \<open>
  The reading of a class byte the standard gives (ISO/IEC 7816-4 clause 5.4.1), as ranges of the
  number the byte stands for.
\<close>

definition cla_spec :: "u8 \<Rightarrow> swicc_apdu_cla" where
  "cla_spec raw =
     (let n = unat raw;
          ccc = (if n div 16 mod 2 = 1 then SWICC_APDU_CLA_CCC_MORE else SWICC_APDU_CLA_CCC_LAST) in
      if n < 32 then
        \<lparr>cla_raw = raw, cla_ccc = ccc,
         cla_sm = [SWICC_APDU_CLA_SM_NO, SWICC_APDU_CLA_SM_PROPRIETARY,
                   SWICC_APDU_CLA_SM_CMD_HDR_SKIP, SWICC_APDU_CLA_SM_CMD_HDR_AUTH] ! (n div 4 mod 4),
         cla_type = SWICC_APDU_CLA_TYPE_INTERINDUSTRY, cla_lchan = word_of_nat (n mod 4)\<rparr>
      else if n < 64 then
        \<lparr>cla_raw = raw, cla_ccc = SWICC_APDU_CLA_CCC_INVALID, cla_sm = SWICC_APDU_CLA_SM_INVALID,
         cla_type = SWICC_APDU_CLA_TYPE_RFU, cla_lchan = 0\<rparr>
      else if n < 128 then
        \<lparr>cla_raw = raw, cla_ccc = ccc,
         cla_sm = (if n < 96 then SWICC_APDU_CLA_SM_NO else SWICC_APDU_CLA_SM_CMD_HDR_SKIP),
         cla_type = SWICC_APDU_CLA_TYPE_INTERINDUSTRY, cla_lchan = word_of_nat (n mod 16 + 4)\<rparr>
      else
        \<lparr>cla_raw = raw, cla_ccc = SWICC_APDU_CLA_CCC_INVALID, cla_sm = SWICC_APDU_CLA_SM_INVALID,
         cla_type = SWICC_APDU_CLA_TYPE_PROPRIETARY, cla_lchan = 0\<rparr>)"

text \<open>
  Every one of the 256 class bytes is classified as the standard says: the type, the secure
  messaging and chaining indications and the logical channel of the parsed class are those of its
  numeric range.
\<close>

theorem cla_parse_spec: "swicc_apdu_cmd_cla_parse raw = cla_spec raw"
proof -
  have "\<forall>raw. swicc_apdu_cmd_cla_parse raw = cla_spec raw"
    unfolding forall_u8 by code_simp
  then show ?thesis by blast
qed


subsection \<open>Command TPDU\<close>

lemma tpdu_cmd_parse_short:
  "unat len < 5 \<Longrightarrow> swicc_tpdu_cmd_parse buf len cmd = Some (SWICC_RET_TPDU_HDR_TOO_SHORT, cmd)"
  by (simp add: swicc_tpdu_cmd_parse_def)

lemma tpdu_cmd_parse_overrun:
  assumes "unat len > 5 + SWICC_DATA_MAX"
  shows "swicc_tpdu_cmd_parse buf len cmd = None"
  using assms
  by (auto simp: swicc_tpdu_cmd_parse_def Let_def bind_None_iff rdn_Some wrn_None)

text \<open>
  The wire form of a command TPDU is parsed into its header, P3 and data: the five header
  bytes are read in order and the bytes after them become the data field, zero-padded to the size
  of the array, whatever the record held before.
\<close>

theorem tpdu_cmd_parse_wire:
  assumes "length d \<le> SWICC_DATA_MAX"
  shows "swicc_tpdu_cmd_parse ([cla, ins, p1, p2, p3] @ d @ rest) (word_of_nat (5 + length d)) cmd =
    Some (SWICC_RET_SUCCESS,
      \<lparr>cmd_hdr = \<lparr>hdr_cla = swicc_apdu_cmd_cla_parse cla, hdr_ins = ins, hdr_p1 = p1, hdr_p2 = p2\<rparr>,
       cmd_p3 = p3,
       cmd_data = \<lparr>data_len = word_of_nat (length d),
                   data_b = d @ replicate (SWICC_DATA_MAX - length d) 0\<rparr>\<rparr>)"
proof -
  define N :: u16 where "N = word_of_nat (5 + length d)"
  have n: "unat N = 5 + length d"
    unfolding N_def by (rule unat_of_nat_u16) (use assms in simp)
  show ?thesis
    unfolding N_def [symmetric]
    by (simp add: swicc_tpdu_cmd_parse_def Let_def n rd_def rdn_ok wrn_ok assms)
qed

theorem tpdu_cmd_parse_wire_witness:
  "swicc_tpdu_cmd_parse ([0x00, 0xA4, 0x00, 0x04, 0x02] @ [0x3F, 0x00] @ []) (word_of_nat (5 + length [0x3F :: u8, 0x00])) tpdu_zero =
    Some (SWICC_RET_SUCCESS,
      \<lparr>cmd_hdr = \<lparr>hdr_cla = swicc_apdu_cmd_cla_parse 0x00, hdr_ins = 0xA4, hdr_p1 = 0x00, hdr_p2 = 0x04\<rparr>,
       cmd_p3 = 0x02,
       cmd_data = \<lparr>data_len = word_of_nat (length [0x3F :: u8, 0x00]),
                   data_b = [0x3F, 0x00] @ replicate (SWICC_DATA_MAX - length [0x3F :: u8, 0x00]) 0\<rparr>\<rparr>)"
  by (rule tpdu_cmd_parse_wire) simp

subsection \<open>Response\<close>

text \<open>
  What a response looks like on the wire, when it is one: a procedure byte that stands alone, or
  the data followed by the two status bytes.
\<close>

definition res_wire :: "swicc_apdu_cmd \<Rightarrow> swicc_apdu_res \<Rightarrow> bytes option" where
  "res_wire cmd res =
     (let payload = take (unat (data_len (res_data res))) (data_b (res_data res));
          ins = hdr_ins (cmd_hdr cmd); sw1 = res_sw1 res; sw2 = res_sw2 res in
      if sw1 = SWICC_APDU_SW1_PROC_NULL then
        (if payload = [] \<and> sw2 = 0 then Some [0x60] else None)
      else if sw1 = SWICC_APDU_SW1_PROC_ACK_ALL then (if sw2 = 0 then Some [ins] else None)
      else if sw1 = SWICC_APDU_SW1_PROC_ACK_ONE then (if sw2 = 0 then Some [NOT ins] else None)
      else if sw1_needs_sw2_zero sw1 \<and> sw2 \<noteq> 0 then None
      else Some (payload @ [ucast sw1, sw2]))"

definition res_room :: "swicc_apdu_res \<Rightarrow> nat" where
  "res_room res = unat (data_len (res_data res)) + (if sw1_is_proc (res_sw1 res) then 1 else 2)"

lemma res_deparse_short:
  "unat buf_len < res_room res \<Longrightarrow>
     swicc_apdu_res_deparse buf buf_len cmd res = Some (SWICC_RET_BUFFER_TOO_SHORT, buf, buf_len)"
  by (simp add: swicc_apdu_res_deparse_def res_room_def Let_def)


lemma res_deparse_oversize:
  assumes "res_room res \<le> unat buf_len" and "unat (data_len (res_data res)) > SWICC_DATA_MAX"
  shows "swicc_apdu_res_deparse buf buf_len cmd res = Some (SWICC_RET_ERROR, buf, buf_len)"
  using assms by (simp add: swicc_apdu_res_deparse_def res_room_def Let_def split: if_splits)

lemma res_deparse_run:
  assumes "data_ok (res_data res)" and "unat (data_len (res_data res)) \<le> SWICC_DATA_MAX"
    and "res_room res \<le> unat buf_len" and "unat buf_len \<le> length buf"
  shows "\<exists>ret buf' len'. swicc_apdu_res_deparse buf buf_len cmd res = Some (ret, buf', len') \<and>
    length buf' = length buf \<and> drop (res_room res) buf' = drop (res_room res) buf \<and>
    (case res_wire cmd res of
       Some w \<Rightarrow> ret = SWICC_RET_SUCCESS \<and> unat len' = length w \<and> take (length w) buf' = w
     | None \<Rightarrow> ret = SWICC_RET_APDU_RES_INVALID)"
proof -
  let ?n = "unat (data_len (res_data res))"
  have len: "unat (data_len (res_data res) + 2) = ?n + 2"
    using assms(2) by (simp add: unat_word_ariths)
  have lens: "?n \<le> length (data_b (res_data res))" "?n < length buf" "1 \<le> length buf"
    using assms by (auto simp: data_ok_def res_room_def split: if_splits)
  show ?thesis
    using assms lens len
    by (auto simp: swicc_apdu_res_deparse_def res_wire_def res_room_def data_ok_def Let_def
        rdn_ok wrn_ok min_def)
qed

text \<open>
  C34.  A response that fits is written as its wire form: the call returns, leaves the buffer's
  size and everything behind the response alone, and reports the length of the wire form; a
  response that is not one (a status word that demands SW2 = 0 with another SW2, a procedure byte
  with a second byte) is reported as invalid.
\<close>

theorem res_deparse_wire:
  assumes "data_ok (res_data res)" and "unat (data_len (res_data res)) \<le> SWICC_DATA_MAX"
    and "res_room res \<le> unat buf_len" and "unat buf_len \<le> length buf"
  shows "\<exists>ret buf' len'. swicc_apdu_res_deparse buf buf_len cmd res = Some (ret, buf', len') \<and>
    length buf' = length buf \<and> drop (res_room res) buf' = drop (res_room res) buf \<and>
    (case res_wire cmd res of
       Some w \<Rightarrow> ret = SWICC_RET_SUCCESS \<and> unat len' = length w \<and> take (length w) buf' = w
     | None \<Rightarrow> ret = SWICC_RET_APDU_RES_INVALID)"
  by (rule res_deparse_run) (fact assms)+

definition res_example :: swicc_apdu_res where
  "res_example = \<lparr>res_sw1 = 0x90, res_sw2 = 0, res_data = data_zero\<lparr>data_len := 2\<rparr>\<rparr>"

lemma res_example_facts:
  "data_ok (res_data res_example)" "unat (data_len (res_data res_example)) = 2"
  "res_room res_example = 4" "res_wire cmd res_example = Some [0, 0, 0x90, 0]"
  by (simp_all add: res_example_def data_ok_def data_zero_def res_room_def res_wire_def
      replicate_2)

lemma Suc_4: "Suc (Suc (Suc (Suc 0))) = 4"
  by simp

theorem res_deparse_wire_witness:
  "\<exists>buf' len'. swicc_apdu_res_deparse (replicate 258 0) 258 tpdu_zero res_example
      = Some (SWICC_RET_SUCCESS, buf', len') \<and> unat len' = 4 \<and> take 4 buf' = [0, 0, 0x90, 0]"
  using res_deparse_wire [of res_example 258 "replicate 258 0" tpdu_zero]
  by (auto simp: res_example_facts Suc_4)

end
