(* ===== verification/Swicc_Apdu_Rc.thy ===== *)
theory Swicc_Apdu_Rc
  imports Swicc_Common
begin

text \<open>
  \<^verbatim>\<open>include/swicc/apdu_rc.h\<close> and \<^verbatim>\<open>src/apdu_rc.c\<close>: the response chaining buffer, in which a command
  leaves data that later GET RESPONSE commands fetch piece by piece.  The locale \<open>byte_fifo\<close> states
  the contract the command handlers rely on; the interpretation at the end of the theory shows that
  the buffer of the code meets it.
\<close>

section \<open>The buffer\<close>

record swicc_apdu_rc =
  rc_b :: bytes
  rc_len :: u32
  rc_offset :: u32

definition rc_zero :: swicc_apdu_rc where
  "rc_zero = \<lparr>rc_b = replicate SWICC_DATA_MAX 0, rc_len = 0, rc_offset = 0\<rparr>"

text \<open>The pointer arguments that the code compares with NULL are options here.\<close>

definition swicc_apdu_rc_reset :: "swicc_apdu_rc option \<Rightarrow> swicc_apdu_rc option" where
  "swicc_apdu_rc_reset rc = (case rc of None \<Rightarrow> None | Some _ \<Rightarrow> Some rc_zero)"

text \<open>What \<^verbatim>\<open>swicc_apdu_rc_enq\<close> does behind its NULL checks; the length check is a 32-bit sum.\<close>

definition rc_enq :: "swicc_apdu_rc \<Rightarrow> bytes \<Rightarrow> u32 \<Rightarrow> (swicc_ret \<times> swicc_apdu_rc) option" where
  "rc_enq rc buf buf_len =
     (if unat (rc_len rc + buf_len) > SWICC_DATA_MAX then Some (SWICC_RET_BUFFER_TOO_SHORT, rc)
      else do {
        src \<leftarrow> rdn buf 0 (unat buf_len);
        b' \<leftarrow> wrn (rc_b rc) (unat (rc_len rc)) src;
        Some (SWICC_RET_SUCCESS, rc\<lparr>rc_b := b', rc_len := rc_len rc + buf_len\<rparr>) })"

definition swicc_apdu_rc_enq ::
    "swicc_apdu_rc option \<Rightarrow> bytes option \<Rightarrow> u32 \<Rightarrow> (swicc_ret \<times> swicc_apdu_rc option) option" where
  "swicc_apdu_rc_enq rc buf buf_len =
     (case (rc, buf) of
        (Some r, Some b) \<Rightarrow> do { (ret, r') \<leftarrow> rc_enq r b buf_len; Some (ret, Some r') }
      | _ \<Rightarrow> Some (SWICC_RET_PARAM_BAD, rc))"

text \<open>
  What \<^verbatim>\<open>swicc_apdu_rc_deq\<close> does behind its NULL checks: the result holds the new buffer, the
  memory the bytes are copied to and the length that is stored back.
\<close>

definition rc_deq ::
    "swicc_apdu_rc \<Rightarrow> bytes \<Rightarrow> u32 \<Rightarrow> (swicc_ret \<times> swicc_apdu_rc \<times> bytes \<times> u32) option" where
  "rc_deq rc buf buf_len =
     (let rem = rc_len rc - rc_offset rc in
      if buf_len \<le> rem then do {
        src \<leftarrow> rdn (rc_b rc) (unat (rc_offset rc)) (unat buf_len);
        buf' \<leftarrow> wrn buf 0 src;
        Some (SWICC_RET_SUCCESS, rc\<lparr>rc_offset := rc_offset rc + buf_len\<rparr>, buf', buf_len) }
      else Some (SWICC_RET_BUFFER_TOO_SHORT, rc, buf, rem))"

definition swicc_apdu_rc_deq ::
    "swicc_apdu_rc option \<Rightarrow> bytes option \<Rightarrow> u32 option \<Rightarrow>
      (swicc_ret \<times> swicc_apdu_rc option \<times> bytes option \<times> u32 option) option" where
  "swicc_apdu_rc_deq rc buf buf_len =
     (case (rc, buf, buf_len) of
        (Some r, Some b, Some n) \<Rightarrow> do {
          (ret, r', b', n') \<leftarrow> rc_deq r b n;
          Some (ret, Some r', Some b', Some n') }
      | _ \<Rightarrow> Some (SWICC_RET_PARAM_BAD, rc, buf, buf_len))"

definition rc_len_rem :: "swicc_apdu_rc \<Rightarrow> u32" where
  "rc_len_rem rc = rc_len rc - rc_offset rc"

definition swicc_apdu_rc_len_rem :: "swicc_apdu_rc option \<Rightarrow> u32" where
  "swicc_apdu_rc_len_rem rc = (case rc of None \<Rightarrow> 0 | Some r \<Rightarrow> rc_len_rem r)"

section \<open>Invariant and contents\<close>

definition rc_wf :: "swicc_apdu_rc \<Rightarrow> bool" where
  "rc_wf rc \<longleftrightarrow> length (rc_b rc) = SWICC_DATA_MAX \<and> unat (rc_offset rc) \<le> unat (rc_len rc) \<and>
     unat (rc_len rc) \<le> SWICC_DATA_MAX"

definition rc_content :: "swicc_apdu_rc \<Rightarrow> bytes" where
  "rc_content rc = drop (unat (rc_offset rc)) (take (unat (rc_len rc)) (rc_b rc))"

definition rc_room :: "swicc_apdu_rc \<Rightarrow> nat" where
  "rc_room rc = SWICC_DATA_MAX - unat (rc_len rc)"

lemma rc_zero_wf [simp]: "rc_wf rc_zero" "rc_content rc_zero = []" "rc_room rc_zero = SWICC_DATA_MAX"
  by (simp_all add: rc_wf_def rc_content_def rc_room_def rc_zero_def)

lemma rc_len_rem_content: "rc_wf rc \<Longrightarrow> unat (rc_len_rem rc) = length (rc_content rc)"
  by (auto simp: rc_wf_def rc_len_rem_def rc_content_def unat_sub word_le_nat_alt)

lemma rc_enq_ok:
  assumes wf: "rc_wf rc" and fit: "length xs \<le> rc_room rc"
  shows "\<exists>rc'. rc_enq rc (xs @ ys) (word_of_nat (length xs)) = Some (SWICC_RET_SUCCESS, rc') \<and> rc_wf rc' \<and>
    rc_content rc' = rc_content rc @ xs \<and> rc_room rc' = rc_room rc - length xs"
proof -
  define N :: u32 where "N = word_of_nat (length xs)"
  have n: "unat N = length xs"
    unfolding N_def by (rule unat_of_nat_u32) (use fit in \<open>simp add: rc_room_def\<close>)
  have sum: "unat (rc_len rc + N) = unat (rc_len rc) + length xs"
    by (subst unat_add_u32) (use wf fit in \<open>auto simp: n rc_wf_def rc_room_def\<close>)
  show ?thesis
    unfolding N_def [symmetric]
    using wf fit by (auto simp: rc_enq_def sum n rc_wf_def rc_room_def rc_content_def rdn_ok wrn_ok)
qed

lemma rc_enq_full:
  assumes wf: "rc_wf rc" and "rc_room rc < length xs" and "length xs < 2 ^ 31"
  shows "rc_enq rc (xs @ ys) (word_of_nat (length xs)) = Some (SWICC_RET_BUFFER_TOO_SHORT, rc)"
proof -
  define N :: u32 where "N = word_of_nat (length xs)"
  have n: "unat N = length xs"
    unfolding N_def by (rule unat_of_nat_u32) (use assms in simp)
  have "unat (rc_len rc + N) = unat (rc_len rc) + length xs"
    using assms unat_add_u32 [of "rc_len rc" N] by (simp add: n rc_wf_def)
  moreover have "SWICC_DATA_MAX < unat (rc_len rc) + length xs"
    using assms by (simp add: rc_room_def)
  ultimately show ?thesis
    unfolding N_def [symmetric] by (simp add: rc_enq_def)
qed

lemma rc_deq_ok:
  assumes wf: "rc_wf rc" and fit: "unat n \<le> length (rc_content rc)" and "unat n \<le> length buf"
  shows "\<exists>rc'. rc_deq rc buf n = Some (SWICC_RET_SUCCESS, rc',
      take (unat n) (rc_content rc) @ drop (unat n) buf, n) \<and> rc_wf rc' \<and>
    rc_content rc' = drop (unat n) (rc_content rc) \<and> rc_room rc' = rc_room rc"
proof -
  have le: "n \<le> rc_len rc - rc_offset rc"
    using wf fit rc_len_rem_content [OF wf] by (simp add: word_le_nat_alt rc_len_rem_def)
  have cl: "length (rc_content rc) = unat (rc_len rc) - unat (rc_offset rc)"
    using wf by (auto simp: rc_wf_def rc_content_def)
  have sum: "unat (rc_offset rc + n) = unat (rc_offset rc) + unat n"
    by (subst unat_add_u32) (use wf fit cl in \<open>auto simp: rc_wf_def\<close>)
  have src: "take (unat n) (rc_content rc) = take (unat n) (drop (unat (rc_offset rc)) (rc_b rc))"
    using fit cl by (simp add: rc_content_def drop_take min_def)
  show ?thesis
    using assms le sum cl src
    by (auto simp: rc_deq_def Let_def rc_wf_def rc_room_def rdn_ok wrn_ok rc_content_def add.commute)
qed

lemma rc_deq_short:
  assumes wf: "rc_wf rc" and "length (rc_content rc) < unat n"
  shows "rc_deq rc buf n = Some (SWICC_RET_BUFFER_TOO_SHORT, rc, buf, word_of_nat (length (rc_content rc)))"
proof -
  have "\<not> n \<le> rc_len rc - rc_offset rc"
    using assms rc_len_rem_content [OF wf] by (simp add: word_le_nat_alt rc_len_rem_def)
  then show ?thesis
    using rc_len_rem_content [OF wf, symmetric] by (simp add: rc_deq_def rc_len_rem_def)
qed


section \<open>The contract of a response queue\<close>

text \<open>
  What the command handlers rely on: bytes come out in the order they went in, a refused operation
  changes nothing, and the free room only shrinks until the queue is reset.  \<open>deq s n\<close> takes exactly
  \<open>n\<close> bytes or refuses.
\<close>

fun enqs :: "('s \<Rightarrow> 'a list \<Rightarrow> 's option) \<Rightarrow> 's \<Rightarrow> 'a list list \<Rightarrow> 's option" where
  "enqs enq s [] = Some s"
| "enqs enq s (xs # xss) = do { s' \<leftarrow> enq s xs; enqs enq s' xss }"

fun deqs ::
    "('s \<Rightarrow> nat \<Rightarrow> ('a list \<times> 's) option) \<Rightarrow> 's \<Rightarrow> nat list \<Rightarrow> ('a list list \<times> 's) option" where
  "deqs deq s [] = Some ([], s)"
| "deqs deq s (n # ns) = do { (xs, s') \<leftarrow> deq s n; (xss, s'') \<leftarrow> deqs deq s' ns; Some (xs # xss, s'') }"

locale byte_fifo =
  fixes ok :: "'s \<Rightarrow> bool"
    and content :: "'s \<Rightarrow> 'a list"
    and room :: "'s \<Rightarrow> nat"
    and cap :: nat
    and reset :: "'s \<Rightarrow> 's"
    and enq :: "'s \<Rightarrow> 'a list \<Rightarrow> 's option"
    and deq :: "'s \<Rightarrow> nat \<Rightarrow> ('a list \<times> 's) option"
  assumes reset_ok: "ok (reset s) \<and> content (reset s) = [] \<and> room (reset s) = cap"
    and enq_fit: "ok s \<Longrightarrow> length xs \<le> room s \<Longrightarrow>
      \<exists>s'. enq s xs = Some s' \<and> ok s' \<and> content s' = content s @ xs \<and> room s' = room s - length xs"
    and enq_refuse: "ok s \<Longrightarrow> room s < length xs \<Longrightarrow> enq s xs = None"
    and deq_fit: "ok s \<Longrightarrow> n \<le> length (content s) \<Longrightarrow>
      \<exists>s'. deq s n = Some (take n (content s), s') \<and> ok s' \<and> content s' = drop n (content s) \<and>
        room s' = room s"
    and deq_refuse: "ok s \<Longrightarrow> length (content s) < n \<Longrightarrow> deq s n = None"
begin

lemma enqs_content:
  assumes "ok s" "length (concat xss) \<le> room s"
  shows "\<exists>s'. enqs enq s xss = Some s' \<and> ok s' \<and> content s' = content s @ concat xss \<and>
    room s' = room s - length (concat xss)"
  using assms
proof (induction xss arbitrary: s)
  case (Cons xs xss)
  then obtain s1 where s1: "enq s xs = Some s1" "ok s1" "content s1 = content s @ xs"
      "room s1 = room s - length xs"
    using enq_fit [of s xs] by auto
  with Cons.IH [of s1] Cons.prems show ?case by auto
qed simp

lemma deqs_content:
  assumes "ok s" "sum_list ns \<le> length (content s)"
  shows "\<exists>xss s'. deqs deq s ns = Some (xss, s') \<and> ok s' \<and> map length xss = ns \<and>
    concat xss @ content s' = content s \<and> room s' = room s"
  using assms
proof (induction ns arbitrary: s)
  case (Cons n ns)
  then obtain s1 where s1: "deq s n = Some (take n (content s), s1)" "ok s1"
      "content s1 = drop n (content s)" "room s1 = room s"
    using deq_fit [of s n] by auto
  with Cons.IH [of s1] Cons.prems show ?case by fastforce
qed simp

text \<open>Whatever the sizes of the pieces put in and taken out: the bytes come out as they went in.\<close>

lemma fifo:
  assumes "length (concat xss) \<le> cap" "sum_list ns = length (concat xss)"
  shows "\<exists>s' yss s''. enqs enq (reset s) xss = Some s' \<and> deqs deq s' ns = Some (yss, s'') \<and>
    map length yss = ns \<and> concat yss = concat xss \<and> content s'' = []"
proof -
  obtain s' where s': "enqs enq (reset s) xss = Some s'" "ok s'" "content s' = concat xss"
    using enqs_content [of "reset s" xss] reset_ok [of s] assms(1) by auto
  obtain yss s'' where d: "deqs deq s' ns = Some (yss, s'')" "map length yss = ns"
      "concat yss @ content s'' = concat xss"
    using deqs_content [of s' ns] s' assms(2) by auto
  have "length (concat yss) = length (concat xss)"
    using d(2) assms(2) by (simp add: length_concat)
  with d(3) have "content s'' = []" by (metis append_Nil2 append_eq_append_conv)
  with s' d show ?thesis by auto
qed

end


section \<open>The buffer meets the contract\<close>

text \<open>
  The operations as the handlers use them: an enqueue hands over the bytes and their number, a
  dequeue a destination of the size asked for (\<open>n\<close> bytes, at most a data field).
\<close>

definition rc_put :: "swicc_apdu_rc \<Rightarrow> bytes \<Rightarrow> swicc_apdu_rc option" where
  "rc_put rc xs =
     (if length xs < 2 ^ 31 then
        (case rc_enq rc xs (word_of_nat (length xs)) of
           Some (SWICC_RET_SUCCESS, rc') \<Rightarrow> Some rc' | _ \<Rightarrow> None)
      else None)"

definition rc_get :: "swicc_apdu_rc \<Rightarrow> nat \<Rightarrow> (bytes \<times> swicc_apdu_rc) option" where
  "rc_get rc n =
     (if n \<le> SWICC_DATA_MAX then
        (case rc_deq rc (replicate n 0) (word_of_nat n) of
           Some (SWICC_RET_SUCCESS, rc', b, _) \<Rightarrow> Some (b, rc') | _ \<Rightarrow> None)
      else None)"

lemma length_rc_content: "rc_wf rc \<Longrightarrow> length (rc_content rc) \<le> SWICC_DATA_MAX"
  by (auto simp: rc_wf_def rc_content_def)

lemma rc_put_ok:
  assumes "rc_wf rc" "length xs \<le> rc_room rc"
  shows "\<exists>rc'. rc_put rc xs = Some rc' \<and> rc_wf rc' \<and> rc_content rc' = rc_content rc @ xs \<and>
    rc_room rc' = rc_room rc - length xs"
proof -
  have "length xs < 2 ^ 31" using assms(2) by (simp add: rc_room_def)
  then show ?thesis
    using rc_enq_ok [OF assms, of "[]"] by (auto simp: rc_put_def)
qed

lemma rc_put_full: "rc_wf rc \<Longrightarrow> rc_room rc < length xs \<Longrightarrow> rc_put rc xs = None"
  using rc_enq_full [of rc xs "[]"] by (simp add: rc_put_def)

lemma rc_get_ok:
  assumes "rc_wf rc" "n \<le> length (rc_content rc)"
  shows "\<exists>rc'. rc_get rc n = Some (take n (rc_content rc), rc') \<and> rc_wf rc' \<and>
    rc_content rc' = drop n (rc_content rc) \<and> rc_room rc' = rc_room rc"
proof -
  have le: "n \<le> SWICC_DATA_MAX" using assms(2) length_rc_content [OF assms(1)] by simp
  then have n: "unat (word_of_nat n :: u32) = n" by (intro unat_of_nat_u32) simp
  obtain rc' where
    "rc_deq rc (replicate n 0) (word_of_nat n) =
      Some (SWICC_RET_SUCCESS, rc', take n (rc_content rc), word_of_nat n)"
    "rc_wf rc'" "rc_content rc' = drop n (rc_content rc)" "rc_room rc' = rc_room rc"
    using rc_deq_ok [OF assms(1), of "word_of_nat n" "replicate n 0"] assms(2) unfolding n by auto
  with le show ?thesis by (simp add: rc_get_def)
qed

lemma rc_get_short: "rc_wf rc \<Longrightarrow> length (rc_content rc) < n \<Longrightarrow> rc_get rc n = None"
proof (cases "n \<le> SWICC_DATA_MAX")
  case True
  assume wf: "rc_wf rc" and lt: "length (rc_content rc) < n"
  have n: "unat (word_of_nat n :: u32) = n" by (rule unat_of_nat_u32) (use True in simp)
  show ?thesis
    using rc_deq_short [OF wf, of "word_of_nat n" "replicate n 0"] lt unfolding n
    by (simp add: rc_get_def)
qed (simp add: rc_get_def)

interpretation rcq: byte_fifo rc_wf rc_content rc_room SWICC_DATA_MAX "\<lambda>_. rc_zero" rc_put rc_get
  by unfold_locales (simp_all add: rc_put_ok rc_put_full rc_get_ok rc_get_short)

text \<open>
  C11.  Response chaining loses, repeats and reorders nothing: data put into a fresh response chaining
  buffer in pieces of any sizes, as long as it fits the buffer, comes out in pieces of any other
  sizes as the same byte sequence.
\<close>

theorem rc_chaining_fifo:
  assumes "length (concat xss) \<le> SWICC_DATA_MAX" and "sum_list ns = length (concat xss)"
  shows "\<exists>rc yss rc'. enqs rc_put rc_zero xss = Some rc \<and> deqs rc_get rc ns = Some (yss, rc') \<and>
    map length yss = ns \<and> concat yss = concat xss \<and> rc_content rc' = []"
  by (rule rcq.fifo) (fact assms)+

theorem rc_chaining_fifo_witness:
  "\<exists>rc yss rc'. enqs rc_put rc_zero [[1, 2, 3], [4, 5]] = Some rc \<and>
    deqs rc_get rc [1, 4] = Some (yss, rc') \<and> map length yss = [1, 4] \<and>
    concat yss = [1, 2, 3, 4, 5] \<and> rc_content rc' = []"
  using rc_chaining_fifo [of "[[1, 2, 3], [4, 5]]" "[1, 4]"] by simp

end
