(* ===== verification/Swicc_Pps.thy ===== *)
theory Swicc_Pps
  imports Swicc_Common
begin

text \<open>
  \<^verbatim>\<open>include/swicc/pps.h\<close> and \<^verbatim>\<open>src/pps.c\<close>: the protocol and parameters selection exchange.  A request
  is parsed into parameters, the response is built from them, and the exchange succeeded when the
  response echoes the request.
\<close>

section \<open>Parsing a request\<close>

abbreviation SWICC_PPS_PPSS :: u8 where "SWICC_PPS_PPSS \<equiv> 0xFF"
abbreviation SWICC_PPS_LEN_MAX :: nat where "SWICC_PPS_LEN_MAX \<equiv> 6"
abbreviation SWICC_TP_CONF_DEFAULT :: u8 where "SWICC_TP_CONF_DEFAULT \<equiv> 1"

record swicc_pps_params =
  pps_t :: u8
  pps_fi_idx :: u8
  pps_di_idx :: u8
  pps_spu :: u8

definition pps_params_zero :: swicc_pps_params where
  "pps_params_zero = \<lparr>pps_t = 0, pps_fi_idx = 0, pps_di_idx = 0, pps_spu = 0\<rparr>"

text \<open>
  The loop of \<^verbatim>\<open>pps_parse\<close> for the optional bytes PPS1 to PPS3: \<open>pps_idx\<close> is the number of the byte,
  the first argument counts the rounds left, \<open>nxt\<close> is the index of the next unread byte.
\<close>

fun pps_parse_loop ::
    "nat \<Rightarrow> nat \<Rightarrow> u8 \<Rightarrow> nat \<Rightarrow> u8 \<Rightarrow> bytes \<Rightarrow> nat \<Rightarrow> swicc_pps_params \<Rightarrow> (swicc_ret \<times> swicc_pps_params) option"
where
  "pps_parse_loop 0 pps_idx msk nxt pps0 rx rx_len p = Some (SWICC_RET_SUCCESS, p)"
| "pps_parse_loop (Suc k) pps_idx msk nxt pps0 rx rx_len p =
     (if pps0 AND msk \<noteq> 0 \<and> nxt < rx_len then do {
        ppsi \<leftarrow> rd rx nxt;
        if pps_idx = 1 then
          pps_parse_loop k (pps_idx + 1) (push_bit 1 msk) (nxt + 1) pps0 rx rx_len
            (p\<lparr>pps_fi_idx := ppsi AND 0x0F, pps_di_idx := drop_bit 4 (ppsi AND 0xF0)\<rparr>)
        else if pps_idx = 2 then
          pps_parse_loop k (pps_idx + 1) (push_bit 1 msk) (nxt + 1) pps0 rx rx_len
            (p\<lparr>pps_spu := ppsi\<rparr>)
        else if pps_idx = 3 \<and> ppsi \<noteq> 0 then Some (SWICC_RET_PPS_INVALID, p)
        else pps_parse_loop k (pps_idx + 1) (push_bit 1 msk) (nxt + 1) pps0 rx rx_len p }
      else if pps0 AND msk \<noteq> 0 then Some (SWICC_RET_PPS_INVALID, p)
      else pps_parse_loop k (pps_idx + 1) (push_bit 1 msk) nxt pps0 rx rx_len p)"

text \<open>The conditions of the first \<^verbatim>\<open>if\<close> are tested in order, the byte reads only when they are reached.\<close>

definition pps_parse ::
    "swicc_pps_params \<Rightarrow> bytes \<Rightarrow> u16 \<Rightarrow> (swicc_ret \<times> swicc_pps_params) option" where
  "pps_parse p rx rx_len =
     (if unat rx_len < 2 \<or> unat rx_len > SWICC_PPS_LEN_MAX then Some (SWICC_RET_PPS_INVALID, p)
      else do {
        ppss \<leftarrow> rd rx 0;
        if ppss \<noteq> SWICC_PPS_PPSS then Some (SWICC_RET_PPS_INVALID, p)
        else do {
          ck \<leftarrow> swicc_ck rx rx_len;
          if ck \<noteq> 0 then Some (SWICC_RET_PPS_INVALID, p)
          else do {
            pps0 \<leftarrow> rd rx 1;
            if pps0 AND 0x80 \<noteq> 0 then Some (SWICC_RET_PPS_INVALID, p)
            else do {
              (ret, p') \<leftarrow> pps_parse_loop 3 1 0x10 2 pps0 rx (unat rx_len) p;
              Some (ret, if ret = SWICC_RET_SUCCESS then p'\<lparr>pps_t := pps0 AND 0x0F\<rparr> else p') } } } })"

section \<open>Building the response\<close>

text \<open>
  The bytes stored so far in the array \<^verbatim>\<open>ppsi\<close> of six bytes are a list, which never has more than
  six elements.
\<close>

definition pps_body :: "swicc_pps_params \<Rightarrow> u8 \<Rightarrow> bytes option" where
  "pps_body p pps0 = do {
     b \<leftarrow> (if (pps_fi_idx p = SWICC_TP_CONF_DEFAULT \<and> pps_di_idx p = SWICC_TP_CONF_DEFAULT) \<or>
             pps0 AND 0x10 = 0
           then Some [SWICC_PPS_PPSS, pps0 AND 0xEF]
           else do {
             assert_ub (pps_fi_idx p AND 0xF0 = 0);
             assert_ub (pps_di_idx p AND 0xF0 = 0);
             Some [SWICC_PPS_PPSS, pps0, push_bit 4 (pps_di_idx p) OR pps_fi_idx p] });
     Some (b @ (if pps0 AND 0x20 \<noteq> 0 then [pps_spu p] else [])
             @ (if pps0 AND 0x40 \<noteq> 0 then [0] else [])) }"

definition pps_deparse ::
    "swicc_pps_params \<Rightarrow> u8 \<Rightarrow> bytes \<Rightarrow> u16 \<Rightarrow> (swicc_ret \<times> bytes \<times> u16) option" where
  "pps_deparse p pps0 tx tx_len = do {
     body \<leftarrow> pps_body p pps0;
     if length body > unat tx_len then Some (SWICC_RET_BUFFER_TOO_SHORT, tx, tx_len)
     else do {
       ck \<leftarrow> swicc_ck body (word_of_nat (length body));
       tx' \<leftarrow> wrn tx 0 (body @ [ck]);
       Some (SWICC_RET_SUCCESS, tx', word_of_nat (length body + 1)) } }"

section \<open>The exchange\<close>

definition pps_xchg_success :: "bytes \<Rightarrow> u16 \<Rightarrow> bytes \<Rightarrow> u16 \<Rightarrow> swicc_ret option" where
  "pps_xchg_success rx rx_len tx tx_len =
     (if tx_len = rx_len then do {
        a \<leftarrow> rdn tx 0 (unat tx_len);
        b \<leftarrow> rdn rx 0 (unat tx_len);
        Some (if a = b then SWICC_RET_SUCCESS else SWICC_RET_PPS_FAILED) }
      else Some SWICC_RET_PPS_FAILED)"

definition swicc_pps ::
    "swicc_pps_params \<Rightarrow> bytes \<Rightarrow> u16 \<Rightarrow> bytes \<Rightarrow> u16 \<Rightarrow>
      (swicc_ret \<times> swicc_pps_params \<times> bytes \<times> u16) option" where
  "swicc_pps p rx rx_len tx tx_len = do {
     (ret, p') \<leftarrow> pps_parse p rx rx_len;
     if ret \<noteq> SWICC_RET_SUCCESS then Some (ret, p', tx, tx_len)
     else do {
       pps0 \<leftarrow> rd rx 1;
       (ret, tx', tx_len') \<leftarrow> pps_deparse p' pps0 tx tx_len;
       if ret \<noteq> SWICC_RET_SUCCESS then Some (ret, p', tx', tx_len')
       else do {
         ret \<leftarrow> pps_xchg_success rx rx_len tx' tx_len';
         Some (ret, p', tx', tx_len') } } }"

definition swicc_pps_len :: "bytes \<Rightarrow> u8 \<Rightarrow> u8 \<Rightarrow> (swicc_ret \<times> u8) option" where
  "swicc_pps_len pps pps_len pps_len_exp =
     (if pps_len < 2 then Some (SWICC_RET_PPS_INVALID, pps_len_exp)
      else do {
        ppss \<leftarrow> rd pps 0;
        if ppss \<noteq> SWICC_PPS_PPSS then Some (SWICC_RET_PPS_INVALID, pps_len_exp)
        else do {
          pps0 \<leftarrow> rd pps 1;
          Some (SWICC_RET_SUCCESS,
            3 + (if pps0 AND 0x10 > 0 then 1 else 0) + (if pps0 AND 0x20 > 0 then 1 else 0)
              + (if pps0 AND 0x40 > 0 then 1 else 0)) } })"

section \<open>Requests as the standard writes them\<close>

definition pps_req_body :: "u8 \<Rightarrow> u8 \<Rightarrow> u8 \<Rightarrow> bytes" where
  "pps_req_body pps0 pps1 pps2 =
     [SWICC_PPS_PPSS, pps0] @ (if pps0 AND 0x10 \<noteq> 0 then [pps1] else [])
       @ (if pps0 AND 0x20 \<noteq> 0 then [pps2] else []) @ (if pps0 AND 0x40 \<noteq> 0 then [0] else [])"

definition pps_req :: "u8 \<Rightarrow> u8 \<Rightarrow> u8 \<Rightarrow> bytes" where
  "pps_req pps0 pps1 pps2 = pps_req_body pps0 pps1 pps2 @ [xor_all (pps_req_body pps0 pps1 pps2)]"

text \<open>
  The parameters a request asks for, as the standard reads it: Fi is the high half of PPS1 and Di the
  low one (as in TA1 of the ATR, and as \<^verbatim>\<open>src/dbg/pps.c\<close> prints a request).
\<close>

definition pps_params_of :: "u8 \<Rightarrow> u8 \<Rightarrow> u8 \<Rightarrow> swicc_pps_params \<Rightarrow> swicc_pps_params" where
  "pps_params_of pps0 pps1 pps2 p =
     \<lparr>pps_t = take_bit 4 pps0,
      pps_fi_idx = (if bit pps0 4 then drop_bit 4 pps1 else pps_fi_idx p),
      pps_di_idx = (if bit pps0 4 then take_bit 4 pps1 else pps_di_idx p),
      pps_spu = (if bit pps0 5 then pps2 else pps_spu p)\<rparr>"

text \<open>
  The parameters the card takes: when PPS1 is present, Fi and Di are those of the standard
  exchanged, because \<^verbatim>\<open>pps_parse\<close> reads Fi from the low half and Di from the high half.
\<close>

definition pps_taken :: "u8 \<Rightarrow> u8 \<Rightarrow> u8 \<Rightarrow> swicc_pps_params \<Rightarrow> swicc_pps_params" where
  "pps_taken pps0 pps1 pps2 p =
     (let q = pps_params_of pps0 pps1 pps2 p
      in if bit pps0 4 then q\<lparr>pps_fi_idx := pps_di_idx q, pps_di_idx := pps_fi_idx q\<rparr> else q)"

lemma pps_taken_eq:
  "pps_taken pps0 pps1 pps2 p =
     \<lparr>pps_t = take_bit 4 pps0,
      pps_fi_idx = (if bit pps0 4 then take_bit 4 pps1 else pps_fi_idx p),
      pps_di_idx = (if bit pps0 4 then drop_bit 4 pps1 else pps_di_idx p),
      pps_spu = (if bit pps0 5 then pps2 else pps_spu p)\<rparr>"
  by (simp add: pps_taken_def pps_params_of_def Let_def)

text \<open>The halves differ for the value of TA1 in the ATR of the card: Fi 9 and Di 6 become 6 and 9.\<close>

lemma pps1_halves_exchanged:
  "pps_fi_idx (pps_params_of 0x10 0x96 0 p) = 9 \<and> pps_di_idx (pps_params_of 0x10 0x96 0 p) = 6 \<and>
   pps_fi_idx (pps_taken 0x10 0x96 0 p) = 6 \<and> pps_di_idx (pps_taken 0x10 0x96 0 p) = 9"
proof -
  have "bit (0x10 :: u8) 4" by code_simp
  then show ?thesis by (simp add: pps_taken_eq pps_params_of_def)
qed

lemma nibbles_default: "take_bit 4 (x :: u8) = 1 \<Longrightarrow> drop_bit 4 x = 1 \<Longrightarrow> x = 0x11"
  using nibbles(3) [of x] by simp

lemma length_pps_req_body: "2 \<le> length (pps_req_body a b c)" "length (pps_req_body a b c) \<le> 5"
  by (simp_all add: pps_req_body_def)

lemma length_pps_req: "length (pps_req a b c) = length (pps_req_body a b c) + 1"
  by (simp add: pps_req_def)

lemma swicc_ck_list: "length xs < 65536 \<Longrightarrow> swicc_ck (xs @ ys) (word_of_nat (length xs)) = Some (xor_all xs)"
  by (simp add: swicc_ck_eq unat_of_nat_u16)


lemma pps_loop_req:
  assumes "rx = pre @ (if bit pps0 4 then [pps1] else []) @ (if bit pps0 5 then [pps2] else [])
      @ (if bit pps0 6 then [0] else []) @ ck # rest"
    and "length pre = 2" and "n + length rest = length rx"
  shows "pps_parse_loop 3 1 0x10 2 pps0 rx n p =
    Some (SWICC_RET_SUCCESS, (pps_taken pps0 pps1 pps2 p)\<lparr>pps_t := pps_t p\<rparr>)"
  using assms
  by (cases p; cases "bit pps0 4"; cases "bit pps0 5"; cases "bit pps0 6")
     (simp_all add: numeral_3_eq_3 u8_and_bits rd_def nth_append nibbles pps_taken_eq)

lemma pps_parse_req:
  assumes "\<not> bit pps0 7"
  shows "pps_parse p (pps_req pps0 pps1 pps2 @ rest) (word_of_nat (length (pps_req pps0 pps1 pps2))) =
    Some (SWICC_RET_SUCCESS, pps_taken pps0 pps1 pps2 p)"
proof -
  let ?r = "pps_req pps0 pps1 pps2"
  define N :: u16 where "N = word_of_nat (length ?r)"
  have n: "unat N = length ?r"
    unfolding N_def by (rule unat_of_nat_u16) (use length_pps_req_body [of pps0 pps1 pps2] in \<open>simp add: length_pps_req\<close>)
  have len: "3 \<le> length ?r" "length ?r \<le> 6"
    using length_pps_req_body [of pps0 pps1 pps2] by (simp_all add: length_pps_req)
  have hd: "rd (?r @ rest) 0 = Some 0xFF" "rd (?r @ rest) (Suc 0) = Some pps0"
    by (simp_all add: pps_req_def pps_req_body_def rd_def)
  have ck: "swicc_ck (?r @ rest) N = Some 0"
    using swicc_ck_eq [of N "?r @ rest"] by (simp add: n) (simp add: pps_req_def)
  have loop: "pps_parse_loop 3 1 0x10 2 pps0 (?r @ rest) (unat N) p =
      Some (SWICC_RET_SUCCESS, (pps_taken pps0 pps1 pps2 p)\<lparr>pps_t := pps_t p\<rparr>)"
    by (rule pps_loop_req [of _ "[0xFF, pps0]" _ _ _ "xor_all (pps_req_body pps0 pps1 pps2)" rest])
      (simp_all add: pps_req_def pps_req_body_def u8_and_bits n)
  show ?thesis
    unfolding N_def [symmetric]
    using len assms by (simp add: pps_parse_def n hd ck loop [unfolded n One_nat_def] u8_and_bits nibbles pps_taken_eq)
qed


lemma pps_body_params_of:
  assumes "\<not> (bit pps0 4 \<and> pps1 = 0x11)"
  shows "pps_body (pps_taken pps0 pps1 pps2 p) pps0 = Some (pps_req_body pps0 pps1 pps2)"
proof -
  have clr: "\<not> bit pps0 4 \<Longrightarrow> pps0 AND 0xEF = pps0"
  proof -
    assume "\<not> bit pps0 4"
    then have "pps0 AND 0x10 = 0" by (simp add: u8_and_bits)
    moreover have "pps0 AND (0x10 OR 0xEF) = pps0" by simp
    ultimately show ?thesis by (simp only: bit.conj_disj_distrib) simp
  qed
  show ?thesis
    using assms clr nibbles_default [of pps1]
    by (cases "bit pps0 4")
       (auto simp: pps_body_def pps_taken_eq u8_and_bits nibbles assert_ub_def pps_req_body_def)
qed


definition tx_room :: "bytes \<Rightarrow> u16 \<Rightarrow> bool" where
  "tx_room tx tx_len \<longleftrightarrow> SWICC_PPS_LEN_MAX \<le> unat tx_len \<and> unat tx_len \<le> length tx"

lemma pps_deparse_params_of:
  assumes "\<not> (bit pps0 4 \<and> pps1 = 0x11)" and "tx_room tx tx_len"
  shows "pps_deparse (pps_taken pps0 pps1 pps2 p) pps0 tx tx_len =
    Some (SWICC_RET_SUCCESS,
      pps_req pps0 pps1 pps2 @ drop (length (pps_req pps0 pps1 pps2)) tx,
      word_of_nat (length (pps_req pps0 pps1 pps2)))"
proof -
  let ?b = "pps_req_body pps0 pps1 pps2"
  have len: "length ?b \<le> 5" by (rule length_pps_req_body)
  have ck: "swicc_ck ?b (word_of_nat (length ?b)) = Some (xor_all ?b)"
    using swicc_ck_list [of ?b "[]"] len by simp
  have tx: "length ?b + 1 \<le> length tx" "\<not> unat tx_len < length ?b"
    using assms(2) len by (simp_all add: tx_room_def)
  show ?thesis
    using assms(1) tx
    by (simp add: pps_deparse_def pps_body_params_of ck wrn_ok pps_req_def)
qed

lemma pps_accepts:
  assumes "\<not> bit pps0 7" and "\<not> (bit pps0 4 \<and> pps1 = 0x11)" and "tx_room tx tx_len"
  shows "swicc_pps p (pps_req pps0 pps1 pps2 @ rest) (word_of_nat (length (pps_req pps0 pps1 pps2))) tx tx_len =
    Some (SWICC_RET_SUCCESS, pps_taken pps0 pps1 pps2 p,
      pps_req pps0 pps1 pps2 @ drop (length (pps_req pps0 pps1 pps2)) tx,
      word_of_nat (length (pps_req pps0 pps1 pps2)))"
proof -
  let ?r = "pps_req pps0 pps1 pps2"
  have n: "unat (word_of_nat (length ?r) :: u16) = length ?r"
    by (rule unat_of_nat_u16) (use length_pps_req_body [of pps0 pps1 pps2] in \<open>simp add: length_pps_req\<close>)
  have pps0: "rd (?r @ rest) 1 = Some pps0"
    by (simp add: pps_req_def pps_req_body_def rd_def)
  have "length ?r \<le> length tx"
    using assms(3) length_pps_req_body [of pps0 pps1 pps2] by (simp add: length_pps_req tx_room_def)
  then have "pps_xchg_success (?r @ rest) (word_of_nat (length ?r)) (?r @ drop (length ?r) tx)
      (word_of_nat (length ?r)) = Some SWICC_RET_SUCCESS"
    by (simp add: pps_xchg_success_def n rdn_ok)
  then show ?thesis
    using assms pps0 by (simp add: swicc_pps_def pps_parse_req pps_deparse_params_of)
qed

text \<open>
  C33.  A well-formed request (PPS0 with its reserved bit clear, PPS3 zero, a valid check byte) that
  does not spell out the default PPS1 value is accepted: the exchange succeeds and the response is the
  request itself.  The protocol and PPS2 are taken over from the request as the standard reads it; of PPS1
  the two halves are taken over exchanged (the index of Fi becomes that of Di and the other way round),
  which departs from the standard whenever they differ; parameters that are not in the request are kept.
\<close>

theorem pps_accepts_request:
  assumes "\<not> bit pps0 7" and "\<not> (bit pps0 4 \<and> pps1 = 0x11)" and "tx_room tx tx_len"
  shows "swicc_pps p (pps_req pps0 pps1 pps2 @ rest) (word_of_nat (length (pps_req pps0 pps1 pps2))) tx tx_len =
    Some (SWICC_RET_SUCCESS, pps_taken pps0 pps1 pps2 p,
      pps_req pps0 pps1 pps2 @ drop (length (pps_req pps0 pps1 pps2)) tx,
      word_of_nat (length (pps_req pps0 pps1 pps2)))"
  by (rule pps_accepts) (fact assms)+

theorem pps_accepts_request_witness:
  "swicc_pps pps_params_zero (pps_req 0x10 0x94 0 @ []) (word_of_nat (length (pps_req 0x10 0x94 0)))
      (replicate 16 0) 16 =
    Some (SWICC_RET_SUCCESS, pps_taken 0x10 0x94 0 pps_params_zero,
      pps_req 0x10 0x94 0 @ drop (length (pps_req 0x10 0x94 0)) (replicate 16 0),
      word_of_nat (length (pps_req 0x10 0x94 0)))"
  by (rule pps_accepts_request) (simp_all add: tx_room_def)

subsection \<open>Soundness\<close>

lemma pps_parse_success:
  assumes "pps_parse p rx rx_len = Some (SWICC_RET_SUCCESS, p')"
  shows "2 \<le> unat rx_len \<and> unat rx_len \<le> 6 \<and> unat rx_len \<le> length rx \<and> \<not> bit (rx ! 1) 7"
  using assms swicc_ck_overrun [of rx rx_len]
  by (cases "length rx < unat rx_len")
     (auto simp: pps_parse_def u8_and_bits mem_simps bind_Some_iff split: if_splits)

lemma nibble_fits: "(x :: u8) AND 0xF0 = 0 \<Longrightarrow> take_bit 4 x = x"
proof -
  assume "x AND 0xF0 = 0"
  moreover have "x AND (0x0F OR 0xF0) = x" by simp
  ultimately have "x AND 0x0F = x" by (simp only: bit.conj_disj_distrib) simp
  then show ?thesis by (simp add: nibbles)
qed

lemma nibble_join:
  assumes "(d :: u8) AND 0xF0 = 0" "f AND 0xF0 = 0"
  shows "take_bit 4 (push_bit 4 d OR f) = f" "drop_bit 4 (push_bit 4 d OR f) = d"
proof -
  have "take_bit 4 (push_bit 4 d OR take_bit 4 f) = take_bit 4 f"
    by (rule bit_word_eqI) (auto simp: bit_simps)
  moreover have "drop_bit 4 (push_bit 4 (take_bit 4 d) OR take_bit 4 f) = take_bit 4 d"
    by (rule bit_word_eqI) (auto simp: bit_simps)
  ultimately show "take_bit 4 (push_bit 4 d OR f) = f" "drop_bit 4 (push_bit 4 d OR f) = d"
    using assms by (simp_all add: nibble_fits)
qed

lemma bits_and_ef: "bit (x AND (0xEF :: u8)) n \<longleftrightarrow> bit x n \<and> n \<noteq> 4"
proof -
  have ef: "(0xEF :: u8) = NOT (push_bit 4 1)" by simp
  show ?thesis unfolding ef by (simp only: bit_simps) (auto dest: bit_imp_le_length)
qed

lemma pps_body_form:
  assumes "pps_body p pps0 = Some body" and "\<not> bit pps0 7"
  shows "\<exists>a b c. body = pps_req_body a b c \<and> \<not> bit a 7 \<and> \<not> (bit a 4 \<and> b = 0x11)"
proof (cases "(pps_fi_idx p = 1 \<and> pps_di_idx p = 1) \<or> \<not> bit pps0 4")
  case True
  then have "body = pps_req_body (pps0 AND 0xEF) 0 (pps_spu p)"
    using assms(1) by (auto simp: pps_body_def pps_req_body_def u8_and_bits bits_and_ef)
  then show ?thesis using assms(2) by (metis bits_and_ef)
next
  case False
  let ?b = "push_bit 4 (pps_di_idx p) OR pps_fi_idx p"
  have z: "pps_di_idx p AND 0xF0 = 0" "pps_fi_idx p AND 0xF0 = 0"
    and body: "body = pps_req_body pps0 ?b (pps_spu p)"
    using assms(1) False
    by (auto simp: pps_body_def pps_req_body_def u8_and_bits assert_ub_def bind_Some_iff split: if_splits)
  have "take_bit 4 (0x11 :: u8) = 1" "drop_bit 4 (0x11 :: u8) = 1" by simp_all
  then have "?b \<noteq> 0x11" using nibble_join [OF z] False by metis
  with body assms(2) show ?thesis by blast
qed

lemma pps_success_form:
  assumes "swicc_pps p rx rx_len tx tx_len = Some (SWICC_RET_SUCCESS, p', tx', tx_len')"
  shows "\<exists>a b c. take (unat rx_len) rx = pps_req a b c \<and> unat rx_len \<le> length rx \<and>
    \<not> bit a 7 \<and> \<not> (bit a 4 \<and> b = 0x11)"
proof -
  obtain pa pps0 where parse: "pps_parse p rx rx_len = Some (SWICC_RET_SUCCESS, pa)"
    and pps0: "rd rx 1 = Some pps0"
    and dep: "pps_deparse pa pps0 tx tx_len = Some (SWICC_RET_SUCCESS, tx', tx_len')"
    and x: "pps_xchg_success rx rx_len tx' tx_len' = Some SWICC_RET_SUCCESS"
    using assms by (auto simp: swicc_pps_def bind_Some_iff split: if_splits)
  note len = pps_parse_success [OF parse]
  have bit7: "\<not> bit pps0 7" using len pps0 by (simp add: rd_Some)
  obtain body where body: "pps_body pa pps0 = Some body"
    using dep by (auto simp: pps_deparse_def bind_Some_iff)
  then obtain a b c where f: "body = pps_req_body a b c" "\<not> bit a 7" "\<not> (bit a 4 \<and> b = 0x11)"
    using pps_body_form bit7 by blast
  have ck: "swicc_ck body (word_of_nat (length body)) = Some (xor_all body)"
    using swicc_ck_list [of body "[]"] length_pps_req_body(2) [of a b c] f(1) by simp
  have tx': "tx' = pps_req a b c @ drop (length (pps_req a b c)) tx"
    and n: "tx_len' = word_of_nat (length (pps_req a b c))"
    using dep ck f(1)
    by (auto simp: pps_deparse_def body mem_simps pps_req_def bind_Some_iff split: if_splits)
  have "unat tx_len' = length (pps_req a b c)"
    unfolding n by (rule unat_of_nat_u16)
      (use length_pps_req_body(2) [of a b c] in \<open>simp add: length_pps_req\<close>)
  then have "take (unat rx_len) rx = pps_req a b c"
    using x tx' by (auto simp: pps_xchg_success_def mem_simps bind_Some_iff split: if_splits)
  with len f show ?thesis by blast
qed

text \<open>
  C31.  Nothing else is accepted: if the exchange succeeds, the request received was a well-formed
  one without the default PPS1 value, the bytes sent are the bytes received, and the parameters of the
  card are those of that request with Fi and Di exchanged: the card reads the halves of PPS1 the other way
  round than the standard, while it still answers as if it had agreed to what was proposed.
\<close>

theorem pps_accepts_only_requests:
  assumes ok: "swicc_pps p rx rx_len tx tx_len = Some (SWICC_RET_SUCCESS, p', tx', tx_len')"
    and room: "tx_room tx tx_len"
  shows "\<exists>pps0 pps1 pps2. take (unat rx_len) rx = pps_req pps0 pps1 pps2 \<and> \<not> bit pps0 7 \<and>
    \<not> (bit pps0 4 \<and> pps1 = 0x11) \<and> p' = pps_taken pps0 pps1 pps2 p \<and>
    tx_len' = rx_len \<and> take (unat tx_len') tx' = take (unat rx_len) rx"
proof -
  obtain a b c where f: "take (unat rx_len) rx = pps_req a b c" "unat rx_len \<le> length rx"
    "\<not> bit a 7" "\<not> (bit a 4 \<and> b = 0x11)"
    using pps_success_form [OF ok] by blast
  have n: "length (pps_req a b c) = unat rx_len" using f(1,2) by (metis length_take min.absorb2)
  have rx: "rx = pps_req a b c @ drop (unat rx_len) rx"
    using f(1) by (metis append_take_drop_id)
  have "swicc_pps p rx rx_len tx tx_len = Some (SWICC_RET_SUCCESS, pps_taken a b c p,
      pps_req a b c @ drop (length (pps_req a b c)) tx, rx_len)"
    using pps_accepts [OF f(3,4) room, of p c "drop (unat rx_len) rx"]
    unfolding rx [symmetric] n by simp
  with ok have r: "p' = pps_taken a b c p" "tx' = pps_req a b c @ drop (length (pps_req a b c)) tx"
    "tx_len' = rx_len" by simp_all
  show ?thesis
    by (rule exI [of _ a], rule exI [of _ b], rule exI [of _ c]) (use f n r in auto)
qed

theorem pps_accepts_only_requests_witness:
  "\<exists>pps0 pps1 pps2. [0xFF, 0x10, 0x94, 0x7B] = pps_req pps0 pps1 pps2"
proof -
  have "swicc_pps pps_params_zero [0xFF, 0x10, 0x94, 0x7B, 0] 4 (replicate 8 0) 6 =
      Some (SWICC_RET_SUCCESS, pps_params_zero\<lparr>pps_fi_idx := 4, pps_di_idx := 9\<rparr>,
        [0xFF, 0x10, 0x94, 0x7B, 0, 0, 0, 0], 4)"
    by code_simp
  from pps_accepts_only_requests [OF this] show ?thesis
    by (auto simp: tx_room_def)
qed


subsection \<open>Definedness\<close>

text \<open>
  The state machine hands over a request of at most six bytes that it has received completely; then
  nothing can go wrong in memory, whatever the bytes are.
\<close>

lemma pps_parse_loop_defined:
  "nxt \<le> rx_len \<Longrightarrow> rx_len \<le> length rx \<Longrightarrow>
     \<exists>r. pps_parse_loop k i msk nxt pps0 rx rx_len p = Some r"
  by (induction k arbitrary: i msk nxt p) (auto simp: rd_ok)

lemma pps_parse_defined:
  assumes "unat rx_len \<le> length rx"
  shows "\<exists>r. pps_parse p rx rx_len = Some r"
proof (cases "2 \<le> unat rx_len")
  case True
  obtain r where "pps_parse_loop 3 1 0x10 2 (rx ! 1) rx (unat rx_len) p = Some r"
    using True assms pps_parse_loop_defined [of 2 "unat rx_len" rx 3 1 "0x10" "rx ! 1" p] by blast
  moreover have "0 < length rx" "1 < length rx" using True assms by linarith+
  ultimately show ?thesis
    using assms by (cases r) (simp add: pps_parse_def rd_ok swicc_ck_eq del: One_nat_def)
qed (simp add: pps_parse_def)

lemma pps_loop_nibbles:
  assumes "pps_parse_loop k i msk nxt pps0 rx rx_len p = Some (r, p')"
    and "pps_fi_idx p AND 0xF0 = 0" "pps_di_idx p AND 0xF0 = 0"
  shows "pps_fi_idx p' AND 0xF0 = 0 \<and> pps_di_idx p' AND 0xF0 = 0"
  using assms
  by (induction k arbitrary: i msk nxt p)
     (fastforce simp: bind_Some_iff nibbles split: if_splits)+

end
