(* ===== verification/Swicc_Dato.thy ===== *)
theory Swicc_Dato
  imports Swicc_Common
begin

text \<open>
  \<^verbatim>\<open>include/swicc/dato.h\<close> and \<^verbatim>\<open>src/dato.c\<close>: BER-TLV data objects.  The decoder walks over a buffer
  from the front, the encoder fills its buffer from the end towards the front.

  A decoder's pointer is the list of the bytes from there to the end of the memory it points into;
  \<open>dec_len\<close> is the length it was told.  An encoder and the encoders nested in it share one buffer,
  so its memory is threaded through the operations on its own; an encoder with a NULL buffer
  (\<open>enc_null\<close>) counts without writing.
\<close>

section \<open>Data types\<close>

abbreviation SWICC_DATO_BERTLV_TAG_LEN_MAX :: nat where "SWICC_DATO_BERTLV_TAG_LEN_MAX \<equiv> 3"
abbreviation SWICC_DATO_BERTLV_LEN_LEN_MAX :: nat where "SWICC_DATO_BERTLV_LEN_LEN_MAX \<equiv> 5"

datatype swicc_dato_bertlv_tag_cla =
    SWICC_DATO_BERTLV_TAG_CLA_INVALID
  | SWICC_DATO_BERTLV_TAG_CLA_UNIVERSAL
  | SWICC_DATO_BERTLV_TAG_CLA_APPLICATION
  | SWICC_DATO_BERTLV_TAG_CLA_CONTEXT_SPECIFIC
  | SWICC_DATO_BERTLV_TAG_CLA_PRIVATE

datatype swicc_dato_bertlv_len_form =
    SWICC_DATO_BERTLV_LEN_FORM_INVALID
  | SWICC_DATO_BERTLV_LEN_FORM_DEFINITE_SHORT
  | SWICC_DATO_BERTLV_LEN_FORM_DEFINITE_LONG
  | SWICC_DATO_BERTLV_LEN_FORM_INDEFINITE
  | SWICC_DATO_BERTLV_LEN_FORM_RFU

record swicc_dato_bertlv_tag =
  tag_num :: u32
  tag_cla :: swicc_dato_bertlv_tag_cla
  tag_pc :: bool

record swicc_dato_bertlv_len =
  tlv_len_val :: u32
  tlv_len_form :: swicc_dato_bertlv_len_form

record swicc_dato_bertlv =
  tlv_tag :: swicc_dato_bertlv_tag
  tlv_len :: swicc_dato_bertlv_len

record swicc_dato_bertlv_dec =
  dec_buf :: bytes
  dec_len :: u32
  dec_offset :: u32
  dec_cur_len_hdr :: u32
  dec_cur :: swicc_dato_bertlv

record swicc_dato_bertlv_enc =
  enc_null :: bool
  enc_len :: u32
  enc_size :: u32
  enc_len_val :: u32
  enc_offset :: u32

section \<open>Decoder\<close>

text \<open>
  The loop over the bytes of a tag in long form; \<open>tag_len\<close> is 1 or 2 in it, so the shift is by 0 or
  7 bits.  The result holds the return code, the tag as far as it was parsed and the tag length.
\<close>

fun tag_long_loop ::
    "nat \<Rightarrow> bytes \<Rightarrow> u32 \<Rightarrow> nat \<Rightarrow> swicc_dato_bertlv_tag \<Rightarrow>
      (swicc_ret \<times> swicc_dato_bertlv_tag \<times> u32) option" where
  "tag_long_loop 0 buf sz tag_len tag = Some (SWICC_RET_ERROR, tag, word_of_nat tag_len)"
| "tag_long_loop (Suc k) buf sz tag_len tag =
     (if word_of_nat tag_len \<ge> sz then Some (SWICC_RET_DATO_END, tag, word_of_nat tag_len)
      else do {
        b \<leftarrow> rd buf tag_len;
        let tag' = tag\<lparr>tag_num := tag_num tag OR push_bit ((tag_len - 1) * 7) (ucast (b AND 0x7F))\<rparr>;
        if b AND 0x80 = 0 then Some (SWICC_RET_SUCCESS, tag', word_of_nat (tag_len + 1))
        else tag_long_loop k buf sz (tag_len + 1) tag' })"

definition tag_cla_of :: "u8 \<Rightarrow> swicc_dato_bertlv_tag_cla" where
  "tag_cla_of b0 =
     (let cla = drop_bit 6 (b0 AND 0xC0) in
      if cla = 0 then SWICC_DATO_BERTLV_TAG_CLA_UNIVERSAL
      else if cla = 1 then SWICC_DATO_BERTLV_TAG_CLA_APPLICATION
      else if cla = 2 then SWICC_DATO_BERTLV_TAG_CLA_CONTEXT_SPECIFIC
      else if cla = 3 then SWICC_DATO_BERTLV_TAG_CLA_PRIVATE
      else SWICC_DATO_BERTLV_TAG_CLA_INVALID)"

definition bertlv_hdr_tag_prs ::
    "swicc_dato_bertlv_tag \<Rightarrow> bytes \<Rightarrow> u32 \<Rightarrow> (swicc_ret \<times> swicc_dato_bertlv_tag \<times> u32) option" where
  "bertlv_hdr_tag_prs tag buf sz = do {
     b0 \<leftarrow> rd buf 0;
     let tag1 = tag\<lparr>tag_cla := tag_cla_of b0, tag_pc := (b0 AND 0x20 \<noteq> 0)\<rparr>;
     let num_b0 = b0 AND 0x1F;
     if num_b0 = 0x1F then
       tag_long_loop (SWICC_DATO_BERTLV_TAG_LEN_MAX - 1) buf sz 1 (tag1\<lparr>tag_num := 0\<rparr>)
     else Some (SWICC_RET_SUCCESS, tag1\<lparr>tag_num := ucast num_b0\<rparr>, 1) }"

text \<open>
  The loop over the length bytes of the long form, from \<open>len_idx\<close> up to \<open>len_len\<close> (not included);
  \<open>len_len\<close> is at most 5, so the shift is by at most 21 bits and stays inside an int.
\<close>

fun len_long_loop ::
    "nat \<Rightarrow> nat \<Rightarrow> bytes \<Rightarrow> u32 \<Rightarrow> u32 \<Rightarrow> u32 \<Rightarrow> (swicc_ret \<times> u32 \<times> u32) option" where
  "len_long_loop 0 len_idx buf buf_len hdr_len val = Some (SWICC_RET_SUCCESS, val, hdr_len)"
| "len_long_loop (Suc k) len_idx buf buf_len hdr_len val =
     (if buf_len < hdr_len then Some (SWICC_RET_DATO_END, val, hdr_len)
      else do {
        b \<leftarrow> rd buf (unat hdr_len);
        len_long_loop k (len_idx + 1) buf buf_len (hdr_len + 1)
          (val OR push_bit ((len_idx - 1) * 7) (ucast b)) })"

definition bertlv_hdr_prs ::
    "swicc_dato_bertlv \<Rightarrow> u32 \<Rightarrow> bytes \<Rightarrow> u32 \<Rightarrow> (swicc_ret \<times> swicc_dato_bertlv \<times> u32) option" where
  "bertlv_hdr_prs tlv hdr_len0 buf buf_len =
     (if buf_len < 1 then Some (SWICC_RET_DATO_END, tlv, hdr_len0)
      else do {
        (ret, tag, tag_len) \<leftarrow> bertlv_hdr_tag_prs (tlv_tag tlv) buf buf_len;
        let tlv1 = tlv\<lparr>tlv_tag := tag\<rparr>;
        if ret \<noteq> SWICC_RET_SUCCESS then Some (ret, tlv1, 0)
        else do {
          len_b0 \<leftarrow> rd buf (unat tag_len);
          let hdr_len = tag_len + 1;
          let val = ucast (len_b0 AND 0x7F);
          if len_b0 AND 0x80 = 0 then
            Some (SWICC_RET_SUCCESS,
              tlv1\<lparr>tlv_len := \<lparr>tlv_len_val = val,
                tlv_len_form = SWICC_DATO_BERTLV_LEN_FORM_DEFINITE_SHORT\<rparr>\<rparr>, hdr_len)
          else if len_b0 AND 0x7F = 0 then
            Some (SWICC_RET_ERROR,
              tlv1\<lparr>tlv_len := \<lparr>tlv_len_val = val,
                tlv_len_form = SWICC_DATO_BERTLV_LEN_FORM_INDEFINITE\<rparr>\<rparr>, hdr_len)
          else if len_b0 AND 0x7F = 127 then
            Some (SWICC_RET_ERROR,
              tlv1\<lparr>tlv_len := \<lparr>tlv_len_val = val,
                tlv_len_form = SWICC_DATO_BERTLV_LEN_FORM_RFU\<rparr>\<rparr>, hdr_len)
          else do {
            let len_len = unat (len_b0 AND 0x7F);
            let long = (\<lambda>v. tlv1\<lparr>tlv_len := \<lparr>tlv_len_val = v,
                tlv_len_form = SWICC_DATO_BERTLV_LEN_FORM_DEFINITE_LONG\<rparr>\<rparr>);
            if len_len > SWICC_DATO_BERTLV_LEN_LEN_MAX
            then Some (SWICC_RET_ERROR, long val, hdr_len)
            else do {
              (ret, val', hdr_len') \<leftarrow> len_long_loop (len_len - 1) 1 buf buf_len hdr_len val;
              Some (ret, long val', hdr_len') } } } })"

text \<open>A tag written as an integer is read from the integer's bytes in memory.\<close>

definition swicc_dato_bertlv_tag_create ::
    "swicc_dato_bertlv_tag \<Rightarrow> u32 \<Rightarrow> (swicc_ret \<times> swicc_dato_bertlv_tag) option" where
  "swicc_dato_bertlv_tag_create out tag = do {
     (ret, out', _) \<leftarrow> bertlv_hdr_tag_prs out (le32_put tag) 4;
     Some (ret, out') }"

definition bertlv_zero :: swicc_dato_bertlv where
  "bertlv_zero =
     \<lparr>tlv_tag = \<lparr>tag_num = 0, tag_cla = SWICC_DATO_BERTLV_TAG_CLA_INVALID, tag_pc = False\<rparr>,
      tlv_len = \<lparr>tlv_len_val = 0, tlv_len_form = SWICC_DATO_BERTLV_LEN_FORM_INVALID\<rparr>\<rparr>"

definition swicc_dato_bertlv_dec_init :: "bytes \<Rightarrow> u32 \<Rightarrow> swicc_dato_bertlv_dec" where
  "swicc_dato_bertlv_dec_init buf len =
     \<lparr>dec_buf = buf, dec_len = len, dec_offset = 0, dec_cur_len_hdr = 0, dec_cur = bertlv_zero\<rparr>"

text \<open>The result holds the decoder of the current value and the current data object, when there is one.\<close>

definition swicc_dato_bertlv_dec_cur ::
    "swicc_dato_bertlv_dec \<Rightarrow> (swicc_ret \<times> (swicc_dato_bertlv_dec \<times> swicc_dato_bertlv) option) option" where
  "swicc_dato_bertlv_dec_cur d =
     (if dec_offset d = 0 then Some (SWICC_RET_ERROR, None)
      else do {
        let len = tlv_len_val (tlv_len (dec_cur d));
        let off = unat (dec_offset d - len);
        assert_ub (off \<le> length (dec_buf d));
        Some (SWICC_RET_SUCCESS,
          Some (swicc_dato_bertlv_dec_init (drop off (dec_buf d)) len, dec_cur d)) })"

definition swicc_dato_bertlv_dec_next ::
    "swicc_dato_bertlv_dec \<Rightarrow> (swicc_ret \<times> swicc_dato_bertlv_dec) option" where
  "swicc_dato_bertlv_dec_next d =
     (if dec_offset d \<ge> dec_len d then Some (SWICC_RET_DATO_END, d)
      else do {
        (ret, cur, hdr_len) \<leftarrow> bertlv_hdr_prs (dec_cur d) (dec_cur_len_hdr d)
          (drop (unat (dec_offset d)) (dec_buf d)) (dec_len d - dec_offset d);
        let d' = d\<lparr>dec_cur := cur, dec_cur_len_hdr := hdr_len\<rparr>;
        Some (ret,
          if ret = SWICC_RET_SUCCESS
          then d'\<lparr>dec_offset := dec_offset d + (hdr_len + tlv_len_val (tlv_len cur))\<rparr> else d') })"


section \<open>Encoder\<close>

text \<open>
  The two loops of \<^verbatim>\<open>bertlv_hdr_deprs\<close> that take a number apart: \<open>raw\<close> is the array, \<open>zero_cnt\<close> the
  number of zero bytes at the more significant end so far.  The indices \<open>5 - len_len\<close> and
  \<open>3 - tag_len\<close> stay inside the arrays.
\<close>

definition len_raw_step :: "u32 \<Rightarrow> nat \<Rightarrow> bytes \<times> nat \<Rightarrow> bytes \<times> nat" where
  "len_raw_step val len_len = (\<lambda>(raw, zero_cnt).
     let b = ucast (drop_bit (8 * (len_len - 1)) val AND 0xFF) in
     (raw[SWICC_DATO_BERTLV_LEN_LEN_MAX - len_len := b], if b = 0 then zero_cnt + 1 else 0))"

text \<open>The raw length field and its length; \<^term>\<open>None\<close> is an access outside the arrays.\<close>

definition len_raw_of :: "swicc_dato_bertlv_len \<Rightarrow> (bytes \<times> nat) option" where
  "len_raw_of l =
     (if tlv_len_form l = SWICC_DATO_BERTLV_LEN_FORM_DEFINITE_SHORT then
        Some ([ucast (tlv_len_val l), 0, 0, 0, 0], 1)
      else do {
        let (raw, zero_cnt) = fold (len_raw_step (tlv_len_val l)) [1, 2, 3, 4] (replicate 5 0, 0);
        let len_len = SWICC_DATO_BERTLV_LEN_LEN_MAX - zero_cnt;
        moved \<leftarrow> rdn raw (1 + (SWICC_DATO_BERTLV_LEN_LEN_MAX - len_len)) (len_len - 1);
        raw1 \<leftarrow> wrn raw 1 moved;
        raw2 \<leftarrow> wrn raw1 0 [0x80 OR word_of_nat (len_len - 1)];
        Some (raw2, len_len) })"

definition tag_raw_step :: "u32 \<Rightarrow> nat \<Rightarrow> bytes \<times> nat \<Rightarrow> bytes \<times> nat" where
  "tag_raw_step num tag_len = (\<lambda>(raw, zero_cnt).
     let b = ucast (drop_bit (7 * (tag_len - 1)) num AND 0x7F) in
     (raw[SWICC_DATO_BERTLV_TAG_LEN_MAX - tag_len := b], if b = 0 then zero_cnt + 1 else 0))"

text \<open>
  The loop that marks all but the last byte of a long tag.  Its bound is an unsigned difference:
  when all the bytes were trimmed (\<open>tag_len\<close> is 1) it is huge, and the loop runs out of the array.
\<close>

fun tag_mark_loop :: "nat \<Rightarrow> nat \<Rightarrow> u32 \<Rightarrow> bytes \<Rightarrow> (swicc_ret \<times> bytes) option" where
  "tag_mark_loop 0 tag_idx bound raw = None"
| "tag_mark_loop (Suc k) tag_idx bound raw =
     (if word_of_nat tag_idx < bound then do {
        b \<leftarrow> rd raw (1 + tag_idx);
        if b AND 0x80 \<noteq> 0 then Some (SWICC_RET_ERROR, raw)
        else do {
          raw' \<leftarrow> wrn raw (1 + tag_idx) [b OR 0x80];
          tag_mark_loop k (tag_idx + 1) bound raw' } }
      else Some (SWICC_RET_SUCCESS, raw))"

definition tag_cla_bits :: "swicc_dato_bertlv_tag_cla \<Rightarrow> u8 option" where
  "tag_cla_bits cla = (case cla of
       SWICC_DATO_BERTLV_TAG_CLA_UNIVERSAL \<Rightarrow> Some 0
     | SWICC_DATO_BERTLV_TAG_CLA_APPLICATION \<Rightarrow> Some 0x40
     | SWICC_DATO_BERTLV_TAG_CLA_CONTEXT_SPECIFIC \<Rightarrow> Some 0x80
     | SWICC_DATO_BERTLV_TAG_CLA_PRIVATE \<Rightarrow> Some 0xC0
     | _ \<Rightarrow> None)"

text \<open>
  The array has three bytes, so the marking loop leaves it after at most three rounds; the loop
  counter \<open>4\<close> is never used up.
\<close>

definition tag_raw_of :: "u8 \<Rightarrow> bool \<Rightarrow> u32 \<Rightarrow> (swicc_ret \<times> bytes \<times> nat) option" where
  "tag_raw_of cla_bits pc num =
     (let b0 = cla_bits OR (if pc then 0x20 else 0) in
      if num > 30 then do {
        let (raw, zero_cnt) = fold (tag_raw_step num) [1, 2] ([b0 OR 0x1F, 0, 0], 0);
        let tag_len = SWICC_DATO_BERTLV_TAG_LEN_MAX - zero_cnt;
        moved \<leftarrow> rdn raw (1 + (SWICC_DATO_BERTLV_TAG_LEN_MAX - tag_len)) (tag_len - 1);
        raw1 \<leftarrow> wrn raw 1 moved;
        (ret, raw2) \<leftarrow> tag_mark_loop 4 0 (word_of_nat tag_len - 1 - 1) raw1;
        Some (ret, raw2, tag_len) }
      else Some (SWICC_RET_SUCCESS, [b0 OR ucast num, 0, 0], 1))"

definition bertlv_hdr_deprs ::
    "swicc_dato_bertlv \<Rightarrow> bool \<Rightarrow> bytes \<Rightarrow> u32 \<Rightarrow> (swicc_ret \<times> bytes \<times> u32) option" where
  "bertlv_hdr_deprs tlv dry_run mem len =
     (if tlv_len_form (tlv_len tlv) = SWICC_DATO_BERTLV_LEN_FORM_INVALID \<or>
         tag_cla (tlv_tag tlv) = SWICC_DATO_BERTLV_TAG_CLA_INVALID
      then Some (SWICC_RET_PARAM_BAD, mem, len)
      else do {
        let buf_len = len;
        (len_raw, len_len) \<leftarrow> len_raw_of (tlv_len tlv);
        if \<not> dry_run \<and> word_of_nat len_len > buf_len then Some (SWICC_RET_BUFFER_TOO_SHORT, mem, 0)
        else do {
          let len1 = word_of_nat len_len;
          mem1 \<leftarrow> (if dry_run then Some mem
                   else wrn mem (unat (buf_len - len1)) (take len_len len_raw));
          case tag_cla_bits (tag_cla (tlv_tag tlv)) of
            None \<Rightarrow> Some (SWICC_RET_ERROR, mem1, len1)
          | Some cla_bits \<Rightarrow> do {
              (ret, tag_raw, tag_len) \<leftarrow> tag_raw_of cla_bits (tag_pc (tlv_tag tlv)) (tag_num (tlv_tag tlv));
              if ret \<noteq> SWICC_RET_SUCCESS then Some (ret, mem1, len1)
              else if \<not> dry_run \<and> word_of_nat tag_len > buf_len - len1
              then Some (SWICC_RET_BUFFER_TOO_SHORT, mem1, len1)
              else do {
                let len2 = len1 + word_of_nat tag_len;
                mem2 \<leftarrow> (if dry_run then Some mem1
                         else wrn mem1 (unat (buf_len - len2)) (take tag_len tag_raw));
                Some (SWICC_RET_SUCCESS, mem2, len2) } } } })"

definition swicc_dato_bertlv_enc_init :: "bool \<Rightarrow> u32 \<Rightarrow> swicc_dato_bertlv_enc" where
  "swicc_dato_bertlv_enc_init null buf_size =
     (let sz = (if null then - 1 else buf_size) in
      \<lparr>enc_null = null, enc_len = 0, enc_size = sz, enc_len_val = 0, enc_offset = sz\<rparr>)"

text \<open>The results hold the encoders as the calls leave them; the nested one is set up on success only.\<close>

definition swicc_dato_bertlv_enc_nstd_start ::
    "swicc_dato_bertlv_enc \<Rightarrow> swicc_dato_bertlv_enc \<Rightarrow> swicc_ret \<times> swicc_dato_bertlv_enc" where
  "swicc_dato_bertlv_enc_nstd_start e nstd =
     (if enc_len_val e \<noteq> 0 then (SWICC_RET_ERROR, nstd)
      else (SWICC_RET_SUCCESS, swicc_dato_bertlv_enc_init (enc_null e) (enc_size e - enc_len e)))"

definition swicc_dato_bertlv_enc_nstd_end ::
    "swicc_dato_bertlv_enc \<Rightarrow> swicc_dato_bertlv_enc \<Rightarrow> swicc_ret \<times> swicc_dato_bertlv_enc" where
  "swicc_dato_bertlv_enc_nstd_end e nstd =
     (if enc_len_val e \<noteq> 0 then (SWICC_RET_ERROR, e)
      else (SWICC_RET_SUCCESS,
        e\<lparr>enc_len := enc_len e + enc_len nstd, enc_len_val := enc_len nstd,
          enc_offset := enc_offset e - enc_len nstd\<rparr>))"

text \<open>Every 32-bit length has a form, so the last \<^verbatim>\<open>else\<close> of the form selection is never reached.\<close>

definition swicc_dato_bertlv_enc_hdr ::
    "swicc_dato_bertlv_enc \<Rightarrow> bytes \<Rightarrow> swicc_dato_bertlv_tag \<Rightarrow>
      (swicc_ret \<times> swicc_dato_bertlv_enc \<times> bytes) option" where
  "swicc_dato_bertlv_enc_hdr e mem tag = do {
     let len = enc_len_val e;
     let form = (if len \<le> 127 then SWICC_DATO_BERTLV_LEN_FORM_DEFINITE_SHORT
                 else SWICC_DATO_BERTLV_LEN_FORM_DEFINITE_LONG);
     (ret, mem', len_hdr) \<leftarrow> bertlv_hdr_deprs
        \<lparr>tlv_tag = tag, tlv_len = \<lparr>tlv_len_val = len, tlv_len_form = form\<rparr>\<rparr>
        (enc_null e) mem (enc_size e - enc_len e);
     Some (ret,
       if ret = SWICC_RET_SUCCESS
       then e\<lparr>enc_len := enc_len e + len_hdr, enc_offset := enc_offset e - len_hdr, enc_len_val := 0\<rparr>
       else e, mem') }"

definition swicc_dato_bertlv_enc_data ::
    "swicc_dato_bertlv_enc \<Rightarrow> bytes \<Rightarrow> bytes \<Rightarrow> u32 \<Rightarrow>
      (swicc_ret \<times> swicc_dato_bertlv_enc \<times> bytes) option" where
  "swicc_dato_bertlv_enc_data e mem data data_len =
     (if enc_offset e < data_len then Some (SWICC_RET_BUFFER_TOO_SHORT, e, mem)
      else do {
        let e' = e\<lparr>enc_offset := enc_offset e - data_len, enc_len_val := enc_len_val e + data_len,
                   enc_len := enc_len e + data_len\<rparr>;
        if enc_null e then Some (SWICC_RET_SUCCESS, e', mem)
        else do {
          src \<leftarrow> rdn data 0 (unat data_len);
          mem' \<leftarrow> wrn mem (unat (enc_offset e')) src;
          Some (SWICC_RET_SUCCESS, e', mem') } })"


section \<open>The header as the standard writes it\<close>

text \<open>The length field in its shortest form, and the tag field for tag numbers of up to 14 bits.\<close>

definition be32 :: "u32 \<Rightarrow> bytes" where
  "be32 v = [ucast (drop_bit 24 v), ucast (drop_bit 16 v), ucast (drop_bit 8 v), ucast v]"

definition ber_len :: "u32 \<Rightarrow> bytes" where
  "ber_len v = (if v \<le> 127 then [ucast v]
     else let ds = dropWhile (\<lambda>b. b = 0) (be32 v) in (0x80 OR word_of_nat (length ds)) # ds)"

definition ber_tag :: "swicc_dato_bertlv_tag \<Rightarrow> bytes" where
  "ber_tag t =
     (let b0 = the (tag_cla_bits (tag_cla t)) OR (if tag_pc t then 0x20 else 0); num = tag_num t in
      if num \<le> 30 then [b0 OR ucast num]
      else if num < 128 then [b0 OR 0x1F, ucast num]
      else [b0 OR 0x1F, 0x80 OR ucast (drop_bit 7 num), ucast num AND 0x7F])"

definition tag_ok :: "swicc_dato_bertlv_tag \<Rightarrow> bool" where
  "tag_ok t \<longleftrightarrow> tag_cla t \<noteq> SWICC_DATO_BERTLV_TAG_CLA_INVALID \<and> tag_num t < 2 ^ 14"

definition ber_hdr :: "swicc_dato_bertlv_tag \<Rightarrow> u32 \<Rightarrow> bytes" where
  "ber_hdr t v = ber_tag t @ ber_len v"

lemma ucast_and_ff: "ucast ((x :: u32) AND 0xFF) = (ucast x :: u8)"
proof -
  have ff: "(0xFF :: u32) = mask 8" by (simp add: mask_eq_exp_minus_1)
  show ?thesis unfolding ff by (rule bit_word_eqI) (auto simp: bit_simps)
qed

lemma be32_zero: "be32 v = [0, 0, 0, 0] \<longleftrightarrow> v = 0"
  using ucast_split32 [of v] by (auto simp: be32_def)

lemma length_ber_len: "1 \<le> length (ber_len v)" "length (ber_len v) \<le> 5"
  using length_dropWhile_le [of "\<lambda>b. b = 0" "be32 v"]
  by (auto simp: ber_len_def Let_def be32_def)

lemma length_ber_tag: "1 \<le> length (ber_tag t)" "length (ber_tag t) \<le> 3"
  by (auto simp: ber_tag_def Let_def)

lemma len_raw_of_ber:
  assumes "form = (if v \<le> 127 then SWICC_DATO_BERTLV_LEN_FORM_DEFINITE_SHORT
                   else SWICC_DATO_BERTLV_LEN_FORM_DEFINITE_LONG)"
  shows "\<exists>raw. len_raw_of \<lparr>tlv_len_val = v, tlv_len_form = form\<rparr> = Some (raw, length (ber_len v)) \<and>
    take (length (ber_len v)) raw = ber_len v"
proof (cases "v \<le> 127")
  case True
  then show ?thesis using assms by (simp add: len_raw_of_def ber_len_def)
next
  case False
  then have "be32 v \<noteq> [0, 0, 0, 0]" by (auto simp: be32_zero)
  moreover obtain b3 b2 b1 b0 where b: "ucast (drop_bit 24 v) = (b3 :: u8)" "ucast (drop_bit 16 v) = (b2 :: u8)"
    "ucast (drop_bit 8 v) = (b1 :: u8)" "ucast v = (b0 :: u8)" by blast
  ultimately consider "b3 \<noteq> 0" | "b3 = 0" "b2 \<noteq> 0" | "b3 = 0" "b2 = 0" "b1 \<noteq> 0"
    | "b3 = 0" "b2 = 0" "b1 = 0" "b0 \<noteq> 0" by (auto simp: be32_def)
  moreover have step: "len_raw_step v 1 (raw, z) = (raw[4 := b0], if b0 = 0 then z + 1 else 0)"
    "len_raw_step v 2 (raw, z) = (raw[3 := b1], if b1 = 0 then z + 1 else 0)"
    "len_raw_step v 3 (raw, z) = (raw[2 := b2], if b2 = 0 then z + 1 else 0)"
    "len_raw_step v 4 (raw, z) = (raw[1 := b3], if b3 = 0 then z + 1 else 0)" for raw z
    by (simp_all add: len_raw_step_def ucast_and_ff b)
  moreover have "(replicate 5 0)[4 := b0, 3 := b1, 2 := b2, 1 := b3] = [0, b3, b2, b1, b0]"
    by (simp add: eval_nat_numeral)
  moreover have "be32 v = [b3, b2, b1, b0]" by (simp add: be32_def b)
  ultimately show ?thesis using False assms
    by cases (simp_all add: len_raw_of_def ber_len_def rdn_def wrn_def)
qed


lemma and_7f: "(x :: u32) AND 0x7F = take_bit 7 x" "(y :: u8) AND 0x7F = take_bit 7 y"
  by (simp_all add: take_bit_eq_mask mask_eq_exp_minus_1)

lemma tag_groups:
  assumes "30 < (num :: u32)" and "num < 2 ^ 14"
  defines "hi \<equiv> ucast (drop_bit 7 num AND 0x7F) :: u8" and "lo \<equiv> ucast (num AND 0x7F) :: u8"
  shows "hi = 0 \<longleftrightarrow> num < 128" and "hi = 0 \<Longrightarrow> lo = ucast num" and "hi = 0 \<Longrightarrow> lo \<noteq> 0"
    and "hi = ucast (drop_bit 7 num)" and "lo = ucast num AND 0x7F" and "hi AND 0x80 = 0"
proof -
  have n: "unat num < 16384" "30 < unat num" using assms(1,2) by (simp_all add: word_less_nat_alt)
  have hi: "unat hi = unat num div 128"
  proof -
    have "unat (take_bit 7 (drop_bit 7 num)) = unat num div 128"
      using n by (simp add: drop_bit_eq_div unat_div unat_mod take_bit_eq_mod less_mult_imp_div_less)
    then show ?thesis
      unfolding hi_def and_7f using n
      by (simp add: unsigned_ucast_eq take_bit_eq_mod less_mult_imp_div_less)
  qed
  have lo: "unat lo = unat num mod 128"
    unfolding lo_def and_7f by (simp add: unsigned_ucast_eq take_bit_eq_mod unat_mod mod_mod_cancel)
  show h0: "hi = 0 \<longleftrightarrow> num < 128"
    using hi by (simp add: word_unat_eq_iff word_less_nat_alt div_eq_0_iff)
  show "hi = 0 \<Longrightarrow> lo \<noteq> 0"
    using h0 n lo by (auto simp: word_unat_eq_iff word_less_nat_alt)
  show "hi = 0 \<Longrightarrow> lo = ucast num"
    using h0 lo by (simp add: word_unat_eq_iff word_less_nat_alt unsigned_ucast_eq take_bit_eq_mod)
  have "unat num div 128 < 128" using n by (simp add: less_mult_imp_div_less)
  then show "hi = ucast (drop_bit 7 num)"
    using hi by (simp add: word_unat_eq_iff unsigned_ucast_eq take_bit_eq_mod drop_bit_eq_div unat_div)
  show "lo = ucast num AND 0x7F"
    unfolding lo_def and_7f by (rule bit_word_eqI) (auto simp: bit_simps)
  show "hi AND 0x80 = 0"
    unfolding hi_def and_7f u8_and_bits by (simp add: bit_simps)
qed

lemma tag_raw_fold:
  assumes "ucast (drop_bit 7 num AND 0x7F) = (hi :: u8)" and "ucast (num AND 0x7F) = (lo :: u8)"
  shows "fold (tag_raw_step num) [1, 2] ([x, 0, 0], 0) =
    ([x, hi, lo], if hi = 0 then (if lo = 0 then 2 else 1) else 0)"
  using assms by (simp add: tag_raw_step_def Let_def numeral_2_eq_2)

lemma tag_raw_of_ber:
  assumes "tag_cla_bits cla = Some c" and "num < 2 ^ 14" and "t = \<lparr>tag_num = num, tag_cla = cla, tag_pc = pc\<rparr>"
  shows "\<exists>raw. tag_raw_of c pc num = Some (SWICC_RET_SUCCESS, raw, length (ber_tag t)) \<and>
    take (length (ber_tag t)) raw = ber_tag t"
proof (cases "num \<le> 30")
  case True
  then show ?thesis using assms by (auto simp: tag_raw_of_def ber_tag_def Let_def)
next
  case False
  then have big: "30 < num" by simp
  obtain hi lo where g: "ucast (drop_bit 7 num AND 0x7F) = (hi :: u8)" "ucast (num AND 0x7F) = (lo :: u8)"
    by blast
  note tg = tag_groups [OF big assms(2), unfolded g]
  show ?thesis
    unfolding tag_raw_of_def tag_raw_fold [OF g]
    using assms big tg(1-3) tg(4,5)[symmetric] tg(6)
    by (cases "hi = 0"; cases "lo = 0")
       (simp_all add: ber_tag_def Let_def rdn_def wrn_def rd_def not_le
          eval_nat_numeral or.commute)
qed


section \<open>What an encoder has written\<close>

text \<open>
  The invariant of an encoder: the encoded part is the last \<open>enc_len\<close> bytes of its buffer.  A
  counting encoder has the same counters and no memory.
\<close>

definition enc_wf :: "swicc_dato_bertlv_enc \<Rightarrow> bytes \<Rightarrow> bool" where
  "enc_wf e mem \<longleftrightarrow> enc_len e \<le> enc_size e \<and> enc_offset e = enc_size e - enc_len e \<and>
     enc_len_val e \<le> enc_len e \<and> (\<not> enc_null e \<longrightarrow> unat (enc_size e) \<le> length mem)"

definition enc_content :: "swicc_dato_bertlv_enc \<Rightarrow> bytes \<Rightarrow> bytes" where
  "enc_content e mem = take (unat (enc_len e)) (drop (unat (enc_offset e)) mem)"

definition enc_room :: "swicc_dato_bertlv_enc \<Rightarrow> nat" where
  "enc_room e = unat (enc_size e) - unat (enc_len e)"

text \<open>The encoder after \<open>n\<close> more bytes went in front of the encoded part, and the memory then.\<close>

definition enc_grow :: "swicc_dato_bertlv_enc \<Rightarrow> nat \<Rightarrow> u32 \<Rightarrow> swicc_dato_bertlv_enc" where
  "enc_grow e n lv = e\<lparr>enc_len := enc_len e + word_of_nat n, enc_offset := enc_offset e - word_of_nat n,
     enc_len_val := lv\<rparr>"

definition mem_grow :: "swicc_dato_bertlv_enc \<Rightarrow> bytes \<Rightarrow> bytes \<Rightarrow> bytes" where
  "mem_grow e mem xs =
     (if enc_null e then mem
      else take (unat (enc_offset e) - length xs) mem @ xs @ drop (unat (enc_offset e)) mem)"

lemma enc_offset_room: "enc_wf e mem \<Longrightarrow> unat (enc_offset e) = enc_room e"
  by (simp add: enc_wf_def enc_room_def unat_sub)

lemma enc_room_le: "enc_wf e mem \<Longrightarrow> \<not> enc_null e \<Longrightarrow> enc_room e \<le> length mem"
  by (auto simp: enc_wf_def enc_room_def)

lemma enc_room_less: "enc_room e < 4294967296"
  using unat_u32_less [of "enc_size e"] unfolding enc_room_def by linarith

lemma enc_wf_unat: 
  "enc_wf e mem \<longleftrightarrow> unat (enc_len e) \<le> unat (enc_size e) \<and>
     unat (enc_offset e) = unat (enc_size e) - unat (enc_len e) \<and>
     unat (enc_len_val e) \<le> unat (enc_len e) \<and> (\<not> enc_null e \<longrightarrow> unat (enc_size e) \<le> length mem)"
  by (auto simp: enc_wf_def word_le_nat_alt word_unat_eq_iff unat_sub)

lemma enc_grow_unat:
  assumes "enc_wf e mem" and "n \<le> enc_room e"
  shows "unat (enc_len (enc_grow e n lv)) = unat (enc_len e) + n"
    and "unat (enc_offset (enc_grow e n lv)) = unat (enc_offset e) - n"
    and "enc_size (enc_grow e n lv) = enc_size e" and "enc_null (enc_grow e n lv) = enc_null e"
    and "enc_len_val (enc_grow e n lv) = lv"
proof -
  have n: "unat (word_of_nat n :: u32) = n"
    by (rule unat_of_nat_u32) (use assms(2) enc_room_less [of e] in linarith)
  have "unat (enc_len e) + n < 4294967296"
    using assms unat_u32_less [of "enc_size e"] unfolding enc_wf_unat enc_room_def by linarith
  then show "unat (enc_len (enc_grow e n lv)) = unat (enc_len e) + n"
    by (simp add: enc_grow_def unat_add_u32 n)
  have "word_of_nat n \<le> enc_offset e"
    using assms enc_offset_room [OF assms(1)] by (simp add: word_le_nat_alt n)
  then show "unat (enc_offset (enc_grow e n lv)) = unat (enc_offset e) - n"
    by (simp add: enc_grow_def unat_sub n)
qed (simp_all add: enc_grow_def)

lemma length_mem_grow: "enc_wf e mem \<Longrightarrow> length xs \<le> enc_room e \<Longrightarrow> length (mem_grow e mem xs) = length mem"
  using enc_offset_room [of e mem] enc_room_le [of e mem] by (auto simp: mem_grow_def)

lemma enc_grow_wf:
  assumes "enc_wf e mem" and "length xs \<le> enc_room e" and "unat lv \<le> unat (enc_len e) + length xs"
  shows "enc_wf (enc_grow e (length xs) lv) (mem_grow e mem xs)"
    and "enc_room (enc_grow e (length xs) lv) = enc_room e - length xs"
    and "\<not> enc_null e \<Longrightarrow> enc_content (enc_grow e (length xs) lv) (mem_grow e mem xs) = xs @ enc_content e mem"
proof -
  note u = enc_grow_unat [OF assms(1,2), of lv]
  show "enc_wf (enc_grow e (length xs) lv) (mem_grow e mem xs)"
    using assms by (simp add: enc_wf_unat u length_mem_grow) (auto simp: enc_room_def)
  show "enc_room (enc_grow e (length xs) lv) = enc_room e - length xs"
    by (simp add: enc_room_def u)
  assume nn: "\<not> enc_null e"
  have "unat (enc_offset e) \<le> length mem" "length xs \<le> unat (enc_offset e)"
    using assms enc_offset_room [OF assms(1)] enc_room_le [OF assms(1) nn] by auto
  then show "enc_content (enc_grow e (length xs) lv) (mem_grow e mem xs) = xs @ enc_content e mem"
    using nn by (simp add: enc_content_def u mem_grow_def add.commute)
qed

subsection \<open>Adding data\<close>

lemma enc_data_ok:
  assumes wf: "enc_wf e mem" and fit: "unat n \<le> enc_room e" and src: "unat n \<le> length data"
  shows "swicc_dato_bertlv_enc_data e mem data n =
    Some (SWICC_RET_SUCCESS, enc_grow e (unat n) (enc_len_val e + n), mem_grow e mem (take (unat n) data))"
proof -
  have off: "\<not> enc_offset e < n"
    using fit enc_offset_room [OF wf] by (simp add: word_less_nat_alt)
  have "unat (enc_offset e - n) = unat (enc_offset e) - unat n"
    using off by (simp add: unat_sub word_le_nat_alt not_less)
  moreover have "unat n \<le> unat (enc_offset e)" "\<not> enc_null e \<Longrightarrow> unat (enc_offset e) \<le> length mem"
    using off enc_room_le [OF wf] enc_offset_room [OF wf] by (auto simp: word_less_nat_alt)
  ultimately show ?thesis
    using off src
    by (simp add: swicc_dato_bertlv_enc_data_def rdn_ok wrn_ok enc_grow_def mem_grow_def Let_def)
qed

lemma enc_data_full:
  assumes wf: "enc_wf e mem" and "enc_room e < unat n"
  shows "swicc_dato_bertlv_enc_data e mem data n = Some (SWICC_RET_BUFFER_TOO_SHORT, e, mem)"
  using assms enc_offset_room [OF wf] by (simp add: swicc_dato_bertlv_enc_data_def word_less_nat_alt)


subsection \<open>Adding a header\<close>

lemma tag_cla_bits_ok: "tag_ok t \<Longrightarrow> \<exists>c. tag_cla_bits (tag_cla t) = Some c"
  by (cases "tag_cla t") (auto simp: tag_ok_def tag_cla_bits_def)

lemma hdr_lens:
  "unat (word_of_nat (length (ber_len v)) :: u32) = length (ber_len v)"
  "unat (word_of_nat (length (ber_tag t)) :: u32) = length (ber_tag t)"
  using length_ber_len(2) [of v] length_ber_tag(2) [of t]
  by (auto intro!: unat_of_nat_u32)

lemma length_ber_hdr: "length (ber_hdr t v) \<le> 8"
  using length_ber_len [of v] length_ber_tag [of t] by (simp add: ber_hdr_def)

lemma wrn_twice:
  assumes "length xs + length ys \<le> n" and "n \<le> length mem"
  shows "\<exists>m. wrn mem (n - length ys) ys = Some m \<and>
    wrn m (n - (length xs + length ys)) xs =
      Some (take (n - (length xs + length ys)) mem @ xs @ ys @ drop n mem)"
proof -
  obtain k where n: "n = k + length xs + length ys"
    using assms(1) by (metis add.assoc add.commute le_Suc_ex)
  then show ?thesis using assms(2) by (simp add: wrn_def)
qed

lemma hdr_deprs_ok:
  fixes sz :: u32
  assumes t: "tag_ok t"
    and form: "form = (if v \<le> 127 then SWICC_DATO_BERTLV_LEN_FORM_DEFINITE_SHORT
                       else SWICC_DATO_BERTLV_LEN_FORM_DEFINITE_LONG)"
    and mem: "\<not> dry \<Longrightarrow> unat sz \<le> length mem"
    and fit: "\<not> dry \<Longrightarrow> length (ber_hdr t v) \<le> unat sz"
  shows "bertlv_hdr_deprs \<lparr>tlv_tag = t, tlv_len = \<lparr>tlv_len_val = v, tlv_len_form = form\<rparr>\<rparr> dry mem sz =
    Some (SWICC_RET_SUCCESS,
      if dry then mem
      else take (unat sz - length (ber_hdr t v)) mem @ ber_hdr t v @ drop (unat sz) mem,
      word_of_nat (length (ber_hdr t v)))"
proof -
  let ?L = "ber_len v" and ?T = "ber_tag t"
  obtain lraw where lraw: "len_raw_of \<lparr>tlv_len_val = v, tlv_len_form = form\<rparr> = Some (lraw, length ?L)"
    "take (length ?L) lraw = ?L"
    using len_raw_of_ber [OF form] by blast
  obtain c where c: "tag_cla_bits (tag_cla t) = Some c" using tag_cla_bits_ok [OF t] by blast
  obtain traw where traw: "tag_raw_of c (tag_pc t) (tag_num t) = Some (SWICC_RET_SUCCESS, traw, length ?T)"
    "take (length ?T) traw = ?T"
    using tag_raw_of_ber [OF c, of "tag_num t" t "tag_pc t"] t by (auto simp: tag_ok_def)
  have base: "form \<noteq> SWICC_DATO_BERTLV_LEN_FORM_INVALID" "tag_cla t \<noteq> SWICC_DATO_BERTLV_TAG_CLA_INVALID"
    using form t by (auto simp: tag_ok_def)
  have sum: "word_of_nat (length ?L) + word_of_nat (length ?T) = (word_of_nat (length (ber_hdr t v)) :: u32)"
    by (simp add: ber_hdr_def add.commute)
  show ?thesis
  proof (cases dry)
    case True
    then show ?thesis
      using lraw traw c base sum by (simp add: bertlv_hdr_deprs_def Let_def)
  next
    case False
    note f = fit [OF False] mem [OF False]
    have h: "unat (word_of_nat (length (ber_hdr t v)) :: u32) = length (ber_hdr t v)"
      by (rule unat_of_nat_u32) (use length_ber_hdr [of t v] in linarith)
    have a: "unat (sz - word_of_nat (length ?L)) = unat sz - length ?L"
      using f by (subst unat_sub) (simp_all add: word_le_nat_alt hdr_lens ber_hdr_def)
    have b: "unat (sz - word_of_nat (length (ber_hdr t v))) = unat sz - length (ber_hdr t v)"
      using f by (subst unat_sub) (simp_all add: word_le_nat_alt h)
    have g: "\<not> sz < word_of_nat (length ?L)" "\<not> sz - word_of_nat (length ?L) < word_of_nat (length ?T)"
      using f by (auto simp: word_less_nat_alt hdr_lens ber_hdr_def a)
    show ?thesis
      using False lraw traw c base f g
      by (simp add: bertlv_hdr_deprs_def Let_def sum a b)
         (use wrn_twice [of ?T ?L "unat sz" mem] f in \<open>auto simp: ber_hdr_def\<close>)
  qed
qed


lemma enc_hdr_ok:
  assumes wf: "enc_wf e mem" and t: "tag_ok t" and fit: "length (ber_hdr t (enc_len_val e)) \<le> enc_room e"
  shows "swicc_dato_bertlv_enc_hdr e mem t =
    Some (SWICC_RET_SUCCESS, enc_grow e (length (ber_hdr t (enc_len_val e))) 0,
      mem_grow e mem (ber_hdr t (enc_len_val e)))"
proof -
  have sz: "enc_size e - enc_len e = enc_offset e" and off: "unat (enc_offset e) = enc_room e"
    using wf enc_offset_room [OF wf] by (simp_all add: enc_wf_def)
  have dep: "bertlv_hdr_deprs \<lparr>tlv_tag = t, tlv_len = \<lparr>tlv_len_val = enc_len_val e,
      tlv_len_form = (if enc_len_val e \<le> 127 then SWICC_DATO_BERTLV_LEN_FORM_DEFINITE_SHORT
                      else SWICC_DATO_BERTLV_LEN_FORM_DEFINITE_LONG)\<rparr>\<rparr> (enc_null e) mem (enc_offset e) =
    Some (SWICC_RET_SUCCESS, mem_grow e mem (ber_hdr t (enc_len_val e)),
      word_of_nat (length (ber_hdr t (enc_len_val e))))"
    unfolding mem_grow_def
    by (rule hdr_deprs_ok [OF t refl]) (use enc_room_le [OF wf] fit off in simp_all)
  show ?thesis
    unfolding swicc_dato_bertlv_enc_hdr_def Let_def sz dep by (simp add: enc_grow_def)
qed

lemma hdr_deprs_short:
  fixes sz :: u32
  assumes t: "tag_ok t" and fit: "unat sz < length (ber_hdr t v)" and mem: "unat sz \<le> length mem"
    and form: "form = (if v \<le> 127 then SWICC_DATO_BERTLV_LEN_FORM_DEFINITE_SHORT
                       else SWICC_DATO_BERTLV_LEN_FORM_DEFINITE_LONG)"
  shows "\<exists>m n. bertlv_hdr_deprs \<lparr>tlv_tag = t, tlv_len = \<lparr>tlv_len_val = v, tlv_len_form = form\<rparr>\<rparr> False mem sz =
    Some (SWICC_RET_BUFFER_TOO_SHORT, m, n) \<and> length m = length mem \<and> drop (unat sz) m = drop (unat sz) mem"
proof -
  let ?L = "ber_len v" and ?T = "ber_tag t"
  obtain lraw where lraw: "len_raw_of \<lparr>tlv_len_val = v, tlv_len_form = form\<rparr> = Some (lraw, length ?L)"
    "take (length ?L) lraw = ?L"
    using len_raw_of_ber [OF form] by blast
  obtain c where c: "tag_cla_bits (tag_cla t) = Some c" using tag_cla_bits_ok [OF t] by blast
  obtain traw where traw: "tag_raw_of c (tag_pc t) (tag_num t) = Some (SWICC_RET_SUCCESS, traw, length ?T)"
    using tag_raw_of_ber [OF c, of "tag_num t" t "tag_pc t"] t by (auto simp: tag_ok_def)
  have base: "form \<noteq> SWICC_DATO_BERTLV_LEN_FORM_INVALID" "tag_cla t \<noteq> SWICC_DATO_BERTLV_TAG_CLA_INVALID"
    using form t by (auto simp: tag_ok_def)
  show ?thesis
  proof (cases "unat sz < length ?L")
    case True
    then have "sz < word_of_nat (length ?L)" by (simp add: word_less_nat_alt hdr_lens)
    then show ?thesis using lraw base by (simp add: bertlv_hdr_deprs_def Let_def)
  next
    case False
    have a: "unat (sz - word_of_nat (length ?L)) = unat sz - length ?L"
      using False by (subst unat_sub) (simp_all add: word_le_nat_alt hdr_lens)
    have g: "\<not> sz < word_of_nat (length ?L)" "sz - word_of_nat (length ?L) < word_of_nat (length ?T)"
      using False fit by (auto simp: word_less_nat_alt hdr_lens ber_hdr_def a)
    have w: "wrn mem (unat sz - length ?L) ?L =
        Some (take (unat sz - length ?L) mem @ ?L @ drop (unat sz) mem)"
      using False mem by (simp add: wrn_def)
    show ?thesis
      using lraw traw c base g False mem
      by (simp add: bertlv_hdr_deprs_def Let_def a w)
  qed
qed

lemma enc_hdr_full:
  assumes wf: "enc_wf e mem" and nn: "\<not> enc_null e" and t: "tag_ok t"
    and full: "enc_room e < length (ber_hdr t (enc_len_val e))"
  shows "\<exists>m. swicc_dato_bertlv_enc_hdr e mem t = Some (SWICC_RET_BUFFER_TOO_SHORT, e, m) \<and>
    length m = length mem \<and> drop (unat (enc_offset e)) m = drop (unat (enc_offset e)) mem"
proof -
  have sz: "enc_size e - enc_len e = enc_offset e" and off: "unat (enc_offset e) = enc_room e"
    using wf enc_offset_room [OF wf] by (simp_all add: enc_wf_def)
  obtain m n where "bertlv_hdr_deprs \<lparr>tlv_tag = t, tlv_len = \<lparr>tlv_len_val = enc_len_val e,
      tlv_len_form = (if enc_len_val e \<le> 127 then SWICC_DATO_BERTLV_LEN_FORM_DEFINITE_SHORT
                      else SWICC_DATO_BERTLV_LEN_FORM_DEFINITE_LONG)\<rparr>\<rparr> False mem (enc_offset e) =
      Some (SWICC_RET_BUFFER_TOO_SHORT, m, n)" "length m = length mem"
      "drop (unat (enc_offset e)) m = drop (unat (enc_offset e)) mem"
    using hdr_deprs_short [OF t, of "enc_offset e" "enc_len_val e" mem] full off enc_room_le [OF wf nn] by fastforce
  with nn show ?thesis
    unfolding swicc_dato_bertlv_enc_hdr_def Let_def sz by simp
qed

text \<open>
  C35.  Adding a header to the data object under construction writes the shortest BER header for its
  tag (numbers of up to 14 bits) and for the length of its value directly in front of what is
  encoded already, and touches no other byte; when the header does not fit, the call reports the
  short buffer and neither the encoder nor what is encoded changes.
\<close>

theorem enc_hdr_writes_ber:
  assumes wf: "enc_wf e mem" and nn: "\<not> enc_null e" and t: "tag_ok t"
  shows "\<exists>ret e' mem'. swicc_dato_bertlv_enc_hdr e mem t = Some (ret, e', mem') \<and>
    length mem' = length mem \<and> drop (unat (enc_offset e)) mem' = drop (unat (enc_offset e)) mem \<and>
    (if length (ber_hdr t (enc_len_val e)) \<le> enc_room e
     then ret = SWICC_RET_SUCCESS \<and> enc_wf e' mem' \<and> enc_len_val e' = 0 \<and>
          enc_content e' mem' = ber_hdr t (enc_len_val e) @ enc_content e mem \<and>
          take (unat (enc_offset e')) mem' = take (unat (enc_offset e')) mem
     else ret = SWICC_RET_BUFFER_TOO_SHORT \<and> e' = e)"
proof (cases "length (ber_hdr t (enc_len_val e)) \<le> enc_room e")
  case True
  note g = enc_grow_wf [OF wf True, of 0]
  have l: "unat (enc_offset e) \<le> length mem" "unat (enc_offset e) = enc_room e"
    using enc_offset_room [OF wf] enc_room_le [OF wf nn] by simp_all
  then have "take (unat (enc_offset e) - length (ber_hdr t (enc_len_val e)))
      (mem_grow e mem (ber_hdr t (enc_len_val e))) =
      take (unat (enc_offset e) - length (ber_hdr t (enc_len_val e))) mem"
    using nn by (simp add: mem_grow_def)
  moreover have "drop (unat (enc_offset e)) (mem_grow e mem (ber_hdr t (enc_len_val e))) =
      drop (unat (enc_offset e)) mem"
    using nn l True by (simp add: mem_grow_def)
  ultimately show ?thesis
    using enc_hdr_ok [OF wf t True] g nn True length_mem_grow [OF wf True]
      enc_grow_unat [OF wf True, of 0]
    by simp
next
  case False
  then show ?thesis using enc_hdr_full [OF wf nn t] by fastforce
qed


lemma enc_init_wf:
  "null \<or> unat n \<le> length mem \<Longrightarrow> enc_wf (swicc_dato_bertlv_enc_init null n) mem"
  "enc_len_val (swicc_dato_bertlv_enc_init null n) = 0"
  "enc_content (swicc_dato_bertlv_enc_init null n) mem = []"
  "enc_null (swicc_dato_bertlv_enc_init null n) = null"
  "\<not> null \<Longrightarrow> enc_room (swicc_dato_bertlv_enc_init null n) = unat n"
  "null \<Longrightarrow> enc_room (swicc_dato_bertlv_enc_init null n) = 4294967295"
  by (auto simp: enc_wf_def swicc_dato_bertlv_enc_init_def enc_content_def enc_room_def Let_def
      unsigned_minus_1_eq_mask mask_eq_exp_minus_1)

theorem enc_hdr_writes_ber_witness:
  "\<exists>e' mem'. swicc_dato_bertlv_enc_hdr (swicc_dato_bertlv_enc_init False 4) [1, 2, 3, 4, 5]
      \<lparr>tag_num = 2, tag_cla = SWICC_DATO_BERTLV_TAG_CLA_APPLICATION, tag_pc = True\<rparr>
      = Some (SWICC_RET_SUCCESS, e', mem') \<and> enc_content e' mem' = [0x62, 0x00]"
  using enc_hdr_writes_ber [of "swicc_dato_bertlv_enc_init False 4" "[1, 2, 3, 4, 5]"
      "\<lparr>tag_num = 2, tag_cla = SWICC_DATO_BERTLV_TAG_CLA_APPLICATION, tag_pc = True\<rparr>"]
  by (fastforce simp: enc_init_wf tag_ok_def ber_hdr_def ber_tag_def ber_len_def tag_cla_bits_def)

subsection \<open>Nested data objects\<close>

text \<open>
  A client encodes a data object from its end: a primitive one by adding its value and then its
  header, a constructed one by starting a nested encoder, encoding the members last to first in
  it, ending it and adding the header.
\<close>

datatype tlv = Prim swicc_dato_bertlv_tag bytes | Constr swicc_dato_bertlv_tag "tlv list"

fun ber_tlv :: "tlv \<Rightarrow> bytes" where
  "ber_tlv (Prim t d) = ber_hdr t (word_of_nat (length d)) @ d"
| "ber_tlv (Constr t xs) =
     (let v = concat (map ber_tlv xs) in ber_hdr t (word_of_nat (length v)) @ v)"

fun tlv_ok :: "tlv \<Rightarrow> bool" where
  "tlv_ok (Prim t d) \<longleftrightarrow> tag_ok t"
| "tlv_ok (Constr t xs) \<longleftrightarrow> tag_ok t \<and> list_all tlv_ok xs"

fun enc_tlv :: "swicc_dato_bertlv_enc \<Rightarrow> bytes \<Rightarrow> tlv \<Rightarrow> (swicc_ret \<times> swicc_dato_bertlv_enc \<times> bytes) option"
  and enc_tlvs :: "swicc_dato_bertlv_enc \<Rightarrow> bytes \<Rightarrow> tlv list \<Rightarrow> (swicc_ret \<times> swicc_dato_bertlv_enc \<times> bytes) option"
where
  "enc_tlv e mem (Prim t d) = do {
     (ret, e1, m1) \<leftarrow> swicc_dato_bertlv_enc_data e mem d (word_of_nat (length d));
     if ret \<noteq> SWICC_RET_SUCCESS then Some (ret, e1, m1) else swicc_dato_bertlv_enc_hdr e1 m1 t }"
| "enc_tlv e mem (Constr t xs) =
     (case swicc_dato_bertlv_enc_nstd_start e e of (ret, n) \<Rightarrow>
        if ret \<noteq> SWICC_RET_SUCCESS then Some (ret, e, mem)
        else do {
          (ret, n', m1) \<leftarrow> enc_tlvs n mem xs;
          if ret \<noteq> SWICC_RET_SUCCESS then Some (ret, e, m1)
          else (case swicc_dato_bertlv_enc_nstd_end e n' of (ret, e1) \<Rightarrow>
            if ret \<noteq> SWICC_RET_SUCCESS then Some (ret, e1, m1)
            else swicc_dato_bertlv_enc_hdr e1 m1 t) })"
| "enc_tlvs e mem [] = Some (SWICC_RET_SUCCESS, e, mem)"
| "enc_tlvs e mem (x # xs) = do {
     (ret, e1, m1) \<leftarrow> enc_tlvs e mem xs;
     if ret \<noteq> SWICC_RET_SUCCESS then Some (ret, e1, m1) else enc_tlv e1 m1 x }"

lemma enc_grow_grow: "enc_grow (enc_grow e n lv) k lv' = enc_grow e (n + k) lv'"
  by (simp add: enc_grow_def algebra_simps)

lemma mem_grow_grow:
  assumes wf: "enc_wf e mem" and fit: "length xs + length ys \<le> enc_room e" and lv: "unat lv \<le> unat (enc_len e) + length xs"
  shows "mem_grow (enc_grow e (length xs) lv) (mem_grow e mem xs) ys = mem_grow e mem (ys @ xs)"
proof -
  have fit': "length xs \<le> enc_room e" using fit by simp
  have o1: "unat (enc_offset (enc_grow e (length xs) lv)) = unat (enc_offset e) - length xs"
    by (rule enc_grow_unat(2) [OF wf fit'])
  obtain k where "unat (enc_offset e) = k + length xs + length ys"
    using enc_offset_room [OF wf] fit by (metis add.assoc add.commute le_Suc_ex)
  with o1 show ?thesis
    using enc_room_le [OF wf] enc_offset_room [OF wf] by (auto simp: mem_grow_def enc_grow_def)
qed

lemma mem_grow_nil [simp]: "mem_grow e mem [] = mem"
  by (simp add: mem_grow_def)

lemma enc_grow_0: "enc_len_val e = 0 \<Longrightarrow> enc_grow e 0 0 = e"
  by (simp add: enc_grow_def)

lemma enc_nstd:
  assumes wf: "enc_wf e mem" and lv: "enc_len_val e = 0"
  obtains n where "swicc_dato_bertlv_enc_nstd_start e e = (SWICC_RET_SUCCESS, n)" "enc_wf n mem"
    "enc_len_val n = 0" "enc_room e \<le> enc_room n" "enc_null n = enc_null e"
    "\<And>k. enc_len (enc_grow n k 0) = word_of_nat k" "\<And>ys. mem_grow n mem ys = mem_grow e mem ys"
proof -
  let ?n = "swicc_dato_bertlv_enc_init (enc_null e) (enc_size e - enc_len e)"
  have room: "unat (enc_size e - enc_len e) = enc_room e"
    using enc_offset_room [OF wf] wf by (simp add: enc_wf_def)
  have off: "\<not> enc_null e \<Longrightarrow> enc_offset ?n = enc_offset e"
    using wf by (simp add: enc_wf_def swicc_dato_bertlv_enc_init_def Let_def)
  show ?thesis
  proof (rule that)
    show "enc_wf ?n mem" using room enc_room_le [OF wf] by (intro enc_init_wf) auto
    show "enc_room e \<le> enc_room ?n"
      using room enc_room_less [of e] by (cases "enc_null e") (simp_all add: enc_init_wf)
    show "mem_grow ?n mem ys = mem_grow e mem ys" for ys
      using off by (auto simp: mem_grow_def enc_init_wf)
  qed (simp_all add: swicc_dato_bertlv_enc_nstd_start_def lv enc_init_wf,
       simp add: enc_grow_def swicc_dato_bertlv_enc_init_def Let_def)
qed

lemma enc_nstd_end:
  assumes "enc_len_val e = 0"
  shows "swicc_dato_bertlv_enc_nstd_end e n = (SWICC_RET_SUCCESS, enc_grow e (unat (enc_len n)) (enc_len n))"
  using assms by (simp add: swicc_dato_bertlv_enc_nstd_end_def enc_grow_def)


lemma unat_len_u32: "length xs \<le> enc_room e \<Longrightarrow> unat (word_of_nat (length xs) :: u32) = length xs"
  by (rule unat_of_nat_u32) (use enc_room_less [of e] in linarith)

lemma enc_prim:
  assumes wf: "enc_wf e mem" and lv: "enc_len_val e = 0" and t: "tag_ok t"
    and fit: "length (ber_tlv (Prim t d)) \<le> enc_room e"
  shows "enc_tlv e mem (Prim t d) = Some (SWICC_RET_SUCCESS,
    enc_grow e (length (ber_tlv (Prim t d))) 0, mem_grow e mem (ber_tlv (Prim t d)))"
proof -
  let ?n = "word_of_nat (length d) :: u32"
  let ?e1 = "enc_grow e (length d) ?n" and ?m1 = "mem_grow e mem d"
  have fit1: "length d \<le> enc_room e" using fit by simp
  note n = unat_len_u32 [OF fit1]
  have data: "swicc_dato_bertlv_enc_data e mem d ?n = Some (SWICC_RET_SUCCESS, ?e1, ?m1)"
    using enc_data_ok [OF wf, of ?n d] fit1 lv by (simp add: n)
  have le: "unat ?n \<le> unat (enc_len e) + length d" by (simp add: n)
  note g = enc_grow_wf [OF wf fit1 le]
  have lv1: "enc_len_val ?e1 = ?n" by (simp add: enc_grow_def)
  have fit2: "length (ber_hdr t (enc_len_val ?e1)) \<le> enc_room ?e1"
    using fit fit1 g(2) by (simp add: lv1)
  have "mem_grow ?e1 ?m1 (ber_hdr t ?n) = mem_grow e mem (ber_hdr t ?n @ d)"
    by (rule mem_grow_grow [OF wf]) (use fit le in simp_all)
  then show ?thesis
    using data enc_hdr_ok [OF g(1) t fit2] by (simp add: lv1 enc_grow_grow add.commute)
qed

lemma enc_constr:
  assumes wf: "enc_wf e mem" and lv: "enc_len_val e = 0" and t: "tag_ok t"
    and IH: "\<And>n. enc_wf n mem \<Longrightarrow> enc_len_val n = 0 \<Longrightarrow> length (concat (map ber_tlv xs)) \<le> enc_room n \<Longrightarrow>
      enc_tlvs n mem xs = Some (SWICC_RET_SUCCESS, enc_grow n (length (concat (map ber_tlv xs))) 0,
        mem_grow n mem (concat (map ber_tlv xs)))"
    and fit: "length (ber_tlv (Constr t xs)) \<le> enc_room e"
  shows "enc_tlv e mem (Constr t xs) = Some (SWICC_RET_SUCCESS,
    enc_grow e (length (ber_tlv (Constr t xs))) 0, mem_grow e mem (ber_tlv (Constr t xs)))"
proof -
  let ?v = "concat (map ber_tlv xs)"
  let ?n = "word_of_nat (length ?v) :: u32"
  let ?e1 = "enc_grow e (length ?v) ?n" and ?m1 = "mem_grow e mem ?v"
  have fit1: "length ?v \<le> enc_room e" using fit by (simp add: Let_def)
  note n = unat_len_u32 [OF fit1]
  obtain nst where nst: "swicc_dato_bertlv_enc_nstd_start e e = (SWICC_RET_SUCCESS, nst)" "enc_wf nst mem"
    "enc_len_val nst = 0" "enc_room e \<le> enc_room nst" "\<And>k. enc_len (enc_grow nst k 0) = word_of_nat k"
    "\<And>ys. mem_grow nst mem ys = mem_grow e mem ys"
    using enc_nstd [OF wf lv] by metis
  have sub: "enc_tlvs nst mem xs = Some (SWICC_RET_SUCCESS, enc_grow nst (length ?v) 0, ?m1)"
    using IH [OF nst(2,3)] fit1 nst(4,6) by simp
  have fin: "swicc_dato_bertlv_enc_nstd_end e (enc_grow nst (length ?v) 0) = (SWICC_RET_SUCCESS, ?e1)"
    by (simp add: enc_nstd_end lv nst(5) n)
  have le: "unat ?n \<le> unat (enc_len e) + length ?v" by (simp add: n)
  note g = enc_grow_wf [OF wf fit1 le]
  have lv1: "enc_len_val ?e1 = ?n" by (simp add: enc_grow_def)
  have fit2: "length (ber_hdr t (enc_len_val ?e1)) \<le> enc_room ?e1"
    using fit fit1 g(2) by (simp add: lv1 Let_def)
  have m: "mem_grow ?e1 ?m1 (ber_hdr t ?n) = mem_grow e mem (ber_hdr t ?n @ ?v)"
    by (rule mem_grow_grow [OF wf]) (use fit le in \<open>simp_all add: Let_def\<close>)
  have "enc_tlv e mem (Constr t xs) = swicc_dato_bertlv_enc_hdr ?e1 ?m1 t"
    by (simp only: enc_tlv.simps nst(1) sub fin prod.case bind.bind_lunit option.simps if_False simp_thms)
  also have "\<dots> = Some (SWICC_RET_SUCCESS, enc_grow ?e1 (length (ber_hdr t ?n)) 0, mem_grow ?e1 ?m1 (ber_hdr t ?n))"
    using enc_hdr_ok [OF g(1) t fit2] by (simp only: lv1)
  finally show ?thesis
    unfolding m enc_grow_grow by (simp only: ber_tlv.simps Let_def length_append add.commute)
qed

definition enc_goal :: "swicc_dato_bertlv_enc \<Rightarrow> bytes \<Rightarrow> tlv \<Rightarrow> bool" where
  "enc_goal e mem x \<longleftrightarrow> (enc_wf e mem \<longrightarrow> enc_len_val e = 0 \<longrightarrow> tlv_ok x \<longrightarrow>
     length (ber_tlv x) \<le> enc_room e \<longrightarrow> enc_tlv e mem x =
       Some (SWICC_RET_SUCCESS, enc_grow e (length (ber_tlv x)) 0, mem_grow e mem (ber_tlv x)))"

lemma enc_tlvs_from:
  assumes "\<And>x e mem. x \<in> set xs \<Longrightarrow> enc_goal e mem x"
    and wf: "enc_wf e mem" and lv: "enc_len_val e = 0" and ok: "list_all tlv_ok xs"
    and "length (concat (map ber_tlv xs)) \<le> enc_room e"
  shows "enc_tlvs e mem xs = Some (SWICC_RET_SUCCESS, enc_grow e (length (concat (map ber_tlv xs))) 0,
    mem_grow e mem (concat (map ber_tlv xs)))"
  using assms(1,4,5)
proof (induction xs)
  case Nil
  then show ?case by (simp add: enc_grow_0 lv)
next
  case (Cons x xs)
  let ?v = "concat (map ber_tlv xs)"
  let ?e1 = "enc_grow e (length ?v) 0" and ?m1 = "mem_grow e mem ?v"
  have fit: "length ?v \<le> enc_room e" "length (ber_tlv x) + length ?v \<le> enc_room e"
    using Cons.prems(3) by simp_all
  have IH: "enc_tlvs e mem xs = Some (SWICC_RET_SUCCESS, ?e1, ?m1)"
    by (rule Cons.IH) (use Cons.prems fit in auto)
  have z: "unat (0 :: u32) \<le> unat (enc_len e) + length ?v" by simp
  note g = enc_grow_wf [OF wf fit(1) z]
  have "enc_len_val ?e1 = 0" by (simp add: enc_grow_def)
  moreover have "enc_goal ?e1 ?m1 x" using Cons.prems(1) by simp
  moreover have "length (ber_tlv x) \<le> enc_room ?e1" using fit(2) g(2) by simp
  moreover have "tlv_ok x" using Cons.prems(2) by simp
  ultimately have "enc_tlv ?e1 ?m1 x = Some (SWICC_RET_SUCCESS,
      enc_grow ?e1 (length (ber_tlv x)) 0, mem_grow ?e1 ?m1 (ber_tlv x))"
    using g(1) by (simp add: enc_goal_def)
  moreover have "mem_grow ?e1 ?m1 (ber_tlv x) = mem_grow e mem (ber_tlv x @ ?v)"
    by (rule mem_grow_grow [OF wf]) (use fit(2) in simp_all)
  ultimately show ?case
    by (simp add: IH enc_grow_grow add.commute)
qed

lemma enc_tlv_goal: "enc_goal e mem x"
proof (induction x arbitrary: e mem)
  case (Prim t d)
  then show ?case unfolding enc_goal_def by (auto intro!: enc_prim simp del: ber_tlv.simps enc_tlv.simps)
next
  case (Constr t xs)
  show ?case
    unfolding enc_goal_def
  proof (intro impI)
    assume a: "enc_wf e mem" "enc_len_val e = 0" "tlv_ok (Constr t xs)"
      "length (ber_tlv (Constr t xs)) \<le> enc_room e"
    show "enc_tlv e mem (Constr t xs) = Some (SWICC_RET_SUCCESS,
        enc_grow e (length (ber_tlv (Constr t xs))) 0, mem_grow e mem (ber_tlv (Constr t xs)))"
      by (rule enc_constr [OF a(1,2) _ _ a(4)])
         (use a(3) Constr.IH in \<open>auto intro!: enc_tlvs_from\<close>)
  qed
qed

text \<open>
  C20.  Encoding a data object of any nesting depth writes exactly its BER form in front of what is
  encoded already: if there is room for it, every call of the recursive encoding succeeds.
\<close>

theorem enc_tlv_ber:
  assumes "enc_wf e mem" "\<not> enc_null e" "enc_len_val e = 0" "tlv_ok x" "length (ber_tlv x) \<le> enc_room e"
  shows "\<exists>e' mem'. enc_tlv e mem x = Some (SWICC_RET_SUCCESS, e', mem') \<and> enc_wf e' mem' \<and>
    enc_len_val e' = 0 \<and> enc_content e' mem' = ber_tlv x @ enc_content e mem"
  using enc_tlv_goal [of e mem x] assms enc_grow_wf [OF assms(1,5), of 0]
  by (simp add: enc_goal_def enc_grow_def)

definition fcp_example :: tlv where
  "fcp_example = Constr \<lparr>tag_num = 2, tag_cla = SWICC_DATO_BERTLV_TAG_CLA_APPLICATION, tag_pc = True\<rparr>
     [Prim \<lparr>tag_num = 3, tag_cla = SWICC_DATO_BERTLV_TAG_CLA_CONTEXT_SPECIFIC, tag_pc = False\<rparr> [0x3F, 0x00],
      Prim \<lparr>tag_num = 300, tag_cla = SWICC_DATO_BERTLV_TAG_CLA_PRIVATE, tag_pc = False\<rparr> [7]]"

lemma fcp_example_ber: "ber_tlv fcp_example = [0x62, 9, 0x83, 2, 0x3F, 0, 0xDF, 0x82, 0x2C, 1, 7]"
  by code_simp

theorem enc_tlv_ber_witness:
  "\<exists>e' mem'. enc_tlv (swicc_dato_bertlv_enc_init False 16) (replicate 16 0) fcp_example =
      Some (SWICC_RET_SUCCESS, e', mem') \<and>
    enc_content e' mem' = [0x62, 9, 0x83, 2, 0x3F, 0, 0xDF, 0x82, 0x2C, 1, 7]"
proof -
  have "tlv_ok fcp_example" by (simp add: fcp_example_def tag_ok_def)
  then show ?thesis
    using enc_tlv_ber [of "swicc_dato_bertlv_enc_init False 16" "replicate 16 0" fcp_example]
    by (auto simp: enc_init_wf fcp_example_ber)
qed


section \<open>Reading back\<close>

text \<open>
  What the decoder and the encoder agree on: tags of one byte and tag numbers up to 127, lengths up
  to 127.
\<close>

definition tag_common :: "swicc_dato_bertlv_tag \<Rightarrow> bool" where
  "tag_common t \<longleftrightarrow> tag_cla t \<noteq> SWICC_DATO_BERTLV_TAG_CLA_INVALID \<and> tag_num t < 128"

lemma tag_b0_fields:
  fixes c n :: u8 and pc :: bool
  assumes "tag_cla_bits cla = Some c" and "n < 32"
  defines "b0 \<equiv> (c OR (if pc then 0x20 else 0)) OR n"
  shows "tag_cla_of b0 = cla" and "(b0 AND 0x20 \<noteq> 0) = pc" and "b0 AND 0x1F = n"
proof -
  have n5: "take_bit 5 n = n"
    using assms(2) by (simp add: word_unat_eq_iff unsigned_take_bit_eq take_bit_nat_eq_self word_less_nat_alt)
  have m: "x AND 0x1F = take_bit 5 x" for x :: u8
    by (simp add: take_bit_eq_mask mask_eq_exp_minus_1)
  have "take_bit 5 (c OR (if pc then 0x20 else 0)) = 0"
    using assms(1) by (cases cla) (auto simp: tag_cla_bits_def)
  then show "b0 AND 0x1F = n"
    unfolding b0_def m by (simp add: n5)
  have z: "take_bit 5 n AND 0xC0 = 0" "take_bit 5 n AND 0x20 = 0"
  proof -
    have c0: "(0xC0 :: u8) = push_bit 6 (mask 2)" by (simp add: mask_eq_exp_minus_1)
    show "take_bit 5 n AND 0xC0 = 0"
      unfolding c0 by (rule bit_word_eqI) (auto simp: bit_simps)
    show "take_bit 5 n AND 0x20 = 0"
      unfolding u8_and_bits by (simp add: bit_simps)
  qed
  have "b0 AND 0xC0 = (c OR (if pc then 0x20 else 0)) AND 0xC0"
    "b0 AND 0x20 = (c OR (if pc then 0x20 else 0)) AND 0x20"
    unfolding b0_def using z by (simp_all add: n5 bit.conj_disj_distrib2)
  then show "(b0 AND 0x20 \<noteq> 0) = pc"
    "tag_cla_of b0 = cla"
    unfolding tag_cla_of_def using assms(1) by (cases cla; auto simp: tag_cla_bits_def)+
qed


lemma tag_prs_ber:
  assumes t: "tag_common t" and sz: "length (ber_tag t) \<le> unat sz"
  shows "bertlv_hdr_tag_prs t0 (ber_tag t @ rest) sz = Some (SWICC_RET_SUCCESS, t, word_of_nat (length (ber_tag t)))"
proof -
  obtain c where c: "tag_cla_bits (tag_cla t) = Some c"
    using t by (cases "tag_cla t") (auto simp: tag_common_def tag_cla_bits_def)
  show ?thesis
  proof (cases "tag_num t \<le> 30")
    case True
    let ?n = "ucast (tag_num t) :: u8"
    have n: "unat ?n = unat (tag_num t)" "unat (tag_num t) \<le> 30"
      using True by (simp_all add: unsigned_ucast_eq word_le_nat_alt take_bit_nat_eq_self)
    then have lt: "?n < 32" and ne: "?n \<noteq> 0x1F"
      by (auto simp: word_less_nat_alt word_unat_eq_iff)
    have bck: "ucast ?n = tag_num t"
      using n by (simp add: word_unat_eq_iff)
    note f = tag_b0_fields [OF c lt, of "tag_pc t"]
    show ?thesis
      unfolding bertlv_hdr_tag_prs_def ber_tag_def Let_def
      using True c ne by (simp add: rd_def f bck)
  next
    case False
    let ?n = "ucast (tag_num t) :: u8"
    have n: "unat ?n = unat (tag_num t)" "unat (tag_num t) < 128"
      using t by (simp_all add: unsigned_ucast_eq word_less_nat_alt tag_common_def take_bit_nat_eq_self)
    have bck: "ucast ?n = tag_num t"
      using n by (simp add: word_unat_eq_iff)
    have m7: "?n AND 0x7F = ?n"
      unfolding and_7f using n(2)
      by (simp add: word_unat_eq_iff unsigned_take_bit_eq n(1) take_bit_nat_eq_self)
    have b7: "?n AND 0x80 = 0"
      by (subst m7 [symmetric]) (simp only: and_7f u8_and_bits, simp add: bit_simps)
    have lt: "(0x1F :: u8) < 32" by simp
    note f = tag_b0_fields [OF c lt, of "tag_pc t"]
    have lt128: "tag_num t < 128" using t by (simp add: tag_common_def)
    with False have sz': "\<not> sz \<le> 1"
      using sz by (simp add: word_le_nat_alt ber_tag_def)
    show ?thesis
      unfolding bertlv_hdr_tag_prs_def ber_tag_def Let_def
      using False c sz' lt128 by (simp add: rd_def f [simplified] m7 b7 bck numeral_2_eq_2 Let_def)
  qed
qed


lemma ber_len_short:
  assumes "length v \<le> 127"
  obtains n where "ber_len (word_of_nat (length v)) = [n]" "unat n = length v" "n AND 0x80 = 0" "n AND 0x7F = n"
    "ucast n = (word_of_nat (length v) :: u32)"
proof -
  define N :: u32 where "N = word_of_nat (length v)"
  have n: "unat N = length v"
    unfolding N_def by (rule unat_of_nat_u32) (use assms in simp)
  let ?n = "ucast N :: u8"
  have un: "unat ?n = length v"
    using assms by (simp add: unsigned_ucast_eq n take_bit_nat_eq_self)
  have "N \<le> 127" using assms by (simp add: word_le_nat_alt n)
  then have "ber_len N = [?n]" by (simp add: ber_len_def)
  moreover have m7: "?n AND 0x7F = ?n"
    unfolding and_7f using assms
    by (simp add: word_unat_eq_iff unsigned_take_bit_eq un take_bit_nat_eq_self)
  moreover have "?n AND 0x80 = 0"
    by (subst m7 [symmetric]) (simp only: and_7f u8_and_bits, simp add: bit_simps)
  moreover have "ucast ?n = N" by (simp add: word_unat_eq_iff un n)
  ultimately show ?thesis using that un unfolding N_def by blast
qed

lemma hdr_prs_ber:
  assumes t: "tag_common t" and v: "length v \<le> 127" and sz: "length (ber_hdr t (word_of_nat (length v))) \<le> unat sz"
  shows "bertlv_hdr_prs tlv hl (ber_hdr t (word_of_nat (length v)) @ rest) sz =
    Some (SWICC_RET_SUCCESS,
      \<lparr>tlv_tag = t, tlv_len = \<lparr>tlv_len_val = word_of_nat (length v),
        tlv_len_form = SWICC_DATO_BERTLV_LEN_FORM_DEFINITE_SHORT\<rparr>\<rparr>,
      word_of_nat (length (ber_hdr t (word_of_nat (length v)))))"
proof -
  obtain n where n: "ber_len (word_of_nat (length v)) = [n]" "n AND 0x80 = 0" "n AND 0x7F = n"
    "ucast n = (word_of_nat (length v) :: u32)"
    using ber_len_short [OF v] by metis
  have lt: "length (ber_tag t) \<le> unat sz" "1 \<le> unat sz"
    using sz by (simp_all add: ber_hdr_def n(1))
  have tag: "bertlv_hdr_tag_prs t0 (ber_tag t @ n # rest) sz =
      Some (SWICC_RET_SUCCESS, t, word_of_nat (length (ber_tag t)))" for t0
    by (rule tag_prs_ber [OF t lt(1)])
  have "\<not> sz < 1" using lt(2) by (simp add: word_less_nat_alt)
  moreover have "rd (ber_tag t @ n # rest) (length (ber_tag t)) = Some n"
    by (simp add: rd_def)
  ultimately show ?thesis
    by (cases tlv) (simp add: bertlv_hdr_prs_def Let_def ber_hdr_def n tag hdr_lens add.commute)
qed

definition dec_at :: "swicc_dato_bertlv_dec \<Rightarrow> bytes \<Rightarrow> bool" where
  "dec_at d xs \<longleftrightarrow> unat (dec_offset d) + length xs = unat (dec_len d) \<and>
     (\<exists>rest. drop (unat (dec_offset d)) (dec_buf d) = xs @ rest)"

lemma dec_next_ber:
  assumes t: "tag_common t" and v: "length v \<le> 127"
    and at: "dec_at d (ber_hdr t (word_of_nat (length v)) @ v @ xs)"
  shows "\<exists>d' c. swicc_dato_bertlv_dec_next d = Some (SWICC_RET_SUCCESS, d') \<and> dec_at d' xs \<and>
    swicc_dato_bertlv_dec_cur d' = Some (SWICC_RET_SUCCESS, Some (c, dec_cur d')) \<and>
    tlv_tag (dec_cur d') = t \<and> take (unat (dec_len c)) (dec_buf c) = v \<and> dec_at c v"
proof -
  let ?h = "ber_hdr t (word_of_nat (length v))"
  obtain rest where r: "drop (unat (dec_offset d)) (dec_buf d) = ?h @ v @ xs @ rest"
    and len: "unat (dec_offset d) + length (?h @ v @ xs) = unat (dec_len d)"
    using at by (auto simp: dec_at_def)
  have h1: "1 \<le> length ?h" "length ?h \<le> 8"
    using length_ber_hdr length_ber_tag(1) [of t] by (simp_all add: ber_hdr_def)
  have lt: "dec_offset d < dec_len d" and rem: "unat (dec_len d - dec_offset d) = length (?h @ v @ xs)"
    using len h1 by (auto simp: word_less_nat_alt unat_sub word_le_nat_alt)
  have prs: "bertlv_hdr_prs (dec_cur d) (dec_cur_len_hdr d) (drop (unat (dec_offset d)) (dec_buf d))
      (dec_len d - dec_offset d) = Some (SWICC_RET_SUCCESS,
        \<lparr>tlv_tag = t, tlv_len = \<lparr>tlv_len_val = word_of_nat (length v),
          tlv_len_form = SWICC_DATO_BERTLV_LEN_FORM_DEFINITE_SHORT\<rparr>\<rparr>, word_of_nat (length ?h))"
    unfolding r by (rule hdr_prs_ber [OF t v]) (simp add: rem)
  define H V :: u32 where "H = word_of_nat (length ?h)" and "V = word_of_nat (length v)"
  have uh: "unat H = length ?h" and uv: "unat V = length v"
    unfolding H_def V_def using h1 v by (auto intro!: unat_of_nat_u32)
  have lim: "unat (dec_len d) < 4294967296" by simp
  have hv: "unat (H + V) = length ?h + length v"
    using h1 v uh uv by (subst unat_add_u32) simp_all
  have off: "unat (dec_offset d + (H + V)) = unat (dec_offset d) + length ?h + length v"
    using unat_add_u32 [of "dec_offset d" "H + V"] lim len unfolding hv length_append by linarith
  have val: "dec_offset d + (H + V) - V = dec_offset d + H" by simp
  have oh: "unat (dec_offset d + H) = unat (dec_offset d) + length ?h"
    using unat_add_u32 [of "dec_offset d" H] lim len unfolding uh length_append by linarith
  have nz: "dec_offset d + (H + V) \<noteq> 0"
  proof
    assume "dec_offset d + (H + V) = 0"
    with off have "unat (0 :: u32) = unat (dec_offset d) + length ?h + length v" by (simp only:)
    with h1 show False unfolding unsigned_0 by linarith
  qed
  have lb: "unat (dec_offset d) + length ?h \<le> length (dec_buf d)"
    using arg_cong [OF r, of length] h1 by simp
  have dr: "drop (unat (dec_offset d) + length ?h) (dec_buf d) = v @ xs @ rest"
    using arg_cong [OF r, of "drop (length ?h)"] by (simp add: add.commute)
  have dr2: "drop (unat (dec_offset d) + length ?h + length v) (dec_buf d) = xs @ rest"
    using arg_cong [OF dr, of "drop (length v)"] by (simp add: add.commute add.left_commute)
  define d' where "d' = d\<lparr>dec_cur := \<lparr>tlv_tag = t, tlv_len = \<lparr>tlv_len_val = V,
      tlv_len_form = SWICC_DATO_BERTLV_LEN_FORM_DEFINITE_SHORT\<rparr>\<rparr>, dec_cur_len_hdr := H,
      dec_offset := dec_offset d + (H + V)\<rparr>"
  have nlt: "\<not> dec_len d \<le> dec_offset d" using lt by simp
  have nxt: "swicc_dato_bertlv_dec_next d = Some (SWICC_RET_SUCCESS, d')"
    unfolding swicc_dato_bertlv_dec_next_def prs d'_def using nlt
    by (simp add: H_def V_def)
  have cur: "swicc_dato_bertlv_dec_cur d' = Some (SWICC_RET_SUCCESS,
      Some (swicc_dato_bertlv_dec_init (v @ xs @ rest) V, dec_cur d'))"
    unfolding swicc_dato_bertlv_dec_cur_def d'_def using nz lb dr
    by (simp add: val oh assert_ub_def Let_def)
  have at': "dec_at d' xs"
    unfolding dec_at_def d'_def using len off dr2 by simp
  show ?thesis
    by (intro exI conjI, rule nxt, rule at', rule cur)
      (simp_all add: d'_def swicc_dato_bertlv_dec_init_def uv dec_at_def)
qed


text \<open>
  Reading a whole tree of data objects: the objects of one level are walked over until the data ends, and
  the value of a constructed object is read with the decoder that the current position gives for it.
\<close>

fun dec_tree :: "nat \<Rightarrow> swicc_dato_bertlv_dec \<Rightarrow> tlv list option" where
  "dec_tree 0 d = None"
| "dec_tree (Suc k) d = do {
     (ret, d') \<leftarrow> swicc_dato_bertlv_dec_next d;
     if ret = SWICC_RET_DATO_END then Some []
     else if ret \<noteq> SWICC_RET_SUCCESS then None
     else do {
       (ret, cur) \<leftarrow> swicc_dato_bertlv_dec_cur d';
       (c, tlv) \<leftarrow> cur;
       x \<leftarrow> (if tag_pc (tlv_tag tlv) then do { xs \<leftarrow> dec_tree k c; Some (Constr (tlv_tag tlv) xs) }
            else Some (Prim (tlv_tag tlv) (take (unat (dec_len c)) (dec_buf c))));
       rest \<leftarrow> dec_tree k d';
       Some (x # rest) } }"

text \<open>
  The trees on which the decoder and the encoder agree: on every level tag numbers up to 127 and values
  of up to 127 bytes, and the tag says which objects are constructed.
\<close>

fun tlv_plain :: "tlv \<Rightarrow> bool" where
  "tlv_plain (Prim t d) \<longleftrightarrow> tag_common t \<and> \<not> tag_pc t \<and> length d \<le> 127"
| "tlv_plain (Constr t xs) \<longleftrightarrow> tag_common t \<and> tag_pc t \<and> length (concat (map ber_tlv xs)) \<le> 127 \<and> list_all tlv_plain xs"

fun tlv_count :: "tlv \<Rightarrow> nat" where
  "tlv_count (Prim t d) = 1"
| "tlv_count (Constr t xs) = 1 + sum_list (map tlv_count xs)"

lemma dec_tree_at:
  "list_all tlv_plain xs \<Longrightarrow> dec_at d (concat (map ber_tlv xs)) \<Longrightarrow> sum_list (map tlv_count xs) < k \<Longrightarrow>
   dec_tree k d = Some xs"
proof (induction k arbitrary: xs d)
  case (Suc k)
  show ?case
  proof (cases xs)
    case Nil
    then have "unat (dec_offset d) = unat (dec_len d)" using Suc.prems(2) by (simp add: dec_at_def)
    then have "dec_offset d = dec_len d" by (simp only: word_unat_eq_iff)
    then show ?thesis using Nil by (simp add: swicc_dato_bertlv_dec_next_def)
  next
    case (Cons x ys)
    define t v where "t = (case x of Prim t _ \<Rightarrow> t | Constr t _ \<Rightarrow> t)"
      and "v = (case x of Prim _ d \<Rightarrow> d | Constr _ zs \<Rightarrow> concat (map ber_tlv zs))"
    have x: "ber_tlv x = ber_hdr t (word_of_nat (length v)) @ v" "tag_common t" "length v \<le> 127"
      using Suc.prems(1) Cons by (cases x; simp add: t_def v_def Let_def)+
    have "dec_at d (ber_hdr t (word_of_nat (length v)) @ v @ concat (map ber_tlv ys))"
      using Suc.prems(2) by (simp add: Cons x(1))
    from dec_next_ber [OF x(2,3) this] obtain d' c where d': "swicc_dato_bertlv_dec_next d = Some (SWICC_RET_SUCCESS, d')"
      "dec_at d' (concat (map ber_tlv ys))" "swicc_dato_bertlv_dec_cur d' = Some (SWICC_RET_SUCCESS, Some (c, dec_cur d'))"
      "tlv_tag (dec_cur d') = t" "take (unat (dec_len c)) (dec_buf c) = v" "dec_at c v" by blast
    have rest: "dec_tree k d' = Some ys"
      by (rule Suc.IH [OF _ d'(2)]) (use Suc.prems(1,3) Cons in \<open>cases x; simp\<close>)+
    show ?thesis
    proof (cases x)
      case (Prim t0 w)
      then show ?thesis using d' rest Suc.prems(1) Cons by (simp add: t_def v_def)
    next
      case (Constr t0 zs)
      have "dec_tree k c = Some zs"
        by (rule Suc.IH) (use Suc.prems(1,3) Cons Constr d'(6) in \<open>simp_all add: v_def\<close>)
      then show ?thesis using d' rest Suc.prems(1) Cons Constr by (simp add: t_def)
    qed
  qed
qed simp

text \<open>
  C21.  Decoding inverts encoding for the data objects this library itself uses: a sequence of data objects
  of any nesting depth, with tag numbers up to 127 and values of up to 127 bytes on every level, laid out in
  BER form, is read from start to end, and the same objects come back.  (Beyond these limits the decoder and
  the encoder disagree: \<open>tag_order_mismatch\<close> and \<open>len_long_mismatch\<close> below.)
\<close>

theorem dec_tree_ber:
  assumes "list_all tlv_plain xs" and "b = concat (map ber_tlv xs)" and "length b < 2 ^ 32"
  shows "dec_tree (sum_list (map tlv_count xs) + 1) (swicc_dato_bertlv_dec_init (b @ rest) (word_of_nat (length b))) = Some xs"
proof (rule dec_tree_at [OF assms(1)])
  have "unat (word_of_nat (length b) :: u32) = length b"
    by (rule unat_of_nat_u32) (use assms(3) in simp)
  then show "dec_at (swicc_dato_bertlv_dec_init (b @ rest) (word_of_nat (length b))) (concat (map ber_tlv xs))"
    unfolding assms(2) [symmetric] by (simp add: dec_at_def swicc_dato_bertlv_dec_init_def)
qed simp

theorem dec_tree_ber_witness:
  "dec_tree 4 (swicc_dato_bertlv_dec_init ([0x62, 4, 0x83, 2, 0x3F, 0, 0x5F, 0x20, 1, 7] @ [0xEE]) 10) =
    Some [Constr \<lparr>tag_num = 2, tag_cla = SWICC_DATO_BERTLV_TAG_CLA_APPLICATION, tag_pc = True\<rparr>
            [Prim \<lparr>tag_num = 3, tag_cla = SWICC_DATO_BERTLV_TAG_CLA_CONTEXT_SPECIFIC, tag_pc = False\<rparr> [0x3F, 0]],
          Prim \<lparr>tag_num = 32, tag_cla = SWICC_DATO_BERTLV_TAG_CLA_APPLICATION, tag_pc = False\<rparr> [7]]"
proof -
  let ?items = "[Constr \<lparr>tag_num = 2, tag_cla = SWICC_DATO_BERTLV_TAG_CLA_APPLICATION, tag_pc = True\<rparr>
            [Prim \<lparr>tag_num = 3, tag_cla = SWICC_DATO_BERTLV_TAG_CLA_CONTEXT_SPECIFIC, tag_pc = False\<rparr> [0x3F, 0]],
          Prim \<lparr>tag_num = 32, tag_cla = SWICC_DATO_BERTLV_TAG_CLA_APPLICATION, tag_pc = False\<rparr> [7 :: u8]]"
  have b: "[0x62, 4, 0x83, 2, 0x3F, 0, 0x5F, 0x20, 1, 7] = concat (map ber_tlv ?items)" by code_simp
  have plain: "list_all tlv_plain ?items" by code_simp
  have n: "sum_list (map tlv_count ?items) + 1 = 4" by simp
  show ?thesis
    using dec_tree_ber [OF plain b, of "[0xEE]"] unfolding n by (simp del: dec_tree.simps)
qed

text \<open>
  The decoder reads a two-byte tag number in the order opposite to the encoder's: a number from 128
  on does not come back.
\<close>

lemma tag_order_mismatch:
  "bertlv_hdr_tag_prs (tlv_tag bertlv_zero)
     (ber_tag \<lparr>tag_num = 129, tag_cla = SWICC_DATO_BERTLV_TAG_CLA_UNIVERSAL, tag_pc = False\<rparr>) 3 =
   Some (SWICC_RET_SUCCESS,
     \<lparr>tag_num = 129, tag_cla = SWICC_DATO_BERTLV_TAG_CLA_UNIVERSAL, tag_pc = False\<rparr>, 3)"
  "bertlv_hdr_tag_prs (tlv_tag bertlv_zero)
     (ber_tag \<lparr>tag_num = 130, tag_cla = SWICC_DATO_BERTLV_TAG_CLA_UNIVERSAL, tag_pc = False\<rparr>) 3 =
   Some (SWICC_RET_SUCCESS,
     \<lparr>tag_num = 257, tag_cla = SWICC_DATO_BERTLV_TAG_CLA_UNIVERSAL, tag_pc = False\<rparr>, 3)"
  by code_simp+

text \<open>The long form of a length the encoder writes for a value of 200 bytes is decoded as 1.\<close>

lemma len_long_mismatch:
  "bertlv_hdr_prs bertlv_zero 0 ([0x04] @ ber_len 200 @ replicate 200 0) 202 =
   Some (SWICC_RET_SUCCESS,
     \<lparr>tlv_tag = \<lparr>tag_num = 4, tag_cla = SWICC_DATO_BERTLV_TAG_CLA_UNIVERSAL, tag_pc = False\<rparr>,
      tlv_len = \<lparr>tlv_len_val = 1, tlv_len_form = SWICC_DATO_BERTLV_LEN_FORM_DEFINITE_LONG\<rparr>\<rparr>, 2)"
  by code_simp

end
