(* ===== verification/Swicc_Io.thy ===== *)
theory Swicc_Io
  imports Swicc_Common
begin

text \<open>
  \<^verbatim>\<open>include/swicc/io.h\<close>, the tables of \<^verbatim>\<open>src/io.c\<close> and \<^verbatim>\<open>src/atr.c\<close>: the transmission parameters
  that the PPS indices select, the contacts of the card and its answer to reset.
\<close>

section \<open>Transmission parameters\<close>

text \<open>The zero entries are reserved for future use.\<close>

definition swicc_io_fi :: "u16 list" where
  "swicc_io_fi = [372, 372, 558, 744, 1116, 1488, 1860, 0, 0, 512, 768, 1024, 1536, 2048, 0, 0]"

definition swicc_io_di :: "u8 list" where
  "swicc_io_di = [0, 1, 2, 4, 8, 16, 32, 64, 12, 20, 0, 0, 0, 0, 0, 0]"

definition swicc_io_fmax :: "u32 list" where
  "swicc_io_fmax = [4000, 5000, 6000, 8000, 12000, 16000, 20000, 0, 0, 5000, 7500, 10000, 15000, 20000, 0, 0]"

text \<open>
  The elementary time unit \<open>(Fi / Di) * (1 / fmax)\<close> computed in integers is zero for all supported
  parameters; the reserved ones abort the program.
\<close>

lemma etu_tables:
  assumes "i < 16" "j < 16"
  shows "swicc_etu (swicc_io_fi ! i) (swicc_io_di ! j) (swicc_io_fmax ! i) =
    (if swicc_io_fmax ! i = 0 \<or> swicc_io_di ! j = 0 then None else Some 0)"
proof -
  have "\<forall>i \<in> set [0..<16]. \<forall>j \<in> set [0..<16].
      swicc_etu (swicc_io_fi ! i) (swicc_io_di ! j) (swicc_io_fmax ! i) =
      (if swicc_io_fmax ! i = 0 \<or> swicc_io_di ! j = 0 then None else Some 0)"
    by code_simp
  with assms show ?thesis by simp
qed

lemma length_io_tables [simp]:
  "length swicc_io_fi = 16" "length swicc_io_di = 16" "length swicc_io_fmax = 16"
  by (simp_all add: swicc_io_fi_def swicc_io_di_def swicc_io_fmax_def)

section \<open>Contacts\<close>

abbreviation SWICC_IO_CONT_VCC :: u32 where "SWICC_IO_CONT_VCC \<equiv> 0x2"
abbreviation SWICC_IO_CONT_VALID_VCC :: u32 where "SWICC_IO_CONT_VALID_VCC \<equiv> 0x4"
abbreviation SWICC_IO_CONT_RST :: u32 where "SWICC_IO_CONT_RST \<equiv> 0x8"
abbreviation SWICC_IO_CONT_VALID_RST :: u32 where "SWICC_IO_CONT_VALID_RST \<equiv> 0x10"
abbreviation SWICC_IO_CONT_CLK :: u32 where "SWICC_IO_CONT_CLK \<equiv> 0x20"
abbreviation SWICC_IO_CONT_VALID_CLK :: u32 where "SWICC_IO_CONT_VALID_CLK \<equiv> 0x40"
abbreviation SWICC_IO_CONT_SPU :: u32 where "SWICC_IO_CONT_SPU \<equiv> 0x800"
abbreviation SWICC_IO_CONT_VALID_SPU :: u32 where "SWICC_IO_CONT_VALID_SPU \<equiv> 0x1000"
abbreviation SWICC_IO_CONT_IO :: u32 where "SWICC_IO_CONT_IO \<equiv> 0x2000"
abbreviation SWICC_IO_CONT_VALID_IO :: u32 where "SWICC_IO_CONT_VALID_IO \<equiv> 0x4000"

definition SWICC_IO_CONT_VALID_ALL :: u32 where
  "SWICC_IO_CONT_VALID_ALL = SWICC_IO_CONT_VALID_VCC OR SWICC_IO_CONT_VALID_RST OR
     SWICC_IO_CONT_VALID_CLK OR SWICC_IO_CONT_VALID_SPU OR SWICC_IO_CONT_VALID_IO"

section \<open>Answer to reset\<close>

abbreviation SWICC_ATR_LEN :: nat where "SWICC_ATR_LEN \<equiv> 25"

definition swicc_atr :: bytes where
  "swicc_atr =
     [0x3B, 0xDF, 0x96, 0x00, 0x90, 0x10, 0x3F, 0x07, 0x00,
      0x80, 0x31, 0xE0, 0x67, 0x73, 0x77, 0x69, 0x63, 0x63, 0x00, 0x00,
      0x73, 0xFE, 0x21, 0x00, 0x06]"

text \<open>
  How a terminal finds the end of an answer to reset (ISO/IEC 7816-3 clause 8.2): the high half
  \<open>y\<close> of T0 and of every TD byte says which of TA, TB, TC, TD follow; the low half of T0 counts the
  historical bytes; a check byte is there when a protocol other than T=0 is named.
\<close>

fun atr_iface :: "nat \<Rightarrow> bytes \<Rightarrow> u8 \<Rightarrow> bool \<Rightarrow> (bytes \<times> bool) option" where
  "atr_iface 0 bs y tck = None"
| "atr_iface (Suc k) bs y tck =
     (let n = (if bit y 4 then 1 else 0) + (if bit y 5 then 1 else 0) + (if bit y 6 then 1 else 0) in
      if length bs < n then None
      else if bit y 7 then
        (case drop n bs of
           [] \<Rightarrow> None
         | td # rest \<Rightarrow> atr_iface k rest td (tck \<or> td AND 0x0F \<noteq> 0))
      else Some (drop n bs, tck))"

definition atr_wf :: "bytes \<Rightarrow> bool" where
  "atr_wf bs = (case bs of
       ts # t0 # rest \<Rightarrow>
         (ts = 0x3B \<or> ts = 0x3F) \<and>
         (case atr_iface 8 rest t0 False of
            None \<Rightarrow> False
          | Some (hist, tck) \<Rightarrow>
              length hist = unat (t0 AND 0x0F) + (if tck then 1 else 0) \<and>
              (tck \<longrightarrow> xor_all (t0 # rest) = 0))
     | _ \<Rightarrow> False)"

text \<open>
  The answer to reset the card sends is well-formed: the interface bytes its indicator nibbles
  announce are all there, exactly the announced number of historical bytes and the check byte follow
  them, and the check byte makes T0 to TCK cancel out.
\<close>

theorem swicc_atr_wf: "atr_wf swicc_atr \<and> length swicc_atr = SWICC_ATR_LEN"
  by code_simp

end
