(* ===== verification/Swicc_Fs_Common.thy ===== *)
theory Swicc_Fs_Common
  imports Swicc_Common
begin

text \<open>
  \<^verbatim>\<open>include/swicc/fs/common.h\<close> and \<^verbatim>\<open>src/fs/common.c\<close>: the items of the file system as they are laid
  out in a tree buffer, and the parser of a file.

  The packed raw headers are read from the buffer byte by byte (item header 10 bytes: size, offset
  from the parent, type, life cycle status; file header 3 bytes: ID and short ID).  A pointer into
  the buffer of a tree is the number of the tree in the forest and an offset.  The union of the
  type-specific headers is its 16 bytes of memory; the life cycle status stays the raw byte, which
  is what the code stores in the enum.
\<close>

section \<open>Data types\<close>

abbreviation SWICC_FS_NAME_LEN :: nat where "SWICC_FS_NAME_LEN \<equiv> 16"
abbreviation SWICC_FS_ADF_AID_RID_LEN :: nat where "SWICC_FS_ADF_AID_RID_LEN \<equiv> 5"
abbreviation SWICC_FS_ADF_AID_PIX_LEN :: nat where "SWICC_FS_ADF_AID_PIX_LEN \<equiv> 11"
abbreviation SWICC_FS_ID_MISSING :: u16 where "SWICC_FS_ID_MISSING \<equiv> 0"
abbreviation SWICC_FS_SID_MISSING :: u8 where "SWICC_FS_SID_MISSING \<equiv> 0"

datatype swicc_fs_item_type =
    SWICC_FS_ITEM_TYPE_INVALID
  | SWICC_FS_ITEM_TYPE_FILE_MF
  | SWICC_FS_ITEM_TYPE_FILE_ADF
  | SWICC_FS_ITEM_TYPE_FILE_DF
  | SWICC_FS_ITEM_TYPE_FILE_EF_TRANSPARENT
  | SWICC_FS_ITEM_TYPE_FILE_EF_LINEARFIXED
  | SWICC_FS_ITEM_TYPE_FILE_EF_CYCLIC
  | SWICC_FS_ITEM_TYPE_DATO_BERTLV
  | SWICC_FS_ITEM_TYPE_HEX
  | SWICC_FS_ITEM_TYPE_ASCII

text \<open>The number of a type in the enum, which is its raw byte.\<close>

definition item_type_raw :: "swicc_fs_item_type \<Rightarrow> u8" where
  "item_type_raw t = (case t of
     SWICC_FS_ITEM_TYPE_INVALID \<Rightarrow> 0
   | SWICC_FS_ITEM_TYPE_FILE_MF \<Rightarrow> 1
   | SWICC_FS_ITEM_TYPE_FILE_ADF \<Rightarrow> 2
   | SWICC_FS_ITEM_TYPE_FILE_DF \<Rightarrow> 3
   | SWICC_FS_ITEM_TYPE_FILE_EF_TRANSPARENT \<Rightarrow> 4
   | SWICC_FS_ITEM_TYPE_FILE_EF_LINEARFIXED \<Rightarrow> 5
   | SWICC_FS_ITEM_TYPE_FILE_EF_CYCLIC \<Rightarrow> 6
   | SWICC_FS_ITEM_TYPE_DATO_BERTLV \<Rightarrow> 7
   | SWICC_FS_ITEM_TYPE_HEX \<Rightarrow> 8
   | SWICC_FS_ITEM_TYPE_ASCII \<Rightarrow> 9)"

record swicc_fs_item_hdr =
  ih_size :: u32
  ih_offset_trel :: u32
  ih_offset_prel :: u32
  ih_type :: swicc_fs_item_type
  ih_lcs :: u8

record swicc_fs_item_hdr_raw =
  ihr_size :: u32
  ihr_offset_prel :: u32
  ihr_type :: u8
  ihr_lcs :: u8

record swicc_fs_file_hdr =
  fh_id :: u16
  fh_sid :: u8

type_synonym tree_ptr = "nat \<times> u32"

record swicc_fs_file =
  hdr_item :: swicc_fs_item_hdr
  hdr_file :: swicc_fs_file_hdr
  hdr_spec :: bytes
  data_size :: u32
  data_ptr :: "tree_ptr option"
  hdr_raw_ptr :: "tree_ptr option"

definition hdr_spec_name :: "swicc_fs_file \<Rightarrow> bytes" where
  "hdr_spec_name f = hdr_spec f"

definition hdr_spec_adf_rid :: "swicc_fs_file \<Rightarrow> bytes" where
  "hdr_spec_adf_rid f = take SWICC_FS_ADF_AID_RID_LEN (hdr_spec f)"

definition hdr_spec_adf_pix :: "swicc_fs_file \<Rightarrow> bytes" where
  "hdr_spec_adf_pix f = drop SWICC_FS_ADF_AID_RID_LEN (hdr_spec f)"

definition hdr_spec_rcrd_size :: "swicc_fs_file \<Rightarrow> u8" where
  "hdr_spec_rcrd_size f = hd (hdr_spec f)"

definition item_hdr_zero :: swicc_fs_item_hdr where
  "item_hdr_zero = \<lparr>ih_size = 0, ih_offset_trel = 0, ih_offset_prel = 0,
     ih_type = SWICC_FS_ITEM_TYPE_INVALID, ih_lcs = 0\<rparr>"

definition file_zero :: swicc_fs_file where
  "file_zero = \<lparr>hdr_item = item_hdr_zero, hdr_file = \<lparr>fh_id = 0, fh_sid = 0\<rparr>,
     hdr_spec = replicate SWICC_FS_NAME_LEN 0, data_size = 0, data_ptr = None, hdr_raw_ptr = None\<rparr>"

definition SWICC_FS_FILE_FOLDER_CHECK :: "swicc_fs_file \<Rightarrow> bool" where
  "SWICC_FS_FILE_FOLDER_CHECK f \<longleftrightarrow>
     ih_type (hdr_item f) = SWICC_FS_ITEM_TYPE_FILE_MF \<or>
     ih_type (hdr_item f) = SWICC_FS_ITEM_TYPE_FILE_DF \<or>
     ih_type (hdr_item f) = SWICC_FS_ITEM_TYPE_FILE_ADF"

definition SWICC_FS_FILE_EF_CHECK :: "swicc_fs_file \<Rightarrow> bool" where
  "SWICC_FS_FILE_EF_CHECK f \<longleftrightarrow>
     ih_type (hdr_item f) = SWICC_FS_ITEM_TYPE_FILE_EF_TRANSPARENT \<or>
     ih_type (hdr_item f) = SWICC_FS_ITEM_TYPE_FILE_EF_LINEARFIXED \<or>
     ih_type (hdr_item f) = SWICC_FS_ITEM_TYPE_FILE_EF_CYCLIC"

definition SWICC_FS_FILE_EF_BERTLV_CHECK :: "swicc_fs_file \<Rightarrow> bool" where
  "SWICC_FS_FILE_EF_BERTLV_CHECK f \<longleftrightarrow> False"

definition SWICC_FS_FILE_EF_BERTLV_NOT_CHECK :: "swicc_fs_file \<Rightarrow> bool" where
  "SWICC_FS_FILE_EF_BERTLV_NOT_CHECK f \<longleftrightarrow>
     ih_type (hdr_item f) = SWICC_FS_ITEM_TYPE_FILE_EF_TRANSPARENT \<or>
     ih_type (hdr_item f) = SWICC_FS_ITEM_TYPE_FILE_EF_LINEARFIXED \<or>
     ih_type (hdr_item f) = SWICC_FS_ITEM_TYPE_FILE_EF_CYCLIC"

section \<open>Parsing\<close>

abbreviation item_hdr_raw_size :: nat where "item_hdr_raw_size \<equiv> 10"
abbreviation file_hdr_raw_size :: nat where "file_hdr_raw_size \<equiv> 3"
abbreviation file_raw_size :: nat where "file_raw_size \<equiv> 13"

definition swicc_fs_item_hdr_raw_size :: "swicc_fs_item_type \<Rightarrow> u32" where
  "swicc_fs_item_hdr_raw_size t = (case t of
     SWICC_FS_ITEM_TYPE_INVALID \<Rightarrow> 0
   | SWICC_FS_ITEM_TYPE_FILE_MF \<Rightarrow> 29
   | SWICC_FS_ITEM_TYPE_FILE_ADF \<Rightarrow> 29
   | SWICC_FS_ITEM_TYPE_FILE_DF \<Rightarrow> 29
   | SWICC_FS_ITEM_TYPE_FILE_EF_TRANSPARENT \<Rightarrow> 13
   | SWICC_FS_ITEM_TYPE_FILE_EF_LINEARFIXED \<Rightarrow> 14
   | SWICC_FS_ITEM_TYPE_FILE_EF_CYCLIC \<Rightarrow> 14
   | SWICC_FS_ITEM_TYPE_DATO_BERTLV \<Rightarrow> 0
   | SWICC_FS_ITEM_TYPE_HEX \<Rightarrow> 0
   | SWICC_FS_ITEM_TYPE_ASCII \<Rightarrow> 0)"

definition swicc_fs_item_hdr_raw_be :: "swicc_fs_item_hdr_raw \<Rightarrow> swicc_fs_item_hdr_raw" where
  "swicc_fs_item_hdr_raw_be h =
     h\<lparr>ihr_offset_prel := htobe32 (ihr_offset_prel h), ihr_size := htobe32 (ihr_size h)\<rparr>"

definition swicc_fs_file_hdr_raw_be :: "swicc_fs_file_hdr \<Rightarrow> swicc_fs_file_hdr" where
  "swicc_fs_file_hdr_raw_be h = h\<lparr>fh_id := htobe16 (fh_id h)\<rparr>"

text \<open>The raw headers at an offset of a buffer; a raw file header has the fields of the parsed one.\<close>

definition item_hdr_raw_get :: "bytes \<Rightarrow> nat \<Rightarrow> swicc_fs_item_hdr_raw option" where
  "item_hdr_raw_get b off = do {
     sz \<leftarrow> le32_get b off;
     prel \<leftarrow> le32_get b (off + 4);
     t \<leftarrow> rd b (off + 8);
     lcs \<leftarrow> rd b (off + 9);
     Some \<lparr>ihr_size = sz, ihr_offset_prel = prel, ihr_type = t, ihr_lcs = lcs\<rparr> }"

definition file_hdr_raw_get :: "bytes \<Rightarrow> nat \<Rightarrow> swicc_fs_file_hdr option" where
  "file_hdr_raw_get b off = do {
     i \<leftarrow> le16_get b off;
     s \<leftarrow> rd b (off + 2);
     Some \<lparr>fh_id = i, fh_sid = s\<rparr> }"

text \<open>The \<^verbatim>\<open>switch\<close> over the raw type; a raw type outside the enum leaves the field as it is.\<close>

definition item_type_prs :: "u8 \<Rightarrow> swicc_fs_item_type \<Rightarrow> swicc_fs_item_type" where
  "item_type_prs raw old =
     (if raw = 1 then SWICC_FS_ITEM_TYPE_FILE_MF
      else if raw = 2 then SWICC_FS_ITEM_TYPE_FILE_ADF
      else if raw = 3 then SWICC_FS_ITEM_TYPE_FILE_DF
      else if raw = 4 then SWICC_FS_ITEM_TYPE_FILE_EF_TRANSPARENT
      else if raw = 5 then SWICC_FS_ITEM_TYPE_FILE_EF_LINEARFIXED
      else if raw = 6 then SWICC_FS_ITEM_TYPE_FILE_EF_CYCLIC
      else if raw = 7 then SWICC_FS_ITEM_TYPE_DATO_BERTLV
      else if raw = 8 then SWICC_FS_ITEM_TYPE_HEX
      else if raw = 9 then SWICC_FS_ITEM_TYPE_ASCII
      else if raw = 0 then SWICC_FS_ITEM_TYPE_INVALID
      else old)"

definition swicc_fs_item_hdr_prs ::
    "swicc_fs_item_hdr_raw \<Rightarrow> u32 \<Rightarrow> swicc_fs_item_hdr \<Rightarrow> swicc_fs_item_hdr" where
  "swicc_fs_item_hdr_prs raw offset_trel h =
     \<lparr>ih_size = ihr_size raw, ih_offset_trel = offset_trel, ih_offset_prel = ihr_offset_prel raw,
      ih_type = item_type_prs (ihr_type raw) (ih_type h), ih_lcs = ihr_lcs raw\<rparr>"

definition swicc_fs_file_hdr_prs :: "swicc_fs_file_hdr \<Rightarrow> swicc_fs_file_hdr \<Rightarrow> swicc_fs_file_hdr" where
  "swicc_fs_file_hdr_prs raw h = h\<lparr>fh_id := fh_id raw, fh_sid := fh_sid raw\<rparr>"

text \<open>
  The type-specific header: which bytes of the union are set from the buffer.  \<^term>\<open>None\<close> in the
  inner option is the \<^verbatim>\<open>default\<close> branch.
\<close>

definition hdr_spec_prs :: "swicc_fs_item_type \<Rightarrow> bytes \<Rightarrow> nat \<Rightarrow> bytes option option" where
  "hdr_spec_prs t b off = (case t of
     SWICC_FS_ITEM_TYPE_FILE_MF \<Rightarrow> do { n \<leftarrow> rdn b off SWICC_FS_NAME_LEN; Some (Some n) }
   | SWICC_FS_ITEM_TYPE_FILE_ADF \<Rightarrow> do {
       rid \<leftarrow> rdn b off SWICC_FS_ADF_AID_RID_LEN;
       pix \<leftarrow> rdn b (off + SWICC_FS_ADF_AID_RID_LEN) SWICC_FS_ADF_AID_PIX_LEN;
       Some (Some (rid @ pix)) }
   | SWICC_FS_ITEM_TYPE_FILE_DF \<Rightarrow> do { n \<leftarrow> rdn b off SWICC_FS_NAME_LEN; Some (Some n) }
   | SWICC_FS_ITEM_TYPE_FILE_EF_TRANSPARENT \<Rightarrow> Some (Some (replicate SWICC_FS_NAME_LEN 0))
   | SWICC_FS_ITEM_TYPE_FILE_EF_LINEARFIXED \<Rightarrow> do {
       s \<leftarrow> rd b off; Some (Some (s # replicate (SWICC_FS_NAME_LEN - 1) 0)) }
   | SWICC_FS_ITEM_TYPE_FILE_EF_CYCLIC \<Rightarrow> do {
       s \<leftarrow> rd b off; Some (Some (s # replicate (SWICC_FS_NAME_LEN - 1) 0)) }
   | _ \<Rightarrow> Some None)"

text \<open>\<open>ti\<close> is the number of the tree, \<open>b\<close> its buffer; the file record is cleared before it is filled.\<close>

definition swicc_fs_file_prs ::
    "nat \<Rightarrow> bytes \<Rightarrow> u32 \<Rightarrow> swicc_fs_file \<Rightarrow> (swicc_ret \<times> swicc_fs_file) option" where
  "swicc_fs_file_prs ti b offset_trel f =
     (let off = unat offset_trel in
      if off + item_hdr_raw_size + file_hdr_raw_size \<ge> 2 ^ 32 - 1 then Some (SWICC_RET_ERROR, f)
      else do {
        ihr \<leftarrow> item_hdr_raw_get b off;
        fhr \<leftarrow> file_hdr_raw_get b (off + item_hdr_raw_size);
        let ih = swicc_fs_item_hdr_prs ihr offset_trel item_hdr_zero;
        let f1 = file_zero\<lparr>hdr_item := ih, hdr_file := swicc_fs_file_hdr_prs fhr (hdr_file file_zero),
                           hdr_raw_ptr := Some (ti, offset_trel)\<rparr>;
        spec \<leftarrow> hdr_spec_prs (ih_type ih) b (off + item_hdr_raw_size + file_hdr_raw_size);
        case spec of
          None \<Rightarrow> Some (SWICC_RET_ERROR, f1)
        | Some sp \<Rightarrow>
            (let hs = swicc_fs_item_hdr_raw_size (ih_type ih) in
             Some (SWICC_RET_SUCCESS,
               f1\<lparr>hdr_spec := sp, data_size := ih_size ih - hs, data_ptr := Some (ti, offset_trel + hs)\<rparr>)) })"


section \<open>Well-formed tree buffers\<close>

text \<open>
  The abstract view of a tree: folders with children and elementary files with contents.  \<open>ser prel
  n\<close> is the layout of node \<open>n\<close> whose header is \<open>prel\<close> bytes behind the header of its parent.
\<close>

record node_hdr =
  n_type :: swicc_fs_item_type
  n_lcs :: u8
  n_id :: u16
  n_sid :: u8
  n_spec :: bytes

datatype fsnode = Folder node_hdr "fsnode list" | Ef node_hdr bytes

fun n_hdr :: "fsnode \<Rightarrow> node_hdr" where
  "n_hdr (Folder h cs) = h"
| "n_hdr (Ef h d) = h"

definition n_hsize :: "fsnode \<Rightarrow> nat" where
  "n_hsize n = file_raw_size + length (n_spec (n_hdr n))"

definition is_folder_type :: "swicc_fs_item_type \<Rightarrow> bool" where
  "is_folder_type t \<longleftrightarrow> t = SWICC_FS_ITEM_TYPE_FILE_MF \<or> t = SWICC_FS_ITEM_TYPE_FILE_DF \<or>
     t = SWICC_FS_ITEM_TYPE_FILE_ADF"

definition is_rcrd_type :: "swicc_fs_item_type \<Rightarrow> bool" where
  "is_rcrd_type t \<longleftrightarrow> t = SWICC_FS_ITEM_TYPE_FILE_EF_LINEARFIXED \<or> t = SWICC_FS_ITEM_TYPE_FILE_EF_CYCLIC"

fun node_ok :: "fsnode \<Rightarrow> bool" where
  "node_ok (Folder h cs) \<longleftrightarrow> is_folder_type (n_type h) \<and> length (n_spec h) = SWICC_FS_NAME_LEN \<and>
     list_all node_ok cs"
| "node_ok (Ef h d) \<longleftrightarrow>
     (n_type h = SWICC_FS_ITEM_TYPE_FILE_EF_TRANSPARENT \<and> n_spec h = [] \<or>
      is_rcrd_type (n_type h) \<and> length (n_spec h) = 1 \<and> n_spec h \<noteq> [0])"

fun nsize :: "fsnode \<Rightarrow> nat" where
  "nsize (Folder h cs) = file_raw_size + length (n_spec h) + sum_list (map nsize cs)"
| "nsize (Ef h d) = file_raw_size + length (n_spec h) + length d"

definition ser_hdr :: "nat \<Rightarrow> nat \<Rightarrow> node_hdr \<Rightarrow> bytes" where
  "ser_hdr sz prel h =
     le32_put (word_of_nat sz) @ le32_put (word_of_nat prel) @ item_type_raw (n_type h) # n_lcs h #
     le16_put (n_id h) @ n_sid h # n_spec h"

fun ser :: "nat \<Rightarrow> fsnode \<Rightarrow> bytes" and sers :: "nat \<Rightarrow> fsnode list \<Rightarrow> bytes" where
  "ser prel (Folder h cs) =
     ser_hdr (nsize (Folder h cs)) prel h @ sers (file_raw_size + length (n_spec h)) cs"
| "ser prel (Ef h d) = ser_hdr (nsize (Ef h d)) prel h @ d"
| "sers off [] = []"
| "sers off (n # ns) = ser off n @ sers (off + nsize n) ns"

lemma length_ser_hdr [simp]: "length (ser_hdr sz prel h) = file_raw_size + length (n_spec h)"
  by (simp add: ser_hdr_def)

lemma length_ser [simp]: "length (ser prel n) = nsize n"
  and length_sers [simp]: "length (sers off ns) = sum_list (map nsize ns)"
  by (induction prel n and off ns rule: ser_sers.induct) simp_all

text \<open>The file record that describes node \<open>n\<close> at offset \<open>off\<close> of tree \<open>ti\<close>.\<close>

definition spec_union :: "swicc_fs_item_type \<Rightarrow> bytes \<Rightarrow> bytes" where
  "spec_union t sp = sp @ replicate (SWICC_FS_NAME_LEN - length sp) 0"

definition file_of :: "nat \<Rightarrow> nat \<Rightarrow> nat \<Rightarrow> fsnode \<Rightarrow> swicc_fs_file" where
  "file_of ti off prel n =
     (let h = n_hdr n; hs = n_hsize n in
      \<lparr>hdr_item = \<lparr>ih_size = word_of_nat (nsize n), ih_offset_trel = word_of_nat off,
          ih_offset_prel = word_of_nat prel, ih_type = n_type h, ih_lcs = n_lcs h\<rparr>,
       hdr_file = \<lparr>fh_id = n_id h, fh_sid = n_sid h\<rparr>,
       hdr_spec = spec_union (n_type h) (n_spec h),
       data_size = word_of_nat (nsize n) - word_of_nat hs,
       data_ptr = Some (ti, word_of_nat off + word_of_nat hs),
       hdr_raw_ptr = Some (ti, word_of_nat off)\<rparr>)"

lemma ser_split: "\<exists>body. ser prel n = ser_hdr (nsize n) prel (n_hdr n) @ body"
  by (cases n) auto

lemma node_hdr_cases:
  assumes "node_ok n"
  shows "(n_type (n_hdr n) = SWICC_FS_ITEM_TYPE_FILE_EF_TRANSPARENT \<and> n_spec (n_hdr n) = []) \<or>
    (is_rcrd_type (n_type (n_hdr n)) \<and> length (n_spec (n_hdr n)) = 1) \<or>
    (is_folder_type (n_type (n_hdr n)) \<and> length (n_spec (n_hdr n)) = SWICC_FS_NAME_LEN)"
  using assms by (cases n) auto

lemma nsize_hsize: "n_hsize n \<le> nsize n"
  by (cases n) (simp_all add: n_hsize_def)

lemma item_type_prs_raw: "t \<noteq> SWICC_FS_ITEM_TYPE_INVALID \<Longrightarrow> item_type_prs (item_type_raw t) old = t"
  by (cases t) (simp_all add: item_type_prs_def item_type_raw_def)

lemma item_hdr_raw_size_node:
  "node_ok n \<Longrightarrow> swicc_fs_item_hdr_raw_size (n_type (n_hdr n)) = word_of_nat (n_hsize n)"
  using node_hdr_cases [of n]
  by (auto simp: swicc_fs_item_hdr_raw_size_def n_hsize_def is_rcrd_type_def is_folder_type_def)

lemma hdr_spec_prs_node:
  assumes "node_ok n" and "drop off b = n_spec (n_hdr n) @ rest"
  shows "hdr_spec_prs (n_type (n_hdr n)) b off =
    Some (Some (spec_union (n_type (n_hdr n)) (n_spec (n_hdr n))))"
proof -
  let ?s = "n_spec (n_hdr n)"
  from node_hdr_cases [OF assms(1)] consider
      (tr) "n_type (n_hdr n) = SWICC_FS_ITEM_TYPE_FILE_EF_TRANSPARENT" "?s = []"
    | (rc) "is_rcrd_type (n_type (n_hdr n))" "length ?s = 1"
    | (fo) "is_folder_type (n_type (n_hdr n))" "length ?s = 16" by blast
  then show ?thesis
  proof cases
    case tr
    then show ?thesis by (simp add: hdr_spec_prs_def spec_union_def)
  next
    case rc
    then obtain x where "?s = [x]" by (auto simp: length_Suc_conv)
    then show ?thesis
      using rc assms(2) rd_drop [of off b x rest]
      by (auto simp: hdr_spec_prs_def spec_union_def is_rcrd_type_def)
  next
    case fo
    have ne: "?s \<noteq> []" using fo(2) by force
    have all: "rdn b off 16 = Some ?s" using rdn_drop [OF assms(2) ne] fo(2) by simp
    have d1: "drop off b = take 5 ?s @ drop 5 ?s @ rest" using assms(2) by simp
    have ne5: "take 5 ?s \<noteq> []" "drop 5 ?s \<noteq> []" using fo(2) ne by auto
    have "rdn b off 5 = Some (take 5 ?s)" using rdn_drop [OF d1 ne5(1)] fo(2) by simp
    moreover have "rdn b (off + 5) 11 = Some (drop 5 ?s)"
      using rdn_drop [OF drop_more [OF d1] ne5(2)] fo(2) by (simp add: min_def)
    ultimately show ?thesis
      using fo all by (auto simp: hdr_spec_prs_def spec_union_def is_folder_type_def)
  qed
qed

lemma file_prs_node:
  assumes ok: "node_ok n" and at: "drop off b = ser prel n @ rest" and fit: "off + file_raw_size < 2 ^ 32 - 1"
  shows "swicc_fs_file_prs ti b (word_of_nat off) f = Some (SWICC_RET_SUCCESS, file_of ti off prel n)"
proof -
  let ?h = "n_hdr n"
  have off: "unat (word_of_nat off :: u32) = off"
    by (rule unat_of_nat_u32) (use fit in simp)
  obtain body where body: "ser prel n = ser_hdr (nsize n) prel ?h @ body" using ser_split by blast
  have d0: "drop off b = le32_put (word_of_nat (nsize n)) @ le32_put (word_of_nat prel) @
      [item_type_raw (n_type ?h), n_lcs ?h] @ le16_put (n_id ?h) @ [n_sid ?h] @ n_spec ?h @ body @ rest"
    using at body by (simp add: ser_hdr_def)
  note d4 = drop_more [OF d0, simplified]
  have d8: "drop (off + 8) b = item_type_raw (n_type ?h) # n_lcs ?h # le16_put (n_id ?h) @ [n_sid ?h] @ n_spec ?h @ body @ rest"
    using drop_more [OF d4] by (simp add: add.assoc)
  note d9 = drop_more_Cons [OF d8]
  have d10: "drop (off + 10) b = le16_put (n_id ?h) @ [n_sid ?h] @ n_spec ?h @ body @ rest"
    using drop_more_Cons [OF d9] by (simp add: eval_nat_numeral)
  have d12: "drop (off + 12) b = n_sid ?h # n_spec ?h @ body @ rest"
    using drop_more [OF d10] by (simp add: add.commute)
  have d13: "drop (off + 13) b = n_spec ?h @ body @ rest"
    using drop_more_Cons [OF d12] by (simp add: eval_nat_numeral)
  have ihr: "item_hdr_raw_get b off = Some \<lparr>ihr_size = word_of_nat (nsize n), ihr_offset_prel = word_of_nat prel,
      ihr_type = item_type_raw (n_type ?h), ihr_lcs = n_lcs ?h\<rparr>"
    using le32_get_drop [OF d0] le32_get_drop [OF d4] rd_drop [OF d8] rd_drop [OF d9]
    by (simp add: item_hdr_raw_get_def eval_nat_numeral)
  have fhr: "file_hdr_raw_get b (off + 10) = Some \<lparr>fh_id = n_id ?h, fh_sid = n_sid ?h\<rparr>"
    using le16_get_drop [OF d10] rd_drop [OF d12] by (simp add: file_hdr_raw_get_def add.commute)
  have nt: "n_type ?h \<noteq> SWICC_FS_ITEM_TYPE_INVALID"
    using node_hdr_cases [OF ok] by (auto simp: is_rcrd_type_def is_folder_type_def)
  have spec: "hdr_spec_prs (n_type ?h) b (off + 13) = Some (Some (spec_union (n_type ?h) (n_spec ?h)))"
    by (rule hdr_spec_prs_node [OF ok d13])
  show ?thesis
    using fit
    by (simp add: swicc_fs_file_prs_def Let_def off ihr fhr swicc_fs_item_hdr_prs_def
        item_type_prs_raw [OF nt] spec item_hdr_raw_size_node [OF ok] swicc_fs_file_hdr_prs_def
        file_of_def file_zero_def add.assoc)
qed

end
