(* ===== verification/Swicc_Lut.thy ===== *)
theory Swicc_Lut
  imports Swicc_Common "HOL-Library.List_Lexorder"
begin

text \<open>
  The lookup tables of \<^verbatim>\<open>include/swicc/fs/disk.h\<close> and \<^verbatim>\<open>lut_insert\<close> of \<^verbatim>\<open>src/fs/disk.c\<close>: two raw
  buffers, one with the sorted keys, one with the values.

  The state of a heap buffer is explicit: a NULL pointer, a pointer to memory that was freed, or
  allocated memory.  The allocator is a parameter \<open>A\<close>: a request for \<open>n\<close> bytes is refused or gives
  memory with arbitrary contents.  The locale \<open>lookup_table\<close> states what the users of a table rely
  on; its interpretation shows that the tables of the code are such tables.
\<close>

section \<open>Heap memory\<close>

datatype mem = Null | Dangling | Alloc bytes

type_synonym allocator = "nat \<Rightarrow> (nat \<Rightarrow> u8) option"

definition mem_malloc :: "allocator \<Rightarrow> nat \<Rightarrow> mem" where
  "mem_malloc A n = (case A n of None \<Rightarrow> Null | Some f \<Rightarrow> Alloc (map f [0..<n]))"

text \<open>
  Growing or shrinking a buffer: the result is the new buffer, \<^term>\<open>None\<close> stands for using freed
  memory.  When the request is refused the old buffer stays valid.
\<close>

definition mem_realloc :: "allocator \<Rightarrow> mem \<Rightarrow> nat \<Rightarrow> mem option" where
  "mem_realloc A m n = (case m of
     Null \<Rightarrow> Some (mem_malloc A n)
   | Dangling \<Rightarrow> None
   | Alloc b \<Rightarrow> Some (case A n of None \<Rightarrow> Null | Some f \<Rightarrow> Alloc (take n b @ map f [length b..<n])))"

definition mem_bytes :: "mem \<Rightarrow> bytes option" where
  "mem_bytes m = (case m of Alloc b \<Rightarrow> Some b | _ \<Rightarrow> None)"

text \<open>The sign of \<^verbatim>\<open>memcmp\<close> over two ranges of the same length.\<close>

fun memcmp_lt :: "bytes \<Rightarrow> bytes \<Rightarrow> bool" where
  "memcmp_lt (x # xs) (y # ys) = (x < y \<or> (x = y \<and> memcmp_lt xs ys))"
| "memcmp_lt _ _ = False"

lemma memcmp_lt_less: "length xs = length ys \<Longrightarrow> memcmp_lt xs ys \<longleftrightarrow> xs < ys"
  by (induction xs ys rule: list_induct2) auto

section \<open>The table\<close>

record swicc_disk_lut =
  lut_count_max :: u32
  lut_count :: u32
  lut_buf1 :: mem
  lut_size1 :: u32
  lut_buf2 :: mem
  lut_size2 :: u32

abbreviation LUT_COUNT_START :: u32 where "LUT_COUNT_START \<equiv> 64"
abbreviation LUT_COUNT_RESIZE :: u32 where "LUT_COUNT_RESIZE \<equiv> 8"

definition lut_zero :: swicc_disk_lut where
  "lut_zero = \<lparr>lut_count_max = 0, lut_count = 0, lut_buf1 = Null, lut_size1 = 0,
     lut_buf2 = Null, lut_size2 = 0\<rparr>"

text \<open>
  The resize step.  When one of the two requests is refused, the buffer of the other one has been
  freed by the call and the table keeps a dangling pointer to it.
\<close>

definition lut_resize :: "allocator \<Rightarrow> swicc_disk_lut \<Rightarrow> (swicc_ret \<times> swicc_disk_lut) option" where
  "lut_resize A l = do {
     let cm = lut_count_max l + LUT_COUNT_RESIZE;
     let l1 = l\<lparr>lut_count_max := cm\<rparr>;
     b1 \<leftarrow> mem_realloc A (lut_buf1 l) (unat (cm * lut_size1 l));
     b2 \<leftarrow> mem_realloc A (lut_buf2 l) (unat (cm * lut_size2 l));
     if b1 = Null \<or> b2 = Null then
       Some (SWICC_RET_ERROR,
         l1\<lparr>lut_buf1 := (if b1 = Null then lut_buf1 l else Dangling),
            lut_buf2 := (if b2 = Null then lut_buf2 l else Dangling)\<rparr>)
     else Some (SWICC_RET_SUCCESS, l1\<lparr>lut_buf1 := b1, lut_buf2 := b2\<rparr>) }"

text \<open>The binary search; the sum and the index are 32-bit, so the loop is not obviously finite.\<close>

partial_function (option) lut_search :: "bytes \<Rightarrow> u32 \<Rightarrow> bytes \<Rightarrow> u32 \<Rightarrow> u32 \<Rightarrow> u32 option" where
  "lut_search b sz key start end1 =
     (if start < end1 then do {
        let mid = (start + end1) div 2;
        item \<leftarrow> rdn b (unat (sz * mid)) (unat sz);
        k \<leftarrow> rdn key 0 (unat sz);
        if memcmp_lt item k then lut_search b sz key (mid + 1) end1
        else lut_search b sz key start mid }
      else Some start)"

text \<open>Moving the items from \<open>start\<close> on up by one and storing the new item there.\<close>

definition lut_place :: "bytes \<Rightarrow> u32 \<Rightarrow> u32 \<Rightarrow> u32 \<Rightarrow> bytes \<Rightarrow> bytes option" where
  "lut_place b sz start count item = do {
     src \<leftarrow> rdn b (unat (sz * start)) (unat (sz * (count - start)));
     b1 \<leftarrow> wrn b (unat (sz * (start + 1))) src;
     it \<leftarrow> rdn item 0 (unat sz);
     wrn b1 (unat (sz * start)) it }"

definition lut_insert ::
    "allocator \<Rightarrow> swicc_disk_lut \<Rightarrow> bytes \<Rightarrow> bytes \<Rightarrow> (swicc_ret \<times> swicc_disk_lut) option" where
  "lut_insert A l item1 item2 = do {
     (ret, l1) \<leftarrow> (if lut_count l \<ge> lut_count_max l then lut_resize A l else Some (SWICC_RET_SUCCESS, l));
     if ret \<noteq> SWICC_RET_SUCCESS then Some (ret, l1)
     else do {
       b1 \<leftarrow> mem_bytes (lut_buf1 l1);
       b2 \<leftarrow> mem_bytes (lut_buf2 l1);
       start \<leftarrow> lut_search b1 (lut_size1 l1) item1 0 (lut_count l1);
       b1' \<leftarrow> lut_place b1 (lut_size1 l1) start (lut_count l1) item1;
       b2' \<leftarrow> lut_place b2 (lut_size2 l1) start (lut_count l1) item2;
       Some (SWICC_RET_SUCCESS,
         l1\<lparr>lut_buf1 := Alloc b1', lut_buf2 := Alloc b2', lut_count := lut_count l1 + 1\<rparr>) } }"

text \<open>
  The linear search both lookups start with: the index of the first entry with the key, or the
  number of entries.
\<close>

function lut_find :: "bytes \<Rightarrow> u32 \<Rightarrow> bytes \<Rightarrow> nat \<Rightarrow> nat \<Rightarrow> nat option" where
  "lut_find b sz key count idx =
     (if idx < count then do {
        item \<leftarrow> rdn b (unat (sz * word_of_nat idx)) (unat sz);
        k \<leftarrow> rdn key 0 (unat sz);
        if item = k then Some idx else lut_find b sz key count (idx + 1) }
      else Some idx)"
  by pat_completeness auto
termination
  by (relation "measure (\<lambda>(b, sz, key, count, idx). count - idx)") auto

declare lut_find.simps [simp del]


section \<open>Buffers as sequences of items\<close>

definition buf_repr :: "bytes \<Rightarrow> nat \<Rightarrow> bytes list \<Rightarrow> bool" where
  "buf_repr b s ks \<longleftrightarrow> (\<forall>k \<in> set ks. length k = s) \<and> (\<exists>rest. b = concat ks @ rest)"

lemma length_concat_uniform: "\<forall>k \<in> set ks. length k = s \<Longrightarrow> length (concat ks) = s * length ks"
  by (induction ks) auto

lemma buf_repr_split:
  assumes "buf_repr b s ks" and "i \<le> length ks"
  shows "\<exists>rest. b = concat (take i ks) @ concat (drop i ks) @ rest \<and>
    length (concat (take i ks)) = s * i \<and> length (concat (drop i ks)) = s * (length ks - i)"
proof -
  obtain rest where r: "b = concat ks @ rest" and u: "\<forall>k \<in> set ks. length k = s"
    using assms(1) by (auto simp: buf_repr_def)
  have "concat ks = concat (take i ks) @ concat (drop i ks)"
    by (metis append_take_drop_id concat_append)
  moreover have "length (concat (take i ks)) = s * i"
    using length_concat_uniform [of "take i ks" s] u assms(2) by (auto dest: in_set_takeD)
  moreover have "length (concat (drop i ks)) = s * (length ks - i)"
    using length_concat_uniform [of "drop i ks" s] u by (auto dest: in_set_dropD)
  ultimately show ?thesis using r by auto
qed

lemma buf_repr_item:
  assumes "buf_repr b s ks" and "i < length ks"
  shows "rdn b (s * i) s = Some (ks ! i)"
proof -
  obtain rest where r: "b = concat (take i ks) @ concat (drop i ks) @ rest" "length (concat (take i ks)) = s * i"
    using buf_repr_split [OF assms(1), of i] assms(2) by auto
  have d: "drop i ks = ks ! i # drop (Suc i) ks" using assms(2) by (simp add: Cons_nth_drop_Suc)
  have l: "length (ks ! i) = s" using assms by (auto simp: buf_repr_def)
  have "drop (s * i) b = ks ! i @ concat (drop (Suc i) ks) @ rest"
    using r d by simp
  moreover have "s * i + s \<le> length b" using r d l by simp
  ultimately show ?thesis using l by (simp add: rdn_def)
qed

lemma buf_repr_place:
  assumes rep: "buf_repr b s ks" and i: "i \<le> length ks" and k: "length k = s"
    and room: "s * (length ks + 1) \<le> length b"
  shows "\<exists>src b1 b2. rdn b (s * i) (s * (length ks - i)) = Some src \<and> wrn b (s * (i + 1)) src = Some b1 \<and>
    wrn b1 (s * i) k = Some b2 \<and> buf_repr b2 s (take i ks @ k # drop i ks) \<and> length b2 = length b"
proof -
  obtain rest where r: "b = concat (take i ks) @ concat (drop i ks) @ rest"
    and l1: "length (concat (take i ks)) = s * i" and l2: "length (concat (drop i ks)) = s * (length ks - i)"
    using buf_repr_split [OF rep i] by blast
  let ?hd = "concat (take i ks)" and ?tl = "concat (drop i ks)"
  have sum: "s * i + s * (length ks - i) = s * length ks"
    using i by (metis add_mult_distrib2 le_add_diff_inverse)
  have lr: "s \<le> length rest" using room r l1 l2 sum by simp
  let ?gap = "take s (?tl @ rest)"
  have src: "rdn b (s * i) (s * (length ks - i)) = Some ?tl"
    using r l1 l2 by (simp add: rdn_def)
  have b1: "wrn b (s * (i + 1)) ?tl = Some (?hd @ ?gap @ ?tl @ drop s rest)"
    using r l1 l2 lr sum by (simp add: wrn_def algebra_simps)
  have "length ?gap = s" using lr by simp
  then have b2: "wrn (?hd @ ?gap @ ?tl @ drop s rest) (s * i) k = Some (?hd @ k @ ?tl @ drop s rest)"
    using l1 k by (simp add: wrn_def)
  have "buf_repr (?hd @ k @ ?tl @ drop s rest) s (take i ks @ k # drop i ks)"
    using rep k by (auto simp: buf_repr_def dest: in_set_takeD in_set_dropD)
  moreover have "length (?hd @ k @ ?tl @ drop s rest) = length b"
    using r k lr by simp
  ultimately show ?thesis using src b1 b2 by blast
qed

lemma buf_repr_grow: "buf_repr b s ks \<Longrightarrow> length b \<le> n \<Longrightarrow> buf_repr (take n b @ xs) s ks"
  by (auto simp: buf_repr_def)

section \<open>The entries of a table\<close>

definition lut_rep :: "swicc_disk_lut \<Rightarrow> (bytes \<times> bytes) list \<Rightarrow> bool" where
  "lut_rep l es \<longleftrightarrow> (\<exists>b1 b2. lut_buf1 l = Alloc b1 \<and> lut_buf2 l = Alloc b2 \<and>
     buf_repr b1 (unat (lut_size1 l)) (map fst es) \<and> buf_repr b2 (unat (lut_size2 l)) (map snd es) \<and>
     length b1 = unat (lut_count_max l) * unat (lut_size1 l) \<and>
     length b2 = unat (lut_count_max l) * unat (lut_size2 l)) \<and>
     unat (lut_count l) = length es \<and> unat (lut_count l) \<le> unat (lut_count_max l) \<and>
     0 < lut_size1 l \<and> 0 < lut_size2 l \<and>
     unat (lut_count_max l) * unat (lut_size1 l) < 2 ^ 31 \<and>
     unat (lut_count_max l) * unat (lut_size2 l) < 2 ^ 31 \<and> sorted (map fst es)"

text \<open>Where an entry goes: in front of the first one whose key is not smaller.\<close>

definition ins_pos :: "(bytes \<times> bytes) list \<Rightarrow> bytes \<Rightarrow> nat" where
  "ins_pos es k = length (takeWhile (\<lambda>e. fst e < k) es)"

definition ins_entry :: "(bytes \<times> bytes) list \<Rightarrow> bytes \<Rightarrow> bytes \<Rightarrow> (bytes \<times> bytes) list" where
  "ins_entry es k v = take (ins_pos es k) es @ (k, v) # drop (ins_pos es k) es"

lemma ins_pos_le: "ins_pos es k \<le> length es"
  by (simp add: ins_pos_def length_takeWhile_le)

lemma ins_pos_less: "j < ins_pos es k \<Longrightarrow> fst (es ! j) < k"
  unfolding ins_pos_def by (metis nth_mem set_takeWhileD takeWhile_nth)

lemma ins_pos_ge:
  assumes "sorted (map fst es)" "ins_pos es k \<le> j" "j < length es"
  shows "k \<le> fst (es ! j)"
proof -
  have p: "ins_pos es k < length es" using assms by simp
  then have "\<not> fst (es ! ins_pos es k) < k"
    using nth_length_takeWhile [of "\<lambda>e. fst e < k" es] by (simp add: ins_pos_def)
  moreover have "fst (es ! ins_pos es k) \<le> fst (es ! j)"
    using sorted_nth_mono [OF assms(1) assms(2)] assms(3) p by simp
  ultimately show ?thesis by simp
qed

lemma ins_entry_sorted:
  assumes "sorted (map fst es)"
  shows "sorted (map fst (ins_entry es k v))"
proof -
  have t: "take (ins_pos es k) es = takeWhile (\<lambda>e. fst e < k) es"
    by (simp add: ins_pos_def takeWhile_eq_take [symmetric])
  have "\<forall>e \<in> set (drop (ins_pos es k) es). k \<le> fst e"
  proof
    fix e assume "e \<in> set (drop (ins_pos es k) es)"
    then obtain i where "i < length es - ins_pos es k" "e = es ! (ins_pos es k + i)"
      by (auto simp: in_set_conv_nth)
    with ins_pos_ge [OF assms, of k "ins_pos es k + i"] show "k \<le> fst e" by simp
  qed
  moreover have "\<forall>e \<in> set (take (ins_pos es k) es). fst e < k"
    unfolding t by (auto dest: set_takeWhileD)
  moreover have "sorted (map fst (take (ins_pos es k) es))" "sorted (map fst (drop (ins_pos es k) es))"
    using assms by (simp_all add: sorted_wrt_take sorted_wrt_drop take_map [symmetric] drop_map [symmetric])
  ultimately show ?thesis
    by (fastforce simp: ins_entry_def sorted_append)
qed

lemma ins_entry_map_of:
  "map_of (ins_entry es k v) = (map_of es)(k \<mapsto> v)"
proof
  fix x
  have t: "take (ins_pos es k) es = takeWhile (\<lambda>e. fst e < k) es"
    by (simp add: ins_pos_def takeWhile_eq_take [symmetric])
  have nk: "map_of (take (ins_pos es k) es) k = None"
    unfolding t by (auto simp: map_of_eq_None_iff dest!: set_takeWhileD)
  have "map_of es x = map_of (take (ins_pos es k) es @ drop (ins_pos es k) es) x" by simp
  then show "map_of (ins_entry es k v) x = ((map_of es)(k \<mapsto> v)) x"
    using nk by (cases "x = k") (auto simp: ins_entry_def map_add_def simp del: append_take_drop_id split: option.splits)
qed


section \<open>The search\<close>

lemma half_sum:
  fixes x y :: u32
  assumes "x < y" and "unat y < 2 ^ 31"
  shows "unat ((x + y) div 2) = (unat x + unat y) div 2" "x \<le> (x + y) div 2" "(x + y) div 2 < y"
    "unat ((x + y) div 2 + 1) = (unat x + unat y) div 2 + 1"
proof -
  have l: "unat x < unat y" using assms(1) by (simp add: word_less_nat_alt)
  have "unat (x + y) = unat x + unat y"
    by (rule unat_add_u32) (use l assms(2) in simp)
  then show h: "unat ((x + y) div 2) = (unat x + unat y) div 2"
    by (simp add: unat_div)
  then show "x \<le> (x + y) div 2" "(x + y) div 2 < y"
    using l by (simp_all add: word_le_nat_alt word_less_nat_alt)
  show "unat ((x + y) div 2 + 1) = (unat x + unat y) div 2 + 1"
    using unat_add_u32 [of "(x + y) div 2" 1] h l assms(2) by simp
qed

lemma mult_lt: "(m :: nat) < n \<Longrightarrow> n * s < B \<Longrightarrow> m * s < B"
  by (meson le_less_trans less_imp_le mult_le_mono1)

lemma unat_mult_ok: "unat s * unat m < 2 ^ 32 \<Longrightarrow> unat (s * m :: u32) = unat s * unat m"
  by (simp add: unat_word_ariths)

lemma lut_search_pos:
  assumes rep: "buf_repr b (unat sz) ks" and cnt: "unat sz * length ks < 2 ^ 31" "length ks < 2 ^ 31"
    and key: "length key = unat sz" and p: "p \<le> length ks"
    and below: "\<And>j. j < p \<Longrightarrow> ks ! j < key" and above: "\<And>j. p \<le> j \<Longrightarrow> j < length ks \<Longrightarrow> key \<le> ks ! j"
  shows "unat x \<le> p \<Longrightarrow> p \<le> unat y \<Longrightarrow> unat y \<le> length ks \<Longrightarrow>
    lut_search b sz key x y = Some (word_of_nat p)"
proof (induction "unat y - unat x" arbitrary: x y rule: less_induct)
  case less
  show ?case
  proof (cases "x < y")
    case False
    then have "unat x = p" using less.prems by (simp add: word_less_nat_alt)
    then have "x = word_of_nat p" by auto
    with False show ?thesis by (subst lut_search.simps) simp
  next
    case True
    let ?m = "(x + y) div 2" and ?n = "(unat x + unat y) div 2"
    have yl: "unat y < 2 ^ 31" using less.prems cnt(2) by linarith
    note h = half_sum [OF True yl]
    have xy: "unat x < unat y" using True by (simp add: word_less_nat_alt)
    have nl: "?n < length ks" using xy less.prems by linarith
    have a: "unat sz * ?n \<le> unat sz * length ks"
      by (rule mult_le_mono2) (use nl in simp)
    have "unat sz * unat ?m < 2 ^ 32"
      unfolding h(1) by (rule less_trans [OF le_less_trans [OF a cnt(1)]]) simp
    then have um: "unat (sz * ?m) = unat sz * ?n"
      using unat_mult_ok [of sz ?m] unfolding h(1) by blast
    have item: "rdn b (unat (sz * ?m)) (unat sz) = Some (ks ! ?n)"
      unfolding um by (rule buf_repr_item [OF rep nl])
    have k: "rdn key 0 (unat sz) = Some key" using key by (simp add: rdn_def)
    have "length (ks ! ?n) = unat sz" using rep nl by (simp add: buf_repr_def)
    then have lt: "memcmp_lt (ks ! ?n) key \<longleftrightarrow> ks ! ?n < key" using key by (intro memcmp_lt_less) simp
    show ?thesis
    proof (cases "ks ! ?n < key")
      case c: True
      then have "?n < p" using above [of ?n] nl by (meson leD not_le)
      then have "lut_search b sz key (?m + 1) y = Some (word_of_nat p)"
        using less.prems xy by (intro less.hyps) (use h(4) in linarith)+
      then show ?thesis
        using True c by (simp add: lut_search.simps [of b sz key x y] Let_def item k lt)
    next
      case c: False
      then have "p \<le> ?n" using below [of ?n] by (meson not_le)
      then have "lut_search b sz key x ?m = Some (word_of_nat p)"
        using less.prems xy by (intro less.hyps) (use h(1) in linarith)+
      then show ?thesis
        using True c by (simp add: lut_search.simps [of b sz key x y] Let_def item k lt)
    qed
  qed
qed

lemma lut_place_repr:
  assumes rep: "buf_repr b (unat sz) ks" and i: "i \<le> length ks" and k: "length item = unat sz"
    and room: "unat sz * (length ks + 1) \<le> length b" and lim: "length b < 2 ^ 31" and sz: "0 < sz"
    and cnt: "unat count = length ks"
  shows "\<exists>b'. lut_place b sz (word_of_nat i) count item = Some b' \<and>
    buf_repr b' (unat sz) (take i ks @ item # drop i ks) \<and> length b' = length b"
proof -
  have szp: "1 \<le> unat sz" using sz by (simp add: word_less_nat_alt)
  have ln: "length ks + 1 \<le> unat sz * (length ks + 1)" using mult_le_mono1 [OF szp, of "length ks + 1"] by simp
  have ksl: "length ks + 1 < 2 ^ 31"
    by (rule le_less_trans [OF order_trans [OF ln room] lim])
  then have ui: "unat (word_of_nat i :: u32) = i"
    using i by (intro unat_of_nat_u32) simp
  have ui1: "unat (word_of_nat i + 1 :: u32) = i + 1"
    using unat_add_u32 [of "word_of_nat i" 1] ui i ksl by simp
  have uc: "unat (count - word_of_nat i) = length ks - i"
    using i cnt ui by (subst unat_sub) (simp_all add: word_le_nat_alt)
  have le: "unat sz * i \<le> unat sz * (length ks + 1)" "unat sz * (i + 1) \<le> unat sz * (length ks + 1)"
    "unat sz * (length ks - i) \<le> unat sz * (length ks + 1)"
    using i by (simp_all only: mult_le_mono2 add_le_mono1 trans_le_add1 diff_le_self le_add_diff)
  have m: "unat (sz * word_of_nat i) = unat sz * i" "unat (sz * (word_of_nat i + 1)) = unat sz * (i + 1)"
    "unat (sz * (count - word_of_nat i)) = unat sz * (length ks - i)"
    using unat_mult_ok [of sz "word_of_nat i"] unat_mult_ok [of sz "word_of_nat i + 1"]
      unat_mult_ok [of sz "count - word_of_nat i"] le room lim ui ui1 uc by simp_all
  have it: "rdn item 0 (unat sz) = Some item" using k by (simp add: rdn_def)
  show ?thesis
    using buf_repr_place [OF rep i k room] unfolding lut_place_def m it by auto
qed


section \<open>Insertion\<close>

lemma lut_rep_lens:
  assumes "lut_rep l es"
  shows "unat (lut_count l) = length es" "length es \<le> unat (lut_count_max l)"
    "unat (lut_size1 l) * unat (lut_count_max l) < 2 ^ 31" "unat (lut_size2 l) * unat (lut_count_max l) < 2 ^ 31"
    "sorted (map fst es)" "0 < lut_size1 l" "0 < lut_size2 l"
  using assms by (simp_all add: lut_rep_def mult.commute)

lemma lut_insert_room:
  assumes rep: "lut_rep l es" and room: "length es < unat (lut_count_max l)"
    and k: "length k = unat (lut_size1 l)" and v: "length v = unat (lut_size2 l)"
  shows "\<exists>l'. lut_insert A l k v = Some (SWICC_RET_SUCCESS, l') \<and> lut_rep l' (ins_entry es k v) \<and>
    lut_size1 l' = lut_size1 l \<and> lut_size2 l' = lut_size2 l \<and> lut_count_max l' = lut_count_max l"
proof -
  note L = lut_rep_lens [OF rep]
  obtain b1 b2 where b: "lut_buf1 l = Alloc b1" "lut_buf2 l = Alloc b2"
    "buf_repr b1 (unat (lut_size1 l)) (map fst es)" "buf_repr b2 (unat (lut_size2 l)) (map snd es)"
    "length b1 = unat (lut_size1 l) * unat (lut_count_max l)"
    "length b2 = unat (lut_size2 l) * unat (lut_count_max l)"
    using rep by (auto simp: lut_rep_def mult.commute)
  let ?p = "ins_pos es k"
  have s1: "1 \<le> unat (lut_size1 l)" using L(6) by (simp add: word_less_nat_alt)
  have cm: "unat (lut_count_max l) \<le> unat (lut_size1 l) * unat (lut_count_max l)"
    using mult_le_mono1 [OF s1] by simp
  have room1: "unat (lut_size1 l) * (length (map fst es) + 1) \<le> length b1"
    and room2: "unat (lut_size2 l) * (length (map snd es) + 1) \<le> length b2"
    unfolding b(5,6) by (rule mult_le_mono2, use room in simp)+
  have small: "unat (lut_size1 l) * length (map fst es) < 2 ^ 31"
    using room1 b(5) L(3) by (simp add: algebra_simps)
  have search: "lut_search b1 (lut_size1 l) k 0 (lut_count l) = Some (word_of_nat ?p)"
  proof (rule lut_search_pos [OF b(3) small _ k])
    show "length (map fst es) < 2 ^ 31"
      unfolding length_map by (rule less_trans [OF room le_less_trans [OF cm L(3)]])
    show "map fst es ! j < k" if "j < ?p" for j
      using ins_pos_less [OF that] that ins_pos_le [of es k] by simp
    show "k \<le> map fst es ! j" if "?p \<le> j" "j < length (map fst es)" for j
      using ins_pos_ge [OF L(5) that(1)] that(2) by simp
  qed (use ins_pos_le [of es k] L(1) in simp_all)
  obtain b1' where p1: "lut_place b1 (lut_size1 l) (word_of_nat ?p) (lut_count l) k = Some b1'"
    "buf_repr b1' (unat (lut_size1 l)) (take ?p (map fst es) @ k # drop ?p (map fst es))" "length b1' = length b1"
    using lut_place_repr [OF b(3) _ k room1, of ?p "lut_count l"] L b(5) ins_pos_le [of es k] by auto
  obtain b2' where p2: "lut_place b2 (lut_size2 l) (word_of_nat ?p) (lut_count l) v = Some b2'"
    "buf_repr b2' (unat (lut_size2 l)) (take ?p (map snd es) @ v # drop ?p (map snd es))" "length b2' = length b2"
    using lut_place_repr [OF b(4) _ v room2, of ?p "lut_count l"] L b(6) ins_pos_le [of es k] by auto
  have "length es < 2 ^ 31"
    by (rule less_trans [OF room le_less_trans [OF cm L(3)]])
  then have cnt: "unat (lut_count l + 1) = length es + 1"
    using unat_add_u32 [of "lut_count l" 1] L(1) by simp
  have nr: "\<not> lut_count l \<ge> lut_count_max l"
    using room L(1) by (simp add: word_le_nat_alt)
  let ?l' = "l\<lparr>lut_buf1 := Alloc b1', lut_buf2 := Alloc b2', lut_count := lut_count l + 1\<rparr>"
  have "lut_insert A l k v = Some (SWICC_RET_SUCCESS, ?l')"
    using nr search p1(1) p2(1) by (simp add: lut_insert_def mem_bytes_def b)
  moreover have "lut_rep ?l' (ins_entry es k v)"
    using p1 p2 b(5,6) cnt room L ins_entry_sorted [OF L(5), of k v] ins_pos_le [of es k]
    by (simp add: lut_rep_def ins_entry_def take_map drop_map mult.commute)
  ultimately show ?thesis by auto
qed

definition grants :: "allocator \<Rightarrow> bool" where
  "grants A \<longleftrightarrow> (\<forall>n. A n \<noteq> None)"

lemma lut_resize_rep:
  assumes rep: "lut_rep l es" and g: "grants A"
    and lim: "unat (lut_size1 l) * (unat (lut_count_max l) + 8) < 2 ^ 31"
      "unat (lut_size2 l) * (unat (lut_count_max l) + 8) < 2 ^ 31"
  shows "\<exists>l'. lut_resize A l = Some (SWICC_RET_SUCCESS, l') \<and> lut_rep l' es \<and>
    lut_size1 l' = lut_size1 l \<and> lut_size2 l' = lut_size2 l \<and>
    unat (lut_count_max l') = unat (lut_count_max l) + 8"
proof -
  note L = lut_rep_lens [OF rep]
  obtain b1 b2 where b: "lut_buf1 l = Alloc b1" "lut_buf2 l = Alloc b2"
    "buf_repr b1 (unat (lut_size1 l)) (map fst es)" "buf_repr b2 (unat (lut_size2 l)) (map snd es)"
    "length b1 = unat (lut_size1 l) * unat (lut_count_max l)"
    "length b2 = unat (lut_size2 l) * unat (lut_count_max l)"
    using rep by (auto simp: lut_rep_def mult.commute)
  let ?cm = "lut_count_max l + LUT_COUNT_RESIZE"
  have s1: "1 \<le> unat (lut_size1 l)" using L(6) by (simp add: word_less_nat_alt)
  have "unat (lut_count_max l) + 8 \<le> unat (lut_size1 l) * (unat (lut_count_max l) + 8)"
    using mult_le_mono1 [OF s1, of "unat (lut_count_max l) + 8"] by (simp only: mult_1)
  then have "unat (lut_count_max l) + 8 < 2 ^ 31"
    by (rule le_less_trans [OF _ lim(1)])
  then have cm: "unat ?cm = unat (lut_count_max l) + 8"
    using unat_add_u32 [of "lut_count_max l" 8] by simp
  have sz: "unat (?cm * lut_size1 l) = unat (lut_size1 l) * unat ?cm"
    "unat (?cm * lut_size2 l) = unat (lut_size2 l) * unat ?cm"
    using unat_mult_ok [of "lut_size1 l" ?cm] unat_mult_ok [of "lut_size2 l" ?cm] lim
    by (simp_all add: cm mult.commute)
  obtain f1 f2 where f: "A (unat (lut_size1 l) * unat ?cm) = Some f1" "A (unat (lut_size2 l) * unat ?cm) = Some f2"
    using g unfolding grants_def by (metis not_None_eq)
  have le: "length b1 \<le> unat (lut_size1 l) * unat ?cm" "length b2 \<le> unat (lut_size2 l) * unat ?cm"
    unfolding b(5,6) cm by simp_all
  let ?B1 = "take (unat (lut_size1 l) * unat ?cm) b1 @ map f1 [length b1..<unat (lut_size1 l) * unat ?cm]"
  let ?B2 = "take (unat (lut_size2 l) * unat ?cm) b2 @ map f2 [length b2..<unat (lut_size2 l) * unat ?cm]"
  let ?l' = "l\<lparr>lut_count_max := ?cm, lut_buf1 := Alloc ?B1, lut_buf2 := Alloc ?B2\<rparr>"
  have "lut_resize A l = Some (SWICC_RET_SUCCESS, ?l')"
    by (simp add: lut_resize_def Let_def mem_realloc_def b(1,2) sz f)
  moreover have "lut_rep ?l' es"
    unfolding lut_rep_def using buf_repr_grow [OF b(3) le(1)] buf_repr_grow [OF b(4) le(2)] L lim le cm
    by (simp add: min_def mult.commute)
  ultimately show ?thesis using cm by auto
qed

lemma lut_insert_rep:
  assumes rep: "lut_rep l es" and g: "grants A"
    and k: "length k = unat (lut_size1 l)" and v: "length v = unat (lut_size2 l)"
    and lim: "unat (lut_size1 l) * (unat (lut_count_max l) + 8) < 2 ^ 31"
      "unat (lut_size2 l) * (unat (lut_count_max l) + 8) < 2 ^ 31"
  shows "\<exists>l'. lut_insert A l k v = Some (SWICC_RET_SUCCESS, l') \<and> lut_rep l' (ins_entry es k v) \<and>
    lut_size1 l' = lut_size1 l \<and> lut_size2 l' = lut_size2 l \<and>
    unat (lut_count_max l') \<le> max (unat (lut_count_max l)) (length es + 8)"
proof (cases "length es < unat (lut_count_max l)")
  case True
  then show ?thesis using lut_insert_room [OF rep True k v, of A] by auto
next
  case False
  note L = lut_rep_lens [OF rep]
  have full: "lut_count l \<ge> lut_count_max l" "unat (lut_count_max l) = length es"
    using False L(1,2) by (simp_all add: word_le_nat_alt)
  obtain l1 where r: "lut_resize A l = Some (SWICC_RET_SUCCESS, l1)" "lut_rep l1 es"
    "lut_size1 l1 = lut_size1 l" "lut_size2 l1 = lut_size2 l" "unat (lut_count_max l1) = unat (lut_count_max l) + 8"
    using lut_resize_rep [OF rep g lim] by blast
  have room: "length es < unat (lut_count_max l1)" using r(5) full(2) by simp
  then have "\<not> lut_count l1 \<ge> lut_count_max l1"
    using lut_rep_lens(1) [OF r(2)] by (simp add: word_le_nat_alt)
  then have "lut_insert A l k v = lut_insert A l1 k v"
    using full(1) r(1) by (simp add: lut_insert_def)
  then show ?thesis
    using lut_insert_room [OF r(2) room, of k v A] k v r full by auto
qed


section \<open>Lookup\<close>

lemma lut_find_eq:
  assumes rep: "buf_repr b (unat sz) ks" and lim: "unat sz * length ks < 2 ^ 31" "0 < sz"
    and key: "length key = unat sz"
  shows "i \<le> length ks \<Longrightarrow>
    lut_find b sz key (length ks) i = Some (i + length (takeWhile (\<lambda>k. k \<noteq> key) (drop i ks)))"
proof (induction "length ks - i" arbitrary: i)
  case 0
  then show ?case by (simp add: lut_find.simps)
next
  case (Suc n)
  then have i: "i < length ks" by simp
  have szp: "1 \<le> unat sz" using lim(2) by (simp add: word_less_nat_alt)
  have a: "unat sz * i \<le> unat sz * length ks" by (rule mult_le_mono2) (use i in simp)
  have "i \<le> unat sz * i" using mult_le_mono1 [OF szp, of i] by simp
  then have "i < 2 ^ 31" by (rule le_less_trans [OF order_trans [OF _ a] lim(1)])
  then have ui: "unat (word_of_nat i :: u32) = i" by (intro unat_of_nat_u32) simp
  have "unat sz * i < 2 ^ 32" by (rule less_trans [OF le_less_trans [OF a lim(1)]]) simp
  then have um: "unat (sz * word_of_nat i) = unat sz * i"
    using unat_mult_ok [of sz "word_of_nat i"] unfolding ui by blast
  have item: "rdn b (unat (sz * word_of_nat i)) (unat sz) = Some (ks ! i)"
    unfolding um by (rule buf_repr_item [OF rep i])
  have k: "rdn key 0 (unat sz) = Some key" using key by (simp add: rdn_def)
  have d: "drop i ks = ks ! i # drop (Suc i) ks" using i by (simp add: Cons_nth_drop_Suc)
  have IH: "lut_find b sz key (length ks) (Suc i) =
      Some (Suc i + length (takeWhile (\<lambda>k. k \<noteq> key) (drop (Suc i) ks)))"
    using Suc.hyps(2) i by (intro Suc.hyps(1)) simp_all
  show ?case
    using i IH by (subst lut_find.simps) (simp add: item k d)
qed

lemma map_of_first:
  "map_of es k = (let i = length (takeWhile (\<lambda>x. x \<noteq> k) (map fst es)) in
     if i < length es then Some (snd (es ! i)) else None)"
  by (induction es) (auto simp: Let_def)

text \<open>The value the lookups fetch for a key: both read the value of the entry \<open>lut_find\<close> gives.\<close>

definition lut_value :: "swicc_disk_lut \<Rightarrow> bytes \<Rightarrow> bytes option" where
  "lut_value l key = do {
     b1 \<leftarrow> mem_bytes (lut_buf1 l);
     b2 \<leftarrow> mem_bytes (lut_buf2 l);
     i \<leftarrow> lut_find b1 (lut_size1 l) key (unat (lut_count l)) 0;
     if i \<ge> unat (lut_count l) then None
     else rdn b2 (unat (lut_size2 l * word_of_nat i)) (unat (lut_size2 l)) }"

lemma lut_rep_value:
  assumes rep: "lut_rep l es" and i: "i < length es" and b2: "lut_buf2 l = Alloc b2"
  shows "rdn b2 (unat (lut_size2 l * word_of_nat i)) (unat (lut_size2 l)) = Some (snd (es ! i))"
proof -
  note L = lut_rep_lens [OF rep]
  have rb: "buf_repr b2 (unat (lut_size2 l)) (map snd es)"
    using rep b2 by (auto simp: lut_rep_def)
  have a: "unat (lut_size2 l) * i \<le> unat (lut_size2 l) * unat (lut_count_max l)"
    by (rule mult_le_mono2) (use i L(2) in simp)
  have s2: "1 \<le> unat (lut_size2 l)" using L(7) by (simp add: word_less_nat_alt)
  have "i \<le> unat (lut_size2 l) * i" using mult_le_mono1 [OF s2, of i] by simp
  then have "i < 2 ^ 31" by (rule le_less_trans [OF order_trans [OF _ a] L(4)])
  then have ui: "unat (word_of_nat i :: u32) = i" by (intro unat_of_nat_u32) simp
  have "unat (lut_size2 l) * i < 2 ^ 32" by (rule less_trans [OF le_less_trans [OF a L(4)]]) simp
  then have "unat (lut_size2 l * word_of_nat i) = unat (lut_size2 l) * i"
    using unat_mult_ok [of "lut_size2 l" "word_of_nat i"] unfolding ui by blast
  then show ?thesis using buf_repr_item [OF rb, of i] i by simp
qed

lemma lut_find_rep:
  assumes rep: "lut_rep l es" and k: "length key = unat (lut_size1 l)" and b1: "lut_buf1 l = Alloc b1"
  shows "lut_find b1 (lut_size1 l) key (unat (lut_count l)) 0 =
    Some (length (takeWhile (\<lambda>x. x \<noteq> key) (map fst es)))"
proof -
  note L = lut_rep_lens [OF rep]
  have rb: "buf_repr b1 (unat (lut_size1 l)) (map fst es)"
    using rep b1 by (auto simp: lut_rep_def)
  have "unat (lut_size1 l) * length (map fst es) < 2 ^ 31"
    by (rule le_less_trans [OF mult_le_mono2 L(3)]) (use L(2) in simp)
  from lut_find_eq [OF rb this L(6) k, of 0] show ?thesis by (simp add: L(1))
qed

lemma lut_value_map_of:
  assumes rep: "lut_rep l es" and k: "length key = unat (lut_size1 l)"
  shows "lut_value l key = map_of es key"
proof -
  obtain b1 b2 where b: "lut_buf1 l = Alloc b1" "lut_buf2 l = Alloc b2"
    using rep by (auto simp: lut_rep_def)
  let ?i = "length (takeWhile (\<lambda>x. x \<noteq> key) (map fst es))"
  show ?thesis
    using lut_find_rep [OF rep k b(1)] lut_rep_value [OF rep _ b(2), of ?i] lut_rep_lens(1) [OF rep]
    by (auto simp: lut_value_def mem_bytes_def b map_of_first Let_def)
qed

section \<open>The contract of a lookup table\<close>

fun puts :: "('s \<Rightarrow> 'k \<Rightarrow> 'v \<Rightarrow> 's option) \<Rightarrow> 's \<Rightarrow> ('k \<times> 'v) list \<Rightarrow> 's option" where
  "puts put s [] = Some s"
| "puts put s ((k, v) # kvs) = do { s' \<leftarrow> put s k v; puts put s' kvs }"

text \<open>
  A table with room for more entries takes a fitting entry, which from then on hides what was
  stored under its key before, and nothing else.
\<close>

locale lookup_table =
  fixes ok :: "'s \<Rightarrow> bool"
    and room :: "'s \<Rightarrow> nat"
    and fits :: "'s \<Rightarrow> 'k \<Rightarrow> 'v \<Rightarrow> bool"
    and find :: "'s \<Rightarrow> 'k \<Rightarrow> 'v option"
    and put :: "'s \<Rightarrow> 'k \<Rightarrow> 'v \<Rightarrow> 's option"
  assumes put_ok: "ok s \<Longrightarrow> fits s k v \<Longrightarrow> 0 < room s \<Longrightarrow>
    \<exists>s'. put s k v = Some s' \<and> ok s' \<and> fits s' = fits s \<and> room s' = room s - 1 \<and>
      find s' = (find s)(k \<mapsto> v)"
begin

lemma puts_ok:
  assumes "ok s" "\<forall>(k, v) \<in> set kvs. fits s k v" "length kvs \<le> room s"
  shows "\<exists>s'. puts put s kvs = Some s' \<and> ok s' \<and> find s' = find s ++ map_of (rev kvs) \<and>
    room s' = room s - length kvs \<and> fits s' = fits s"
  using assms
proof (induction kvs arbitrary: s)
  case (Cons kv kvs)
  obtain k v where kv: "kv = (k, v)" by (cases kv)
  obtain s1 where s1: "put s k v = Some s1" "ok s1" "fits s1 = fits s" "room s1 = room s - 1"
    "find s1 = (find s)(k \<mapsto> v)"
    using put_ok [of s k v] Cons.prems kv by auto
  have pre: "\<forall>(k, v) \<in> set kvs. fits s1 k v" "length kvs \<le> room s1"
    using Cons.prems s1(3,4) by simp_all
  obtain s2 where s2: "puts put s1 kvs = Some s2" "ok s2" "find s2 = find s1 ++ map_of (rev kvs)"
    "room s2 = room s1 - length kvs" "fits s2 = fits s1"
    using Cons.IH [OF s1(2) pre] by blast
  have "(find s)(k \<mapsto> v) ++ map_of (rev kvs) = find s ++ map_of (rev kvs @ [(k, v)])"
    by (rule ext) (simp add: map_add_def split: option.splits)
  then have f: "find s2 = find s ++ map_of (rev (kv # kvs))"
    unfolding s2(3) s1(5) by (simp add: kv)
  have p: "puts put s (kv # kvs) = Some s2" by (simp add: kv s1(1) s2(1))
  have r: "room s2 = room s - length (kv # kvs)" using s1(4) s2(4) by simp
  have t: "fits s2 = fits s" using s1(3) s2(5) by (rule trans [rotated])
  show ?case by (intro exI conjI, rule p, rule s2(2), rule f, rule r, rule t)
qed simp

text \<open>What is found after a series of insertions is the latest value inserted for the key.\<close>

lemma puts_find:
  assumes "ok s" "\<forall>(k, v) \<in> set kvs. fits s k v" "length kvs \<le> room s" "k \<notin> dom (find s)"
  shows "\<exists>s'. puts put s kvs = Some s' \<and> find s' k = map_of (rev kvs) k"
  using puts_ok [OF assms(1-3)] assms(4) by (auto simp: map_add_def split: option.splits)

end


section \<open>The tables meet the contract\<close>

text \<open>
  A table together with its allocator; the number of entries is bounded by \<open>lut_cap\<close>, far above the
  number of files of a disk and small enough for the sizes of the buffers to stay below \<open>2^31\<close>.
\<close>

definition lut_cap :: nat where "lut_cap = 1000000"

definition lt_ok :: "allocator \<times> swicc_disk_lut \<Rightarrow> bool" where
  "lt_ok = (\<lambda>(A, l). grants A \<and> (\<exists>es. lut_rep l es) \<and> unat (lut_size1 l) \<le> 8 \<and> unat (lut_size2 l) \<le> 8 \<and>
     unat (lut_count_max l) \<le> lut_cap + 64)"

definition lt_room :: "allocator \<times> swicc_disk_lut \<Rightarrow> nat" where
  "lt_room = (\<lambda>(A, l). lut_cap - unat (lut_count l))"

definition lt_fits :: "allocator \<times> swicc_disk_lut \<Rightarrow> bytes \<Rightarrow> bytes \<Rightarrow> bool" where
  "lt_fits = (\<lambda>(A, l) k v. length k = unat (lut_size1 l) \<and> length v = unat (lut_size2 l))"

definition lt_find :: "allocator \<times> swicc_disk_lut \<Rightarrow> bytes \<Rightarrow> bytes option" where
  "lt_find = (\<lambda>(A, l) k. if length k = unat (lut_size1 l) then lut_value l k else None)"

definition lt_put :: "allocator \<times> swicc_disk_lut \<Rightarrow> bytes \<Rightarrow> bytes \<Rightarrow> (allocator \<times> swicc_disk_lut) option" where
  "lt_put = (\<lambda>(A, l) k v. case lut_insert A l k v of
     Some (SWICC_RET_SUCCESS, l') \<Rightarrow> Some (A, l') | _ \<Rightarrow> None)"

lemma lt_find_rep:
  assumes "lut_rep l es"
  shows "lt_find (A, l) = (\<lambda>k. if length k = unat (lut_size1 l) then map_of es k else None)"
  using lut_value_map_of [OF assms] by (auto simp: lt_find_def)

lemma ins_entry_length [simp]: "length (ins_entry es k v) = Suc (length es)"
  using ins_pos_le [of es k] by (simp add: ins_entry_def)

lemma lt_put_ok:
  assumes ok: "lt_ok s" and f: "lt_fits s k v" and room: "0 < lt_room s"
  shows "\<exists>s'. lt_put s k v = Some s' \<and> lt_ok s' \<and> lt_fits s' = lt_fits s \<and>
    lt_room s' = lt_room s - 1 \<and> lt_find s' = (lt_find s)(k \<mapsto> v)"
proof -
  obtain A l es where s: "s = (A, l)" and rep: "lut_rep l es" and g: "grants A"
    and sz: "unat (lut_size1 l) \<le> 8" "unat (lut_size2 l) \<le> 8" and cm: "unat (lut_count_max l) \<le> lut_cap + 64"
    using ok by (auto simp: lt_ok_def)
  have len: "length k = unat (lut_size1 l)" "length v = unat (lut_size2 l)"
    using f by (simp_all add: lt_fits_def s)
  have "z * (unat (lut_count_max l) + 8) < 2 ^ 31" if "z \<le> 8" for z
    by (rule le_less_trans [OF mult_le_mono [OF that add_le_mono1 [OF cm]]]) (simp add: lut_cap_def)
  note lim = this [OF sz(1)] this [OF sz(2)]
  obtain l' where l': "lut_insert A l k v = Some (SWICC_RET_SUCCESS, l')" "lut_rep l' (ins_entry es k v)"
    "lut_size1 l' = lut_size1 l" "lut_size2 l' = lut_size2 l"
    "unat (lut_count_max l') \<le> max (unat (lut_count_max l)) (length es + 8)"
    using lut_insert_rep [OF rep g len lim] by blast
  have cnt: "unat (lut_count l) = length es" "unat (lut_count l') = length es + 1"
    using lut_rep_lens(1) [OF rep] lut_rep_lens(1) [OF l'(2)] by simp_all
  have "length es < lut_cap" using room cnt(1) by (simp add: lt_room_def s)
  then have "lt_ok (A, l')"
    using l' g sz cm by (auto simp: lt_ok_def)
  moreover have "lt_find (A, l') = (lt_find s)(k \<mapsto> v)"
    unfolding s lt_find_rep [OF l'(2)] lt_find_rep [OF rep] ins_entry_map_of
    using l'(3) len(1) by auto
  moreover have "lt_put s k v = Some (A, l')" using l'(1) by (simp add: lt_put_def s)
  moreover have "lt_fits (A, l') = lt_fits s" using l'(3,4) by (simp add: lt_fits_def s)
  moreover have "lt_room (A, l') = lt_room s - 1" using cnt by (simp add: lt_room_def s)
  ultimately show ?thesis by blast
qed

interpretation lt: lookup_table lt_ok lt_room lt_fits lt_find lt_put
  by unfold_locales (rule lt_put_ok)

lemma puts_fst: "puts lt_put s kvs = Some s' \<Longrightarrow> fst s' = fst s"
proof (induction kvs arbitrary: s)
  case (Cons kv kvs)
  obtain k v where kv: "kv = (k, v)" by (cases kv)
  obtain s1 where s1: "lt_put s k v = Some s1" "puts lt_put s1 kvs = Some s'"
    using Cons.prems by (auto simp: kv bind_Some_iff)
  have "fst s1 = fst s"
    using s1(1) by (auto simp: lt_put_def split: prod.splits option.splits swicc_ret.splits)
  with Cons.IH [OF s1(2)] show ?case by simp
qed simp

text \<open>An empty table as the rebuild functions set it up.\<close>

definition lut_new :: "allocator \<Rightarrow> u32 \<Rightarrow> u32 \<Rightarrow> swicc_disk_lut" where
  "lut_new A s1 s2 = \<lparr>lut_count_max = LUT_COUNT_START, lut_count = 0,
     lut_buf1 = mem_malloc A (unat (LUT_COUNT_START * s1)), lut_size1 = s1,
     lut_buf2 = mem_malloc A (unat (LUT_COUNT_START * s2)), lut_size2 = s2\<rparr>"

lemma lut_new_rep:
  assumes g: "grants A" and "0 < s1" "unat s1 \<le> 8" "0 < s2" "unat s2 \<le> 8"
  shows "lut_rep (lut_new A s1 s2) []"
proof -
  have m: "unat (64 * z :: u32) = 64 * unat z" if "unat z \<le> 8" for z :: u32
    using that by (simp add: unat_word_ariths)
  have "\<exists>f. A n = Some f" for n using g unfolding grants_def by (metis not_None_eq)
  then obtain f1 f2 where "A (64 * unat s1) = Some f1" "A (64 * unat s2) = Some f2" by metis
  then show ?thesis
    using assms by (simp add: lut_rep_def lut_new_def mem_malloc_def m buf_repr_def)
qed

text \<open>
  C12.  The raw two-buffer tables are lookup tables: entries inserted one after the other into a new
  table, in any key order and more of them than it was created for, are all accepted as long as
  memory is granted, and looking up a key finds the value inserted last for it, or nothing when
  there was none.
\<close>

theorem lut_inserts_lookup:
  assumes "grants A" and "0 < s1" "unat s1 \<le> 8" "0 < s2" "unat s2 \<le> 8"
    and "\<forall>(k, v) \<in> set kvs. length k = unat s1 \<and> length v = unat s2" and "length kvs \<le> lut_cap"
    and "length key = unat s1"
  shows "\<exists>l. puts lt_put (A, lut_new A s1 s2) kvs = Some (A, l) \<and> lut_value l key = map_of (rev kvs) key"
proof -
  let ?s = "(A, lut_new A s1 s2)"
  note rep = lut_new_rep [OF assms(1-5)]
  have ok: "lt_ok ?s"
    using rep assms(1-5) by (auto simp: lt_ok_def lut_new_def)
  have fits: "\<forall>(k, v) \<in> set kvs. lt_fits ?s k v"
    using assms(6) by (auto simp: lt_fits_def lut_new_def)
  have room: "length kvs \<le> lt_room ?s"
    using assms(7) by (simp add: lt_room_def lut_new_def)
  have empty: "key \<notin> dom (lt_find ?s)"
    unfolding lt_find_rep [OF rep] by (auto simp: dom_def)
  obtain l where l: "puts lt_put ?s kvs = Some (A, l)" "lt_fits (A, l) = lt_fits ?s"
    "lt_find (A, l) = lt_find ?s ++ map_of (rev kvs)"
    using lt.puts_ok [OF ok fits room] puts_fst by fastforce
  have "lt_fits ?s key (replicate (unat s2) 0)"
    using assms(8) by (simp add: lt_fits_def lut_new_def)
  then have "lt_fits (A, l) key (replicate (unat s2) 0)" unfolding l(2) .
  then have "lut_value l key = lt_find (A, l) key" by (simp add: lt_fits_def lt_find_def)
  also have "\<dots> = map_of (rev kvs) key"
    unfolding l(3) using empty by (auto simp: map_add_def split: option.splits)
  finally show ?thesis using l(1) by blast
qed

theorem lut_inserts_lookup_witness:
  "\<exists>l. puts lt_put (\<lambda>n. Some (\<lambda>i. 0xAA), lut_new (\<lambda>n. Some (\<lambda>i. 0xAA)) 2 1)
      [([0x3F, 0], [1]), ([0x2F, 0], [2]), ([0x3F, 0], [3])] = Some (\<lambda>n. Some (\<lambda>i. 0xAA), l) \<and>
    lut_value l [0x3F, 0] = Some [3]"
  using lut_inserts_lookup [of "\<lambda>n. Some (\<lambda>i. 0xAA)" 2 1
      "[([0x3F, 0], [1]), ([0x2F, 0], [2]), ([0x3F, 0], [3])]" "[0x3F, 0]"]
  by (simp add: grants_def lut_cap_def del: puts.simps)

end
