(* ===== verification/Swicc_Disk.thy ===== *)
theory Swicc_Disk
  imports Swicc_Fs_Common Swicc_Lut
begin

text \<open>
  \<^verbatim>\<open>include/swicc/fs/disk.h\<close> and \<^verbatim>\<open>src/fs/disk.c\<close>: the disk is a forest of trees, each a buffer with
  an MF or ADF at its root; one table finds files by ID in the whole forest, one table per tree by
  short ID.

  The linked list of trees is a list, a pointer to a tree is its index (\<^term>\<open>None\<close> is NULL).  The
  buffer of a tree is the memory allocated for it.  Output parameters are results; where a function
  can fail, what it leaves in them is part of the result.
\<close>

section \<open>Data types\<close>

record swicc_disk_tree =
  t_size :: u32
  t_len :: u32
  t_buf :: bytes
  t_lutsid :: swicc_disk_lut

record swicc_disk =
  d_root :: "swicc_disk_tree list"
  d_lutid :: swicc_disk_lut

record swicc_disk_tree_iter =
  it_tree_idx :: u8
  it_tree :: nat

definition tree_zero :: swicc_disk_tree where
  "tree_zero = \<lparr>t_size = 0, t_len = 0, t_buf = [], t_lutsid = lut_zero\<rparr>"

definition disk_zero :: swicc_disk where
  "disk_zero = \<lparr>d_root = [], d_lutid = lut_zero\<rparr>"

section \<open>Walking over the files of a tree\<close>

text \<open>
  The callback is a function on a state \<open>'s\<close> of the caller, which also tells the current contents of
  the tree buffer (\<open>get\<close>).  \<open>foreach_loop\<close> is the \<^verbatim>\<open>while\<close> loop; in the recursive case it first does
  what the called \<^verbatim>\<open>swicc_disk_file_foreach\<close> does before its own loop.  The range check on
  \<open>offset + size\<close> is a 32-bit sum compared with \<^verbatim>\<open>UINT32_MAX\<close>, which is never true.  A file of
  size zero makes the loop run forever.
\<close>

partial_function (option) foreach_loop ::
    "('s \<Rightarrow> bytes) \<Rightarrow> nat \<Rightarrow> (swicc_fs_file \<Rightarrow> 's \<Rightarrow> (swicc_ret \<times> 's) option) \<Rightarrow> bool \<Rightarrow>
      swicc_fs_file \<Rightarrow> u32 \<Rightarrow> 's \<Rightarrow> (swicc_ret \<times> 's) option" where
  "foreach_loop get ti cb recurse file offset s =
     (if offset < ih_size (hdr_item file) then
        Option.bind (swicc_fs_file_prs ti (get s) (ih_offset_trel (hdr_item file) + offset) file_zero)
        (\<lambda>(ret, nstd).
          if ret \<noteq> SWICC_RET_SUCCESS then Some (ret, s)
          else Option.bind (cb nstd s) (\<lambda>(ret, s1).
            if ret \<noteq> SWICC_RET_SUCCESS then Some (ret, s1)
            else Option.bind
              (if SWICC_FS_FILE_FOLDER_CHECK nstd then
                 (if recurse then
                    Option.bind (cb nstd s1) (\<lambda>(ret, s2).
                      if ret \<noteq> SWICC_RET_SUCCESS then Some (ret, s2)
                      else foreach_loop get ti cb True nstd
                        (swicc_fs_item_hdr_raw_size (ih_type (hdr_item nstd))) s2)
                  else Some (SWICC_RET_SUCCESS, s1))
               else if SWICC_FS_FILE_EF_CHECK nstd then Some (SWICC_RET_SUCCESS, s1)
               else Some (SWICC_RET_ERROR, s1))
              (\<lambda>(ret, s3).
                if ret \<noteq> SWICC_RET_SUCCESS then Some (ret, s3)
                else foreach_loop get ti cb recurse file (offset + ih_size (hdr_item nstd)) s3)))
      else Some (SWICC_RET_SUCCESS, s))"

definition swicc_disk_file_foreach ::
    "('s \<Rightarrow> bytes) \<Rightarrow> nat \<Rightarrow> swicc_fs_file \<Rightarrow> (swicc_fs_file \<Rightarrow> 's \<Rightarrow> (swicc_ret \<times> 's) option) \<Rightarrow> bool \<Rightarrow>
      's \<Rightarrow> (swicc_ret \<times> 's) option" where
  "swicc_disk_file_foreach get ti file cb recurse s = do {
     (ret, s1) \<leftarrow> cb file s;
     if ret \<noteq> SWICC_RET_SUCCESS then Some (ret, s1)
     else foreach_loop get ti cb recurse file (swicc_fs_item_hdr_raw_size (ih_type (hdr_item file))) s1 }"

section \<open>Iterating over trees\<close>

definition swicc_disk_tree_iter_start ::
    "swicc_disk \<Rightarrow> swicc_disk_tree_iter \<Rightarrow> swicc_ret \<times> swicc_disk_tree_iter" where
  "swicc_disk_tree_iter_start disk it =
     (if d_root disk \<noteq> [] then (SWICC_RET_SUCCESS, \<lparr>it_tree_idx = 0, it_tree = 0\<rparr>)
      else (SWICC_RET_ERROR, it))"

definition swicc_disk_tree_iter_next ::
    "swicc_disk \<Rightarrow> swicc_disk_tree_iter \<Rightarrow> nat option \<Rightarrow> swicc_ret \<times> swicc_disk_tree_iter \<times> nat option" where
  "swicc_disk_tree_iter_next disk it tree =
     (if it_tree it + 1 < length (d_root disk) then
        (let it' = \<lparr>it_tree_idx = it_tree_idx it + 1, it_tree = it_tree it + 1\<rparr> in
         (SWICC_RET_SUCCESS, it', Some (it_tree it')))
      else (SWICC_RET_FS_NOT_FOUND, it, tree))"

function swicc_disk_tree_iter_idx ::
    "swicc_disk \<Rightarrow> swicc_disk_tree_iter \<Rightarrow> u8 \<Rightarrow> nat option \<Rightarrow> swicc_ret \<times> swicc_disk_tree_iter \<times> nat option" where
  "swicc_disk_tree_iter_idx disk it tree_idx tree =
     (if it_tree_idx it \<noteq> tree_idx then
        (case swicc_disk_tree_iter_next disk it tree of (ret, it', tree') \<Rightarrow>
           if ret \<noteq> SWICC_RET_SUCCESS then (ret, it', tree')
           else swicc_disk_tree_iter_idx disk it' tree_idx tree')
      else (SWICC_RET_SUCCESS, it, Some (it_tree it)))"
  by pat_completeness auto
termination
  by (relation "measure (\<lambda>(disk, it, idx, tree). length (d_root disk) - it_tree it)")
     (auto simp: swicc_disk_tree_iter_next_def Let_def split: if_splits)

declare swicc_disk_tree_iter_idx.simps [simp del]

section \<open>Emptying\<close>

text \<open>Freeing the buffers of a table; a dangling buffer would be freed a second time.\<close>

definition lut_free :: "swicc_disk_lut \<Rightarrow> swicc_disk_lut option" where
  "lut_free l = do {
     assert_ub (lut_buf1 l \<noteq> Dangling);
     assert_ub (lut_buf2 l \<noteq> Dangling);
     Some lut_zero }"

definition swicc_disk_lutsid_empty :: "swicc_disk_tree \<Rightarrow> swicc_disk_tree option" where
  "swicc_disk_lutsid_empty tree = do { l \<leftarrow> lut_free (t_lutsid tree); Some (tree\<lparr>t_lutsid := l\<rparr>) }"

definition swicc_disk_lutid_empty :: "swicc_disk \<Rightarrow> swicc_disk option" where
  "swicc_disk_lutid_empty disk = do { l \<leftarrow> lut_free (d_lutid disk); Some (disk\<lparr>d_lutid := l\<rparr>) }"

fun root_empty_loop :: "swicc_disk_tree list \<Rightarrow> unit option" where
  "root_empty_loop [] = Some ()"
| "root_empty_loop (t # ts) = do { _ \<leftarrow> swicc_disk_lutsid_empty t; root_empty_loop ts }"

definition swicc_disk_root_empty :: "swicc_disk \<Rightarrow> swicc_disk option" where
  "swicc_disk_root_empty disk = do {
     _ \<leftarrow> root_empty_loop (d_root disk);
     swicc_disk_lutid_empty (disk\<lparr>d_root := []\<rparr>) }"

definition swicc_disk_unload :: "swicc_disk \<Rightarrow> swicc_disk option" where
  "swicc_disk_unload disk = do {
     d1 \<leftarrow> swicc_disk_root_empty disk;
     d2 \<leftarrow> swicc_disk_lutid_empty d1;
     Some disk_zero }"

section \<open>Files of a tree\<close>

definition swicc_disk_tree_file_root ::
    "nat \<Rightarrow> swicc_disk_tree \<Rightarrow> swicc_fs_file \<Rightarrow> (swicc_ret \<times> swicc_fs_file) option" where
  "swicc_disk_tree_file_root ti tree f = do {
     (ret, f') \<leftarrow> swicc_fs_file_prs ti (t_buf tree) 0 f;
     if ret = SWICC_RET_SUCCESS \<and>
        (ih_type (hdr_item f') = SWICC_FS_ITEM_TYPE_FILE_ADF \<or> ih_type (hdr_item f') = SWICC_FS_ITEM_TYPE_FILE_MF)
     then Some (SWICC_RET_SUCCESS, f') else Some (SWICC_RET_ERROR, f') }"

text \<open>The offset of the parent is a 32-bit difference, always inside the checked range.\<close>

definition swicc_disk_tree_file_parent ::
    "nat \<Rightarrow> swicc_disk_tree \<Rightarrow> swicc_fs_file \<Rightarrow> swicc_fs_file \<Rightarrow> (swicc_ret \<times> swicc_fs_file) option" where
  "swicc_disk_tree_file_parent ti tree f parent =
     swicc_fs_file_prs ti (t_buf tree) (ih_offset_trel (hdr_item f) - ih_offset_prel (hdr_item f)) parent"

definition swicc_disk_file_rcrd_cnt :: "swicc_fs_file \<Rightarrow> u32 \<Rightarrow> (swicc_ret \<times> u32) option" where
  "swicc_disk_file_rcrd_cnt f rcrd_cnt =
     (if ih_type (hdr_item f) = SWICC_FS_ITEM_TYPE_FILE_EF_LINEARFIXED then do {
        assert_ub (hdr_spec_rcrd_size f \<noteq> 0);
        Some (SWICC_RET_SUCCESS, data_size f div ucast (hdr_spec_rcrd_size f)) }
      else if ih_type (hdr_item f) = SWICC_FS_ITEM_TYPE_FILE_EF_CYCLIC then do {
        assert_ub (hdr_spec_rcrd_size f \<noteq> 0);
        Some (SWICC_RET_SUCCESS, data_size f div ucast (hdr_spec_rcrd_size f)) }
      else Some (SWICC_RET_ERROR, rcrd_cnt))"

text \<open>The record is handed out as a pointer into the tree buffer and a length.\<close>

definition swicc_disk_file_rcrd ::
    "swicc_fs_file \<Rightarrow> u8 \<Rightarrow> (swicc_ret \<times> (tree_ptr \<times> u8) option) option" where
  "swicc_disk_file_rcrd f idx =
     (if ih_type (hdr_item f) = SWICC_FS_ITEM_TYPE_FILE_EF_LINEARFIXED \<or>
         ih_type (hdr_item f) = SWICC_FS_ITEM_TYPE_FILE_EF_CYCLIC
      then do {
        let rcrd_size = hdr_spec_rcrd_size f;
        (ret_cnt, rcrd_cnt) \<leftarrow> swicc_disk_file_rcrd_cnt f 0;
        if ret_cnt = SWICC_RET_SUCCESS then
          if ucast idx \<ge> rcrd_cnt then Some (SWICC_RET_FS_NOT_FOUND, None)
          else (let rcrd_offset = ucast rcrd_size * ucast idx in
            if rcrd_offset \<ge> data_size f then Some (SWICC_RET_ERROR, None)
            else do {
              (ti, off) \<leftarrow> data_ptr f;
              Some (SWICC_RET_SUCCESS, Some ((ti, off + rcrd_offset), rcrd_size)) })
        else Some (SWICC_RET_ERROR, None) }
      else Some (SWICC_RET_ERROR, None))"


section \<open>Building the tables\<close>

definition lutid_rebuild_cb ::
    "allocator \<Rightarrow> u8 \<Rightarrow> swicc_fs_file \<Rightarrow> swicc_disk_lut \<Rightarrow> (swicc_ret \<times> swicc_disk_lut) option" where
  "lutid_rebuild_cb A tree_idx f lutid =
     (if fh_id (hdr_file f) = SWICC_FS_ID_MISSING then Some (SWICC_RET_SUCCESS, lutid)
      else do {
        let id_be = htobe16 (fh_id (hdr_file f));
        lut_insert A lutid (le16_put id_be) (le32_put (ih_offset_trel (hdr_item f)) @ [tree_idx]) })"

text \<open>The loop over the trees; a failure empties the table.\<close>

fun lutid_rebuild_loop ::
    "allocator \<Rightarrow> swicc_disk_tree list \<Rightarrow> nat \<Rightarrow> u8 \<Rightarrow> swicc_ret \<Rightarrow> swicc_disk_lut \<Rightarrow>
      (swicc_ret \<times> swicc_disk_lut) option" where
  "lutid_rebuild_loop A [] ti tree_idx ret lutid = Some (ret, lutid)"
| "lutid_rebuild_loop A (t # ts) ti tree_idx ret lutid = do {
     (ret, file_root) \<leftarrow> swicc_disk_tree_file_root ti t file_zero;
     if ret \<noteq> SWICC_RET_SUCCESS then do { l \<leftarrow> lut_free lutid; Some (ret, l) }
     else do {
       (ret, lutid1) \<leftarrow> swicc_disk_file_foreach (\<lambda>_. t_buf t) ti file_root (lutid_rebuild_cb A tree_idx) True lutid;
       if ret \<noteq> SWICC_RET_SUCCESS then do { l \<leftarrow> lut_free lutid1; Some (ret, l) }
       else lutid_rebuild_loop A ts (ti + 1) (tree_idx + 1) ret lutid1 } }"

definition swicc_disk_lutid_rebuild :: "allocator \<Rightarrow> swicc_disk \<Rightarrow> (swicc_ret \<times> swicc_disk) option" where
  "swicc_disk_lutid_rebuild A disk = do {
     d1 \<leftarrow> swicc_disk_lutid_empty disk;
     let l = lut_new A 2 5;
     if lut_buf1 l = Null \<or> lut_buf2 l = Null then do {
       d2 \<leftarrow> swicc_disk_lutid_empty (d1\<lparr>d_lutid := l\<rparr>);
       Some (SWICC_RET_ERROR, d2) }
     else do {
       (ret, l') \<leftarrow> lutid_rebuild_loop A (d_root d1) 0 0 SWICC_RET_ERROR l;
       Some (ret, d1\<lparr>d_lutid := l'\<rparr>) } }"

definition lutsid_rebuild_cb ::
    "allocator \<Rightarrow> swicc_fs_file \<Rightarrow> swicc_disk_tree \<Rightarrow> (swicc_ret \<times> swicc_disk_tree) option" where
  "lutsid_rebuild_cb A f tree =
     (if fh_sid (hdr_file f) = SWICC_FS_SID_MISSING then Some (SWICC_RET_SUCCESS, tree)
      else do {
        (ret, l) \<leftarrow> lut_insert A (t_lutsid tree) [fh_sid (hdr_file f)] (le32_put (ih_offset_trel (hdr_item f)));
        Some (ret, tree\<lparr>t_lutsid := l\<rparr>) })"

definition swicc_disk_lutsid_rebuild ::
    "allocator \<Rightarrow> nat \<Rightarrow> swicc_disk_tree \<Rightarrow> (swicc_ret \<times> swicc_disk_tree) option" where
  "swicc_disk_lutsid_rebuild A ti tree = do {
     t0 \<leftarrow> swicc_disk_lutsid_empty tree;
     let t1 = t0\<lparr>t_lutsid := lut_new A 1 4\<rparr>;
     if lut_buf1 (t_lutsid t1) = Null \<or> lut_buf2 (t_lutsid t1) = Null then do {
       t2 \<leftarrow> swicc_disk_lutsid_empty t1;
       Some (SWICC_RET_ERROR, t2) }
     else do {
       (ret, file_root) \<leftarrow> swicc_disk_tree_file_root ti t1 file_zero;
       if ret \<noteq> SWICC_RET_SUCCESS then do { t2 \<leftarrow> swicc_disk_lutsid_empty t1; Some (ret, t2) }
       else do {
         (ret, t2) \<leftarrow> swicc_disk_file_foreach t_buf ti file_root (lutsid_rebuild_cb A) True t1;
         if ret \<noteq> SWICC_RET_SUCCESS then do { t3 \<leftarrow> swicc_disk_lutsid_empty t2; Some (ret, t3) }
         else Some (ret, t2) } } }"

section \<open>Lookups\<close>

definition swicc_disk_lutsid_lookup ::
    "nat \<Rightarrow> swicc_disk_tree \<Rightarrow> u8 \<Rightarrow> swicc_fs_file \<Rightarrow> (swicc_ret \<times> swicc_fs_file) option" where
  "swicc_disk_lutsid_lookup ti tree sid f =
     (let l = t_lutsid tree in
      if lut_buf1 l = Null \<or> lut_size1 l \<noteq> 1 \<or> lut_size2 l \<noteq> 4 then Some (SWICC_RET_ERROR, f)
      else do {
        b1 \<leftarrow> mem_bytes (lut_buf1 l);
        i \<leftarrow> lut_find b1 (lut_size1 l) [sid] (unat (lut_count l)) 0;
        if i \<ge> unat (lut_count l) then Some (SWICC_RET_FS_NOT_FOUND, f)
        else do {
          b2 \<leftarrow> mem_bytes (lut_buf2 l);
          offset \<leftarrow> le32_get b2 (unat (lut_size2 l * word_of_nat i));
          if offset \<ge> t_len tree then Some (SWICC_RET_ERROR, f)
          else do {
            (ret, f') \<leftarrow> swicc_fs_file_prs ti (t_buf tree) offset f;
            Some (if ret \<noteq> SWICC_RET_SUCCESS then SWICC_RET_ERROR else SWICC_RET_SUCCESS, f') } } })"

text \<open>\<open>tree\<close> is the output parameter for the tree of the file.\<close>

definition swicc_disk_lutid_lookup ::
    "swicc_disk \<Rightarrow> nat option \<Rightarrow> u16 \<Rightarrow> swicc_fs_file \<Rightarrow> (swicc_ret \<times> nat option \<times> swicc_fs_file) option" where
  "swicc_disk_lutid_lookup disk tree fid f =
     (let l = d_lutid disk in
      if lut_buf1 l = Null \<or> lut_size1 l \<noteq> 2 \<or> lut_size2 l \<noteq> 5 then Some (SWICC_RET_ERROR, tree, f)
      else do {
        b1 \<leftarrow> mem_bytes (lut_buf1 l);
        i \<leftarrow> lut_find b1 (lut_size1 l) (le16_put (htobe16 fid)) (unat (lut_count l)) 0;
        if i \<ge> unat (lut_count l) then Some (SWICC_RET_FS_NOT_FOUND, tree, f)
        else do {
          b2 \<leftarrow> mem_bytes (lut_buf2 l);
          offset \<leftarrow> le32_get b2 (unat (lut_size2 l * word_of_nat i));
          tree_idx \<leftarrow> rd b2 (unat (lut_size2 l * word_of_nat i) + 4);
          case swicc_disk_tree_iter_start disk \<lparr>it_tree_idx = 0, it_tree = 0\<rparr> of (ret, it) \<Rightarrow>
            if ret \<noteq> SWICC_RET_SUCCESS then Some (SWICC_RET_ERROR, tree, f)
            else (case swicc_disk_tree_iter_idx disk it tree_idx tree of (ret, it', tree') \<Rightarrow>
              if ret \<noteq> SWICC_RET_SUCCESS then Some (SWICC_RET_ERROR, tree', f)
              else do {
                ti \<leftarrow> tree';
                t \<leftarrow> rd (d_root disk) ti;
                if t_len t \<le> offset then Some (SWICC_RET_ERROR, tree', f)
                else if offset \<ge> t_len t then Some (SWICC_RET_ERROR, tree', f)
                else do {
                  (ret, f') \<leftarrow> swicc_fs_file_prs ti (t_buf t) offset f;
                  Some (if ret \<noteq> SWICC_RET_SUCCESS then SWICC_RET_ERROR else SWICC_RET_SUCCESS, tree', f') } }) } })"

section \<open>Loading and saving\<close>

abbreviation SWICC_DISK_MAGIC_LEN :: nat where "SWICC_DISK_MAGIC_LEN \<equiv> 16"

definition SWICC_DISK_MAGIC :: bytes where
  "SWICC_DISK_MAGIC = [0x00, 0x73, 0x77, 0x49, 0x43, 0x43, 0x91, 0xCC, 0x2E, 0x2E, 0x2E, 0x2E,
     0x46, 0x53, 0xF0, 0x0F]"

text \<open>
  What the file system of the host does: the contents of the file when it can be opened, whether a read
  that starts at some position fails and after how many bytes it does (\<^term>\<open>None\<close>: it does not fail
  before the end of the file), and whether seeking, writing and closing work.
\<close>

record host_file =
  io_content :: "bytes option"
  io_read :: "nat \<Rightarrow> nat option"
  io_seek :: bool
  io_tell :: bool
  io_rewind :: bool
  io_write :: "nat \<Rightarrow> bool"
  io_close :: bool

text \<open>
  The bytes a read of \<open>n\<close> bytes from position \<open>pos\<close> delivers, and \<^verbatim>\<open>fread\<close> of one element of
  \<open>n\<close> bytes into \<open>b\<close> at \<open>off\<close>: bytes are stored as far as the file and the device go.
\<close>

definition fread_bytes :: "(nat \<Rightarrow> nat option) \<Rightarrow> bytes \<Rightarrow> nat \<Rightarrow> nat \<Rightarrow> bytes" where
  "fread_bytes dev content pos n =
     (case dev pos of None \<Rightarrow> take n (drop pos content) | Some k \<Rightarrow> take k (take n (drop pos content)))"

definition fread1 :: "(nat \<Rightarrow> nat option) \<Rightarrow> bytes \<Rightarrow> nat \<Rightarrow> nat \<Rightarrow> bytes \<Rightarrow> nat \<Rightarrow> (bool \<times> bytes) option" where
  "fread1 dev content pos n b off = do {
     let xs = fread_bytes dev content pos n;
     b' \<leftarrow> (if xs = [] then Some b else wrn b off xs);
     Some (n \<noteq> 0 \<and> length xs = n, b') }"

text \<open>
  One tree per round: \<open>trees\<close> is the list built so far, \<open>pos\<close> the position in the file, \<open>data_idx\<close> the
  32-bit count of the bytes read.  The structure of a tree takes 64 bytes of heap.  A raw type
  outside the enum would leave the type of the header uninitialised.  The difference of the sizes is
  a \<^verbatim>\<open>size_t\<close>.
\<close>

abbreviation tree_struct_size :: nat where "tree_struct_size \<equiv> 64"

definition load_tree ::
    "allocator \<Rightarrow> (nat \<Rightarrow> nat option) \<Rightarrow> bytes \<Rightarrow> nat \<Rightarrow> u8 \<Rightarrow> (swicc_ret \<times> swicc_disk_tree) option" where
  "load_tree A dev content pos tree_idx = do {
     (ok, raw) \<leftarrow> fread1 dev content pos item_hdr_raw_size (replicate item_hdr_raw_size 0) 0;
     if \<not> ok then Some (SWICC_RET_ERROR, tree_zero)
     else do {
       ihr \<leftarrow> item_hdr_raw_get raw 0;
       assert_ub (ihr_type ihr \<le> 9);
       let ih = swicc_fs_item_hdr_prs ihr 0 item_hdr_zero;
       if ih_type ih = SWICC_FS_ITEM_TYPE_INVALID \<or>
          (tree_idx = 0 \<and> ih_type ih \<noteq> SWICC_FS_ITEM_TYPE_FILE_MF) \<or>
          (tree_idx \<noteq> 0 \<and> ih_type ih \<noteq> SWICC_FS_ITEM_TYPE_FILE_ADF)
       then Some (SWICC_RET_ERROR, tree_zero)
       else (case mem_malloc A (unat (ih_size ih)) of
           Alloc buf \<Rightarrow> do {
             let t = tree_zero\<lparr>t_buf := buf, t_size := ih_size ih\<rparr>;
             let n = nat ((int (unat (ih_size ih)) - int item_hdr_raw_size) mod 2 ^ 64);
             (ok, buf1) \<leftarrow> fread1 dev content (pos + item_hdr_raw_size) n buf item_hdr_raw_size;
             if \<not> ok then Some (SWICC_RET_ERROR, t\<lparr>t_buf := buf1\<rparr>)
             else do {
               buf2 \<leftarrow> wrn buf1 0 raw;
               Some (SWICC_RET_SUCCESS, t\<lparr>t_buf := buf2, t_len := ih_size ih\<rparr>) } }
         | _ \<Rightarrow> Some (SWICC_RET_ERROR, tree_zero)) } }"

partial_function (option) load_loop ::
    "allocator \<Rightarrow> (nat \<Rightarrow> nat option) \<Rightarrow> bytes \<Rightarrow> u32 \<Rightarrow> nat \<Rightarrow> u8 \<Rightarrow> swicc_disk_tree list \<Rightarrow> (swicc_ret \<times> swicc_disk_tree list) option"
where
  "load_loop A dev content data_idx pos tree_idx trees =
     (if unat data_idx < length content then
        (if mem_malloc A tree_struct_size = Null then Some (SWICC_RET_ERROR, trees)
         else Option.bind (load_tree A dev content pos tree_idx) (\<lambda>(ret, t).
           if ret \<noteq> SWICC_RET_SUCCESS then Some (ret, trees @ [t])
           else load_loop A dev content (data_idx + t_len t) (pos + unat (t_len t)) (tree_idx + 1) (trees @ [t])))
      else Some (SWICC_RET_SUCCESS, trees))"

text \<open>Rebuilding the short ID tables of all trees, up to the first failure.\<close>

fun load_lutsids ::
    "allocator \<Rightarrow> nat \<Rightarrow> swicc_disk_tree list \<Rightarrow> (swicc_ret \<times> swicc_disk_tree list) option" where
  "load_lutsids A ti [] = Some (SWICC_RET_SUCCESS, [])"
| "load_lutsids A ti (t # ts) = do {
     (ret, t') \<leftarrow> swicc_disk_lutsid_rebuild A ti t;
     if ret \<noteq> SWICC_RET_SUCCESS then Some (ret, t' # ts)
     else do { (ret, ts') \<leftarrow> load_lutsids A (ti + 1) ts; Some (ret, t' # ts') } }"

definition load_file :: "allocator \<Rightarrow> host_file \<Rightarrow> (swicc_ret \<times> swicc_disk_tree list) option" where
  "load_file A io = (case io_content io of
     None \<Rightarrow> Some (SWICC_RET_ERROR, [])
   | Some content \<Rightarrow> do {
       (ret, trees) \<leftarrow>
         (if io_seek io \<and> io_tell io \<and> length content \<le> 2 ^ 32 - 1 \<and> io_rewind io then do {
            (ok, magic) \<leftarrow> fread1 (io_read io) content 0 SWICC_DISK_MAGIC_LEN (replicate SWICC_DISK_MAGIC_LEN 0) 0;
            if ok \<and> magic = SWICC_DISK_MAGIC
            then load_loop A (io_read io) content (word_of_nat SWICC_DISK_MAGIC_LEN) SWICC_DISK_MAGIC_LEN 0 []
            else Some (SWICC_RET_ERROR, []) }
          else Some (SWICC_RET_ERROR, []));
       Some (if io_close io then ret else SWICC_RET_ERROR, trees) })"

definition swicc_disk_load ::
    "allocator \<Rightarrow> swicc_disk \<Rightarrow> host_file \<Rightarrow> (swicc_ret \<times> swicc_disk) option" where
  "swicc_disk_load A disk io =
     (if d_root disk \<noteq> [] then Some (SWICC_RET_ERROR, disk)
      else do {
        (ret, trees) \<leftarrow> load_file A io;
        let d = disk_zero\<lparr>d_root := trees\<rparr>;
        (ret, d1) \<leftarrow>
          (if ret \<noteq> SWICC_RET_SUCCESS then do { d' \<leftarrow> swicc_disk_root_empty d; Some (ret, d') }
           else do {
             (ret, ts) \<leftarrow> (if trees = [] then Some (SWICC_RET_ERROR, []) else load_lutsids A 0 trees);
             let d' = d\<lparr>d_root := ts\<rparr>;
             if ret = SWICC_RET_SUCCESS then swicc_disk_lutid_rebuild A d' else Some (ret, d') });
        if ret \<noteq> SWICC_RET_SUCCESS then do { d2 \<leftarrow> swicc_disk_root_empty d1; Some (ret, d2) }
        else Some (ret, d1) })"

text \<open>The result holds what the file contains afterwards, when it could be opened for writing.\<close>

fun save_loop :: "host_file \<Rightarrow> nat \<Rightarrow> swicc_disk_tree list \<Rightarrow> swicc_ret \<Rightarrow> bytes \<Rightarrow> (swicc_ret \<times> bytes) option" where
  "save_loop io k [] ret out = Some (ret, out)"
| "save_loop io k (t # ts) ret out = do {
     xs \<leftarrow> rdn (t_buf t) 0 (unat (t_len t));
     if t_len t = 0 \<or> \<not> io_write io k then Some (SWICC_RET_ERROR, out)
     else save_loop io (k + 1) ts SWICC_RET_SUCCESS (out @ xs) }"

definition swicc_disk_save :: "swicc_disk \<Rightarrow> host_file \<Rightarrow> (swicc_ret \<times> bytes option) option" where
  "swicc_disk_save disk io = (case io_content io of
     None \<Rightarrow> Some (SWICC_RET_ERROR, None)
   | Some _ \<Rightarrow> do {
       (ret, out) \<leftarrow> (if io_write io 0 then save_loop io 1 (d_root disk) SWICC_RET_ERROR SWICC_DISK_MAGIC
                      else Some (SWICC_RET_ERROR, []));
       Some (if io_close io then ret else SWICC_RET_ERROR, Some out) })"


section \<open>What a walk visits\<close>

text \<open>
  The files a recursive walk hands to the callback, in order: a nested folder twice (once by the
  loop over its parent, once by the walk over itself), then its contents.
\<close>

fun visits_sub :: "nat \<Rightarrow> nat \<Rightarrow> nat \<Rightarrow> fsnode list \<Rightarrow> swicc_fs_file list"
  and visit_node :: "nat \<Rightarrow> nat \<Rightarrow> nat \<Rightarrow> fsnode \<Rightarrow> swicc_fs_file list" where
  "visits_sub ti base off [] = []"
| "visits_sub ti base off (n # ns) =
     visit_node ti (base + off) off n @ visits_sub ti base (off + nsize n) ns"
| "visit_node ti pos prel (Folder h cs) =
     [file_of ti pos prel (Folder h cs), file_of ti pos prel (Folder h cs)] @
     visits_sub ti pos (file_raw_size + length (n_spec h)) cs"
| "visit_node ti pos prel (Ef h d) = [file_of ti pos prel (Ef h d)]"

definition visits :: "nat \<Rightarrow> fsnode \<Rightarrow> swicc_fs_file list" where
  "visits ti n = file_of ti 0 0 n #
     (case n of Folder h cs \<Rightarrow> visits_sub ti 0 (file_raw_size + length (n_spec h)) cs | Ef h d \<Rightarrow> [])"

fun cb_run :: "(swicc_fs_file \<Rightarrow> 's \<Rightarrow> (swicc_ret \<times> 's) option) \<Rightarrow> 's \<Rightarrow> swicc_fs_file list \<Rightarrow>
    (swicc_ret \<times> 's) option" where
  "cb_run cb s [] = Some (SWICC_RET_SUCCESS, s)"
| "cb_run cb s (f # fs) = do {
     (ret, s1) \<leftarrow> cb f s;
     if ret \<noteq> SWICC_RET_SUCCESS then Some (ret, s1) else cb_run cb s1 fs }"

definition keeps :: "('s \<Rightarrow> bytes) \<Rightarrow> (swicc_fs_file \<Rightarrow> 's \<Rightarrow> (swicc_ret \<times> 's) option) \<Rightarrow> bool" where
  "keeps get cb \<longleftrightarrow> (\<forall>f s r s'. cb f s = Some (r, s') \<longrightarrow> get s' = get s)"

lemma option_bind_cong: "m = m' \<Longrightarrow> (\<And>x. m' = Some x \<Longrightarrow> f x = g x) \<Longrightarrow> Option.bind m f = Option.bind m' g"
  by (cases m') auto

lemma cb_run_append:
  "cb_run cb s (xs @ ys) = do {
     (ret, s1) \<leftarrow> cb_run cb s xs;
     if ret \<noteq> SWICC_RET_SUCCESS then Some (ret, s1) else cb_run cb s1 ys }"
proof (induction xs arbitrary: s)
  case (Cons x xs)
  then show ?case by (cases "cb x s") auto
qed simp

lemma keeps_run: "keeps get cb \<Longrightarrow> cb_run cb s fs = Some (r, s') \<Longrightarrow> get s' = get s"
proof (induction fs arbitrary: s)
  case (Cons f fs)
  obtain r1 s1 where c: "cb f s = Some (r1, s1)"
    and e: "(if r1 \<noteq> SWICC_RET_SUCCESS then Some (r1, s1) else cb_run cb s1 fs) = Some (r, s')"
    using Cons.prems(2) by (auto simp: bind_Some_iff)
  have "get s1 = get s" using Cons.prems(1) c unfolding keeps_def by blast
  with e Cons.IH [OF Cons.prems(1), of s1] show ?case by (cases "r1 = SWICC_RET_SUCCESS") auto
qed simp

lemma nsize_pos: "0 < nsize n"
  by (cases n) simp_all

lemma file_of_facts:
  "ih_size (hdr_item (file_of ti pos prel n)) = word_of_nat (nsize n)"
  "ih_offset_trel (hdr_item (file_of ti pos prel n)) = word_of_nat pos"
  "ih_type (hdr_item (file_of ti pos prel n)) = n_type (n_hdr n)"
  "fh_id (hdr_file (file_of ti pos prel n)) = n_id (n_hdr n)"
  "fh_sid (hdr_file (file_of ti pos prel n)) = n_sid (n_hdr n)"
  by (simp_all add: file_of_def Let_def)

lemma folder_check_node:
  "node_ok n \<Longrightarrow> SWICC_FS_FILE_FOLDER_CHECK (file_of ti pos prel n) \<longleftrightarrow> (\<exists>h cs. n = Folder h cs)"
  "node_ok n \<Longrightarrow> n = Ef h d \<Longrightarrow> SWICC_FS_FILE_EF_CHECK (file_of ti pos prel n)"
  by (cases n; auto simp: SWICC_FS_FILE_FOLDER_CHECK_def SWICC_FS_FILE_EF_CHECK_def file_of_facts
      is_folder_type_def is_rcrd_type_def)+

definition loop_goal ::
    "('s \<Rightarrow> bytes) \<Rightarrow> (swicc_fs_file \<Rightarrow> 's \<Rightarrow> (swicc_ret \<times> 's) option) \<Rightarrow> bytes \<Rightarrow> nat \<Rightarrow> nat \<Rightarrow> nat \<Rightarrow> fsnode list \<Rightarrow> bool" where
  "loop_goal get cb b ti base off ns \<longleftrightarrow> (\<forall>f s rest.
     list_all node_ok ns \<longrightarrow> drop (base + off) b = sers off ns @ rest \<longrightarrow>
     base + off + sum_list (map nsize ns) < 2 ^ 32 - 64 \<longrightarrow> get s = b \<longrightarrow>
     ih_offset_trel (hdr_item f) = word_of_nat base \<longrightarrow>
     ih_size (hdr_item f) = word_of_nat (off + sum_list (map nsize ns)) \<longrightarrow>
     foreach_loop get ti cb True f (word_of_nat off) s = cb_run cb s (visits_sub ti base off ns))"

definition node_goal ::
    "('s \<Rightarrow> bytes) \<Rightarrow> (swicc_fs_file \<Rightarrow> 's \<Rightarrow> (swicc_ret \<times> 's) option) \<Rightarrow> bytes \<Rightarrow> nat \<Rightarrow> nat \<Rightarrow> nat \<Rightarrow> fsnode \<Rightarrow> bool" where
  "node_goal get cb b ti pos prel n \<longleftrightarrow> (\<forall>h cs. n = Folder h cs \<longrightarrow>
     loop_goal get cb b ti pos (file_raw_size + length (n_spec h)) cs)"

lemma u32_less_nat:
  "a < 4294967296 \<Longrightarrow> b < 4294967296 \<Longrightarrow> (word_of_nat a :: u32) < word_of_nat b \<longleftrightarrow> a < b"
  by (simp add: word_less_nat_alt unat_of_nat_u32)

lemma foreach_loop_visits:
  assumes k: "keeps get cb"
  shows "loop_goal get cb b ti base off ns"
    and "node_goal get cb b ti pos prel n"
proof (induction ti base off ns and ti pos prel n rule: visits_sub_visit_node.induct)
  case (1 ti base off)
  show ?case by (simp add: loop_goal_def foreach_loop.simps)
next
  case (2 ti base off n ns)
  show ?case
    unfolding loop_goal_def
  proof (intro allI impI)
    fix f :: swicc_fs_file and s rest
    assume ok: "list_all node_ok (n # ns)" and d: "drop (base + off) b = sers off (n # ns) @ rest"
      and lim: "base + off + sum_list (map nsize (n # ns)) < 2 ^ 32 - 64" and g: "get s = b"
      and ft: "ih_offset_trel (hdr_item f) = word_of_nat base"
      and fs: "ih_size (hdr_item f) = word_of_nat (off + sum_list (map nsize (n # ns)))"
    let ?F = "file_of ti (base + off) off n"
    have okn: "node_ok n" "list_all node_ok ns" using ok by simp_all
    have lt: "(word_of_nat off :: u32) < ih_size (hdr_item f)"
      unfolding fs using lim nsize_pos [of n] by (subst u32_less_nat) auto
    have dn: "drop (base + off) b = ser off n @ (sers (off + nsize n) ns @ rest)" using d by simp
    have prs: "swicc_fs_file_prs ti (get s) (ih_offset_trel (hdr_item f) + word_of_nat off) file_zero =
        Some (SWICC_RET_SUCCESS, ?F)"
      using file_prs_node [OF okn(1) dn, of ti file_zero] lim nsize_hsize [of n] nsize_pos [of n]
      by (simp add: g ft n_hsize_def)
    have dr: "drop (base + (off + nsize n)) b = sers (off + nsize n) ns @ rest"
      using drop_more [OF dn] by (simp add: add.assoc)
    have tail: "foreach_loop get ti cb True f (word_of_nat off + ih_size (hdr_item ?F)) s' =
        cb_run cb s' (visits_sub ti base (off + nsize n) ns)" if "get s' = b" for s'
      using 2(2) okn(2) dr lim that ft fs
      by (auto simp: loop_goal_def file_of_facts add.assoc)
    have inner: "foreach_loop get ti cb True ?F (swicc_fs_item_hdr_raw_size (ih_type (hdr_item ?F))) s' =
        cb_run cb s' (visits_sub ti (base + off) (file_raw_size + length (n_spec h)) cs)"
      if "get s' = b" and n: "n = Folder h cs" for s' h cs
    proof -
      have gl: "loop_goal get cb b ti (base + off) (file_raw_size + length (n_spec h)) cs"
        using 2(1) n by (simp add: node_goal_def)
      have hs: "swicc_fs_item_hdr_raw_size (ih_type (hdr_item ?F)) = word_of_nat (file_raw_size + length (n_spec h))"
        using item_hdr_raw_size_node [OF okn(1)] by (simp add: file_of_facts n_hsize_def n)
      have dc: "drop (base + off + (file_raw_size + length (n_spec h))) b =
          sers (file_raw_size + length (n_spec h)) cs @ (sers (off + nsize n) ns @ rest)"
        using dn drop_more [of "base + off" b "ser_hdr (nsize n) off h"] by (simp add: n add.assoc)
      show ?thesis
        using gl okn(1) dc lim that unfolding hs
        by (auto simp: loop_goal_def file_of_facts add.assoc)
    qed
    have kept: "get s2 = b" if "cb F s1 = Some (r, s2)" "get s1 = b" for F s1 r s2
      using k that unfolding keeps_def by metis
    show "foreach_loop get ti cb True f (word_of_nat off) s = cb_run cb s (visits_sub ti base off (n # ns))"
    proof (cases n)
      case (Ef h d)
      have c: "\<not> SWICC_FS_FILE_FOLDER_CHECK ?F" "SWICC_FS_FILE_EF_CHECK ?F"
        using folder_check_node(1) [OF okn(1)] folder_check_node(2) [OF okn(1) Ef] Ef by auto
      show ?thesis
      proof (cases "cb ?F s")
        case (Some rs)
        obtain r s1 where rs: "rs = (r, s1)" by (cases rs)
        show ?thesis
          using tail [OF kept [OF Some [unfolded rs] g]] c Ef Some rs
          by (subst foreach_loop.simps) (simp add: lt prs)
      qed (subst foreach_loop.simps, simp add: lt prs Ef)
    next
      case (Folder h cs)
      have c: "SWICC_FS_FILE_FOLDER_CHECK ?F"
        using folder_check_node(1) [OF okn(1)] Folder by auto
      let ?V = "visits_sub ti (base + off) (file_raw_size + length (n_spec h)) cs"
      show ?thesis
      proof (cases "cb ?F s")
        case (Some rs)
        obtain r s1 where rs: "rs = (r, s1)" by (cases rs)
        note g1 = kept [OF Some [unfolded rs] g]
        show ?thesis
        proof (cases "cb ?F s1")
          case (Some rs2)
          obtain r2 s2 where rs2: "rs2 = (r2, s2)" by (cases rs2)
          note g2 = kept [OF Some [unfolded rs2] g1]
          have after: "get s3 = b" if "cb_run cb s2 ?V = Some (r3, s3)" for r3 s3
            using keeps_run [OF k that] g2 by simp
          show ?thesis
            using inner [OF g2 Folder] tail after c Folder \<open>cb ?F s = Some rs\<close> Some
            by (subst foreach_loop.simps)
               (auto simp: lt prs rs rs2 cb_run_append intro!: option_bind_cong)
        qed (use \<open>cb ?F s = Some rs\<close> c Folder in \<open>subst foreach_loop.simps, simp add: lt prs rs\<close>)
      qed (subst foreach_loop.simps, simp add: lt prs Folder)
    qed
  qed
next
  case (3 ti pos prel h cs)
  then show ?case by (simp add: node_goal_def)
next
  case (4 ti pos prel h d)
  then show ?case by (simp add: node_goal_def)
qed


lemma foreach_visits_eq:
  assumes "keeps get cb" and "node_ok (Folder h cs)" and "get s = ser 0 (Folder h cs) @ rest"
    and "nsize (Folder h cs) < 2 ^ 32 - 64"
  shows "swicc_disk_file_foreach get ti (file_of ti 0 0 (Folder h cs)) cb True s =
    cb_run cb s (visits ti (Folder h cs))"
proof (cases "cb (file_of ti 0 0 (Folder h cs)) s")
  case (Some rs)
  obtain r s1 where rs: "rs = (r, s1)" by (cases rs)
  have g: "get s1 = get s" using assms(1) Some rs unfolding keeps_def by metis
  have hs: "swicc_fs_item_hdr_raw_size (n_type h) = word_of_nat (file_raw_size + length (n_spec h))"
    using item_hdr_raw_size_node [OF assms(2)] by (simp add: n_hsize_def)
  have "foreach_loop get ti cb True (file_of ti 0 0 (Folder h cs)) (word_of_nat (file_raw_size + length (n_spec h))) s1 =
      cb_run cb s1 (visits_sub ti 0 (file_raw_size + length (n_spec h)) cs)"
    using foreach_loop_visits(1) [OF assms(1), of "get s" ti 0 "file_raw_size + length (n_spec h)" cs]
      assms g unfolding loop_goal_def by (auto simp: file_of_facts)
  then show ?thesis
    using Some hs by (simp add: swicc_disk_file_foreach_def visits_def rs file_of_facts)
qed (simp add: swicc_disk_file_foreach_def visits_def)

text \<open>
  C13.  On a well-formed tree the recursive walk from the root terminates and hands exactly the files
  of the tree to the callback, in layout order and with their parsed headers (nested folders twice),
  stopping early when the callback reports an error.
\<close>

theorem foreach_visits:
  assumes "keeps get cb" and "node_ok (Folder h cs)" and "get s = ser 0 (Folder h cs) @ rest"
    and "nsize (Folder h cs) < 2 ^ 32 - 64"
  shows "swicc_disk_file_foreach get ti (file_of ti 0 0 (Folder h cs)) cb True s =
    cb_run cb s (visits ti (Folder h cs))"
  by (rule foreach_visits_eq) (fact assms)+

text \<open>A small card: a root folder with a transparent file and a folder that holds a cyclic file.\<close>

definition demo_hdr :: "swicc_fs_item_type \<Rightarrow> u16 \<Rightarrow> u8 \<Rightarrow> bytes \<Rightarrow> node_hdr" where
  "demo_hdr t i s sp = \<lparr>n_type = t, n_lcs = 0, n_id = i, n_sid = s, n_spec = sp\<rparr>"

definition demo_files :: "fsnode list" where
  "demo_files =
     [Ef (demo_hdr SWICC_FS_ITEM_TYPE_FILE_EF_TRANSPARENT 0x2FE2 2 []) [1, 2, 3],
      Folder (demo_hdr SWICC_FS_ITEM_TYPE_FILE_DF 0x7F10 0 (replicate 16 0))
        [Ef (demo_hdr SWICC_FS_ITEM_TYPE_FILE_EF_CYCLIC 0x6F01 1 [2]) [9, 8, 7, 6]]]"

definition demo_mf :: fsnode where
  "demo_mf = Folder (demo_hdr SWICC_FS_ITEM_TYPE_FILE_MF 0x3F00 0 (replicate 16 0)) demo_files"

lemma demo_mf_ok: "node_ok demo_mf" "nsize demo_mf = 92"
proof -
  show "node_ok demo_mf"
    by (simp add: demo_mf_def demo_files_def demo_hdr_def is_folder_type_def is_rcrd_type_def)
  show "nsize demo_mf = 92" by (simp add: demo_mf_def demo_files_def demo_hdr_def)
qed

theorem foreach_visits_witness:
  "swicc_disk_file_foreach fst 0 (file_of 0 0 0 demo_mf)
     (\<lambda>f (b, ids). Some (SWICC_RET_SUCCESS, b, ids @ [fh_id (hdr_file f)])) True (ser 0 demo_mf, []) =
   Some (SWICC_RET_SUCCESS, ser 0 demo_mf, [0x3F00, 0x2FE2, 0x7F10, 0x7F10, 0x6F01])"
proof -
  let ?cb = "\<lambda>f (b :: bytes, ids). Some (SWICC_RET_SUCCESS, b, ids @ [fh_id (hdr_file f)])"
  have run: "cb_run ?cb (b, []) (visits 0 demo_mf) =
      Some (SWICC_RET_SUCCESS, b, [0x3F00, 0x2FE2, 0x7F10, 0x7F10, 0x6F01])" for b
    by (simp add: demo_mf_def demo_files_def demo_hdr_def visits_def file_of_def Let_def)
  have keep: "keeps fst ?cb" by (simp add: keeps_def)
  have "fst (ser 0 demo_mf, [] :: u16 list) = ser 0 demo_mf @ []" by simp
  moreover note demo_mf_ok(1)
  moreover have "nsize demo_mf < 2 ^ 32 - 64" by (simp add: demo_mf_ok(2))
  ultimately show ?thesis
    using foreach_visits [OF keep, folded demo_mf_def, of _ _ "(ser 0 demo_mf, [])" "[]" 0] run
    unfolding demo_mf_def by simp
qed

end
