(* ===== verification/Swicc_Disk_Tables.thy ===== *)
theory Swicc_Disk_Tables
  imports Swicc_Disk
begin

text \<open>
  What the ID table of the disk and the short ID tables of its trees find after they have been
  rebuilt: the operations of \<^verbatim>\<open>src/fs/disk.c\<close> that build the tables walk over the trees and insert into
  the sorted tables of theory \<open>Swicc_Lut\<close>; the operations that look up search them.
\<close>

section \<open>What the tables find\<close>

definition root_ok :: "fsnode \<Rightarrow> bool" where
  "root_ok n \<longleftrightarrow> node_ok n \<and> nsize n < 2 ^ 32 - 64 \<and>
     (n_type (n_hdr n) = SWICC_FS_ITEM_TYPE_FILE_MF \<or> n_type (n_hdr n) = SWICC_FS_ITEM_TYPE_FILE_ADF)"

definition tree_repr :: "swicc_disk_tree \<Rightarrow> fsnode \<Rightarrow> bool" where
  "tree_repr t n \<longleftrightarrow> root_ok n \<and> take (nsize n) (t_buf t) = ser 0 n \<and> unat (t_len t) = nsize n \<and>
     length (t_buf t) < 2 ^ 32 - 64"

text \<open>Behind the tree the buffer may have room.\<close>

lemma tree_bytes: "tree_repr t n \<Longrightarrow> t_buf t = ser 0 n @ drop (nsize n) (t_buf t)"
  unfolding tree_repr_def by (metis append_take_drop_id)

lemma root_folder: "root_ok n \<Longrightarrow> \<exists>h cs. n = Folder h cs"
  by (cases n) (auto simp: root_ok_def is_rcrd_type_def)

lemma tree_folder: "tree_repr t n \<Longrightarrow> \<exists>h cs. n = Folder h cs"
  using root_folder by (simp add: tree_repr_def)

lemma file_root_repr:
  assumes "tree_repr t n"
  shows "swicc_disk_tree_file_root ti t f = Some (SWICC_RET_SUCCESS, file_of ti 0 0 n)"
proof -
  have "swicc_fs_file_prs ti (t_buf t) 0 f = Some (SWICC_RET_SUCCESS, file_of ti 0 0 n)"
    using file_prs_node [of n 0 "t_buf t" 0 "drop (nsize n) (t_buf t)" ti f] tree_bytes [OF assms] assms
    by (simp add: tree_repr_def root_ok_def)
  then show ?thesis
    using assms by (auto simp: swicc_disk_tree_file_root_def file_of_facts tree_repr_def root_ok_def)
qed

text \<open>Every visited file can be parsed again at its offset.\<close>

definition laid_out :: "bytes \<Rightarrow> nat \<Rightarrow> swicc_fs_file \<Rightarrow> bool" where
  "laid_out b ti f \<longleftrightarrow> (\<exists>pos prel n rest. f = file_of ti pos prel n \<and> node_ok n \<and>
     drop pos b = ser prel n @ rest)"

lemma visits_laid_out:
  "list_all node_ok ns \<Longrightarrow> drop (base + off) b = sers off ns @ rest \<Longrightarrow> f \<in> set (visits_sub ti base off ns) \<Longrightarrow>
     laid_out b ti f"
  "node_ok n \<Longrightarrow> drop pos b = ser prel n @ rest' \<Longrightarrow> f \<in> set (visit_node ti pos prel n) \<Longrightarrow> laid_out b ti f"
proof (induction ti base off ns and ti pos prel n arbitrary: rest and rest' rule: visits_sub_visit_node.induct)
  case (2 ti base off n ns)
  have d: "drop (base + off) b = ser off n @ (sers (off + nsize n) ns @ rest)" using 2(4) by simp
  have "drop (base + (off + nsize n)) b = sers (off + nsize n) ns @ rest"
    using drop_more [OF d] by (simp add: add.assoc)
  then show ?case using 2(1) [OF _ d] 2(2) 2(3,5) by auto
next
  case (3 ti pos prel h cs)
  have d: "drop (pos + (file_raw_size + length (n_spec h))) b = sers (file_raw_size + length (n_spec h)) cs @ rest'"
    using 3(3) drop_more [of pos b "ser_hdr (nsize (Folder h cs)) prel h"] by (simp add: add.assoc)
  have "laid_out b ti (file_of ti pos prel (Folder h cs))"
    unfolding laid_out_def using 3(2,3) by blast
  then show ?case using 3(1) [OF _ d] 3(2,4) by auto
next
  case (4 ti pos prel h d)
  have "f = file_of ti pos prel (Ef h d)" using 4(3) by simp
  then show ?case unfolding laid_out_def using 4(1,2) by blast
qed simp

lemma root_visits_ser:
  assumes "tree_repr t n" and "f \<in> set (visits ti n)"
  shows "laid_out (ser 0 n) ti f"
proof -
  obtain h cs where n: "n = Folder h cs" using tree_folder [OF assms(1)] by blast
  have b: "drop 0 (ser 0 n) = ser 0 n @ []" and ok: "node_ok n"
    using assms(1) by (simp_all add: tree_repr_def root_ok_def)
  have "f \<in> set (visit_node ti 0 0 n)" using assms(2) by (auto simp: visits_def n)
  from visits_laid_out(2) [OF ok b this] show ?thesis .
qed

lemma laid_out_append: "laid_out b ti f \<Longrightarrow> laid_out (b @ r) ti f"
  unfolding laid_out_def
proof (elim exE conjE)
  fix pos prel n rest assume a: "f = file_of ti pos prel n" "node_ok n" "drop pos b = ser prel n @ rest"
  have "length b - pos = nsize n + length rest" using arg_cong [OF a(3), of length] by simp
  then have "pos \<le> length b" using nsize_pos [of n] by linarith
  with a show "\<exists>pos prel n rest. f = file_of ti pos prel n \<and> node_ok n \<and> drop pos (b @ r) = ser prel n @ rest"
    by (intro exI [of _ pos] exI [of _ prel] exI [of _ n] exI [of _ "rest @ r"]) simp
qed

lemma root_visits_laid_out:
  assumes "tree_repr t n" and "f \<in> set (visits ti n)"
  shows "laid_out (t_buf t) ti f"
  using laid_out_append [OF root_visits_ser [OF assms], of "drop (nsize n) (t_buf t)"] tree_bytes [OF assms(1)] by simp

lemma laid_out_prs:
  assumes "laid_out b ti f" and "length b < 2 ^ 32 - 64"
  shows "swicc_fs_file_prs ti b (ih_offset_trel (hdr_item f)) f0 = Some (SWICC_RET_SUCCESS, f)"
    and "unat (ih_offset_trel (hdr_item f)) < length b"
proof -
  obtain pos prel n rest where f: "f = file_of ti pos prel n" "node_ok n" "drop pos b = ser prel n @ rest"
    using assms(1) by (auto simp: laid_out_def)
  have "length b - pos = nsize n + length rest" using arg_cong [OF f(3), of length] by simp
  then have p: "pos < length b" using nsize_pos [of n] by linarith
  then show "swicc_fs_file_prs ti b (ih_offset_trel (hdr_item f)) f0 = Some (SWICC_RET_SUCCESS, f)"
    using file_prs_node [OF f(2,3), of ti f0] assms(2) f(1) by (simp add: file_of_facts)
  have "unat (word_of_nat pos :: u32) = pos" by (rule unat_of_nat_u32) (use p assms(2) in simp)
  then show "unat (ih_offset_trel (hdr_item f)) < length b"
    using p f(1) by (simp add: file_of_facts)
qed

lemma root_visits_offset:
  assumes "tree_repr t n" and "f \<in> set (visits ti n)"
  shows "ih_offset_trel (hdr_item f) < t_len t"
  using laid_out_prs(2) [OF root_visits_ser [OF assms]] assms(1)
  by (simp add: tree_repr_def root_ok_def word_less_nat_alt)

subsection \<open>Filling a table\<close>

definition id_kv :: "u8 \<Rightarrow> swicc_fs_file \<Rightarrow> bytes \<times> bytes" where
  "id_kv tree_idx f = (le16_put (htobe16 (fh_id (hdr_file f))),
     le32_put (ih_offset_trel (hdr_item f)) @ [tree_idx])"

definition id_kvs :: "u8 \<Rightarrow> swicc_fs_file list \<Rightarrow> (bytes \<times> bytes) list" where
  "id_kvs tree_idx fs = map (id_kv tree_idx) (filter (\<lambda>f. fh_id (hdr_file f) \<noteq> SWICC_FS_ID_MISSING) fs)"

lemma puts_append: "puts put s (xs @ ys) = do { s1 \<leftarrow> puts put s xs; puts put s1 ys }"
proof (induction xs arbitrary: s)
  case (Cons x xs)
  then show ?case by (cases x; cases "put s (fst x) (snd x)") auto
qed simp

lemma lt_put_Some:
  "lt_put (A, l) k v = Some (A', l') \<Longrightarrow> A' = A \<and> lut_insert A l k v = Some (SWICC_RET_SUCCESS, l')"
  by (auto simp: lt_put_def split: option.splits prod.splits swicc_ret.splits)

lemma cb_run_lutid:
  "puts lt_put (A, l) (id_kvs tix fs) = Some (A', l') \<Longrightarrow>
     cb_run (lutid_rebuild_cb A tix) l fs = Some (SWICC_RET_SUCCESS, l')"
proof (induction fs arbitrary: l)
  case (Cons f fs)
  show ?case
  proof (cases "fh_id (hdr_file f) = 0")
    case True
    then show ?thesis using Cons by (simp add: id_kvs_def lutid_rebuild_cb_def)
  next
    case False
    then obtain A1 l1 where s1: "lt_put (A, l) (fst (id_kv tix f)) (snd (id_kv tix f)) = Some (A1, l1)"
      "puts lt_put (A1, l1) (id_kvs tix fs) = Some (A', l')"
      using Cons.prems by (auto simp: id_kvs_def id_kv_def bind_Some_iff)
    then show ?thesis
      using Cons.IH lt_put_Some [OF s1(1)] False by (simp add: lutid_rebuild_cb_def id_kv_def)
  qed
qed (simp add: id_kvs_def)

fun forest_kvs :: "nat \<Rightarrow> fsnode list \<Rightarrow> (bytes \<times> bytes) list" where
  "forest_kvs ti [] = []"
| "forest_kvs ti (n # ns) = id_kvs (word_of_nat ti) (visits ti n) @ forest_kvs (ti + 1) ns"

lemma lutid_loop_puts:
  assumes "list_all2 tree_repr ts ns" and "puts lt_put (A, l) (forest_kvs ti ns) = Some (A', l')"
  shows "lutid_rebuild_loop A ts ti (word_of_nat ti) r l =
    Some (if ts = [] then r else SWICC_RET_SUCCESS, l')"
  using assms
proof (induction ts ns arbitrary: l ti r rule: list_all2_induct)
  case (Cons t ts n ns)
  obtain h cs where n: "n = Folder h cs" using tree_folder [OF Cons(1)] by blast
  obtain A1 l1 where s1: "puts lt_put (A, l) (id_kvs (word_of_nat ti) (visits ti n)) = Some (A1, l1)"
    "puts lt_put (A1, l1) (forest_kvs (ti + 1) ns) = Some (A', l')"
    using Cons.prems by (auto simp: puts_append bind_Some_iff)
  have A1: "A1 = A" using puts_fst [OF s1(1)] by simp
  have "keeps (\<lambda>_. t_buf t) (lutid_rebuild_cb A (word_of_nat ti))" by (simp add: keeps_def)
  then have "swicc_disk_file_foreach (\<lambda>_. t_buf t) ti (file_of ti 0 0 n) (lutid_rebuild_cb A (word_of_nat ti)) True l =
      cb_run (lutid_rebuild_cb A (word_of_nat ti)) l (visits ti n)"
    unfolding n by (rule foreach_visits_eq [where rest = "drop (nsize n) (t_buf t)"])
      (use Cons(1) tree_bytes [OF Cons(1)] n in \<open>simp_all add: tree_repr_def root_ok_def\<close>)
  moreover have "lutid_rebuild_loop A ts (ti + 1) (word_of_nat (ti + 1)) SWICC_RET_SUCCESS l1 =
      Some (if ts = [] then SWICC_RET_SUCCESS else SWICC_RET_SUCCESS, l')"
    by (rule Cons.IH) (use s1(2) A1 in simp)
  ultimately show ?case
    using file_root_repr [OF Cons(1), of ti file_zero] cb_run_lutid [OF s1(1)]
    by (simp add: add.commute)
qed simp


text \<open>All visited files of the forest with the number of their tree.\<close>

fun forest_files :: "nat \<Rightarrow> fsnode list \<Rightarrow> (nat \<times> swicc_fs_file) list" where
  "forest_files ti [] = []"
| "forest_files ti (n # ns) = map (Pair ti) (visits ti n) @ forest_files (ti + 1) ns"

lemma forest_kvs_files:
  "forest_kvs ti ns = map (\<lambda>(ti, f). id_kv (word_of_nat ti) f)
     (filter (\<lambda>(ti, f). fh_id (hdr_file f) \<noteq> SWICC_FS_ID_MISSING) (forest_files ti ns))"
  by (induction ti ns rule: forest_kvs.induct) (simp_all add: id_kvs_def filter_map o_def)

lemma map_of_find:
  "map_of (map (\<lambda>x. (k x, v x)) (filter Q ys)) key = map_option v (List.find (\<lambda>x. Q x \<and> k x = key) ys)"
  by (induction ys) auto

lemma le16_be_inj: "le16_put (htobe16 a) = le16_put (htobe16 b) \<longleftrightarrow> a = b"
proof
  assume "le16_put (htobe16 a) = le16_put (htobe16 b)"
  then have "le16_get (le16_put (htobe16 a)) 0 = le16_get (le16_put (htobe16 b)) 0" by simp
  then have "htobe16 a = htobe16 b"
    using le16_get_put [of "[]" "htobe16 a" "[]"] le16_get_put [of "[]" "htobe16 b" "[]"] by simp
  then show "a = b" by (metis htobe16_involution)
qed simp

definition last_with_id :: "u16 \<Rightarrow> (nat \<times> swicc_fs_file) list \<Rightarrow> (nat \<times> swicc_fs_file) option" where
  "last_with_id fid xs =
     List.find (\<lambda>(ti, f). fh_id (hdr_file f) \<noteq> SWICC_FS_ID_MISSING \<and> fh_id (hdr_file f) = fid) (rev xs)"

lemma forest_kvs_map_of:
  "map_of (rev (forest_kvs ti ns)) (le16_put (htobe16 fid)) =
    map_option (\<lambda>(ti, f). le32_put (ih_offset_trel (hdr_item f)) @ [word_of_nat ti])
      (last_with_id fid (forest_files ti ns))"
proof -
  have p: "(\<lambda>x. (case x of (ti, f) \<Rightarrow> fh_id (hdr_file f) \<noteq> 0) \<and>
      le16_put (htobe16 (fh_id (hdr_file (snd x)))) = le16_put (htobe16 fid)) =
      (\<lambda>(ti :: nat, f :: swicc_fs_file). fh_id (hdr_file f) \<noteq> 0 \<and> fh_id (hdr_file f) = fid)"
    by (auto simp: le16_be_inj fun_eq_iff)
  have q: "(\<lambda>(ti, f). id_kv (word_of_nat ti) f) = (\<lambda>x. (le16_put (htobe16 (fh_id (hdr_file (snd x)))),
      (\<lambda>(ti, f). le32_put (ih_offset_trel (hdr_item f)) @ [word_of_nat ti]) x))"
    by (auto simp: id_kv_def)
  show ?thesis
    unfolding forest_kvs_files last_with_id_def rev_map rev_filter q
    by (simp only: map_of_find p)
qed

lemma iter_idx_reach:
  assumes "unat tix < length (d_root d)"
  shows "i \<le> unat tix \<Longrightarrow>
    \<exists>it. swicc_disk_tree_iter_idx d \<lparr>it_tree_idx = word_of_nat i, it_tree = i\<rparr> tix t0 =
      (SWICC_RET_SUCCESS, it, Some (unat tix))"
proof (induction "unat tix - i" arbitrary: i t0)
  case 0
  then have "i = unat tix" by simp
  then show ?case by (simp add: swicc_disk_tree_iter_idx.simps)
next
  case (Suc n)
  then have i: "i < unat tix" by simp
  have ui: "unat (word_of_nat i :: u8) = i"
    by (rule unat_of_nat_u8) (use i unat_u8_less [of tix] in linarith)
  have ne: "(word_of_nat i :: u8) \<noteq> tix" using ui i by auto
  have nx: "swicc_disk_tree_iter_next d \<lparr>it_tree_idx = word_of_nat i, it_tree = i\<rparr> t0 =
      (SWICC_RET_SUCCESS, \<lparr>it_tree_idx = word_of_nat (i + 1), it_tree = i + 1\<rparr>, Some (i + 1))"
    using i assms by (simp add: swicc_disk_tree_iter_next_def Let_def add.commute)
  have "\<exists>it. swicc_disk_tree_iter_idx d \<lparr>it_tree_idx = word_of_nat (i + 1), it_tree = i + 1\<rparr> tix (Some (i + 1)) =
      (SWICC_RET_SUCCESS, it, Some (unat tix))"
    by (rule Suc.hyps(1)) (use Suc.hyps(2) i in simp_all)
  then show ?case
    by (subst swicc_disk_tree_iter_idx.simps) (use ne nx in simp)
qed

lemma value_bytes:
  assumes "rdn b p 5 = Some (le32_put off @ [x])"
  shows "le32_get b p = Some off" "rd b (p + 4) = Some x"
proof -
  have l: "p + 5 \<le> length b" and t: "le32_put off @ [x] = take 5 (drop p b)"
    using assms by (auto simp: rdn_Some)
  have d: "drop p b = le32_put off @ [x] @ drop 5 (drop p b)"
    unfolding append_assoc [symmetric] t by (rule append_take_drop_id [symmetric])
  show "le32_get b p = Some off" by (rule le32_get_drop [OF d])
  have "drop (p + 4) b = x # drop 5 (drop p b)" using drop_more [OF d] by simp
  then show "rd b (p + 4) = Some x" by (rule rd_drop)
qed

lemma lutid_lookup_rep:
  assumes rep: "lut_rep (d_lutid d) es" and sz: "lut_size1 (d_lutid d) = 2" "lut_size2 (d_lutid d) = 5"
  shows "map_of es (le16_put (htobe16 fid)) = None \<Longrightarrow>
      swicc_disk_lutid_lookup d t0 fid f0 = Some (SWICC_RET_FS_NOT_FOUND, t0, f0)"
    and "map_of es (le16_put (htobe16 fid)) = Some (le32_put off @ [word_of_nat ti]) \<Longrightarrow>
      ti < length (d_root d) \<Longrightarrow> ti < 256 \<Longrightarrow> off < t_len (d_root d ! ti) \<Longrightarrow>
      swicc_fs_file_prs ti (t_buf (d_root d ! ti)) off f0 = Some (SWICC_RET_SUCCESS, f) \<Longrightarrow>
      swicc_disk_lutid_lookup d t0 fid f0 = Some (SWICC_RET_SUCCESS, Some ti, f)"
proof -
  let ?l = "d_lutid d" and ?k = "le16_put (htobe16 fid)"
  let ?i = "length (takeWhile (\<lambda>x. x \<noteq> ?k) (map fst es))"
  obtain b1 b2 where b: "lut_buf1 ?l = Alloc b1" "lut_buf2 ?l = Alloc b2"
    using rep by (auto simp: lut_rep_def)
  have kl: "length ?k = unat (lut_size1 ?l)" by (simp add: sz)
  note find = lut_find_rep [OF rep kl b(1)]
  have cnt: "unat (lut_count ?l) = length es" by (rule lut_rep_lens(1) [OF rep])
  have first: "map_of es ?k = (if ?i < length es then Some (snd (es ! ?i)) else None)"
    by (simp add: map_of_first Let_def)
  show "map_of es ?k = None \<Longrightarrow>
      swicc_disk_lutid_lookup d t0 fid f0 = Some (SWICC_RET_FS_NOT_FOUND, t0, f0)"
    using find first b sz cnt
    by (auto simp: swicc_disk_lutid_lookup_def Let_def mem_bytes_def split: if_splits)
  assume m: "map_of es ?k = Some (le32_put off @ [word_of_nat ti])" and ti: "ti < length (d_root d)" "ti < 256"
    and off: "off < t_len (d_root d ! ti)"
    and prs: "swicc_fs_file_prs ti (t_buf (d_root d ! ti)) off f0 = Some (SWICC_RET_SUCCESS, f)"
  have i: "?i < length es" and v: "snd (es ! ?i) = le32_put off @ [word_of_nat ti]"
    using m first by (auto split: if_splits)
  have val: "rdn b2 (unat (lut_size2 ?l * word_of_nat ?i)) 5 = Some (le32_put off @ [word_of_nat ti])"
    using lut_rep_value [OF rep i b(2)] v by (simp add: sz)
  note vb = value_bytes [OF val]
  have uti: "unat (word_of_nat ti :: u8) = ti" by (rule unat_of_nat_u8) (rule ti(2))
  have st: "swicc_disk_tree_iter_start d \<lparr>it_tree_idx = 0, it_tree = 0\<rparr> =
      (SWICC_RET_SUCCESS, \<lparr>it_tree_idx = 0, it_tree = 0\<rparr>)"
    using ti(1) by (auto simp: swicc_disk_tree_iter_start_def)
  obtain it where it: "swicc_disk_tree_iter_idx d \<lparr>it_tree_idx = 0, it_tree = 0\<rparr> (word_of_nat ti) t0 =
      (SWICC_RET_SUCCESS, it, Some ti)"
    using iter_idx_reach [of "word_of_nat ti" d 0 t0] ti(1) uti by auto
  have nle: "\<not> t_len (d_root d ! ti) \<le> off" using off by simp
  show "swicc_disk_lutid_lookup d t0 fid f0 = Some (SWICC_RET_SUCCESS, Some ti, f)"
    unfolding swicc_disk_lutid_lookup_def Let_def
    using find i b sz cnt vb st it ti(1) nle prs
    by (simp add: mem_bytes_def rd_ok)
qed


definition forest_repr :: "swicc_disk \<Rightarrow> fsnode list \<Rightarrow> bool" where
  "forest_repr d ns \<longleftrightarrow> list_all2 tree_repr (d_root d) ns \<and> ns \<noteq> [] \<and> length ns \<le> 256"

definition lut_freeable :: "swicc_disk_lut \<Rightarrow> bool" where
  "lut_freeable l \<longleftrightarrow> lut_buf1 l \<noteq> Dangling \<and> lut_buf2 l \<noteq> Dangling"

lemma lut_new_start:
  assumes "grants A" "unat s1 \<le> 8" "unat s2 \<le> 8" "0 < s1" "0 < s2"
  shows "lt_ok (A, lut_new A s1 s2)" "lt_room (A, lut_new A s1 s2) = lut_cap"
    "lt_find (A, lut_new A s1 s2) = Map.empty"
    "lut_buf1 (lut_new A s1 s2) \<noteq> Null" "lut_buf2 (lut_new A s1 s2) \<noteq> Null"
proof -
  note rep = lut_new_rep [OF assms(1,4,2,5,3)]
  show "lt_ok (A, lut_new A s1 s2)" using rep assms by (auto simp: lt_ok_def lut_new_def)
  show "lt_room (A, lut_new A s1 s2) = lut_cap" by (simp add: lt_room_def lut_new_def)
  show "lt_find (A, lut_new A s1 s2) = Map.empty" unfolding lt_find_rep [OF rep] by auto
  show "lut_buf1 (lut_new A s1 s2) \<noteq> Null" "lut_buf2 (lut_new A s1 s2) \<noteq> Null"
    using rep by (auto simp: lut_rep_def)
qed

lemma lt_puts_rep:
  assumes g: "grants A" and s: "unat s1 \<le> 8" "unat s2 \<le> 8" "0 < s1" "0 < s2"
    and kvs: "\<forall>(k, v) \<in> set kvs. length k = unat s1 \<and> length v = unat s2" "length kvs \<le> lut_cap"
  shows "\<exists>l es. puts lt_put (A, lut_new A s1 s2) kvs = Some (A, l) \<and> lut_rep l es \<and>
    lut_size1 l = s1 \<and> lut_size2 l = s2 \<and> (\<forall>k. length k = unat s1 \<longrightarrow> map_of es k = map_of (rev kvs) k)"
proof -
  let ?s = "(A, lut_new A s1 s2)"
  note st = lut_new_start [OF g s]
  have fits: "\<forall>(k, v) \<in> set kvs. lt_fits ?s k v" using kvs(1) by (auto simp: lt_fits_def lut_new_def)
  obtain l where l: "puts lt_put ?s kvs = Some (A, l)" "lt_ok (A, l)" "lt_fits (A, l) = lt_fits ?s"
    "lt_find (A, l) = lt_find ?s ++ map_of (rev kvs)"
    using lt.puts_ok [OF st(1) fits] kvs(2) st(2) puts_fst by fastforce
  obtain es where es: "lut_rep l es" using l(2) by (auto simp: lt_ok_def)
  have "lt_fits ?s (replicate (unat s1) 0) (replicate (unat s2) 0)" by (simp add: lt_fits_def lut_new_def)
  then have "lt_fits (A, l) (replicate (unat s1) 0) (replicate (unat s2) 0)" unfolding l(3) .
  then have "unat (lut_size1 l) = unat s1" "unat (lut_size2 l) = unat s2" by (simp_all add: lt_fits_def)
  then have sz: "lut_size1 l = s1" "lut_size2 l = s2" by (simp_all only: word_unat_eq_iff)
  have "map_of es k = map_of (rev kvs) k" if "length k = unat s1" for k
    using fun_cong [OF l(4), of k] that unfolding lt_find_rep [OF es] st(3) sz by simp
  with l(1) es sz show ?thesis by blast
qed

lemma forest_files_in:
  "list_all2 tree_repr ts ns \<Longrightarrow> (i, f) \<in> set (forest_files ti ns) \<Longrightarrow>
     ti \<le> i \<and> i < ti + length ts \<and> f \<in> set (visits i (ns ! (i - ti))) \<and> tree_repr (ts ! (i - ti)) (ns ! (i - ti))"
proof (induction ts ns arbitrary: ti rule: list_all2_induct)
  case (Cons t ts n ns)
  show ?case
  proof (cases "(i, f) \<in> set (map (Pair ti) (visits ti n))")
    case True
    then show ?thesis using Cons(1) by auto
  next
    case False
    then have "(i, f) \<in> set (forest_files (ti + 1) ns)" using Cons.prems by auto
    from Cons.IH [OF this] have h: "ti + 1 \<le> i" "i < ti + 1 + length ts"
      "f \<in> set (visits i (ns ! (i - (ti + 1))))" "tree_repr (ts ! (i - (ti + 1))) (ns ! (i - (ti + 1)))"
      by auto
    obtain j where "i = ti + 1 + j" using h(1) le_Suc_ex by blast
    with h show ?thesis by simp
  qed
qed simp

text \<open>Looking up a file ID finds the last visited file that has it, parsed from its tree.\<close>

definition ids_resolve :: "swicc_disk \<Rightarrow> fsnode list \<Rightarrow> bool" where
  "ids_resolve d ns \<longleftrightarrow> (\<forall>t0 fid f0. swicc_disk_lutid_lookup d t0 fid f0 =
     Some (case last_with_id fid (forest_files 0 ns) of
       None \<Rightarrow> (SWICC_RET_FS_NOT_FOUND, t0, f0)
     | Some (ti, f) \<Rightarrow> (SWICC_RET_SUCCESS, Some ti, f)))"

lemma lutid_rebuild_resolves:
  assumes rep: "forest_repr d ns" and g: "grants A" and fr: "lut_freeable (d_lutid d)"
    and few: "length (forest_kvs 0 ns) \<le> lut_cap"
  shows "\<exists>l. swicc_disk_lutid_rebuild A d = Some (SWICC_RET_SUCCESS, d\<lparr>d_lutid := l\<rparr>) \<and> ids_resolve (d\<lparr>d_lutid := l\<rparr>) ns"
proof -
  have ts: "list_all2 tree_repr (d_root d) ns" "d_root d \<noteq> []" "length (d_root d) \<le> 256"
    using rep by (auto simp: forest_repr_def list_all2_lengthD)
  have kvs: "\<forall>(k, v) \<in> set (forest_kvs 0 ns). length k = unat (2 :: u32) \<and> length v = unat (5 :: u32)"
    by (auto simp: forest_kvs_files id_kv_def)
  obtain l es where l: "puts lt_put (A, lut_new A 2 5) (forest_kvs 0 ns) = Some (A, l)" "lut_rep l es"
    "lut_size1 l = 2" "lut_size2 l = 5" "\<forall>k. length k = unat (2 :: u32) \<longrightarrow> map_of es k = map_of (rev (forest_kvs 0 ns)) k"
    using lt_puts_rep [OF g _ _ _ _ kvs few] by auto
  let ?d = "d\<lparr>d_lutid := l\<rparr>"
  have new: "lut_buf1 (lut_new A 2 5) \<noteq> Null" "lut_buf2 (lut_new A 2 5) \<noteq> Null"
    using lut_new_start [OF g, of 2 5] by simp_all
  have emp: "swicc_disk_lutid_empty d = Some (d\<lparr>d_lutid := lut_zero\<rparr>)"
    using fr by (simp add: swicc_disk_lutid_empty_def lut_free_def lut_freeable_def assert_ub_def)
  have "lutid_rebuild_loop A (d_root d) 0 0 SWICC_RET_ERROR (lut_new A 2 5) = Some (SWICC_RET_SUCCESS, l)"
    using lutid_loop_puts [OF ts(1) l(1)] ts(2) by simp
  then have reb: "swicc_disk_lutid_rebuild A d = Some (SWICC_RET_SUCCESS, ?d)"
    using new by (simp add: swicc_disk_lutid_rebuild_def emp Let_def)
  have m: "map_of es (le16_put (htobe16 fid)) =
      map_option (\<lambda>(ti, f). le32_put (ih_offset_trel (hdr_item f)) @ [word_of_nat ti])
        (last_with_id fid (forest_files 0 ns))" for fid
    using l(5) forest_kvs_map_of by simp
  have rep': "lut_rep (d_lutid ?d) es" "lut_size1 (d_lutid ?d) = 2" "lut_size2 (d_lutid ?d) = 5"
    using l(2-4) by simp_all
  have "swicc_disk_lutid_lookup ?d t0 fid f0 =
      Some (case last_with_id fid (forest_files 0 ns) of
        None \<Rightarrow> (SWICC_RET_FS_NOT_FOUND, t0, f0)
      | Some (ti, f) \<Rightarrow> (SWICC_RET_SUCCESS, Some ti, f))" for t0 fid f0
  proof (cases "last_with_id fid (forest_files 0 ns)")
    case None
    then show ?thesis using lutid_lookup_rep(1) [OF rep'] m by simp
  next
    case (Some tf)
    obtain ti f where tf: "tf = (ti, f)" by (cases tf)
    have "(ti, f) \<in> set (forest_files 0 ns)"
      using Some tf by (auto simp: last_with_id_def find_Some_iff) (metis length_rev nth_mem set_rev)
    from forest_files_in [OF ts(1) this] have i: "ti < length (d_root d)" "f \<in> set (visits ti (ns ! ti))"
      "tree_repr (d_root d ! ti) (ns ! ti)" by simp_all
    have len: "length (t_buf (d_root d ! ti)) < 2 ^ 32 - 64"
      using i(3) by (simp add: tree_repr_def)
    note prs = laid_out_prs(1) [OF root_visits_laid_out [OF i(3,2)] len] root_visits_offset [OF i(3,2)]
    show ?thesis
      using lutid_lookup_rep(2) [OF rep'] m i(1) ts(3) prs Some tf by simp
  qed
  with reb show ?thesis by (auto simp: ids_resolve_def)
qed

text \<open>
  C22.  After the ID table of a well-formed disk has been rebuilt, looking up any file ID finds a
  file with that ID, parsed again from the tree it lies in (the last one in walking order, when an
  ID was used twice), and reports that there is none exactly when no file has it.
\<close>

theorem lutid_rebuild_lookup:
  assumes "forest_repr d ns" and "grants A" and "lut_freeable (d_lutid d)"
    and "length (forest_kvs 0 ns) \<le> lut_cap"
  shows "\<exists>d'. swicc_disk_lutid_rebuild A d = Some (SWICC_RET_SUCCESS, d') \<and> d_root d' = d_root d \<and>
    swicc_disk_lutid_lookup d' t0 fid f0 =
      Some (case last_with_id fid (forest_files 0 ns) of
        None \<Rightarrow> (SWICC_RET_FS_NOT_FOUND, t0, f0)
      | Some (ti, f) \<Rightarrow> (SWICC_RET_SUCCESS, Some ti, f))"
  using lutid_rebuild_resolves [OF assms] by (auto simp: ids_resolve_def)

definition demo_disk :: swicc_disk where
  "demo_disk = \<lparr>d_root = [\<lparr>t_size = word_of_nat (nsize demo_mf), t_len = word_of_nat (nsize demo_mf),
     t_buf = ser 0 demo_mf, t_lutsid = lut_zero\<rparr>], d_lutid = lut_zero\<rparr>"

theorem lutid_rebuild_lookup_witness:
  "\<exists>d'. swicc_disk_lutid_rebuild (\<lambda>n. Some (\<lambda>i. 0)) demo_disk = Some (SWICC_RET_SUCCESS, d') \<and>
     d_root d' = d_root demo_disk \<and>
     swicc_disk_lutid_lookup d' None 0x6F01 file_zero =
       Some (SWICC_RET_SUCCESS, Some 0, file_of 0 74 29
         (Ef (demo_hdr SWICC_FS_ITEM_TYPE_FILE_EF_CYCLIC 0x6F01 1 [2]) [9, 8, 7, 6]))"
proof -
  have "n_type (n_hdr demo_mf) = SWICC_FS_ITEM_TYPE_FILE_MF" by (simp add: demo_mf_def demo_hdr_def)
  then have "forest_repr demo_disk [demo_mf]"
    by (simp add: forest_repr_def demo_disk_def tree_repr_def root_ok_def demo_mf_ok)
  moreover have "last_with_id 0x6F01 (forest_files 0 [demo_mf]) = Some (0, file_of 0 74 29
      (Ef (demo_hdr SWICC_FS_ITEM_TYPE_FILE_EF_CYCLIC 0x6F01 1 [2]) [9, 8, 7, 6]))"
    by (simp add: last_with_id_def demo_mf_def demo_files_def demo_hdr_def visits_def file_of_def Let_def)
  ultimately show ?thesis
    using lutid_rebuild_lookup [of demo_disk "[demo_mf]" "\<lambda>n. Some (\<lambda>i. 0)" None "0x6F01" file_zero]
    by (simp add: grants_def lut_freeable_def demo_disk_def lut_zero_def lut_cap_def id_kvs_def visits_def
        demo_mf_def demo_files_def)
qed

section \<open>Short IDs\<close>

lemma rdn_drop_eq: "rdn b p n = Some x \<Longrightarrow> drop p b = x @ drop n (drop p b)"
  by (auto simp only: rdn_Some append_take_drop_id)

definition sid_kv :: "swicc_fs_file \<Rightarrow> bytes \<times> bytes" where
  "sid_kv f = ([fh_sid (hdr_file f)], le32_put (ih_offset_trel (hdr_item f)))"

definition sid_kvs :: "swicc_fs_file list \<Rightarrow> (bytes \<times> bytes) list" where
  "sid_kvs fs = map sid_kv (filter (\<lambda>f. fh_sid (hdr_file f) \<noteq> SWICC_FS_SID_MISSING) fs)"

definition last_with_sid :: "u8 \<Rightarrow> swicc_fs_file list \<Rightarrow> swicc_fs_file option" where
  "last_with_sid sid fs =
     List.find (\<lambda>f. fh_sid (hdr_file f) \<noteq> SWICC_FS_SID_MISSING \<and> fh_sid (hdr_file f) = sid) (rev fs)"

lemma sid_kvs_map_of:
  "map_of (rev (sid_kvs fs)) [sid] =
     map_option (\<lambda>f. le32_put (ih_offset_trel (hdr_item f))) (last_with_sid sid fs)"
proof -
  have q: "sid_kv = (\<lambda>f. ([fh_sid (hdr_file f)], le32_put (ih_offset_trel (hdr_item f))))"
    by (simp add: sid_kv_def fun_eq_iff)
  show ?thesis
    unfolding sid_kvs_def last_with_sid_def rev_map rev_filter q by (simp add: map_of_find)
qed

lemma cb_run_lutsid:
  "puts lt_put (A, t_lutsid t) (sid_kvs fs) = Some (A', l') \<Longrightarrow>
     cb_run (lutsid_rebuild_cb A) t fs = Some (SWICC_RET_SUCCESS, t\<lparr>t_lutsid := l'\<rparr>)"
proof (induction fs arbitrary: t)
  case (Cons f fs)
  show ?case
  proof (cases "fh_sid (hdr_file f) = 0")
    case True
    then show ?thesis using Cons by (simp add: sid_kvs_def lutsid_rebuild_cb_def)
  next
    case False
    then obtain A1 l1 where s1: "lt_put (A, t_lutsid t) (fst (sid_kv f)) (snd (sid_kv f)) = Some (A1, l1)"
      "puts lt_put (A1, l1) (sid_kvs fs) = Some (A', l')"
      using Cons.prems by (auto simp: sid_kvs_def sid_kv_def bind_Some_iff)
    then show ?thesis
      using Cons.IH [of "t\<lparr>t_lutsid := l1\<rparr>"] lt_put_Some [OF s1(1)] False
      by (simp add: lutsid_rebuild_cb_def sid_kv_def)
  qed
qed (simp add: sid_kvs_def)

lemma lutsid_lookup_rep:
  assumes rep: "lut_rep (t_lutsid t) es" and sz: "lut_size1 (t_lutsid t) = 1" "lut_size2 (t_lutsid t) = 4"
  shows "map_of es [sid] = None \<Longrightarrow>
      swicc_disk_lutsid_lookup ti t sid f0 = Some (SWICC_RET_FS_NOT_FOUND, f0)"
    and "map_of es [sid] = Some (le32_put off) \<Longrightarrow> off < t_len t \<Longrightarrow>
      swicc_fs_file_prs ti (t_buf t) off f0 = Some (SWICC_RET_SUCCESS, f) \<Longrightarrow>
      swicc_disk_lutsid_lookup ti t sid f0 = Some (SWICC_RET_SUCCESS, f)"
proof -
  let ?l = "t_lutsid t" and ?k = "[sid]"
  let ?i = "length (takeWhile (\<lambda>x. x \<noteq> ?k) (map fst es))"
  obtain b1 b2 where b: "lut_buf1 ?l = Alloc b1" "lut_buf2 ?l = Alloc b2"
    using rep by (auto simp: lut_rep_def)
  have kl: "length ?k = unat (lut_size1 ?l)" by (simp add: sz)
  note find = lut_find_rep [OF rep kl b(1)]
  have cnt: "unat (lut_count ?l) = length es" by (rule lut_rep_lens(1) [OF rep])
  have first: "map_of es ?k = (if ?i < length es then Some (snd (es ! ?i)) else None)"
    by (simp add: map_of_first Let_def)
  show "map_of es ?k = None \<Longrightarrow>
      swicc_disk_lutsid_lookup ti t sid f0 = Some (SWICC_RET_FS_NOT_FOUND, f0)"
    using find first b sz cnt
    by (auto simp: swicc_disk_lutsid_lookup_def Let_def mem_bytes_def split: if_splits)
  assume m: "map_of es ?k = Some (le32_put off)" and off: "off < t_len t"
    and prs: "swicc_fs_file_prs ti (t_buf t) off f0 = Some (SWICC_RET_SUCCESS, f)"
  have i: "?i < length es" and v: "snd (es ! ?i) = le32_put off"
    using m first by (auto split: if_splits)
  have val: "rdn b2 (unat (lut_size2 ?l * word_of_nat ?i)) 4 = Some (le32_put off)"
    using lut_rep_value [OF rep i b(2)] v by (simp add: sz)
  then have "drop (unat (lut_size2 ?l * word_of_nat ?i)) b2 =
      le32_put off @ drop 4 (drop (unat (lut_size2 ?l * word_of_nat ?i)) b2)"
    by (rule rdn_drop_eq)
  then have get: "le32_get b2 (unat (lut_size2 ?l * word_of_nat ?i)) = Some off" by (rule le32_get_drop)
  have nle: "\<not> t_len t \<le> off" using off by simp
  show "swicc_disk_lutsid_lookup ti t sid f0 = Some (SWICC_RET_SUCCESS, f)"
    unfolding swicc_disk_lutsid_lookup_def Let_def
    using find i b sz cnt get nle prs by (simp add: mem_bytes_def)
qed

definition sids_resolve :: "nat \<Rightarrow> swicc_disk_tree \<Rightarrow> fsnode \<Rightarrow> bool" where
  "sids_resolve ti t n \<longleftrightarrow> (\<forall>sid f0. swicc_disk_lutsid_lookup ti t sid f0 =
     Some (case last_with_sid sid (visits ti n) of
       None \<Rightarrow> (SWICC_RET_FS_NOT_FOUND, f0)
     | Some f \<Rightarrow> (SWICC_RET_SUCCESS, f)))"

lemma last_with_sid_in: "last_with_sid sid fs = Some f \<Longrightarrow> f \<in> set fs"
  by (auto simp: last_with_sid_def find_Some_iff) (metis length_rev nth_mem set_rev)

lemma lutsid_rebuild_resolves:
  assumes rep: "tree_repr t n" and g: "grants A" and fr: "lut_freeable (t_lutsid t)"
    and few: "length (sid_kvs (visits ti n)) \<le> lut_cap"
  shows "\<exists>l. swicc_disk_lutsid_rebuild A ti t = Some (SWICC_RET_SUCCESS, t\<lparr>t_lutsid := l\<rparr>) \<and>
    sids_resolve ti (t\<lparr>t_lutsid := l\<rparr>) n"
proof -
  have kvs: "\<forall>(k, v) \<in> set (sid_kvs (visits ti n)). length k = unat (1 :: u32) \<and> length v = unat (4 :: u32)"
    by (auto simp: sid_kvs_def sid_kv_def)
  obtain l es where l: "puts lt_put (A, lut_new A 1 4) (sid_kvs (visits ti n)) = Some (A, l)" "lut_rep l es"
    "lut_size1 l = 1" "lut_size2 l = 4"
    "\<forall>k. length k = unat (1 :: u32) \<longrightarrow> map_of es k = map_of (rev (sid_kvs (visits ti n))) k"
    using lt_puts_rep [OF g _ _ _ _ kvs few] by auto
  let ?t1 = "t\<lparr>t_lutsid := lut_new A 1 4\<rparr>" and ?t = "t\<lparr>t_lutsid := l\<rparr>"
  have new: "lut_buf1 (lut_new A 1 4) \<noteq> Null" "lut_buf2 (lut_new A 1 4) \<noteq> Null"
    using lut_new_start [OF g, of 1 4] by simp_all
  have emp: "swicc_disk_lutsid_empty t = Some (t\<lparr>t_lutsid := lut_zero\<rparr>)"
    using fr by (simp add: swicc_disk_lutsid_empty_def lut_free_def lut_freeable_def assert_ub_def)
  have rep1: "tree_repr ?t1 n" using rep by (simp add: tree_repr_def)
  obtain h cs where n: "n = Folder h cs" using tree_folder [OF rep] by blast
  have keep: "keeps t_buf (lutsid_rebuild_cb A)"
    by (auto simp: keeps_def lutsid_rebuild_cb_def bind_Some_iff split: if_splits prod.splits)
  have "swicc_disk_file_foreach t_buf ti (file_of ti 0 0 n) (lutsid_rebuild_cb A) True ?t1 =
      cb_run (lutsid_rebuild_cb A) ?t1 (visits ti n)"
    using foreach_visits_eq [OF keep, of h cs ?t1 "drop (nsize n) (t_buf t)" ti, folded n] rep tree_bytes [OF rep]
    by (simp add: tree_repr_def root_ok_def)
  moreover have "cb_run (lutsid_rebuild_cb A) ?t1 (visits ti n) = Some (SWICC_RET_SUCCESS, ?t)"
    using cb_run_lutsid [of A ?t1 "visits ti n" A l] l(1) by simp
  ultimately have reb: "swicc_disk_lutsid_rebuild A ti t = Some (SWICC_RET_SUCCESS, ?t)"
    using new by (simp add: swicc_disk_lutsid_rebuild_def emp Let_def file_root_repr [OF rep1])
  have m: "map_of es [sid] =
      map_option (\<lambda>f. le32_put (ih_offset_trel (hdr_item f))) (last_with_sid sid (visits ti n))" for sid
    using l(5) sid_kvs_map_of by simp
  have rep': "lut_rep (t_lutsid ?t) es" "lut_size1 (t_lutsid ?t) = 1" "lut_size2 (t_lutsid ?t) = 4"
    using l(2-4) by simp_all
  have len: "length (t_buf t) < 2 ^ 32 - 64"
    using rep by (simp add: tree_repr_def)
  have "swicc_disk_lutsid_lookup ti ?t sid f0 =
      Some (case last_with_sid sid (visits ti n) of
        None \<Rightarrow> (SWICC_RET_FS_NOT_FOUND, f0)
      | Some f \<Rightarrow> (SWICC_RET_SUCCESS, f))" for sid f0
  proof (cases "last_with_sid sid (visits ti n)")
    case None
    then show ?thesis using lutsid_lookup_rep(1) [OF rep'] m by simp
  next
    case (Some f)
    note prs = laid_out_prs(1) [OF root_visits_laid_out [OF rep last_with_sid_in [OF Some]] len]
      root_visits_offset [OF rep last_with_sid_in [OF Some]]
    show ?thesis
      using lutsid_lookup_rep(2) [OF rep'] m prs Some by simp
  qed
  with reb show ?thesis by (auto simp: sids_resolve_def)
qed

text \<open>
  After the short ID table of a well-formed tree has been rebuilt, looking up any short ID finds a
  file of the tree with that short ID, parsed again from the tree (the last one in walking order), and
  reports that there is none exactly when no file has it; the contents of the tree are kept.
\<close>

theorem lutsid_rebuild_lookup:
  assumes "tree_repr t n" and "grants A" and "lut_freeable (t_lutsid t)"
    and "length (sid_kvs (visits ti n)) \<le> lut_cap"
  shows "\<exists>t'. swicc_disk_lutsid_rebuild A ti t = Some (SWICC_RET_SUCCESS, t') \<and>
    t_buf t' = t_buf t \<and> t_len t' = t_len t \<and>
    swicc_disk_lutsid_lookup ti t' sid f0 =
      Some (case last_with_sid sid (visits ti n) of
        None \<Rightarrow> (SWICC_RET_FS_NOT_FOUND, f0)
      | Some f \<Rightarrow> (SWICC_RET_SUCCESS, f))"
  using lutsid_rebuild_resolves [OF assms] by (auto simp: sids_resolve_def)

theorem lutsid_rebuild_lookup_witness:
  "\<exists>t'. swicc_disk_lutsid_rebuild (\<lambda>n. Some (\<lambda>i. 0)) 0 (d_root demo_disk ! 0) = Some (SWICC_RET_SUCCESS, t') \<and>
     t_buf t' = ser 0 demo_mf \<and> t_len t' = 92 \<and>
     swicc_disk_lutsid_lookup 0 t' 1 file_zero =
       Some (SWICC_RET_SUCCESS, file_of 0 74 29
         (Ef (demo_hdr SWICC_FS_ITEM_TYPE_FILE_EF_CYCLIC 0x6F01 1 [2]) [9, 8, 7, 6]))"
proof -
  have "n_type (n_hdr demo_mf) = SWICC_FS_ITEM_TYPE_FILE_MF" by (simp add: demo_mf_def demo_hdr_def)
  then have "tree_repr (d_root demo_disk ! 0) demo_mf"
    by (simp add: demo_disk_def tree_repr_def root_ok_def demo_mf_ok)
  moreover have "last_with_sid 1 (visits 0 demo_mf) = Some (file_of 0 74 29
      (Ef (demo_hdr SWICC_FS_ITEM_TYPE_FILE_EF_CYCLIC 0x6F01 1 [2]) [9, 8, 7, 6]))"
    by (simp add: last_with_sid_def demo_mf_def demo_files_def demo_hdr_def visits_def file_of_def Let_def)
  ultimately show ?thesis
    using lutsid_rebuild_lookup [of "d_root demo_disk ! 0" demo_mf "\<lambda>n. Some (\<lambda>i. 0)" 0 1 file_zero]
    by (simp add: grants_def lut_freeable_def demo_disk_def lut_zero_def lut_cap_def sid_kvs_def visits_def
        demo_mf_ok) (simp add: demo_mf_def demo_files_def)
qed

end
