(* ===== verification/Swicc_Va.thy ===== *)
theory Swicc_Va
  imports Swicc_Disk_Tables
begin

text \<open>
  \<^verbatim>\<open>include/swicc/fs/va.h\<close> and \<^verbatim>\<open>src/fs/va.c\<close>: the validity area of the card, i.e. the currently
  selected tree, application, folder, elementary file and record, and the selection operations.
  A tree pointer is the number of the tree in the list of the disk, or \<^term>\<open>None\<close> for
  \<^verbatim>\<open>NULL\<close>.
\<close>

section \<open>State\<close>

record swicc_va =
  va_cur_tree :: "nat option"
  va_cur_tree_adf :: "nat option"
  va_cur_adf :: swicc_fs_file
  va_cur_df :: swicc_fs_file
  va_cur_ef :: swicc_fs_file
  va_cur_file :: swicc_fs_file
  va_cur_rcrd :: u8

record swicc_fs =
  fs_va :: swicc_va
  fs_disk :: swicc_disk

datatype swicc_fs_path_type = SWICC_FS_PATH_TYPE_MF | SWICC_FS_PATH_TYPE_DF

text \<open>What \<^verbatim>\<open>memset\<close> to zero leaves.\<close>

definition va_zero :: swicc_va where
  "va_zero = \<lparr>va_cur_tree = None, va_cur_tree_adf = None, va_cur_adf = file_zero, va_cur_df = file_zero,
     va_cur_ef = file_zero, va_cur_file = file_zero, va_cur_rcrd = 0\<rparr>"

text \<open>The first \<open>n\<close> bytes of two objects are compared, both must be that long.\<close>

definition memcmp_eq :: "bytes \<Rightarrow> bytes \<Rightarrow> nat \<Rightarrow> bool option" where
  "memcmp_eq a b n = do { x \<leftarrow> rdn a 0 n; y \<leftarrow> rdn b 0 n; Some (x = y) }"

section \<open>Selecting a file\<close>

text \<open>The \<^verbatim>\<open>switch\<close> over the type: the new validity area, or \<^term>\<open>None\<close> in the default branch.\<close>

definition va_select_switch ::
    "swicc_va \<Rightarrow> nat \<Rightarrow> swicc_fs_file \<Rightarrow> swicc_fs_file \<Rightarrow> swicc_fs_file \<Rightarrow> swicc_va option" where
  "va_select_switch v ti f file_root file_parent =
     (let file_adf = va_cur_adf v; tree_adf = va_cur_tree_adf v;
          in_adf = (ih_type (hdr_item file_root) = SWICC_FS_ITEM_TYPE_FILE_ADF) in
      case ih_type (hdr_item f) of
        SWICC_FS_ITEM_TYPE_FILE_MF \<Rightarrow>
          Some (va_zero\<lparr>va_cur_tree := Some ti, va_cur_adf := file_adf, va_cur_tree_adf := tree_adf,
                        va_cur_df := f, va_cur_file := f\<rparr>)
      | SWICC_FS_ITEM_TYPE_FILE_ADF \<Rightarrow>
          Some (va_zero\<lparr>va_cur_tree := Some ti, va_cur_adf := f, va_cur_tree_adf := Some ti,
                        va_cur_df := f, va_cur_file := f\<rparr>)
      | SWICC_FS_ITEM_TYPE_FILE_DF \<Rightarrow>
          Some (va_zero\<lparr>va_cur_tree := Some ti,
                        va_cur_adf := (if in_adf then file_root else file_adf),
                        va_cur_tree_adf := (if in_adf then Some ti else tree_adf),
                        va_cur_df := f, va_cur_file := f\<rparr>)
      | t \<Rightarrow>
          if t = SWICC_FS_ITEM_TYPE_FILE_EF_TRANSPARENT \<or> t = SWICC_FS_ITEM_TYPE_FILE_EF_LINEARFIXED \<or>
             t = SWICC_FS_ITEM_TYPE_FILE_EF_CYCLIC
          then Some (va_zero\<lparr>va_cur_tree := Some ti,
                        va_cur_adf := (if in_adf then file_root else file_adf),
                        va_cur_tree_adf := (if in_adf then Some ti else tree_adf),
                        va_cur_df := file_parent, va_cur_ef := f, va_cur_file := f\<rparr>)
          else None)"

definition va_select_file :: "swicc_fs \<Rightarrow> nat \<Rightarrow> swicc_fs_file \<Rightarrow> (swicc_ret \<times> swicc_fs) option" where
  "va_select_file fs ti f = do {
     t \<leftarrow> rd (d_root (fs_disk fs)) ti;
     (ret, file_root) \<leftarrow> swicc_disk_tree_file_root ti t file_zero;
     if ret \<noteq> SWICC_RET_SUCCESS then Some (ret, fs)
     else do {
       (ret, file_parent) \<leftarrow> swicc_disk_tree_file_parent ti t f file_zero;
       if ret \<noteq> SWICC_RET_SUCCESS then Some (ret, fs)
       else Some (case va_select_switch (fs_va fs) ti f file_root file_parent of
         None \<Rightarrow> (SWICC_RET_FS_NOT_FOUND, fs)
       | Some v \<Rightarrow> (SWICC_RET_SUCCESS, fs\<lparr>fs_va := v\<rparr>)) } }"

section \<open>By file ID and by short file ID\<close>

definition swicc_va_select_file_id :: "swicc_fs \<Rightarrow> u16 \<Rightarrow> (swicc_ret \<times> swicc_fs) option" where
  "swicc_va_select_file_id fs fid = do {
     (ret, tree, f) \<leftarrow> swicc_disk_lutid_lookup (fs_disk fs) None fid file_zero;
     if ret = SWICC_RET_SUCCESS then do { ti \<leftarrow> tree; va_select_file fs ti f }
     else Some (ret, fs) }"

text \<open>A lookup in the \<^verbatim>\<open>NULL\<close> tree is a bad parameter.\<close>

definition swicc_va_select_file_sid :: "swicc_fs \<Rightarrow> u8 \<Rightarrow> (swicc_ret \<times> swicc_fs) option" where
  "swicc_va_select_file_sid fs sid =
     (case va_cur_tree (fs_va fs) of
        None \<Rightarrow> Some (SWICC_RET_PARAM_BAD, fs)
      | Some ti \<Rightarrow> do {
          t \<leftarrow> rd (d_root (fs_disk fs)) ti;
          (ret, f) \<leftarrow> swicc_disk_lutsid_lookup ti t sid file_zero;
          if ret = SWICC_RET_SUCCESS then va_select_file fs ti f else Some (ret, fs) })"

definition swicc_va_reset :: "swicc_fs \<Rightarrow> (swicc_ret \<times> swicc_fs) option" where
  "swicc_va_reset fs =
     (let fs0 = fs\<lparr>fs_va := va_zero\<rparr> in
      case swicc_disk_tree_iter_start (fs_disk fs0) \<lparr>it_tree_idx = 0, it_tree = 0\<rparr> of (ret, it) \<Rightarrow>
        if ret = SWICC_RET_SUCCESS then swicc_va_select_file_id fs0 0x3F00 else Some (ret, fs0))"

section \<open>By application ID\<close>

text \<open>
  The \<^verbatim>\<open>do\<close> loop; it moves to the next tree before it looks at one, so the first tree is never
  looked at.  The second \<^verbatim>\<open>memcmp\<close> is only reached when the first one finds equality.
\<close>

function select_adf_loop ::
    "swicc_fs \<Rightarrow> swicc_disk_tree_iter \<Rightarrow> bytes \<Rightarrow> u32 \<Rightarrow> (swicc_ret \<times> swicc_fs) option" where
  "select_adf_loop fs it aid pix_len =
     (case swicc_disk_tree_iter_next (fs_disk fs) it None of (ret, it', tree) \<Rightarrow>
        if ret \<noteq> SWICC_RET_SUCCESS then Some (ret, fs)
        else do {
          ti \<leftarrow> tree;
          t \<leftarrow> rd (d_root (fs_disk fs)) ti;
          (ret, file_root) \<leftarrow> swicc_disk_tree_file_root ti t file_zero;
          if ret \<noteq> SWICC_RET_SUCCESS then Some (ret, fs)
          else if ih_type (hdr_item file_root) = SWICC_FS_ITEM_TYPE_FILE_ADF then do {
            rid \<leftarrow> memcmp_eq (hdr_spec_adf_rid file_root) aid SWICC_FS_ADF_AID_RID_LEN;
            pix \<leftarrow> (if rid then memcmp_eq (hdr_spec_adf_pix file_root) (drop SWICC_FS_ADF_AID_RID_LEN aid) (unat pix_len)
                    else Some False);
            if rid \<and> pix then va_select_file fs ti file_root
            else select_adf_loop fs it' aid pix_len }
          else Some (SWICC_RET_ERROR, fs) })"
  by pat_completeness auto
termination
  by (relation "measure (\<lambda>(fs, it, aid, pix_len). length (d_root (fs_disk fs)) - it_tree it)")
     (auto simp: swicc_disk_tree_iter_next_def Let_def split: if_splits)

declare select_adf_loop.simps [simp del]

definition swicc_va_select_adf :: "swicc_fs \<Rightarrow> bytes \<Rightarrow> u32 \<Rightarrow> (swicc_ret \<times> swicc_fs) option" where
  "swicc_va_select_adf fs aid pix_len =
     (case swicc_disk_tree_iter_start (fs_disk fs) \<lparr>it_tree_idx = 0, it_tree = 0\<rparr> of (ret, it) \<Rightarrow>
        if ret = SWICC_RET_SUCCESS then select_adf_loop fs it aid pix_len else Some (ret, fs))"

section \<open>By name\<close>

record dfname_userdata =
  dn_found :: bool
  dn_file :: swicc_fs_file

text \<open>The name and its length are constant members of the user data.\<close>

definition va_select_file_dfname_cb ::
    "bytes \<Rightarrow> u32 \<Rightarrow> swicc_fs_file \<Rightarrow> dfname_userdata \<Rightarrow> (swicc_ret \<times> dfname_userdata) option" where
  "va_select_file_dfname_cb ud_name name_len f ud =
     (if ih_type (hdr_item f) = SWICC_FS_ITEM_TYPE_FILE_MF \<or> ih_type (hdr_item f) = SWICC_FS_ITEM_TYPE_FILE_DF then
        if unat name_len > SWICC_FS_NAME_LEN then Some (SWICC_RET_PARAM_BAD, ud)
        else do {
          eq \<leftarrow> memcmp_eq (hdr_spec_name f) ud_name (unat name_len);
          if eq then Some (SWICC_RET_ERROR, ud\<lparr>dn_found := True, dn_file := f\<rparr>)
          else Some (SWICC_RET_SUCCESS, ud) }
      else Some (SWICC_RET_SUCCESS, ud))"

text \<open>
  The name in the user data is initialised with the first byte of the given name only.  The body of
  the \<^verbatim>\<open>do\<close> loop runs once: where it does not return, it leaves an error in the return code (also
  before the \<^verbatim>\<open>continue\<close>, which goes to the loop condition), and the loop ends.
\<close>

definition swicc_va_select_file_dfname :: "swicc_fs \<Rightarrow> bytes \<Rightarrow> u32 \<Rightarrow> (swicc_ret \<times> swicc_fs) option" where
  "swicc_va_select_file_dfname fs df_name df_name_len = do {
     c \<leftarrow> rd df_name 0;
     let ud_name = c # replicate (SWICC_FS_NAME_LEN - 1) 0;
     case swicc_disk_tree_iter_start (fs_disk fs) \<lparr>it_tree_idx = 0, it_tree = 0\<rparr> of (ret, it) \<Rightarrow>
       if ret \<noteq> SWICC_RET_SUCCESS then Some (ret, fs)
       else (case swicc_disk_tree_iter_next (fs_disk fs) it None of (ret, it', tree) \<Rightarrow>
         if ret \<noteq> SWICC_RET_SUCCESS then Some (ret, fs)
         else do {
           ti \<leftarrow> tree;
           t \<leftarrow> rd (d_root (fs_disk fs)) ti;
           (ret, file_root) \<leftarrow> swicc_disk_tree_file_root ti t file_zero;
           if ret \<noteq> SWICC_RET_SUCCESS then Some (ret, fs)
           else do {
             (ret, ud) \<leftarrow> swicc_disk_file_foreach (\<lambda>_. t_buf t) ti file_root
                            (va_select_file_dfname_cb ud_name df_name_len) True \<lparr>dn_found = False, dn_file = file_zero\<rparr>;
             if ret = SWICC_RET_SUCCESS then Some (SWICC_RET_FS_NOT_FOUND, fs)
             else if dn_found ud then va_select_file fs ti (dn_file ud)
             else Some (ret, fs) } }) }"

section \<open>By path\<close>

record path_userdata =
  pu_fid_search :: u16
  pu_found :: bool
  pu_file :: swicc_fs_file

definition va_select_file_path_cb ::
    "swicc_fs_file \<Rightarrow> path_userdata \<Rightarrow> (swicc_ret \<times> path_userdata) option" where
  "va_select_file_path_cb f ud =
     (if fh_id (hdr_file f) = pu_fid_search ud
      then Some (SWICC_RET_ERROR, ud\<lparr>pu_found := True, pu_file := f\<rparr>)
      else Some (SWICC_RET_SUCCESS, ud))"

text \<open>The buffer of a tree pointer; nothing can be read through \<^verbatim>\<open>NULL\<close>.\<close>

definition tree_buf :: "swicc_disk \<Rightarrow> nat option \<Rightarrow> bytes" where
  "tree_buf disk tree = (case tree of
     None \<Rightarrow> []
   | Some ti \<Rightarrow> if ti < length (d_root disk) then t_buf (d_root disk ! ti) else [])"

text \<open>
  The loop over the path.  \<^term>\<open>Inl\<close> is a return from within the loop; \<^term>\<open>Inr\<close> has the return
  code and the user data at the end of the loop.
\<close>

fun select_path_loop ::
    "swicc_disk \<Rightarrow> nat option \<Rightarrow> u16 list \<Rightarrow> swicc_fs_file \<Rightarrow> path_userdata \<Rightarrow> swicc_ret \<Rightarrow>
      (swicc_ret + swicc_ret \<times> path_userdata) option" where
  "select_path_loop disk tree [] file_root ud ret = Some (Inr (ret, ud))"
| "select_path_loop disk tree (fid # fids) file_root ud ret = (
     if tree = None then Some (Inl SWICC_RET_PARAM_BAD)
     else do {
       (ret, ud') \<leftarrow> swicc_disk_file_foreach (\<lambda>_. tree_buf disk tree) (the tree) file_root
                       va_select_file_path_cb False (ud\<lparr>pu_fid_search := fid, pu_found := False\<rparr>);
       if ret = SWICC_RET_ERROR \<and> pu_found ud' then
         select_path_loop disk tree fids (pu_file ud') ud' SWICC_RET_SUCCESS
       else if ret = SWICC_RET_SUCCESS then Some (Inl SWICC_RET_FS_NOT_FOUND)
       else Some (Inl ret) })"

definition select_path_walk ::
    "swicc_fs \<Rightarrow> nat option \<Rightarrow> u16 list \<Rightarrow> swicc_fs_file \<Rightarrow> swicc_ret \<Rightarrow> (swicc_ret \<times> swicc_fs) option" where
  "select_path_walk fs tree b file_root ret = do {
     res \<leftarrow> select_path_loop (fs_disk fs) tree b file_root \<lparr>pu_fid_search = 0, pu_found = False, pu_file = file_zero\<rparr> ret;
     case res of
       Inl r \<Rightarrow> Some (r, fs)
     | Inr (r, ud) \<Rightarrow>
         (case tree of
            Some ti \<Rightarrow> if r = SWICC_RET_SUCCESS \<and> pu_found ud then va_select_file fs ti (pu_file ud) else Some (r, fs)
          | None \<Rightarrow> Some (r, fs)) }"

text \<open>
  \<open>b\<close> is the path (as many IDs as its length says), which is handed back because its first ID may
  be replaced in place.
\<close>

definition swicc_va_select_file_path ::
    "swicc_fs \<Rightarrow> swicc_fs_path_type \<Rightarrow> u16 list \<Rightarrow> (swicc_ret \<times> swicc_fs \<times> u16 list) option" where
  "swicc_va_select_file_path fs pt b = (case pt of
     SWICC_FS_PATH_TYPE_MF \<Rightarrow> do {
       b0 \<leftarrow> rd b 0;
       if b0 = 0x7FFF then
         if ih_type (hdr_item (va_cur_adf (fs_va fs))) \<noteq> SWICC_FS_ITEM_TYPE_FILE_ADF \<or>
            va_cur_tree_adf (fs_va fs) = None
         then Some (SWICC_RET_FS_NOT_FOUND, fs, b)
         else do {
           let adf_id = fh_id (hdr_file (va_cur_adf (fs_va fs)));
           (ret, tree, file_root) \<leftarrow>
             swicc_disk_lutid_lookup (fs_disk fs) (va_cur_tree_adf (fs_va fs)) adf_id file_zero;
           if ret \<noteq> SWICC_RET_SUCCESS then Some (ret, fs, b)
           else do {
             (ret, fs') \<leftarrow> select_path_walk fs tree (b[0 := adf_id]) file_root ret;
             Some (ret, fs', b[0 := adf_id]) } }
       else do {
         (ret, tree, file_root) \<leftarrow>
           swicc_disk_lutid_lookup (fs_disk fs) (if d_root (fs_disk fs) = [] then None else Some 0) 0x3F00 file_zero;
         if ret \<noteq> SWICC_RET_SUCCESS then Some (ret, fs, b)
         else do {
           (ret, fs') \<leftarrow> select_path_walk fs tree b file_root ret;
           Some (ret, fs', b) } } }
   | SWICC_FS_PATH_TYPE_DF \<Rightarrow> do {
       (ret, fs') \<leftarrow> select_path_walk fs (va_cur_tree (fs_va fs)) b (va_cur_df (fs_va fs)) SWICC_RET_ERROR;
       Some (ret, fs', b) })"

section \<open>Records and data\<close>

text \<open>The sum of the two 8-bit numbers is an \<^verbatim>\<open>int\<close> and does not wrap.\<close>

definition swicc_va_select_record_idx :: "swicc_fs \<Rightarrow> u8 \<Rightarrow> (swicc_ret \<times> swicc_fs) option" where
  "swicc_va_select_record_idx fs idx =
     (let v = fs_va fs; ef = va_cur_ef v; t = ih_type (hdr_item ef) in
      if t = SWICC_FS_ITEM_TYPE_FILE_EF_LINEARFIXED \<or> t = SWICC_FS_ITEM_TYPE_FILE_EF_CYCLIC then do {
        (ret, rcrd_cnt) \<leftarrow> (if va_cur_tree v = None then Some (SWICC_RET_PARAM_BAD, 0)
                           else swicc_disk_file_rcrd_cnt ef 0);
        if ret \<noteq> SWICC_RET_SUCCESS then Some (SWICC_RET_ERROR, fs)
        else if t = SWICC_FS_ITEM_TYPE_FILE_EF_CYCLIC then do {
          assert_ub (rcrd_cnt \<noteq> 0);
          let idx_abs = ucast ((ucast (va_cur_rcrd v) + ucast idx :: u32) mod rcrd_cnt);
          Some (SWICC_RET_SUCCESS, fs\<lparr>fs_va := v\<lparr>va_cur_rcrd := idx_abs\<rparr>\<rparr>) }
        else Some (SWICC_RET_SUCCESS, fs\<lparr>fs_va := v\<lparr>va_cur_rcrd := idx\<rparr>\<rparr>) }
      else Some (SWICC_RET_ERROR, fs))"

definition swicc_va_select_data_offset :: "swicc_fs \<Rightarrow> u32 \<Rightarrow> swicc_ret" where
  "swicc_va_select_data_offset fs offset_prel = SWICC_RET_UNKNOWN"

section \<open>What is selected\<close>

text \<open>File \<open>f\<close> is one of the files of tree \<open>ti\<close> of the forest.\<close>

definition file_in :: "fsnode list \<Rightarrow> nat \<Rightarrow> swicc_fs_file \<Rightarrow> bool" where
  "file_in ns ti f \<longleftrightarrow> ti < length ns \<and> f \<in> set (visits ti (ns ! ti))"

definition lies_in :: "swicc_fs_file \<Rightarrow> swicc_fs_file \<Rightarrow> bool" where
  "lies_in f p \<longleftrightarrow> ih_offset_trel (hdr_item f) - ih_offset_prel (hdr_item f) = ih_offset_trel (hdr_item p)"

definition cur_ok :: "fsnode list \<Rightarrow> nat option \<Rightarrow> swicc_fs_file \<Rightarrow> swicc_fs_file \<Rightarrow> swicc_fs_file \<Rightarrow> bool" where
  "cur_ok ns tree df ef f = (case tree of
     None \<Rightarrow> df = file_zero \<and> ef = file_zero \<and> f = file_zero
   | Some ti \<Rightarrow>
       file_in ns ti df \<and> SWICC_FS_FILE_FOLDER_CHECK df \<and> file_in ns ti f \<and>
       (ef = file_zero \<and> f = df \<or> SWICC_FS_FILE_EF_CHECK ef \<and> f = ef \<and> lies_in ef df))"

definition adf_ok :: "fsnode list \<Rightarrow> nat option \<Rightarrow> swicc_fs_file \<Rightarrow> bool" where
  "adf_ok ns tree adf = (case tree of
     None \<Rightarrow> adf = file_zero
   | Some ti \<Rightarrow> file_in ns ti adf \<and> ih_type (hdr_item adf) = SWICC_FS_ITEM_TYPE_FILE_ADF)"

definition va_ok :: "fsnode list \<Rightarrow> swicc_va \<Rightarrow> bool" where
  "va_ok ns v \<longleftrightarrow> cur_ok ns (va_cur_tree v) (va_cur_df v) (va_cur_ef v) (va_cur_file v) \<and>
     adf_ok ns (va_cur_tree_adf v) (va_cur_adf v)"

definition fs_ok :: "fsnode list \<Rightarrow> swicc_fs \<Rightarrow> bool" where
  "fs_ok ns fs \<longleftrightarrow> forest_repr (fs_disk fs) ns \<and> ids_resolve (fs_disk fs) ns \<and>
     (\<forall>i < length ns. sids_resolve i (d_root (fs_disk fs) ! i) (ns ! i)) \<and> va_ok ns (fs_va fs)"

subsection \<open>Every file has a folder\<close>

lemma file_of_folder: "node_ok (Folder h cs) \<Longrightarrow> SWICC_FS_FILE_FOLDER_CHECK (file_of ti pos prel (Folder h cs))"
  by (auto simp: SWICC_FS_FILE_FOLDER_CHECK_def file_of_facts is_folder_type_def)

lemma file_of_offsets:
  "ih_offset_trel (hdr_item (file_of ti pos prel n)) = word_of_nat pos"
  "ih_offset_prel (hdr_item (file_of ti pos prel n)) = word_of_nat prel"
  by (simp_all add: file_of_def Let_def)

lemma visits_parent:
  "list_all node_ok ns \<Longrightarrow> f \<in> set (visits_sub ti base off ns) \<Longrightarrow>
     ih_offset_trel (hdr_item fp) = word_of_nat base \<Longrightarrow> SWICC_FS_FILE_FOLDER_CHECK fp \<Longrightarrow>
     \<exists>q \<in> insert fp (set (visits_sub ti base off ns)). SWICC_FS_FILE_FOLDER_CHECK q \<and> lies_in f q"
  "node_ok n \<Longrightarrow> f \<in> set (visit_node ti pos prel n) \<Longrightarrow>
     ih_offset_trel (hdr_item fp) = word_of_nat pos - word_of_nat prel \<Longrightarrow> SWICC_FS_FILE_FOLDER_CHECK fp \<Longrightarrow>
     \<exists>q \<in> insert fp (set (visit_node ti pos prel n)). SWICC_FS_FILE_FOLDER_CHECK q \<and> lies_in f q"
proof (induction ti base off ns and ti pos prel n arbitrary: fp and fp rule: visits_sub_visit_node.induct)
  case (2 ti base off n ns)
  have o: "ih_offset_trel (hdr_item fp) = word_of_nat (base + off) - word_of_nat off" using 2(5) by simp
  show ?case using 2(1) [OF _ _ o 2(6)] 2(2) [OF _ _ 2(5,6)] 2(3,4) by auto
next
  case (3 ti pos prel h cs)
  let ?f = "file_of ti pos prel (Folder h cs)"
  have "lies_in ?f fp" using 3(4) by (simp add: lies_in_def file_of_offsets)
  then show ?case
    using 3(1) [of ?f] file_of_folder [OF 3(2)] 3(2,3,5) by (auto simp: file_of_offsets)
next
  case (4 ti pos prel h d)
  then show ?case by (simp add: lies_in_def file_of_offsets)
qed simp

lemma root_parent:
  assumes "root_ok n" and "f \<in> set (visits ti n)"
  shows "\<exists>q \<in> set (visits ti n). SWICC_FS_FILE_FOLDER_CHECK q \<and> lies_in f q"
proof -
  obtain h cs where n: "n = Folder h cs" using root_folder [OF assms(1)] by blast
  have "node_ok n" using assms(1) by (simp add: root_ok_def)
  then have fo: "SWICC_FS_FILE_FOLDER_CHECK (file_of ti 0 0 n)" using file_of_folder n by simp
  have sub: "set (visit_node ti 0 0 n) = set (visits ti n)" by (simp add: visits_def n)
  have mem: "file_of ti 0 0 n \<in> set (visits ti n)" by (simp add: visits_def)
  show ?thesis
    using visits_parent(2) [OF \<open>node_ok n\<close>, of f ti 0 0 "file_of ti 0 0 n"] fo mem assms(2) sub
    by (auto simp: file_of_offsets insert_absorb)
qed

subsection \<open>Selections keep the validity area consistent\<close>

lemma forest_tree:
  assumes "forest_repr d ns" and "ti < length ns"
  shows "ti < length (d_root d)" "tree_repr (d_root d ! ti) (ns ! ti)" "d_root d \<noteq> []"
  using assms by (auto simp: forest_repr_def list_all2_conv_all_nth)

lemma file_in_node:
  assumes "forest_repr d ns" and "file_in ns ti f"
  shows "\<exists>pos prel n. f = file_of ti pos prel n \<and> node_ok n"
  using root_visits_laid_out [OF forest_tree(2) [OF assms(1)], of ti f ti] assms(2)
  by (auto simp: file_in_def laid_out_def)

lemma file_in_prs:
  assumes "forest_repr d ns" and "file_in ns ti f" and "off = ih_offset_trel (hdr_item f)"
  shows "swicc_fs_file_prs ti (t_buf (d_root d ! ti)) off f0 = Some (SWICC_RET_SUCCESS, f)"
proof -
  note ft = forest_tree [OF assms(1)]
  have ti: "ti < length ns" "f \<in> set (visits ti (ns ! ti))" using assms(2) by (simp_all add: file_in_def)
  have "length (t_buf (d_root d ! ti)) < 2 ^ 32 - 64"
    using ft(2) [OF ti(1)] by (simp add: tree_repr_def root_ok_def)
  then show ?thesis
    unfolding assms(3) using laid_out_prs(1) [OF root_visits_laid_out [OF ft(2) [OF ti(1)] ti(2)]] by blast
qed

lemma file_in_kind:
  assumes "forest_repr d ns" and "file_in ns ti f"
  shows "SWICC_FS_FILE_FOLDER_CHECK f \<and> \<not> SWICC_FS_FILE_EF_CHECK f \<or> SWICC_FS_FILE_EF_CHECK f \<and> \<not> SWICC_FS_FILE_FOLDER_CHECK f"
    and "length (hdr_spec f) = SWICC_FS_NAME_LEN"
    and "is_rcrd_type (ih_type (hdr_item f)) \<Longrightarrow> hdr_spec_rcrd_size f \<noteq> 0"
proof -
  obtain pos prel n where f: "f = file_of ti pos prel n" "node_ok n" using file_in_node [OF assms] by blast
  have t: "ih_type (hdr_item f) = n_type (n_hdr n)" "hdr_spec f = spec_union (n_type (n_hdr n)) (n_spec (n_hdr n))"
    using f(1) by (simp_all add: file_of_def Let_def)
  show "SWICC_FS_FILE_FOLDER_CHECK f \<and> \<not> SWICC_FS_FILE_EF_CHECK f \<or> SWICC_FS_FILE_EF_CHECK f \<and> \<not> SWICC_FS_FILE_FOLDER_CHECK f"
    using f(2) by (cases n) (auto simp: SWICC_FS_FILE_FOLDER_CHECK_def SWICC_FS_FILE_EF_CHECK_def t
        is_folder_type_def is_rcrd_type_def)
  show "length (hdr_spec f) = SWICC_FS_NAME_LEN"
    using node_hdr_cases [OF f(2)] by (auto simp: t spec_union_def)
  show "hdr_spec_rcrd_size f \<noteq> 0" if "is_rcrd_type (ih_type (hdr_item f))"
    using that f(2)
    by (cases n) (auto simp: hdr_spec_rcrd_size_def t spec_union_def is_folder_type_def is_rcrd_type_def length_Suc_conv)
qed

lemma root_file_in: "ti < length ns \<Longrightarrow> file_in ns ti (file_of ti 0 0 (ns ! ti))"
  by (simp add: file_in_def visits_def)

lemma va_select_file_ok:
  assumes "fs_ok ns fs" and f: "file_in ns ti f"
  shows "\<exists>v. va_select_file fs ti f = Some (SWICC_RET_SUCCESS, fs\<lparr>fs_va := v\<rparr>) \<and> va_ok ns v \<and>
    va_cur_tree v = Some ti \<and> va_cur_file v = f \<and> va_cur_rcrd v = 0"
proof -
  have fr: "forest_repr (fs_disk fs) ns" and ok: "va_ok ns (fs_va fs)" using assms(1) by (simp_all add: fs_ok_def)
  have ti: "ti < length ns" using f by (simp add: file_in_def)
  note ft = forest_tree [OF fr ti]
  let ?t = "d_root (fs_disk fs) ! ti" and ?r = "file_of ti 0 0 (ns ! ti)"
  have "root_ok (ns ! ti)" using ft(2) by (simp add: tree_repr_def)
  from root_parent [OF this] f obtain q where q: "file_in ns ti q" "SWICC_FS_FILE_FOLDER_CHECK q" "lies_in f q"
    by (auto simp: file_in_def)
  have par: "swicc_disk_tree_file_parent ti ?t f file_zero = Some (SWICC_RET_SUCCESS, q)"
    unfolding swicc_disk_tree_file_parent_def by (rule file_in_prs [OF fr q(1)]) (use q(3) in \<open>simp add: lies_in_def\<close>)
  have cur: "adf_ok ns (va_cur_tree_adf (fs_va fs)) (va_cur_adf (fs_va fs))"
    using ok by (simp add: va_ok_def)
  have root: "ih_type (hdr_item ?r) = SWICC_FS_ITEM_TYPE_FILE_ADF \<Longrightarrow> adf_ok ns (Some ti) ?r"
    using root_file_in [OF ti] by (simp add: adf_ok_def)
  have fold: "cur_ok ns (Some ti) f file_zero f" if "SWICC_FS_FILE_FOLDER_CHECK f"
    using f that by (simp add: cur_ok_def)
  have ef: "cur_ok ns (Some ti) q f f" if "SWICC_FS_FILE_EF_CHECK f"
    using f q that by (simp add: cur_ok_def)
  have sel: "\<exists>v. va_select_switch (fs_va fs) ti f ?r q = Some v \<and> va_ok ns v \<and>
      va_cur_tree v = Some ti \<and> va_cur_file v = f \<and> va_cur_rcrd v = 0"
  proof (cases "SWICC_FS_FILE_EF_CHECK f")
    case True
    then show ?thesis
      using ef cur root
      by (auto simp: va_select_switch_def Let_def va_ok_def va_zero_def SWICC_FS_FILE_EF_CHECK_def)
  next
    case False
    then have fc: "SWICC_FS_FILE_FOLDER_CHECK f" using file_in_kind(1) [OF fr f] by simp
    have "adf_ok ns (Some ti) f" if "ih_type (hdr_item f) = SWICC_FS_ITEM_TYPE_FILE_ADF"
      using f that by (simp add: adf_ok_def)
    then show ?thesis
      using fold [OF fc] fc cur root
      by (auto simp: va_select_switch_def Let_def va_ok_def va_zero_def SWICC_FS_FILE_FOLDER_CHECK_def)
  qed
  then show ?thesis
    using par by (auto simp: va_select_file_def rd_ok ft(1) file_root_repr [OF ft(2)])
qed

text \<open>The outcome of a selection: nothing changes, or a file of the forest is selected.\<close>

definition sel_ok :: "fsnode list \<Rightarrow> swicc_fs \<Rightarrow> swicc_ret \<Rightarrow> swicc_fs \<Rightarrow> bool" where
  "sel_ok ns fs ret fs' \<longleftrightarrow> fs_ok ns fs' \<and> fs_disk fs' = fs_disk fs \<and>
     (ret \<noteq> SWICC_RET_SUCCESS \<longrightarrow> fs' = fs) \<and> (ret = SWICC_RET_SUCCESS \<longrightarrow> va_cur_tree (fs_va fs') \<noteq> None)"

lemma sel_ok_refl: "fs_ok ns fs \<Longrightarrow> r \<noteq> SWICC_RET_SUCCESS \<Longrightarrow> sel_ok ns fs r fs"
  by (simp add: sel_ok_def)

lemma select_file_sel:
  assumes "fs_ok ns fs" and "file_in ns ti f"
  shows "\<exists>fs'. va_select_file fs ti f = Some (SWICC_RET_SUCCESS, fs') \<and> sel_ok ns fs SWICC_RET_SUCCESS fs'"
  using va_select_file_ok [OF assms] assms(1) by (fastforce simp: sel_ok_def fs_ok_def)

lemma last_with_id_in:
  assumes "last_with_id fid (forest_files 0 ns) = Some (ti, f)" and "forest_repr d ns"
  shows "file_in ns ti f" "fh_id (hdr_file f) = fid"
proof -
  have "(ti, f) \<in> set (forest_files 0 ns)" "fh_id (hdr_file f) = fid"
    using assms(1) by (auto simp: last_with_id_def find_Some_iff) (metis length_rev nth_mem set_rev)
  then show "file_in ns ti f" "fh_id (hdr_file f) = fid"
    using forest_files_in [of "d_root d" ns ti f 0] assms(2) by (auto simp: forest_repr_def file_in_def list_all2_lengthD)
qed

lemma select_id_run:
  assumes "fs_ok ns fs"
  shows "swicc_va_select_file_id fs fid = (case last_with_id fid (forest_files 0 ns) of
      None \<Rightarrow> Some (SWICC_RET_FS_NOT_FOUND, fs)
    | Some (ti, f) \<Rightarrow> va_select_file fs ti f)"
  using assms by (auto simp: swicc_va_select_file_id_def fs_ok_def ids_resolve_def split: option.splits)

lemma select_id_sel:
  assumes "fs_ok ns fs"
  shows "\<exists>r fs'. swicc_va_select_file_id fs fid = Some (r, fs') \<and> sel_ok ns fs r fs'"
proof (cases "last_with_id fid (forest_files 0 ns)")
  case None
  then show ?thesis using select_id_run [OF assms] sel_ok_refl [OF assms] by auto
next
  case (Some x)
  moreover obtain ti f where x: "x = (ti, f)" by (cases x)
  moreover have "forest_repr (fs_disk fs) ns" using assms by (simp add: fs_ok_def)
  ultimately have "file_in ns ti f" using last_with_id_in(1) [of fid ns ti f] by simp
  then show ?thesis using select_id_run [OF assms] select_file_sel [OF assms] Some x by fastforce
qed

lemma select_sid_sel:
  assumes "fs_ok ns fs"
  shows "\<exists>r fs'. swicc_va_select_file_sid fs sid = Some (r, fs') \<and> sel_ok ns fs r fs'"
proof (cases "va_cur_tree (fs_va fs)")
  case None
  then show ?thesis using sel_ok_refl [OF assms] by (auto simp: swicc_va_select_file_sid_def)
next
  case (Some ti)
  have "cur_ok ns (Some ti) (va_cur_df (fs_va fs)) (va_cur_ef (fs_va fs)) (va_cur_file (fs_va fs))"
    and fr: "forest_repr (fs_disk fs) ns"
    using assms Some by (simp_all add: fs_ok_def va_ok_def)
  then have ti: "ti < length ns" by (simp add: cur_ok_def file_in_def)
  have look: "swicc_disk_lutsid_lookup ti (d_root (fs_disk fs) ! ti) sid file_zero =
      Some (case last_with_sid sid (visits ti (ns ! ti)) of
        None \<Rightarrow> (SWICC_RET_FS_NOT_FOUND, file_zero)
      | Some f \<Rightarrow> (SWICC_RET_SUCCESS, f))"
    using assms ti unfolding fs_ok_def sids_resolve_def by blast
  show ?thesis
  proof (cases "last_with_sid sid (visits ti (ns ! ti))")
    case None
    then show ?thesis
      using look Some sel_ok_refl [OF assms] forest_tree(1) [OF fr ti]
      by (auto simp: swicc_va_select_file_sid_def rd_ok)
  next
    case (Some f)
    then have "file_in ns ti f" using last_with_sid_in ti by (simp add: file_in_def)
    then show ?thesis
      using look Some \<open>va_cur_tree (fs_va fs) = Some ti\<close> select_file_sel [OF assms] forest_tree(1) [OF fr ti]
      by (fastforce simp: swicc_va_select_file_sid_def rd_ok)
  qed
qed

lemma tree_iter_next_cases:
  "swicc_disk_tree_iter_next d it t0 = (r, it', t) \<Longrightarrow> r = SWICC_RET_SUCCESS \<Longrightarrow>
     \<exists>ti. t = Some ti \<and> ti < length (d_root d)"
  by (auto simp: swicc_disk_tree_iter_next_def Let_def split: if_splits)

lemma adf_loop_sel:
  assumes ok: "fs_ok ns fs" and aid: "SWICC_FS_ADF_AID_RID_LEN + unat pix_len \<le> length aid"
    and pix: "unat pix_len \<le> SWICC_FS_ADF_AID_PIX_LEN"
  shows "\<exists>r fs'. select_adf_loop fs it aid pix_len = Some (r, fs') \<and> sel_ok ns fs r fs'"
proof (induction "length (d_root (fs_disk fs)) - it_tree it" arbitrary: it rule: less_induct)
  case less
  have fr: "forest_repr (fs_disk fs) ns" using ok by (simp add: fs_ok_def)
  then have len: "length ns = length (d_root (fs_disk fs))" by (auto simp: forest_repr_def dest: list_all2_lengthD)
  show ?case
  proof (cases "it_tree it + 1 < length (d_root (fs_disk fs))")
    case False
    then show ?thesis
      by (subst select_adf_loop.simps) (use sel_ok_refl [OF ok] in \<open>simp add: swicc_disk_tree_iter_next_def\<close>)
  next
    case True
    define ti where "ti = it_tree it + 1"
    let ?it = "\<lparr>it_tree_idx = it_tree_idx it + 1, it_tree = ti\<rparr>"
    let ?f = "file_of ti 0 0 (ns ! ti)"
    have ti: "ti < length ns" using True len by (simp add: ti_def)
    note ft = forest_tree [OF fr ti]
    note fin = root_file_in [OF ti]
    have spec: "length (hdr_spec ?f) = 16" by (rule file_in_kind(2) [OF fr fin])
    have rid: "\<exists>b. memcmp_eq (hdr_spec_adf_rid ?f) aid SWICC_FS_ADF_AID_RID_LEN = Some b"
      using spec aid by (simp add: memcmp_eq_def rdn_def hdr_spec_adf_rid_def)
    have pixl: "\<exists>b. memcmp_eq (hdr_spec_adf_pix ?f) (drop SWICC_FS_ADF_AID_RID_LEN aid) (unat pix_len) = Some b"
      using spec aid pix by (simp add: memcmp_eq_def rdn_def hdr_spec_adf_pix_def)
    have rec: "\<exists>r fs'. select_adf_loop fs ?it aid pix_len = Some (r, fs') \<and> sel_ok ns fs r fs'"
      by (rule less) (use True in \<open>simp add: ti_def\<close>)
    have nx: "swicc_disk_tree_iter_next (fs_disk fs) it None = (SWICC_RET_SUCCESS, ?it, Some ti)"
      using True by (simp add: swicc_disk_tree_iter_next_def Let_def ti_def)
    have unf: "select_adf_loop fs it aid pix_len =
        (if ih_type (hdr_item ?f) = SWICC_FS_ITEM_TYPE_FILE_ADF then do {
           rid \<leftarrow> memcmp_eq (hdr_spec_adf_rid ?f) aid SWICC_FS_ADF_AID_RID_LEN;
           pix \<leftarrow> (if rid then memcmp_eq (hdr_spec_adf_pix ?f) (drop SWICC_FS_ADF_AID_RID_LEN aid) (unat pix_len)
                   else Some False);
           if rid \<and> pix then va_select_file fs ti ?f else select_adf_loop fs ?it aid pix_len }
         else Some (SWICC_RET_ERROR, fs))"
      by (subst select_adf_loop.simps) (simp add: nx rd_ok ft(1) file_root_repr [OF ft(2)])
    show ?thesis
      using rid pixl rec select_file_sel [OF ok fin] sel_ok_refl [OF ok] unfolding unf
      by (auto split: if_splits)
  qed
qed

lemma select_adf_sel:
  assumes ok: "fs_ok ns fs" and "SWICC_FS_ADF_AID_RID_LEN + unat pix_len \<le> length aid"
    and "unat pix_len \<le> SWICC_FS_ADF_AID_PIX_LEN"
  shows "\<exists>r fs'. swicc_va_select_adf fs aid pix_len = Some (r, fs') \<and> sel_ok ns fs r fs'"
  using adf_loop_sel [OF assms] sel_ok_refl [OF ok]
  by (auto simp: swicc_va_select_adf_def swicc_disk_tree_iter_start_def)

lemma dfname_run:
  assumes "\<forall>f \<in> set fs. length (hdr_spec f) = SWICC_FS_NAME_LEN" and "length nm = SWICC_FS_NAME_LEN"
    and "\<not> dn_found ud"
  shows "\<exists>r ud'. cb_run (va_select_file_dfname_cb nm n) ud fs = Some (r, ud') \<and>
    (dn_found ud' \<longrightarrow> r \<noteq> SWICC_RET_SUCCESS \<and> dn_file ud' \<in> set fs)"
  using assms
proof (induction fs arbitrary: ud)
  case (Cons f fs)
  have eq: "\<exists>b. memcmp_eq (hdr_spec_name f) nm (unat n) = Some b" if "unat n \<le> SWICC_FS_NAME_LEN"
    using Cons.prems that by (simp add: memcmp_eq_def rdn_def hdr_spec_name_def)
  have ih: "\<exists>r ud'. cb_run (va_select_file_dfname_cb nm n) ud fs = Some (r, ud') \<and>
      (dn_found ud' \<longrightarrow> r \<noteq> SWICC_RET_SUCCESS \<and> dn_file ud' \<in> set fs)"
    by (rule Cons.IH) (use Cons.prems in simp_all)
  have "\<exists>r ud1. va_select_file_dfname_cb nm n f ud = Some (r, ud1) \<and>
      (r = SWICC_RET_SUCCESS \<and> ud1 = ud \<or> r \<noteq> SWICC_RET_SUCCESS \<and> (dn_found ud1 \<longrightarrow> dn_file ud1 = f))"
    using eq Cons.prems(3) by (auto simp: va_select_file_dfname_cb_def)
  then show ?case using ih by fastforce
qed simp

lemma select_dfname_sel:
  assumes ok: "fs_ok ns fs" and nm: "df_name \<noteq> []"
  shows "\<exists>r fs'. swicc_va_select_file_dfname fs df_name n = Some (r, fs') \<and> sel_ok ns fs r fs'"
proof -
  have fr: "forest_repr (fs_disk fs) ns" using ok by (simp add: fs_ok_def)
  then have len: "length ns = length (d_root (fs_disk fs))" by (auto simp: forest_repr_def dest: list_all2_lengthD)
  let ?nm = "hd df_name # replicate (SWICC_FS_NAME_LEN - 1) 0"
  have c: "rd df_name 0 = Some (hd df_name)" using nm by (simp add: rd_def hd_conv_nth)
  show ?thesis
  proof (cases "1 < length (d_root (fs_disk fs))")
    case False
    then show ?thesis
      using c sel_ok_refl [OF ok]
      by (auto simp: swicc_va_select_file_dfname_def Let_def swicc_disk_tree_iter_start_def swicc_disk_tree_iter_next_def)
  next
    case True
    then have ti: "1 < length ns" using len by simp
    note ft = forest_tree [OF fr ti]
    let ?t = "d_root (fs_disk fs) ! 1" and ?ud = "\<lparr>dn_found = False, dn_file = file_zero\<rparr>"
    let ?vs = "visits 1 (ns ! 1)"
    obtain h cs where n: "ns ! 1 = Folder h cs" using tree_folder [OF ft(2)] by blast
    have keep: "keeps (\<lambda>_. t_buf ?t) (va_select_file_dfname_cb ?nm n)" by (simp add: keeps_def)
    have fe: "swicc_disk_file_foreach (\<lambda>_. t_buf ?t) 1 (file_of 1 0 0 (ns ! 1)) (va_select_file_dfname_cb ?nm n) True ?ud =
        cb_run (va_select_file_dfname_cb ?nm n) ?ud ?vs"
      using foreach_visits_eq [OF keep, where s = ?ud and rest = "drop (nsize (ns ! 1)) (t_buf ?t)" and ti = 1 and h = h and cs = cs, folded n]
        ft(2) tree_bytes [OF ft(2)]
      by (simp add: tree_repr_def root_ok_def)
    have "\<forall>f \<in> set ?vs. length (hdr_spec f) = SWICC_FS_NAME_LEN"
      using file_in_kind(2) [OF fr, of 1] ti by (simp add: file_in_def)
    then obtain r ud where run: "cb_run (va_select_file_dfname_cb ?nm n) ?ud ?vs = Some (r, ud)"
      "dn_found ud \<Longrightarrow> r \<noteq> SWICC_RET_SUCCESS \<and> file_in ns 1 (dn_file ud)"
      using dfname_run [of ?vs ?nm ?ud n] ti by (auto simp: file_in_def)
    have unf: "swicc_va_select_file_dfname fs df_name n =
        (if r = SWICC_RET_SUCCESS then Some (SWICC_RET_FS_NOT_FOUND, fs)
         else if dn_found ud then va_select_file fs 1 (dn_file ud) else Some (r, fs))"
      using c True run(1) fe
      by (simp add: swicc_va_select_file_dfname_def Let_def swicc_disk_tree_iter_start_def ft(3)
          swicc_disk_tree_iter_next_def rd_ok file_root_repr [OF ft(2)] del: One_nat_def)
    show ?thesis
      using run(2) select_file_sel [OF ok, of 1 "dn_file ud"] sel_ok_refl [OF ok, of r]
        sel_ok_refl [OF ok, of SWICC_RET_FS_NOT_FOUND]
      unfolding unf by (cases "dn_found ud") auto
  qed
qed

text \<open>The cyclic file of a record selection has a record; records of a fixed size are never empty.\<close>

definition rcrd_sel_ok :: "swicc_fs \<Rightarrow> bool" where
  "rcrd_sel_ok fs \<longleftrightarrow>
     (let ef = va_cur_ef (fs_va fs) in
      ih_type (hdr_item ef) = SWICC_FS_ITEM_TYPE_FILE_EF_CYCLIC \<longrightarrow> ucast (hdr_spec_rcrd_size ef) \<le> data_size ef)"

lemma div_nonzero: "a \<le> b \<Longrightarrow> a \<noteq> 0 \<Longrightarrow> b div a \<noteq> (0 :: u32)"
  by (simp add: word_unat_eq_iff unat_div word_le_nat_alt div_eq_0_iff)

lemma select_record_sel:
  assumes ok: "fs_ok ns fs" and rc: "rcrd_sel_ok fs"
  shows "\<exists>r fs'. swicc_va_select_record_idx fs idx = Some (r, fs') \<and>
    (r = SWICC_RET_ERROR \<and> fs' = fs \<or>
     r = SWICC_RET_SUCCESS \<and> (\<exists>i. fs' = fs\<lparr>fs_va := (fs_va fs)\<lparr>va_cur_rcrd := i\<rparr>\<rparr>))"
proof (cases "is_rcrd_type (ih_type (hdr_item (va_cur_ef (fs_va fs))))")
  case True
  have fr: "forest_repr (fs_disk fs) ns" using ok by (simp add: fs_ok_def)
  have "\<exists>ti. file_in ns ti (va_cur_ef (fs_va fs))"
    using ok True by (auto simp: fs_ok_def va_ok_def cur_ok_def file_zero_def item_hdr_zero_def is_rcrd_type_def
        split: option.splits)
  then have nz: "hdr_spec_rcrd_size (va_cur_ef (fs_va fs)) \<noteq> 0" using file_in_kind(3) [OF fr _ True] by blast
  then have "(ucast (hdr_spec_rcrd_size (va_cur_ef (fs_va fs))) :: u32) \<noteq> 0" by (simp add: word_unat_eq_iff)
  then show ?thesis
    using True nz rc div_nonzero
    by (auto simp: swicc_va_select_record_idx_def Let_def is_rcrd_type_def swicc_disk_file_rcrd_cnt_def
        assert_ub_def rcrd_sel_ok_def)
next
  case False
  then show ?thesis by (simp add: swicc_va_select_record_idx_def Let_def is_rcrd_type_def)
qed

end
