(* ===== verification/Swicc_Va_Path.thy ===== *)
theory Swicc_Va_Path
  imports Swicc_Va
begin

text \<open>
  Path selection (\<^verbatim>\<open>swicc_va_select_file_path\<close> of \<^verbatim>\<open>src/fs/va.c\<close>) against path resolution on the
  abstract tree, and the consistency of the validity area under all selections.
\<close>

section \<open>Resolving paths on the abstract tree\<close>

text \<open>
  A node is taken with its position in the tree and the distance to its parent.  An ID of the path
  that is the ID of the node itself stays at the node, otherwise the first child with the ID is
  taken.  The outer \<^term>\<open>None\<close> is a path that goes on behind an elementary file, where the
  code interprets the contents of that file as file headers.
\<close>

fun child :: "nat \<Rightarrow> nat \<Rightarrow> u16 \<Rightarrow> fsnode list \<Rightarrow> (nat \<times> nat \<times> fsnode) option" where
  "child base off fid [] = None"
| "child base off fid (n # ns) =
     (if n_id (n_hdr n) = fid then Some (base + off, off, n) else child base (off + nsize n) fid ns)"

definition step_path :: "nat \<times> nat \<times> fsnode \<Rightarrow> u16 \<Rightarrow> (nat \<times> nat \<times> fsnode) option option" where
  "step_path = (\<lambda>(pos, prel, n) fid.
     if n_id (n_hdr n) = fid then Some (Some (pos, prel, n))
     else (case n of
        Folder h cs \<Rightarrow> Some (child pos (file_raw_size + length (n_spec h)) fid cs)
      | Ef h d \<Rightarrow> None))"

fun resolve :: "nat \<times> nat \<times> fsnode \<Rightarrow> u16 list \<Rightarrow> (nat \<times> nat \<times> fsnode) option option" where
  "resolve l [] = Some (Some l)"
| "resolve l (fid # fids) = (case step_path l fid of
     None \<Rightarrow> None
   | Some None \<Rightarrow> Some None
   | Some (Some l') \<Rightarrow> resolve l' fids)"

definition node_at :: "bytes \<Rightarrow> nat \<times> nat \<times> fsnode \<Rightarrow> bool" where
  "node_at b = (\<lambda>(pos, prel, n). node_ok n \<and> pos + nsize n < 2 ^ 32 - 64 \<and>
     (\<exists>rest. drop pos b = ser prel n @ rest))"

abbreviation loc_file :: "nat \<Rightarrow> nat \<times> nat \<times> fsnode \<Rightarrow> swicc_fs_file" where
  "loc_file ti l \<equiv> (case l of (pos, prel, n) \<Rightarrow> file_of ti pos prel n)"

lemma path_cb_run:
  "va_select_file_path_cb f ud =
     Some (if fh_id (hdr_file f) = pu_fid_search ud
           then (SWICC_RET_ERROR, ud\<lparr>pu_found := True, pu_file := f\<rparr>) else (SWICC_RET_SUCCESS, ud))"
  by (simp add: va_select_file_path_cb_def)

definition path_outcome :: "nat \<Rightarrow> path_userdata \<Rightarrow> (nat \<times> nat \<times> fsnode) option \<Rightarrow> swicc_ret \<times> path_userdata" where
  "path_outcome ti ud l = (case l of
     None \<Rightarrow> (SWICC_RET_SUCCESS, ud)
   | Some l \<Rightarrow> (SWICC_RET_ERROR, ud\<lparr>pu_found := True, pu_file := loc_file ti l\<rparr>))"

lemma foreach_kids:
  "list_all node_ok ns \<Longrightarrow> drop (base + off) b = sers off ns @ rest \<Longrightarrow>
   base + off + sum_list (map nsize ns) < 2 ^ 32 - 64 \<Longrightarrow>
   ih_offset_trel (hdr_item f) = word_of_nat base \<Longrightarrow>
   ih_size (hdr_item f) = word_of_nat (off + sum_list (map nsize ns)) \<Longrightarrow>
   foreach_loop (\<lambda>_. b) ti va_select_file_path_cb False f (word_of_nat off) ud =
     Some (path_outcome ti ud (child base off (pu_fid_search ud) ns)) \<and>
   (\<forall>l. child base off (pu_fid_search ud) ns = Some l \<longrightarrow> node_at b l)"
proof (induction ns arbitrary: off)
  case Nil
  then show ?case by (simp add: foreach_loop.simps path_outcome_def)
next
  case (Cons n ns)
  let ?F = "file_of ti (base + off) off n"
  have okn: "node_ok n" "list_all node_ok ns" using Cons.prems(1) by simp_all
  have lt: "(word_of_nat off :: u32) < ih_size (hdr_item f)"
    unfolding Cons.prems(5) using Cons.prems(3) nsize_pos [of n] by (subst u32_less_nat) auto
  have dn: "drop (base + off) b = ser off n @ (sers (off + nsize n) ns @ rest)" using Cons.prems(2) by simp
  have prs: "swicc_fs_file_prs ti b (ih_offset_trel (hdr_item f) + word_of_nat off) file_zero =
      Some (SWICC_RET_SUCCESS, ?F)"
    using file_prs_node [OF okn(1) dn, of ti file_zero] Cons.prems(3) nsize_hsize [of n] nsize_pos [of n]
    by (simp add: Cons.prems(4) n_hsize_def)
  have dr: "drop (base + (off + nsize n)) b = sers (off + nsize n) ns @ rest"
    using drop_more [OF dn] by (simp add: add.assoc)
  have ih: "foreach_loop (\<lambda>_. b) ti va_select_file_path_cb False f (word_of_nat (off + nsize n)) ud =
      Some (path_outcome ti ud (child base (off + nsize n) (pu_fid_search ud) ns)) \<and>
      (\<forall>l. child base (off + nsize n) (pu_fid_search ud) ns = Some l \<longrightarrow> node_at b l)"
    by (rule Cons.IH [OF okn(2) dr _ Cons.prems(4)]) (use Cons.prems in \<open>simp_all add: add.assoc\<close>)
  have kind: "SWICC_FS_FILE_FOLDER_CHECK ?F \<or> SWICC_FS_FILE_EF_CHECK ?F"
    using folder_check_node(1) [OF okn(1)] folder_check_node(2) [OF okn(1)] by (cases n) auto
  show ?case
  proof (cases "n_id (n_hdr n) = pu_fid_search ud")
    case True
    have "node_at b (base + off, off, n)"
      using okn(1) Cons.prems(3) dn by (auto simp: node_at_def)
    then show ?thesis
      using True by (subst foreach_loop.simps) (simp add: lt prs path_cb_run path_outcome_def file_of_facts)
  next
    case False
    then show ?thesis
      using ih kind by (subst foreach_loop.simps) (auto simp: lt prs path_cb_run file_of_facts)
  qed
qed

lemma foreach_step:
  assumes at: "node_at b l" and st: "step_path l (pu_fid_search ud) = Some r"
  shows "swicc_disk_file_foreach (\<lambda>_. b) ti (loc_file ti l) va_select_file_path_cb False ud =
      Some (path_outcome ti ud r)"
    and "r = Some l' \<Longrightarrow> node_at b l'"
proof -
  obtain pos prel n where l: "l = (pos, prel, n)" by (cases l)
  have ok: "node_ok n" "pos + nsize n < 2 ^ 32 - 64" using at l by (simp_all add: node_at_def)
  obtain rest where d: "drop pos b = ser prel n @ rest" using at l by (auto simp: node_at_def)
  have "swicc_disk_file_foreach (\<lambda>_. b) ti (loc_file ti l) va_select_file_path_cb False ud =
      Some (path_outcome ti ud r) \<and> (r = Some l' \<longrightarrow> node_at b l')"
  proof (cases "n_id (n_hdr n) = pu_fid_search ud")
    case True
    then show ?thesis
      using st at l by (auto simp: step_path_def swicc_disk_file_foreach_def path_cb_run path_outcome_def file_of_facts)
  next
    case False
    then obtain h cs where n: "n = Folder h cs" and r: "r = child pos (file_raw_size + length (n_spec h)) (pu_fid_search ud) cs"
      using st l by (auto simp: step_path_def split: fsnode.splits)
    have dc: "drop (pos + (file_raw_size + length (n_spec h))) b = sers (file_raw_size + length (n_spec h)) cs @ rest"
      using d drop_more [of pos b "ser_hdr (nsize n) prel h"] by (simp add: n add.assoc)
    have hs: "swicc_fs_item_hdr_raw_size (n_type h) = word_of_nat (file_raw_size + length (n_spec h))"
      using item_hdr_raw_size_node [OF ok(1)] by (simp add: n_hsize_def n)
    have "foreach_loop (\<lambda>_. b) ti va_select_file_path_cb False (file_of ti pos prel n)
        (word_of_nat (file_raw_size + length (n_spec h))) ud = Some (path_outcome ti ud r) \<and>
        (\<forall>l. r = Some l \<longrightarrow> node_at b l)"
      unfolding r by (rule foreach_kids [OF _ dc]) (use ok n in \<open>simp_all add: file_of_facts\<close>)
    then show ?thesis
      using False by (cases l') (simp add: l swicc_disk_file_foreach_def path_cb_run file_of_facts hs n)
  qed
  then show "swicc_disk_file_foreach (\<lambda>_. b) ti (loc_file ti l) va_select_file_path_cb False ud =
      Some (path_outcome ti ud r)" "r = Some l' \<Longrightarrow> node_at b l'" by blast+
qed

lemma path_loop_resolve:
  assumes "tree_buf disk (Some ti) = b"
  shows "node_at b l \<Longrightarrow> resolve l fids = Some r \<Longrightarrow> (fids = [] \<Longrightarrow> pu_found ud \<and> pu_file ud = loc_file ti l \<and> ret = SWICC_RET_SUCCESS) \<Longrightarrow>
    \<exists>ud'. select_path_loop disk (Some ti) fids (loc_file ti l) ud ret =
      Some (case r of None \<Rightarrow> Inl SWICC_RET_FS_NOT_FOUND | Some l' \<Rightarrow> Inr (SWICC_RET_SUCCESS, ud')) \<and>
      (\<forall>l'. r = Some l' \<longrightarrow> pu_found ud' \<and> pu_file ud' = loc_file ti l')"
proof (induction fids arbitrary: l ud ret)
  case (Cons fid fids)
  let ?ud = "ud\<lparr>pu_fid_search := fid, pu_found := False\<rparr>"
  obtain s where s: "step_path l fid = Some s" using Cons.prems(2) by (auto split: option.splits)
  have s': "step_path l (pu_fid_search ?ud) = Some s" using s by simp
  note fe = foreach_step(1) [OF Cons.prems(1) s', where ti = ti] foreach_step(2) [OF Cons.prems(1) s']
  show ?case
  proof (cases s)
    case None
    then show ?thesis using fe(1) s Cons.prems(2) by (simp add: assms path_outcome_def)
  next
    case (Some l2)
    let ?ud2 = "?ud\<lparr>pu_found := True, pu_file := loc_file ti l2\<rparr>"
    have "\<exists>ud'. select_path_loop disk (Some ti) fids (loc_file ti l2) ?ud2 SWICC_RET_SUCCESS =
      Some (case r of None \<Rightarrow> Inl SWICC_RET_FS_NOT_FOUND | Some l' \<Rightarrow> Inr (SWICC_RET_SUCCESS, ud')) \<and>
      (\<forall>l'. r = Some l' \<longrightarrow> pu_found ud' \<and> pu_file ud' = loc_file ti l')"
      by (rule Cons.IH [OF fe(2)]) (use Some Cons.prems(2) s in simp_all)
    then show ?thesis using fe(1) s Some by (simp add: assms path_outcome_def)
  qed
next
  case Nil
  then have "r = Some l" by simp
  then show ?case using Nil by auto
qed

text \<open>Resolving does not leave the visited files of the tree.\<close>

abbreviation loc_visits :: "nat \<Rightarrow> nat \<times> nat \<times> fsnode \<Rightarrow> swicc_fs_file set" where
  "loc_visits ti l \<equiv> (case l of (pos, prel, n) \<Rightarrow> set (visit_node ti pos prel n))"

lemma child_visits: "child base off fid ns = Some l \<Longrightarrow> loc_visits ti l \<subseteq> set (visits_sub ti base off ns)"
  by (induction base off fid ns rule: child.induct) (auto split: if_splits)

lemma step_visits: "step_path l fid = Some (Some l') \<Longrightarrow> loc_visits ti l' \<subseteq> loc_visits ti l"
  using child_visits by (cases l) (force simp: step_path_def split: fsnode.splits if_splits)

lemma resolve_visits: "resolve l fids = Some (Some l') \<Longrightarrow> loc_visits ti l' \<subseteq> loc_visits ti l"
proof (induction fids arbitrary: l)
  case (Cons fid fids)
  then obtain l2 where "step_path l fid = Some (Some l2)" "resolve l2 fids = Some (Some l')"
    by (auto split: option.splits)
  then show ?case using step_visits Cons.IH by blast
qed simp

lemma loc_file_visits: "loc_file ti l \<in> loc_visits ti l"
  by (cases l; cases "snd (snd l)") auto

lemma path_walk_resolve:
  assumes ok: "fs_ok ns fs" and ti: "ti < length ns" and fids: "fids \<noteq> []"
    and at: "node_at (t_buf (d_root (fs_disk fs) ! ti)) l" and vis: "loc_visits ti l \<subseteq> set (visits ti (ns ! ti))"
    and res: "resolve l fids = Some r"
  shows "select_path_walk fs (Some ti) fids (loc_file ti l) ret = (case r of
      None \<Rightarrow> Some (SWICC_RET_FS_NOT_FOUND, fs)
    | Some l' \<Rightarrow> va_select_file fs ti (loc_file ti l'))"
    and "r = Some l' \<Longrightarrow> file_in ns ti (loc_file ti l')"
proof -
  have fr: "forest_repr (fs_disk fs) ns" using ok by (simp add: fs_ok_def)
  have buf: "tree_buf (fs_disk fs) (Some ti) = t_buf (d_root (fs_disk fs) ! ti)"
    using forest_tree(1) [OF fr ti] by (simp add: tree_buf_def)
  let ?ud = "\<lparr>pu_fid_search = 0, pu_found = False, pu_file = file_zero\<rparr>"
  obtain ud' where "select_path_loop (fs_disk fs) (Some ti) fids (loc_file ti l) ?ud ret =
      Some (case r of None \<Rightarrow> Inl SWICC_RET_FS_NOT_FOUND | Some l' \<Rightarrow> Inr (SWICC_RET_SUCCESS, ud'))"
      "\<forall>l'. r = Some l' \<longrightarrow> pu_found ud' \<and> pu_file ud' = loc_file ti l'"
    using path_loop_resolve [OF buf at res, of ?ud ret] fids by blast
  then show "select_path_walk fs (Some ti) fids (loc_file ti l) ret = (case r of
      None \<Rightarrow> Some (SWICC_RET_FS_NOT_FOUND, fs)
    | Some l' \<Rightarrow> va_select_file fs ti (loc_file ti l'))"
    by (cases r) (simp_all add: select_path_walk_def)
  show "file_in ns ti (loc_file ti l')" if "r = Some l'"
    using resolve_visits [OF res [unfolded that], of ti] vis loc_file_visits [of ti l'] ti
    by (auto simp: file_in_def)
qed

text \<open>The locations of the files of a tree, in walking order.\<close>

fun kid_locs :: "nat \<Rightarrow> nat \<Rightarrow> fsnode list \<Rightarrow> (nat \<times> nat \<times> fsnode) list"
  and node_locs :: "nat \<Rightarrow> nat \<Rightarrow> fsnode \<Rightarrow> (nat \<times> nat \<times> fsnode) list" where
  "kid_locs base off [] = []"
| "kid_locs base off (n # ns) = node_locs (base + off) off n @ kid_locs base (off + nsize n) ns"
| "node_locs pos prel (Folder h cs) = (pos, prel, Folder h cs) # kid_locs pos (file_raw_size + length (n_spec h)) cs"
| "node_locs pos prel (Ef h d) = [(pos, prel, Ef h d)]"

lemma locs_visits:
  "loc_file ti ` set (kid_locs base off ns) = set (visits_sub ti base off ns)"
  "loc_file ti ` set (node_locs pos prel n) = set (visit_node ti pos prel n)"
  by (induction base off ns and pos prel n rule: kid_locs_node_locs.induct) (simp_all add: image_Un)

lemma locs_at:
  "list_all node_ok ns \<Longrightarrow> drop (base + off) b = sers off ns @ rest \<Longrightarrow>
   base + off + sum_list (map nsize ns) < 2 ^ 32 - 64 \<Longrightarrow> l \<in> set (kid_locs base off ns) \<Longrightarrow>
   node_at b l \<and> loc_visits ti l \<subseteq> set (visits_sub ti base off ns)"
  "node_ok n \<Longrightarrow> drop pos b = ser prel n @ rest' \<Longrightarrow> pos + nsize n < 2 ^ 32 - 64 \<Longrightarrow> l \<in> set (node_locs pos prel n) \<Longrightarrow>
   node_at b l \<and> loc_visits ti l \<subseteq> set (visit_node ti pos prel n)"
proof (induction base off ns and pos prel n arbitrary: rest and rest' rule: kid_locs_node_locs.induct)
  case (2 base off n ns)
  have d: "drop (base + off) b = ser off n @ (sers (off + nsize n) ns @ rest)" using "2.prems"(2) by simp
  have d': "drop (base + (off + nsize n)) b = sers (off + nsize n) ns @ rest"
    using drop_more [OF d] by (simp add: add.assoc)
  show ?case
  proof (cases "l \<in> set (node_locs (base + off) off n)")
    case True
    then show ?thesis using "2.IH"(1) [OF _ d _ True] "2.prems" by auto
  next
    case False
    then have "l \<in> set (kid_locs base (off + nsize n) ns)" using "2.prems"(4) by simp
    then show ?thesis using "2.IH"(2) [OF _ d'] "2.prems" by (auto simp: add.assoc)
  qed
next
  case (3 pos prel h cs)
  have at: "node_at b (pos, prel, Folder h cs)" using "3.prems" by (auto simp: node_at_def)
  have d: "drop (pos + (file_raw_size + length (n_spec h))) b = sers (file_raw_size + length (n_spec h)) cs @ rest'"
    using "3.prems"(2) drop_more [of pos b "ser_hdr (nsize (Folder h cs)) prel h"] by (simp add: add.assoc)
  show ?case
  proof (cases "l = (pos, prel, Folder h cs)")
    case True
    then show ?thesis using at by simp
  next
    case False
    then show ?thesis using "3.IH" [OF _ d] "3.prems" by (auto simp: add.assoc)
  qed
qed (auto simp: node_at_def)

text \<open>
  A path \<open>b\<close> fits a file of tree \<open>ti\<close> when it does not go on behind an elementary file on
  the way from that file.
\<close>

definition path_fits :: "fsnode list \<Rightarrow> nat \<Rightarrow> swicc_fs_file \<Rightarrow> u16 list \<Rightarrow> bool" where
  "path_fits ns ti f b =
     list_all (\<lambda>l. loc_file ti l = f \<longrightarrow> resolve l b \<noteq> None) (node_locs 0 0 (ns ! ti))"

lemma select_path_sel:
  assumes ok: "fs_ok ns fs" and f: "file_in ns ti f" and fits: "path_fits ns ti f b"
    and ne: "b = [] \<Longrightarrow> ret = SWICC_RET_ERROR"
  shows "\<exists>r fs'. select_path_walk fs (Some ti) b f ret = Some (r, fs') \<and> sel_ok ns fs r fs'"
proof (cases "b = []")
  case True
  then show ?thesis using ne sel_ok_refl [OF ok] by (simp add: select_path_walk_def)
next
  case False
  have fr: "forest_repr (fs_disk fs) ns" using ok by (simp add: fs_ok_def)
  have ti: "ti < length ns" using f by (simp add: file_in_def)
  note ft = forest_tree [OF fr ti]
  obtain h cs where n: "ns ! ti = Folder h cs" using tree_folder [OF ft(2)] by blast
  have vis: "set (visits ti (ns ! ti)) = set (visit_node ti 0 0 (ns ! ti))" by (simp add: visits_def n)
  have "f \<in> loc_file ti ` set (node_locs 0 0 (ns ! ti))"
    using f locs_visits(2) [of ti 0 0 "ns ! ti"] vis by (simp add: file_in_def)
  then obtain l where l: "l \<in> set (node_locs 0 0 (ns ! ti))" "f = loc_file ti l" by blast
  then obtain r where r: "resolve l b = Some r" using fits by (auto simp: path_fits_def list_all_iff)
  let ?t = "t_buf (d_root (fs_disk fs) ! ti)"
  have root: "node_ok (ns ! ti)" "drop 0 ?t = ser 0 (ns ! ti) @ drop (nsize (ns ! ti)) ?t" "0 + nsize (ns ! ti) < 2 ^ 32 - 64"
    using ft(2) tree_bytes [OF ft(2)] by (simp_all add: tree_repr_def root_ok_def)
  have at: "node_at ?t l" "loc_visits ti l \<subseteq> set (visits ti (ns ! ti))"
    using locs_at(2) [OF root l(1), of ti] vis by simp_all
  note walk = path_walk_resolve [OF ok ti False at r]
  show ?thesis
  proof (cases r)
    case None
    then show ?thesis using walk(1) l(2) sel_ok_refl [OF ok] by simp
  next
    case (Some l')
    moreover obtain fs' where "va_select_file fs ti (loc_file ti l') = Some (SWICC_RET_SUCCESS, fs')"
      "sel_ok ns fs SWICC_RET_SUCCESS fs'"
      using select_file_sel [OF ok walk(2) [OF Some]] by blast
    ultimately show ?thesis using walk(1) l(2) by simp
  qed
qed

lemma path_no_tree:
  "select_path_walk fs None b f SWICC_RET_ERROR = Some (if b = [] then SWICC_RET_ERROR else SWICC_RET_PARAM_BAD, fs)"
  by (cases b) (simp_all add: select_path_walk_def)

section \<open>Properties\<close>

definition demo_fs :: "swicc_disk \<Rightarrow> swicc_fs" where
  "demo_fs d = \<lparr>fs_va = va_zero, fs_disk = d\<rparr>"

lemma va_zero_ok: "va_ok ns va_zero"
  by (simp add: va_ok_def va_zero_def cur_ok_def adf_ok_def)

lemma demo_fs_ok: "\<exists>d. fs_ok [demo_mf] (demo_fs d)"
proof -
  let ?A = "\<lambda>n. Some (\<lambda>i. 0)"
  have few: "length (visits 0 demo_mf) = 5" by (simp add: visits_def demo_mf_def demo_files_def)
  have g: "grants ?A" by (simp add: grants_def)
  let ?t = "d_root demo_disk ! 0"
  have "n_type (n_hdr demo_mf) = SWICC_FS_ITEM_TYPE_FILE_MF" by (simp add: demo_mf_def demo_hdr_def)
  then have rep: "tree_repr ?t demo_mf"
    by (simp add: demo_disk_def tree_repr_def root_ok_def demo_mf_ok)
  have "lut_freeable (t_lutsid ?t)" by (simp add: demo_disk_def lut_freeable_def lut_zero_def)
  moreover have "length (sid_kvs (visits 0 demo_mf)) \<le> lut_cap"
    unfolding sid_kvs_def length_map by (rule order_trans [OF length_filter_le]) (simp add: few lut_cap_def)
  ultimately obtain l where l: "sids_resolve 0 (?t\<lparr>t_lutsid := l\<rparr>) demo_mf"
    using lutsid_rebuild_resolves [OF rep g, of 0] by blast
  let ?d = "\<lparr>d_root = [?t\<lparr>t_lutsid := l\<rparr>], d_lutid = lut_zero\<rparr>"
  have fr: "forest_repr ?d [demo_mf]" using rep by (simp add: forest_repr_def tree_repr_def)
  have "length (forest_kvs 0 [demo_mf]) \<le> lut_cap"
    unfolding forest_kvs.simps append_Nil2 id_kvs_def length_map
    by (rule order_trans [OF length_filter_le]) (simp add: few lut_cap_def)
  moreover have "lut_freeable (d_lutid ?d)" by (simp add: lut_freeable_def lut_zero_def)
  ultimately obtain m where "ids_resolve (?d\<lparr>d_lutid := m\<rparr>) [demo_mf]"
    using lutid_rebuild_resolves [OF fr g] by blast
  then have "fs_ok [demo_mf] (demo_fs (?d\<lparr>d_lutid := m\<rparr>))"
    using l fr va_zero_ok by (simp add: fs_ok_def demo_fs_def forest_repr_def)
  then show ?thesis by blast
qed

definition demo_ef :: swicc_fs_file where
  "demo_ef = file_of 0 74 29 (Ef (demo_hdr SWICC_FS_ITEM_TYPE_FILE_EF_CYCLIC 0x6F01 1 [2]) [9, 8, 7, 6])"

lemma demo_last: "last_with_id 0x6F01 (forest_files 0 [demo_mf]) = Some (0, demo_ef)"
  by (simp add: last_with_id_def demo_mf_def demo_files_def demo_hdr_def visits_def file_of_def Let_def demo_ef_def)

text \<open>
  C23.  Selecting a file ID on a well-formed card makes the file with that ID the current file of its
  tree, with the record pointer reset, and keeps the validity area consistent; when no file has the ID
  the result is \<open>not found\<close> and nothing changes.
\<close>

theorem select_id_selects:
  assumes "fs_ok ns fs"
  shows "\<exists>fs'. swicc_va_select_file_id fs fid =
      Some (case last_with_id fid (forest_files 0 ns) of
        None \<Rightarrow> (SWICC_RET_FS_NOT_FOUND, fs) | Some tf \<Rightarrow> (SWICC_RET_SUCCESS, fs')) \<and>
    (\<forall>ti f. last_with_id fid (forest_files 0 ns) = Some (ti, f) \<longrightarrow>
       va_cur_tree (fs_va fs') = Some ti \<and> va_cur_file (fs_va fs') = f \<and> fh_id (hdr_file f) = fid \<and>
       va_cur_rcrd (fs_va fs') = 0 \<and> fs_disk fs' = fs_disk fs \<and> fs_ok ns fs')"
proof (cases "last_with_id fid (forest_files 0 ns)")
  case None
  then show ?thesis using select_id_run [OF assms] by simp
next
  case (Some x)
  moreover obtain ti f where x: "x = (ti, f)" by (cases x)
  moreover have fr: "forest_repr (fs_disk fs) ns" using assms by (simp add: fs_ok_def)
  ultimately have f: "file_in ns ti f" "fh_id (hdr_file f) = fid" using last_with_id_in [of fid ns ti f] by simp_all
  obtain v where v: "va_select_file fs ti f = Some (SWICC_RET_SUCCESS, fs\<lparr>fs_va := v\<rparr>)" "va_ok ns v"
    "va_cur_tree v = Some ti" "va_cur_file v = f" "va_cur_rcrd v = 0"
    using va_select_file_ok [OF assms f(1)] by blast
  show ?thesis
    by (rule exI [of _ "fs\<lparr>fs_va := v\<rparr>"])
       (use v f(2) Some x select_id_run [OF assms] assms in \<open>simp add: fs_ok_def\<close>)
qed

theorem select_id_selects_witness:
  "\<exists>d fs'. swicc_va_select_file_id (demo_fs d) 0x6F01 = Some (SWICC_RET_SUCCESS, fs') \<and>
     va_cur_tree (fs_va fs') = Some 0 \<and> va_cur_file (fs_va fs') = demo_ef"
  using demo_fs_ok select_id_selects [of "[demo_mf]" _ "0x6F01"] demo_last by fastforce

text \<open>The selection operations, as they are called from outside.\<close>

datatype va_op =
    Op_reset
  | Op_id u16
  | Op_sid u8
  | Op_aid bytes u32
  | Op_name bytes u32
  | Op_path swicc_fs_path_type "u16 list"
  | Op_record u8
  | Op_data_offset u32

fun va_run :: "va_op \<Rightarrow> swicc_fs \<Rightarrow> (swicc_ret \<times> swicc_fs) option" where
  "va_run Op_reset fs = swicc_va_reset fs"
| "va_run (Op_id fid) fs = swicc_va_select_file_id fs fid"
| "va_run (Op_sid sid) fs = swicc_va_select_file_sid fs sid"
| "va_run (Op_aid aid pix_len) fs = swicc_va_select_adf fs aid pix_len"
| "va_run (Op_name nm n) fs = swicc_va_select_file_dfname fs nm n"
| "va_run (Op_path pt b) fs = do { (r, fs', b') \<leftarrow> swicc_va_select_file_path fs pt b; Some (r, fs') }"
| "va_run (Op_record i) fs = swicc_va_select_record_idx fs i"
| "va_run (Op_data_offset off) fs = Some (swicc_va_select_data_offset fs off, fs)"

text \<open>
  The arguments that fit: an AID has its RID and at most 11 bytes of PIX, a name is not empty, a
  path from the master file is not empty and no path goes on behind an elementary file.  A path from the
  master file starts at the master file, or at the current application when its first ID is \<open>0x7FFF\<close>
  (that ID is then replaced by the one of the application); a path from the current folder starts there.
\<close>

fun path_arg_ok :: "fsnode list \<Rightarrow> swicc_fs \<Rightarrow> swicc_fs_path_type \<Rightarrow> u16 list \<Rightarrow> bool" where
  "path_arg_ok ns fs SWICC_FS_PATH_TYPE_DF b = (case va_cur_tree (fs_va fs) of
     None \<Rightarrow> True
   | Some ti \<Rightarrow> path_fits ns ti (va_cur_df (fs_va fs)) b)"
| "path_arg_ok ns fs SWICC_FS_PATH_TYPE_MF b = (b \<noteq> [] \<and>
     (let adf_id = fh_id (hdr_file (va_cur_adf (fs_va fs)));
          (start, b') = (if hd b = 0x7FFF then (adf_id, b[0 := adf_id]) else (0x3F00, b))
      in case last_with_id start (forest_files 0 ns) of
           None \<Rightarrow> True
         | Some (ti, f) \<Rightarrow> path_fits ns ti f b'))"

fun va_args_ok :: "fsnode list \<Rightarrow> swicc_fs \<Rightarrow> va_op \<Rightarrow> bool" where
  "va_args_ok ns fs (Op_aid aid pix_len) \<longleftrightarrow>
     SWICC_FS_ADF_AID_RID_LEN + unat pix_len \<le> length aid \<and> unat pix_len \<le> SWICC_FS_ADF_AID_PIX_LEN"
| "va_args_ok ns fs (Op_name nm n) \<longleftrightarrow> nm \<noteq> []"
| "va_args_ok ns fs (Op_path pt b) \<longleftrightarrow> path_arg_ok ns fs pt b"
| "va_args_ok ns fs (Op_record i) \<longleftrightarrow> rcrd_sel_ok fs"
| "va_args_ok ns fs op \<longleftrightarrow> True"

lemma path_op_sel:
  assumes ok: "fs_ok ns fs" and arg: "path_arg_ok ns fs pt b"
  shows "\<exists>r fs' b'. swicc_va_select_file_path fs pt b = Some (r, fs', b') \<and> sel_ok ns fs r fs'"
proof (cases pt)
  case SWICC_FS_PATH_TYPE_DF
  show ?thesis
  proof (cases "va_cur_tree (fs_va fs)")
    case None
    then show ?thesis
      using SWICC_FS_PATH_TYPE_DF sel_ok_refl [OF ok] by (simp add: swicc_va_select_file_path_def path_no_tree)
  next
    case (Some ti)
    then have "file_in ns ti (va_cur_df (fs_va fs))" using ok by (simp add: fs_ok_def va_ok_def cur_ok_def)
    moreover have "path_fits ns ti (va_cur_df (fs_va fs)) b" using arg SWICC_FS_PATH_TYPE_DF Some by simp
    ultimately show ?thesis
      using select_path_sel [OF ok, of ti "va_cur_df (fs_va fs)" b SWICC_RET_ERROR] SWICC_FS_PATH_TYPE_DF Some
      by (auto simp: swicc_va_select_file_path_def)
  qed
next
  case SWICC_FS_PATH_TYPE_MF
  have fr: "forest_repr (fs_disk fs) ns" and ids: "ids_resolve (fs_disk fs) ns" using ok by (simp_all add: fs_ok_def)
  have ne: "b \<noteq> []" using arg SWICC_FS_PATH_TYPE_MF by simp
  let ?id = "fh_id (hdr_file (va_cur_adf (fs_va fs)))"
  note [simp] = swicc_va_select_file_path_def rd_def hd_conv_nth [OF ne]
  show ?thesis
  proof (cases "hd b = 0x7FFF")
    case True
    show ?thesis
    proof (cases "last_with_id ?id (forest_files 0 ns)")
      case None
      then show ?thesis
        using True ids SWICC_FS_PATH_TYPE_MF ne sel_ok_refl [OF ok] by (simp add: ids_resolve_def Let_def)
    next
      case (Some x)
      obtain ti f where x: "x = (ti, f)" by (cases x)
      have "path_fits ns ti f (b[0 := ?id])" using arg SWICC_FS_PATH_TYPE_MF True Some x by simp
      then obtain r fs' where "select_path_walk fs (Some ti) (b[0 := ?id]) f SWICC_RET_SUCCESS = Some (r, fs')" "sel_ok ns fs r fs'"
        using select_path_sel [OF ok last_with_id_in(1) [OF Some [unfolded x] fr], of "b[0 := ?id]" SWICC_RET_SUCCESS] ne by auto
      then show ?thesis
        using True ids SWICC_FS_PATH_TYPE_MF ne Some x sel_ok_refl [OF ok] by (simp add: ids_resolve_def Let_def)
    qed
  next
    case False
    show ?thesis
    proof (cases "last_with_id 0x3F00 (forest_files 0 ns)")
      case None
      then show ?thesis
        using False ids SWICC_FS_PATH_TYPE_MF ne sel_ok_refl [OF ok] by (simp add: ids_resolve_def Let_def)
    next
      case (Some x)
      obtain ti f where x: "x = (ti, f)" by (cases x)
      have "path_fits ns ti f b" using arg SWICC_FS_PATH_TYPE_MF False Some x by simp
      then obtain r fs' where "select_path_walk fs (Some ti) b f SWICC_RET_SUCCESS = Some (r, fs')" "sel_ok ns fs r fs'"
        using select_path_sel [OF ok last_with_id_in(1) [OF Some [unfolded x] fr], of b SWICC_RET_SUCCESS] ne by auto
      then show ?thesis
        using False ids SWICC_FS_PATH_TYPE_MF ne Some x by (simp add: ids_resolve_def Let_def)
    qed
  qed
qed

text \<open>
  C17.  On a well-formed card every selection (by reset, file ID, short file ID, AID, name, path from
  the master file, the current application or the current folder, record number and data offset), called
  with arguments that fit, is free of undefined behaviour and keeps the validity area consistent: the
  current folder is a folder of the current tree, the current file is that folder or an elementary file
  that lies in it, the current application is an application.  The disk is never changed, and a selection
  that fails changes nothing (a reset may leave nothing selected).
\<close>

theorem va_ops_consistent:
  assumes "fs_ok ns fs" and "va_args_ok ns fs op"
  shows "\<exists>r fs'. va_run op fs = Some (r, fs') \<and> fs_ok ns fs' \<and> fs_disk fs' = fs_disk fs \<and>
    (r \<noteq> SWICC_RET_SUCCESS \<longrightarrow> op \<noteq> Op_reset \<longrightarrow> fs' = fs)"
proof (cases op)
  case Op_reset
  let ?fs0 = "fs\<lparr>fs_va := va_zero\<rparr>"
  have ok0: "fs_ok ns ?fs0" using assms(1) va_zero_ok by (simp add: fs_ok_def)
  then have "d_root (fs_disk fs) \<noteq> []" by (auto simp: fs_ok_def forest_repr_def)
  then show ?thesis
    using select_id_sel [OF ok0, of "0x3F00"] Op_reset
    by (auto simp: swicc_va_reset_def swicc_disk_tree_iter_start_def sel_ok_def)
next
  case (Op_id fid)
  then show ?thesis using select_id_sel [OF assms(1), of fid] by (auto simp: sel_ok_def)
next
  case (Op_sid sid)
  then show ?thesis using select_sid_sel [OF assms(1), of sid] by (auto simp: sel_ok_def)
next
  case (Op_aid aid n)
  then show ?thesis using select_adf_sel [OF assms(1), of n aid] assms(2) by (auto simp: sel_ok_def)
next
  case (Op_name nm n)
  then show ?thesis using select_dfname_sel [OF assms(1), of nm n] assms(2) by (auto simp: sel_ok_def)
next
  case (Op_path pt b)
  then show ?thesis using path_op_sel [OF assms(1), of pt b] assms(2) by (auto simp: sel_ok_def)
next
  case (Op_data_offset off)
  then show ?thesis using assms(1) by (simp add: swicc_va_select_data_offset_def)
next
  case (Op_record i)
  then show ?thesis
    using select_record_sel [OF assms(1), of i] assms by (auto simp: fs_ok_def va_ok_def)
qed

lemma demo_path_fits: "path_arg_ok [demo_mf] fs SWICC_FS_PATH_TYPE_MF [0x7F10, 0x6F01]"
proof -
  have "last_with_id 0x3F00 (forest_files 0 [demo_mf]) = Some (0, file_of 0 0 0 demo_mf)"
    by (simp add: last_with_id_def demo_mf_def demo_files_def demo_hdr_def visits_def file_of_def Let_def)
  moreover have "path_fits [demo_mf] 0 (file_of 0 0 0 demo_mf) [0x7F10, 0x6F01]"
    by (simp add: path_fits_def step_path_def demo_mf_def demo_files_def demo_hdr_def file_of_def Let_def)
  ultimately show ?thesis by simp
qed

theorem va_ops_consistent_witness:
  "\<exists>d r fs' r2 fs2. va_run (Op_aid [0xA0, 0, 0, 0, 0x87, 0x10, 2] 2) (demo_fs d) = Some (r, fs') \<and> fs_ok [demo_mf] fs' \<and>
     va_run (Op_path SWICC_FS_PATH_TYPE_MF [0x7F10, 0x6F01]) fs' = Some (r2, fs2) \<and> fs_ok [demo_mf] fs2"
proof -
  obtain d where "fs_ok [demo_mf] (demo_fs d)" using demo_fs_ok by blast
  then obtain r fs' where 1: "va_run (Op_aid [0xA0, 0, 0, 0, 0x87, 0x10, 2] 2) (demo_fs d) = Some (r, fs')" "fs_ok [demo_mf] fs'"
    using va_ops_consistent [of "[demo_mf]" _ "Op_aid [0xA0, 0, 0, 0, 0x87, 0x10, 2] 2"] by fastforce
  have arg: "va_args_ok [demo_mf] fs' (Op_path SWICC_FS_PATH_TYPE_MF [0x7F10, 0x6F01])"
    unfolding va_args_ok.simps by (rule demo_path_fits)
  show ?thesis using va_ops_consistent [OF 1(2) arg] 1 by blast
qed

text \<open>
  C7.  Selecting by a path from the master file follows the path through the abstract tree: the file
  the path leads to becomes the current file, and a path that leads nowhere is reported as not found and
  changes nothing.
\<close>

theorem select_path_resolves:
  assumes "fs_ok ns fs" and "last_with_id 0x3F00 (forest_files 0 ns) = Some (ti, file_of ti 0 0 (ns ! ti))"
    and "b \<noteq> []" and "hd b \<noteq> 0x7FFF" and "resolve (0, 0, ns ! ti) b = Some r"
  shows "\<exists>fs'. swicc_va_select_file_path fs SWICC_FS_PATH_TYPE_MF b =
      Some (case r of None \<Rightarrow> (SWICC_RET_FS_NOT_FOUND, fs, b) | Some l \<Rightarrow> (SWICC_RET_SUCCESS, fs', b)) \<and>
    (\<forall>l. r = Some l \<longrightarrow> va_cur_tree (fs_va fs') = Some ti \<and> va_cur_file (fs_va fs') = loc_file ti l \<and>
       fs_disk fs' = fs_disk fs \<and> fs_ok ns fs')"
proof -
  have fr: "forest_repr (fs_disk fs) ns" and ids: "ids_resolve (fs_disk fs) ns" using assms(1) by (simp_all add: fs_ok_def)
  have ti: "ti < length ns" using last_with_id_in(1) [OF assms(2) fr] by (simp add: file_in_def)
  note ft = forest_tree [OF fr ti]
  have at: "node_at (t_buf (d_root (fs_disk fs) ! ti)) (0, 0, ns ! ti)"
    using ft(2) tree_bytes [OF ft(2)] by (auto simp: node_at_def tree_repr_def root_ok_def)
  obtain h cs where n: "ns ! ti = Folder h cs" using tree_folder [OF ft(2)] by blast
  have vis: "loc_visits ti (0, 0, ns ! ti) \<subseteq> set (visits ti (ns ! ti))" by (simp add: visits_def n)
  note walk = path_walk_resolve [OF assms(1) ti assms(3) at vis assms(5)]
  have run: "swicc_va_select_file_path fs SWICC_FS_PATH_TYPE_MF b = do {
      (ret, fs') \<leftarrow> select_path_walk fs (Some ti) b (loc_file ti (0, 0, ns ! ti)) SWICC_RET_SUCCESS;
      Some (ret, fs', b) }"
    using assms(2-4) ids by (simp add: swicc_va_select_file_path_def ids_resolve_def rd_def hd_conv_nth)
  show ?thesis
  proof (cases r)
    case None
    then show ?thesis using run walk(1) by simp
  next
    case (Some l)
    obtain v where v: "va_select_file fs ti (loc_file ti l) = Some (SWICC_RET_SUCCESS, fs\<lparr>fs_va := v\<rparr>)"
      "va_ok ns v" "va_cur_tree v = Some ti" "va_cur_file v = loc_file ti l"
      using va_select_file_ok [OF assms(1) walk(2) [OF Some]] by blast
    show ?thesis
      by (rule exI [of _ "fs\<lparr>fs_va := v\<rparr>"]) (use run walk(1) v Some assms(1) in \<open>simp add: fs_ok_def\<close>)
  qed
qed

theorem select_path_resolves_witness:
  "\<exists>d fs'. swicc_va_select_file_path (demo_fs d) SWICC_FS_PATH_TYPE_MF [0x7F10, 0x6F01] =
      Some (SWICC_RET_SUCCESS, fs', [0x7F10, 0x6F01]) \<and> va_cur_file (fs_va fs') = demo_ef"
proof -
  have "last_with_id 0x3F00 (forest_files 0 [demo_mf]) = Some (0, file_of 0 0 0 ([demo_mf] ! 0))"
    by (simp add: last_with_id_def demo_mf_def demo_files_def demo_hdr_def visits_def file_of_def Let_def)
  moreover have "resolve (0, 0, [demo_mf] ! 0) [0x7F10, 0x6F01] =
      Some (Some (74, 29, Ef (demo_hdr SWICC_FS_ITEM_TYPE_FILE_EF_CYCLIC 0x6F01 1 [2]) [9, 8, 7, 6]))"
    by (simp add: step_path_def demo_mf_def demo_files_def demo_hdr_def)
  ultimately show ?thesis
    using demo_fs_ok select_path_resolves [of "[demo_mf]" _ 0 "[0x7F10, 0x6F01]"]
    by (fastforce simp: demo_ef_def)
qed

end
