(* ===== verification/Swicc_State.thy ===== *)
theory Swicc_State
  imports Swicc_Apdu Swicc_Apdu_Rc Swicc_Io Swicc_Pps Swicc_Va_Path
begin

text \<open>
  The state of the card (\<^verbatim>\<open>include/swicc/swicc.h\<close>), the states of its state machine
  (\<^verbatim>\<open>include/swicc/fsm.h\<close>), and the operations on it of \<^verbatim>\<open>src/common.c\<close> (reset, termination), of
  \<^verbatim>\<open>src/apduh.c\<close> (registration of handlers) and of \<^verbatim>\<open>src/fs.c\<close> (mounting a disk).

  The active APDU command consists of pointers to the fields of the active TPDU; the state has the
  TPDU and a flag that tells whether the pointers are set.  The two registered handler functions are
  code outside of the library; the state keeps a number for each, and the functions that call them
  take the function that belongs to a number as a parameter.  The buffers to and from the interface
  are lists of the size of their memory.
\<close>

section \<open>State\<close>

datatype swicc_fsm_state =
    SWICC_FSM_STATE_OFF
  | SWICC_FSM_STATE_ACTIVATION
  | SWICC_FSM_STATE_RESET_COLD
  | SWICC_FSM_STATE_ATR_REQ
  | SWICC_FSM_STATE_ATR_RES
  | SWICC_FSM_STATE_RESET_WARM
  | SWICC_FSM_STATE_PPS_REQ
  | SWICC_FSM_STATE_CMD_WAIT
  | SWICC_FSM_STATE_CMD_PROCEDURE
  | SWICC_FSM_STATE_CMD_DATA

text \<open>The number of a state in the enum orders the states.\<close>

definition fsm_state_num :: "swicc_fsm_state \<Rightarrow> nat" where
  "fsm_state_num s = (case s of
     SWICC_FSM_STATE_OFF \<Rightarrow> 0 | SWICC_FSM_STATE_ACTIVATION \<Rightarrow> 1 | SWICC_FSM_STATE_RESET_COLD \<Rightarrow> 2
   | SWICC_FSM_STATE_ATR_REQ \<Rightarrow> 3 | SWICC_FSM_STATE_ATR_RES \<Rightarrow> 4 | SWICC_FSM_STATE_RESET_WARM \<Rightarrow> 5
   | SWICC_FSM_STATE_PPS_REQ \<Rightarrow> 6 | SWICC_FSM_STATE_CMD_WAIT \<Rightarrow> 7 | SWICC_FSM_STATE_CMD_PROCEDURE \<Rightarrow> 8
   | SWICC_FSM_STATE_CMD_DATA \<Rightarrow> 9)"

lemma fsm_state_num_inj: "fsm_state_num s = fsm_state_num t \<longleftrightarrow> s = t"
  by (cases s; cases t) (simp_all add: fsm_state_num_def)

instantiation swicc_fsm_state :: linorder
begin

definition less_eq_swicc_fsm_state :: "swicc_fsm_state \<Rightarrow> swicc_fsm_state \<Rightarrow> bool" where
  "s \<le> t \<longleftrightarrow> fsm_state_num s \<le> fsm_state_num t"

definition less_swicc_fsm_state :: "swicc_fsm_state \<Rightarrow> swicc_fsm_state \<Rightarrow> bool" where
  "s < t \<longleftrightarrow> fsm_state_num s < fsm_state_num t"

instance
  by standard (auto simp: less_eq_swicc_fsm_state_def less_swicc_fsm_state_def fsm_state_num_inj)

end

record swicc_tp =
  tp_etu :: u32
  tp_fi :: u16
  tp_fmax :: u32
  tp_di :: u8

record swicc_internal =
  in_tpdu_cur :: swicc_tpdu_cmd
  in_apdu_cur :: bool
  in_tpdu_hdr :: bytes
  in_tpdu_hdr_len :: u8
  in_tpdu_processed :: bool
  in_pps :: bytes
  in_pps_len :: u8
  in_procedure_count :: u32
  in_fsm_state :: swicc_fsm_state
  in_tp :: swicc_tp
  in_apduh_pro :: "nat option"
  in_apduh_override :: "nat option"

record swicc_st =
  st_shutdown :: bool
  st_userdata :: nat
  st_cont_rx :: u32
  st_cont_tx :: u32
  st_buf_rx :: bytes
  st_buf_rx_len :: u16
  st_buf_tx :: bytes
  st_buf_tx_len :: u16
  st_fs :: swicc_fs
  st_rc :: swicc_apdu_rc
  st_in :: swicc_internal

definition internal_zero :: swicc_internal where
  "internal_zero = \<lparr>in_tpdu_cur = tpdu_zero, in_apdu_cur = False, in_tpdu_hdr = replicate 5 0,
     in_tpdu_hdr_len = 0, in_tpdu_processed = False, in_pps = replicate SWICC_PPS_LEN_MAX 0, in_pps_len = 0,
     in_procedure_count = 0, in_fsm_state = SWICC_FSM_STATE_OFF,
     in_tp = \<lparr>tp_etu = 0, tp_fi = 0, tp_fmax = 0, tp_di = 0\<rparr>, in_apduh_pro = None, in_apduh_override = None\<rparr>"

section \<open>Operations\<close>

text \<open>The size that is given to the \<^verbatim>\<open>memset\<close> of the TX buffer is that of one byte.\<close>

definition swicc_reset :: "swicc_st \<Rightarrow> (swicc_ret \<times> swicc_st) option" where
  "swicc_reset st = do {
     (ret, fs) \<leftarrow> swicc_va_reset (st_fs st);
     let st1 = st\<lparr>st_fs := fs\<rparr>;
     if ret \<noteq> SWICC_RET_SUCCESS then Some (ret, st1)
     else do {
       tx \<leftarrow> wrn (st_buf_tx st1) 0 [0];
       Some (SWICC_RET_SUCCESS,
         st1\<lparr>st_in := internal_zero\<lparr>in_apduh_pro := in_apduh_pro (st_in st1),
                                   in_apduh_override := in_apduh_override (st_in st1)\<rparr>,
             st_rc := rc_zero, st_buf_tx := tx, st_buf_tx_len := 0, st_cont_tx := 0, st_shutdown := False\<rparr>) } }"

definition swicc_terminate :: "swicc_st \<Rightarrow> swicc_st option" where
  "swicc_terminate st = do {
     d \<leftarrow> swicc_disk_unload (fs_disk (st_fs st));
     Some (st\<lparr>st_fs := (st_fs st)\<lparr>fs_disk := d\<rparr>\<rparr>) }"

definition swicc_fsm_state_get :: "swicc_st \<Rightarrow> swicc_fsm_state" where
  "swicc_fsm_state_get st = in_fsm_state (st_in st)"

text \<open>A \<^verbatim>\<open>NULL\<close> state or handler is refused.\<close>

definition swicc_apduh_pro_register ::
    "swicc_st option \<Rightarrow> nat option \<Rightarrow> swicc_ret \<times> swicc_st option" where
  "swicc_apduh_pro_register st handler = (case (st, handler) of
     (Some s, Some h) \<Rightarrow> (SWICC_RET_SUCCESS, Some (s\<lparr>st_in := (st_in s)\<lparr>in_apduh_pro := Some h\<rparr>\<rparr>))
   | _ \<Rightarrow> (SWICC_RET_PARAM_BAD, st))"

definition swicc_apduh_override_register ::
    "swicc_st option \<Rightarrow> nat option \<Rightarrow> swicc_ret \<times> swicc_st option" where
  "swicc_apduh_override_register st handler = (case (st, handler) of
     (Some s, Some h) \<Rightarrow> (SWICC_RET_SUCCESS, Some (s\<lparr>st_in := (st_in s)\<lparr>in_apduh_override := Some h\<rparr>\<rparr>))
   | _ \<Rightarrow> (SWICC_RET_PARAM_BAD, st))"

definition swicc_fs_disk_mount :: "swicc_st \<Rightarrow> swicc_disk \<Rightarrow> swicc_ret \<times> swicc_st" where
  "swicc_fs_disk_mount st disk =
     (if d_root (fs_disk (st_fs st)) = []
      then (SWICC_RET_SUCCESS, st\<lparr>st_fs := (st_fs st)\<lparr>fs_disk := disk\<rparr>\<rparr>)
      else (SWICC_RET_ERROR, st))"

section \<open>Well-formed states\<close>

text \<open>
  Sizes of the arrays and bounds of the counters that the operations rely on: the lengths of the two
  buffers do not exceed their memory, at least two bytes can be sent, a header or a PPS that is being
  received fits its array, and so does the data of the active command.
\<close>

definition internal_wf :: "swicc_internal \<Rightarrow> bool" where
  "internal_wf i \<longleftrightarrow> length (in_tpdu_hdr i) = 5 \<and> unat (in_tpdu_hdr_len i) \<le> 5 \<and>
     length (in_pps i) = SWICC_PPS_LEN_MAX \<and> unat (in_pps_len i) \<le> SWICC_PPS_LEN_MAX \<and>
     data_ok (cmd_data (in_tpdu_cur i)) \<and> unat (data_len (cmd_data (in_tpdu_cur i))) \<le> SWICC_DATA_MAX \<and>
     (in_fsm_state i \<in> {SWICC_FSM_STATE_CMD_PROCEDURE, SWICC_FSM_STATE_CMD_DATA} \<longrightarrow> in_apdu_cur i)"

definition bufs_wf :: "swicc_st \<Rightarrow> bool" where
  "bufs_wf st \<longleftrightarrow> unat (st_buf_rx_len st) \<le> length (st_buf_rx st) \<and>
     unat (st_buf_tx_len st) \<le> length (st_buf_tx st) \<and> 2 \<le> length (st_buf_tx st)"

definition st_wf :: "fsnode list \<Rightarrow> swicc_st \<Rightarrow> bool" where
  "st_wf ns st \<longleftrightarrow> internal_wf (st_in st) \<and> bufs_wf st \<and> rc_wf (st_rc st) \<and> fs_ok ns (st_fs st)"

lemma internal_zero_wf: "internal_wf (internal_zero\<lparr>in_apduh_pro := p, in_apduh_override := q\<rparr>)"
  by (simp add: internal_wf_def internal_zero_def tpdu_zero_def data_zero_def data_ok_def)

lemma wrn_byte: "0 < length b \<Longrightarrow> \<exists>b'. wrn b 0 [x] = Some b' \<and> length b' = length b"
  by (cases b) (simp_all add: wrn_def)

text \<open>
  What is selected after a reset: the (last) file with the ID 3F00, with the record pointer reset, as
  the current file and, when it is a folder, as the current folder with no elementary file in it; nothing
  at all when no file has that ID.
\<close>

definition mf_selected :: "fsnode list \<Rightarrow> swicc_va \<Rightarrow> bool" where
  "mf_selected ns v = (case last_with_id 0x3F00 (forest_files 0 ns) of
     None \<Rightarrow> v = va_zero
   | Some (ti, f) \<Rightarrow> va_cur_tree v = Some ti \<and> va_cur_file v = f \<and> va_cur_rcrd v = 0 \<and>
       (SWICC_FS_FILE_FOLDER_CHECK f \<longrightarrow> va_cur_df v = f \<and> va_cur_ef v = file_zero))"

text \<open>A reset succeeds exactly when there is a file 3F00 to select.\<close>

lemma va_reset_run:
  assumes "fs_ok ns fs"
  shows "\<exists>r fs'. swicc_va_reset fs = Some (r, fs') \<and> fs_ok ns fs' \<and> fs_disk fs' = fs_disk fs \<and>
    (r = SWICC_RET_SUCCESS \<longleftrightarrow> last_with_id 0x3F00 (forest_files 0 ns) \<noteq> None) \<and> mf_selected ns (fs_va fs')"
proof -
  let ?fs0 = "fs\<lparr>fs_va := va_zero\<rparr>"
  have ok0: "fs_ok ns ?fs0" using assms va_zero_ok by (simp add: fs_ok_def)
  then have ne: "d_root (fs_disk fs) \<noteq> []" by (auto simp: fs_ok_def forest_repr_def)
  have fr: "forest_repr (fs_disk ?fs0) ns" using ok0 by (simp add: fs_ok_def)
  have run: "swicc_va_reset fs = swicc_va_select_file_id ?fs0 0x3F00"
    using ne by (simp add: swicc_va_reset_def swicc_disk_tree_iter_start_def)
  show ?thesis
  proof (cases "last_with_id 0x3F00 (forest_files 0 ns)")
    case None
    then show ?thesis using select_id_run [OF ok0, of "0x3F00"] run ok0 by (simp add: mf_selected_def)
  next
    case (Some x)
    obtain ti f where x: "x = (ti, f)" by (cases x)
    have f: "file_in ns ti f" using last_with_id_in(1) [of "0x3F00" ns ti f] Some x fr by simp
    obtain v where v: "va_select_file ?fs0 ti f = Some (SWICC_RET_SUCCESS, ?fs0\<lparr>fs_va := v\<rparr>)" "va_ok ns v"
      "va_cur_tree v = Some ti" "va_cur_file v = f" "va_cur_rcrd v = 0"
      using va_select_file_ok [OF ok0 f] by blast
    have "va_cur_df v = f \<and> va_cur_ef v = file_zero" if "SWICC_FS_FILE_FOLDER_CHECK f"
      using v that by (auto simp: va_ok_def cur_ok_def SWICC_FS_FILE_FOLDER_CHECK_def SWICC_FS_FILE_EF_CHECK_def)
    then have "mf_selected ns v" using v Some x by (simp add: mf_selected_def)
    then show ?thesis
      using select_id_run [OF ok0, of "0x3F00"] run v Some x assms by (simp add: fs_ok_def)
  qed
qed

lemma reset_run:
  assumes "st_wf ns st"
  shows "\<exists>r st'. swicc_reset st = Some (r, st') \<and> fs_ok ns (st_fs st') \<and> fs_disk (st_fs st') = fs_disk (st_fs st) \<and>
    (r = SWICC_RET_SUCCESS \<longleftrightarrow> last_with_id 0x3F00 (forest_files 0 ns) \<noteq> None) \<and>
    mf_selected ns (fs_va (st_fs st')) \<and>
    (r = SWICC_RET_SUCCESS \<longrightarrow> st_wf ns st' \<and>
       st_in st' = internal_zero\<lparr>in_apduh_pro := in_apduh_pro (st_in st), in_apduh_override := in_apduh_override (st_in st)\<rparr> \<and>
       st_rc st' = rc_zero \<and> st_buf_tx_len st' = 0 \<and> st_cont_tx st' = 0 \<and> \<not> st_shutdown st') \<and>
    (r \<noteq> SWICC_RET_SUCCESS \<longrightarrow> st' = st\<lparr>st_fs := st_fs st'\<rparr>)"
proof -
  have ok: "fs_ok ns (st_fs st)" and b: "bufs_wf st" using assms by (simp_all add: st_wf_def)
  obtain r fs' where va: "swicc_va_reset (st_fs st) = Some (r, fs')" "fs_ok ns fs'" "fs_disk fs' = fs_disk (st_fs st)"
    "r = SWICC_RET_SUCCESS \<longleftrightarrow> last_with_id 0x3F00 (forest_files 0 ns) \<noteq> None" "mf_selected ns (fs_va fs')"
    using va_reset_run [OF ok] by blast
  have "0 < length (st_buf_tx st)" using b by (auto simp: bufs_wf_def)
  then obtain tx where tx: "wrn (st_buf_tx st) 0 [0] = Some tx" "length tx = length (st_buf_tx st)"
    using wrn_byte [of "st_buf_tx st" 0] by blast
  show ?thesis
    using va tx b internal_zero_wf
    by (cases "r = SWICC_RET_SUCCESS") (auto simp: swicc_reset_def Let_def st_wf_def bufs_wf_def)
qed

text \<open>
  C32.  A reset of a well-formed card selects the master file when there is one (it is the current file
  and the current folder, no elementary file and no record is selected), and then brings the card into
  the state right after power up: the state machine is off, nothing is left of a command, a PPS
  or a chained response, nothing is to be sent; the disk and the registered handlers are kept.  Without a
  master file the reset reports an error, leaves nothing selected and does not touch the rest of the state.
\<close>

theorem reset_initial:
  assumes "st_wf ns st"
  shows "\<exists>r st'. swicc_reset st = Some (r, st') \<and> fs_ok ns (st_fs st') \<and> fs_disk (st_fs st') = fs_disk (st_fs st) \<and>
    (r = SWICC_RET_SUCCESS \<longleftrightarrow> last_with_id 0x3F00 (forest_files 0 ns) \<noteq> None) \<and>
    (case last_with_id 0x3F00 (forest_files 0 ns) of
       None \<Rightarrow> fs_va (st_fs st') = va_zero
     | Some (ti, f) \<Rightarrow> va_cur_tree (fs_va (st_fs st')) = Some ti \<and> va_cur_file (fs_va (st_fs st')) = f \<and>
         va_cur_rcrd (fs_va (st_fs st')) = 0 \<and>
         (SWICC_FS_FILE_FOLDER_CHECK f \<longrightarrow> va_cur_df (fs_va (st_fs st')) = f \<and> va_cur_ef (fs_va (st_fs st')) = file_zero)) \<and>
    (r = SWICC_RET_SUCCESS \<longrightarrow> st_wf ns st' \<and>
       st_in st' = internal_zero\<lparr>in_apduh_pro := in_apduh_pro (st_in st), in_apduh_override := in_apduh_override (st_in st)\<rparr> \<and>
       st_rc st' = rc_zero \<and> st_buf_tx_len st' = 0 \<and> st_cont_tx st' = 0 \<and> \<not> st_shutdown st') \<and>
    (r \<noteq> SWICC_RET_SUCCESS \<longrightarrow> st' = st\<lparr>st_fs := st_fs st'\<rparr>)"
  using reset_run [OF assms] unfolding mf_selected_def .

text \<open>A card with the small disk, waiting in the middle of a header.\<close>

definition demo_st :: "swicc_disk \<Rightarrow> swicc_st" where
  "demo_st d = \<lparr>st_shutdown = False, st_userdata = 0, st_cont_rx = 0, st_cont_tx = 0,
     st_buf_rx = replicate 8 0, st_buf_rx_len = 0, st_buf_tx = replicate 300 0, st_buf_tx_len = 300,
     st_fs = demo_fs d, st_rc = rc_zero,
     st_in = internal_zero\<lparr>in_tpdu_hdr_len := 3, in_fsm_state := SWICC_FSM_STATE_CMD_WAIT, in_apduh_pro := Some 7\<rparr>\<rparr>"

lemma demo_st_wf: "fs_ok [demo_mf] (demo_fs d) \<Longrightarrow> st_wf [demo_mf] (demo_st d)"
  by (simp add: st_wf_def demo_st_def internal_wf_def bufs_wf_def internal_zero_def tpdu_zero_def data_zero_def data_ok_def)

lemma demo_mf_found: "last_with_id 0x3F00 (forest_files 0 [demo_mf]) = Some (0, file_of 0 0 0 demo_mf)"
  by (simp add: last_with_id_def demo_mf_def demo_files_def demo_hdr_def visits_def file_of_def Let_def)

lemma demo_mf_last: "last_with_id 0x3F00 (forest_files 0 [demo_mf]) \<noteq> None"
  unfolding demo_mf_found by simp

theorem reset_initial_witness:
  "\<exists>d st'. swicc_reset (demo_st d) = Some (SWICC_RET_SUCCESS, st') \<and> st_in st' = internal_zero\<lparr>in_apduh_pro := Some 7\<rparr> \<and>
     va_cur_tree (fs_va (st_fs st')) = Some 0 \<and> va_cur_file (fs_va (st_fs st')) = file_of 0 0 0 demo_mf"
proof -
  obtain d where "fs_ok [demo_mf] (demo_fs d)" using demo_fs_ok by blast
  from reset_initial [OF demo_st_wf [OF this]] demo_mf_found
  show ?thesis by (fastforce simp: demo_st_def internal_zero_def)
qed

end
