(* ===== verification/Swicc_Fs.thy ===== *)
theory Swicc_Fs
  imports Swicc_State
begin

text \<open>
  \<^verbatim>\<open>src/fs.c\<close>: the descriptions of a file that a SELECT command reports, i.e. its life cycle status and its
  file descriptor.
\<close>

abbreviation SWICC_FS_FILE_DESCR_LEN_MAX :: nat where "SWICC_FS_FILE_DESCR_LEN_MAX \<equiv> 5"

abbreviation SWICC_FS_LCS_OPER_ACTIV :: u8 where "SWICC_FS_LCS_OPER_ACTIV \<equiv> 0"
abbreviation SWICC_FS_LCS_OPER_DEACTIV :: u8 where "SWICC_FS_LCS_OPER_DEACTIV \<equiv> 1"
abbreviation SWICC_FS_LCS_TERM :: u8 where "SWICC_FS_LCS_TERM \<equiv> 2"

text \<open>The second component is what is stored in the output parameter, which is kept on an early return.\<close>

definition swicc_fs_file_descr_byte :: "swicc_fs_file \<Rightarrow> u8 \<Rightarrow> swicc_ret \<times> u8" where
  "swicc_fs_file_descr_byte f out =
     (let t = ih_type (hdr_item f) in
      if t = SWICC_FS_ITEM_TYPE_INVALID then (SWICC_RET_PARAM_BAD, out)
      else if t = SWICC_FS_ITEM_TYPE_FILE_MF \<or> t = SWICC_FS_ITEM_TYPE_FILE_ADF \<or> t = SWICC_FS_ITEM_TYPE_FILE_DF
      then (SWICC_RET_SUCCESS, 0x38)
      else if t = SWICC_FS_ITEM_TYPE_FILE_EF_TRANSPARENT then (SWICC_RET_SUCCESS, 0x08 OR 0x01)
      else if t = SWICC_FS_ITEM_TYPE_FILE_EF_LINEARFIXED then (SWICC_RET_SUCCESS, 0x08 OR 0x02)
      else if t = SWICC_FS_ITEM_TYPE_FILE_EF_CYCLIC then (SWICC_RET_SUCCESS, 0x08 OR 0x06)
      else (SWICC_RET_PARAM_BAD, 0x08))"

definition swicc_fs_file_data_coding :: "swicc_fs_file \<Rightarrow> u8 \<Rightarrow> swicc_ret \<times> u8" where
  "swicc_fs_file_data_coding f out =
     (if ih_type (hdr_item f) = SWICC_FS_ITEM_TYPE_INVALID then (SWICC_RET_PARAM_BAD, out)
      else (SWICC_RET_SUCCESS, 0x21))"

text \<open>A status outside the enum leaves the output as it is, with a success.\<close>

definition swicc_fs_file_lcs :: "swicc_fs_file \<Rightarrow> u8 option \<Rightarrow> swicc_ret \<times> u8 option" where
  "swicc_fs_file_lcs f lcs =
     (if ih_type (hdr_item f) = SWICC_FS_ITEM_TYPE_INVALID then (SWICC_RET_PARAM_BAD, lcs)
      else (SWICC_RET_SUCCESS,
        if ih_lcs (hdr_item f) = SWICC_FS_LCS_OPER_ACTIV then Some 0x05
        else if ih_lcs (hdr_item f) = SWICC_FS_LCS_OPER_DEACTIV then Some 0x04
        else if ih_lcs (hdr_item f) = SWICC_FS_LCS_TERM then Some 0x0C
        else lcs))"

text \<open>
  \<open>buf\<close> is the array for the descriptor.  The return code of the record count is not looked at: it is
  a success for the two types for which it is called.
\<close>

definition swicc_fs_file_descr ::
    "swicc_fs_file \<Rightarrow> bytes \<Rightarrow> u8 \<Rightarrow> (swicc_ret \<times> bytes \<times> u8) option" where
  "swicc_fs_file_descr f buf descr_len = do {
     b0 \<leftarrow> rd buf 0;
     b1 \<leftarrow> rd buf 1;
     let (ret_descr_byte, b0') = swicc_fs_file_descr_byte f b0;
     let (ret_coding, b1') = swicc_fs_file_data_coding f b1;
     buf1 \<leftarrow> wrn buf 0 [b0', b1'];
     let ok = (if ret_descr_byte = SWICC_RET_SUCCESS \<and> ret_coding = SWICC_RET_SUCCESS
               then SWICC_RET_SUCCESS else SWICC_RET_ERROR);
     let t = ih_type (hdr_item f);
     if t = SWICC_FS_ITEM_TYPE_FILE_EF_LINEARFIXED \<or> t = SWICC_FS_ITEM_TYPE_FILE_EF_CYCLIC then do {
       let rcrd_len = (ucast (hdr_spec_rcrd_size f) :: u16);
       (_, rcrd_cnt) \<leftarrow> swicc_disk_file_rcrd_cnt f 0;
       buf2 \<leftarrow> wrn buf1 2 (le16_put (htobe16 rcrd_len));
       if unat rcrd_cnt > 255 then Some (SWICC_RET_ERROR, buf2, descr_len)
       else do {
         buf3 \<leftarrow> wrn buf2 4 [ucast rcrd_cnt];
         Some (ok, buf3, 5) } }
     else Some (ok, buf1, 2) }"

end
