(* ===== verification/Swicc_Encoders.thy ===== *)
theory Swicc_Encoders
  imports Swicc_Dato
begin

text \<open>
  How the rest of the program uses the encoder of \<^verbatim>\<open>src/dato.c\<close>: chains of calls that stop at the first failure,
  and a calculus for the bytes that such a chain writes.
\<close>

section \<open>Chains of calls\<close>

text \<open>
  Chains of calls that stop at the first failure: the outer option is an undefined result, the
  inner one the \<^verbatim>\<open>break\<close> out of the loop.
\<close>

definition and_then :: "'a option option \<Rightarrow> ('a \<Rightarrow> 'b option option) \<Rightarrow> 'b option option" where
  "and_then m f = (case m of None \<Rightarrow> None | Some None \<Rightarrow> Some None | Some (Some x) \<Rightarrow> f x)"

definition succ :: "(swicc_ret \<times> 'a) option \<Rightarrow> 'a option option" where
  "succ m = (case m of None \<Rightarrow> None | Some (ret, x) \<Rightarrow> Some (if ret = SWICC_RET_SUCCESS then Some x else None))"

type_synonym enc_mem = "swicc_dato_bertlv_enc \<times> bytes"

definition enc_data :: "bytes \<Rightarrow> enc_mem \<Rightarrow> enc_mem option option" where
  "enc_data data em = (case em of (e, mem) \<Rightarrow>
     succ (swicc_dato_bertlv_enc_data e mem data (word_of_nat (length data))))"

definition enc_hdr :: "swicc_dato_bertlv_tag \<Rightarrow> enc_mem \<Rightarrow> enc_mem option option" where
  "enc_hdr tag em = (case em of (e, mem) \<Rightarrow> succ (swicc_dato_bertlv_enc_hdr e mem tag))"

text \<open>A data object: its value and then, in front of it, its header.\<close>

definition enc_do :: "bytes \<Rightarrow> swicc_dato_bertlv_tag \<Rightarrow> enc_mem \<Rightarrow> enc_mem option option" where
  "enc_do data tag em = and_then (enc_data data em) (enc_hdr tag)"

definition nstd_start :: "swicc_dato_bertlv_enc \<Rightarrow> swicc_dato_bertlv_enc option option" where
  "nstd_start e = succ (Some (swicc_dato_bertlv_enc_nstd_start e e))"

definition nstd_end :: "swicc_dato_bertlv_enc \<Rightarrow> swicc_dato_bertlv_enc \<Rightarrow> swicc_dato_bertlv_enc option option" where
  "nstd_end e nstd = succ (Some (swicc_dato_bertlv_enc_nstd_end e nstd))"

lemma and_then_simps: "and_then (Some (Some x)) f = f x" "and_then (Some None) f = Some None" "and_then None f = None"
  by (simp_all add: and_then_def)

lemma and_then_id: "and_then m (\<lambda>x. Some (Some x)) = m" "and_then m (\<lambda>(x, y). Some (Some (x, y))) = m"
  by (simp_all add: and_then_def split: option.splits)

lemma and_then_assoc: "and_then (and_then m f) g = and_then m (\<lambda>x. and_then (f x) g)"
  by (simp add: and_then_def split: option.splits)

section \<open>Encoders that write a byte string\<close>

text \<open>
  A piece of the encoding writes \<open>xs\<close> in front of what is there already, in every buffer (or dry run)
  that has room for it.
\<close>

definition writes :: "(enc_mem \<Rightarrow> enc_mem option option) \<Rightarrow> bytes \<Rightarrow> bool" where
  "writes f xs \<longleftrightarrow> (\<forall>e mem. enc_wf e mem \<longrightarrow> enc_len_val e = 0 \<longrightarrow> length xs \<le> enc_room e \<longrightarrow>
     f (e, mem) = Some (Some (enc_grow e (length xs) 0, mem_grow e mem xs)))"

named_theorems writes_intro

lemma writesD: "writes f xs \<Longrightarrow> enc_wf e mem \<Longrightarrow> enc_len_val e = 0 \<Longrightarrow> length xs \<le> enc_room e \<Longrightarrow>
    f (e, mem) = Some (Some (enc_grow e (length xs) 0, mem_grow e mem xs))"
  by (simp add: writes_def)

lemma writes_nothing [writes_intro]: "writes (\<lambda>em. Some (Some em)) []"
  by (simp add: writes_def enc_grow_0)

lemma writes_prim [writes_intro]: "tag_ok t \<Longrightarrow> writes (enc_do d t) (ber_tlv (Prim t d))"
  unfolding writes_def
proof (intro allI impI)
  fix e mem assume a: "tag_ok t" "enc_wf e mem" "enc_len_val e = 0" "length (ber_tlv (Prim t d)) \<le> enc_room e"
  from enc_prim [OF a(2,3,1,4)]
  show "enc_do d t (e, mem) = Some (Some (enc_grow e (length (ber_tlv (Prim t d))) 0, mem_grow e mem (ber_tlv (Prim t d))))"
    by (auto simp: enc_do_def and_then_def enc_data_def enc_hdr_def succ_def bind_Some_iff split: option.splits if_splits
        simp del: ber_tlv.simps)
qed

lemma writes_then [writes_intro]:
  assumes f: "writes f xs" and g: "writes g ys"
  shows "writes (\<lambda>em. and_then (f em) g) (ys @ xs)"
  unfolding writes_def
proof (intro allI impI)
  fix e mem assume a: "enc_wf e mem" "enc_len_val e = 0" "length (ys @ xs) \<le> enc_room e"
  let ?e = "enc_grow e (length xs) 0" and ?m = "mem_grow e mem xs"
  have fit: "length xs \<le> enc_room e" using a(3) by simp
  have z: "unat (0 :: u32) \<le> unat (enc_len e) + length xs" by simp
  note w = enc_grow_wf [OF a(1) fit z]
  have "f (e, mem) = Some (Some (?e, ?m))" by (rule writesD [OF f a(1,2) fit])
  moreover have "g (?e, ?m) = Some (Some (enc_grow ?e (length ys) 0, mem_grow ?e ?m ys))"
    by (rule writesD [OF g w(1)]) (use a(3) w(2) in \<open>simp_all add: enc_grow_def\<close>)
  moreover have "mem_grow ?e ?m ys = mem_grow e mem (ys @ xs)"
    by (rule mem_grow_grow [OF a(1)]) (use a(3) in simp_all)
  ultimately show "and_then (f (e, mem)) g = Some (Some (enc_grow e (length (ys @ xs)) 0, mem_grow e mem (ys @ xs)))"
    by (simp add: and_then_def enc_grow_grow add.commute)
qed

text \<open>A template around what \<open>f\<close> writes.\<close>

definition enc_nested :: "swicc_dato_bertlv_tag \<Rightarrow> (enc_mem \<Rightarrow> enc_mem option option) \<Rightarrow> enc_mem \<Rightarrow> enc_mem option option" where
  "enc_nested t f = (\<lambda>(e, mem). and_then (nstd_start e) (\<lambda>n. and_then (f (n, mem)) (\<lambda>(n, mem).
     and_then (nstd_end e n) (\<lambda>e. enc_hdr t (e, mem)))))"

lemma writes_nested:
  assumes f: "writes f xs" and t: "tag_ok t"
  shows "writes (enc_nested t f) (ber_hdr t (word_of_nat (length xs)) @ xs)"
  unfolding writes_def
proof (intro allI impI)
  let ?h = "ber_hdr t (word_of_nat (length xs))"
  fix e mem assume a: "enc_wf e mem" "enc_len_val e = 0" "length (?h @ xs) \<le> enc_room e"
  let ?n = "word_of_nat (length xs) :: u32"
  let ?e1 = "enc_grow e (length xs) ?n" and ?m1 = "mem_grow e mem xs"
  have fit: "length xs \<le> enc_room e" using a(3) by simp
  note n = unat_len_u32 [OF fit]
  obtain nst where nst: "swicc_dato_bertlv_enc_nstd_start e e = (SWICC_RET_SUCCESS, nst)" "enc_wf nst mem"
    "enc_len_val nst = 0" "enc_room e \<le> enc_room nst" "\<And>k. enc_len (enc_grow nst k 0) = word_of_nat k"
    "\<And>ys. mem_grow nst mem ys = mem_grow e mem ys"
    using enc_nstd [OF a(1,2)] by metis
  have sub: "f (nst, mem) = Some (Some (enc_grow nst (length xs) 0, ?m1))"
    using writesD [OF f nst(2,3)] fit nst(4,6) by simp
  have fin: "swicc_dato_bertlv_enc_nstd_end e (enc_grow nst (length xs) 0) = (SWICC_RET_SUCCESS, ?e1)"
    by (simp add: enc_nstd_end a(2) nst(5) n)
  have le: "unat ?n \<le> unat (enc_len e) + length xs" by (simp add: n)
  note g = enc_grow_wf [OF a(1) fit le]
  have lv1: "enc_len_val ?e1 = ?n" by (simp add: enc_grow_def)
  have fit2: "length (ber_hdr t (enc_len_val ?e1)) \<le> enc_room ?e1" using a(3) fit g(2) by (simp add: lv1)
  have m: "mem_grow ?e1 ?m1 ?h = mem_grow e mem (?h @ xs)"
    by (rule mem_grow_grow [OF a(1)]) (use a(3) le in simp_all)
  have "enc_hdr t (?e1, ?m1) = Some (Some (enc_grow ?e1 (length ?h) 0, mem_grow ?e1 ?m1 ?h))"
    using enc_hdr_ok [OF g(1) t fit2] by (simp add: enc_hdr_def succ_def lv1)
  then show "enc_nested t f (e, mem) = Some (Some (enc_grow e (length (?h @ xs)) 0, mem_grow e mem (?h @ xs)))"
    using nst(1) sub fin m
    by (simp add: enc_nested_def nstd_start_def nstd_end_def succ_def and_then_def enc_grow_grow add.commute)
qed

text \<open>A value that is added in two parts, the second part first.\<close>

lemma writes_split:
  assumes t: "tag_ok t"
  shows "writes (\<lambda>em. and_then (enc_data d2 em) (enc_do d1 t)) (ber_tlv (Prim t (d1 @ d2)))"
  unfolding writes_def
proof (intro allI impI)
  fix e mem assume a: "enc_wf e mem" "enc_len_val e = 0" "length (ber_tlv (Prim t (d1 @ d2))) \<le> enc_room e"
  let ?h = "ber_hdr t (word_of_nat (length (d1 @ d2)))"
  let ?n1 = "word_of_nat (length d1) :: u32" and ?n2 = "word_of_nat (length d2) :: u32"
  let ?e2 = "enc_grow e (length d2) ?n2" and ?m2 = "mem_grow e mem d2"
  let ?e1 = "enc_grow e (length (d1 @ d2)) (word_of_nat (length (d1 @ d2)))" and ?m1 = "mem_grow e mem (d1 @ d2)"
  have fit: "length d2 \<le> enc_room e" "length (d1 @ d2) \<le> enc_room e" "length (?h @ d1 @ d2) \<le> enc_room e" using a(3) by simp_all
  have n2: "unat ?n2 = length d2" by (rule unat_len_u32 [OF fit(1)])
  have n1: "unat ?n1 = length d1" by (rule unat_len_u32 [of _ e]) (use fit(2) in simp)
  have n: "unat (word_of_nat (length (d1 @ d2)) :: u32) = length (d1 @ d2)" by (rule unat_len_u32 [OF fit(2)])
  have s2: "swicc_dato_bertlv_enc_data e mem d2 ?n2 = Some (SWICC_RET_SUCCESS, ?e2, ?m2)"
    using enc_data_ok [OF a(1), of ?n2 d2] fit(1) a(2) by (simp add: n2)
  have le2: "unat ?n2 \<le> unat (enc_len e) + length d2" by (simp add: n2)
  note g2 = enc_grow_wf [OF a(1) fit(1) le2]
  have fit1: "unat ?n1 \<le> enc_room ?e2" using fit(2) g2(2) n1 by simp
  have "mem_grow ?e2 ?m2 d1 = ?m1" by (rule mem_grow_grow [OF a(1)]) (use fit(2) le2 in simp_all)
  moreover have "enc_grow ?e2 (length d1) (enc_len_val ?e2 + ?n1) = ?e1"
    by (simp add: enc_grow_def algebra_simps)
  ultimately have s1: "swicc_dato_bertlv_enc_data ?e2 ?m2 d1 ?n1 = Some (SWICC_RET_SUCCESS, ?e1, ?m1)"
    using enc_data_ok [OF g2(1) fit1, of d1] by (simp add: n1)
  have le1: "unat (word_of_nat (length (d1 @ d2)) :: u32) \<le> unat (enc_len e) + length (d1 @ d2)" by (simp only: n)
  note g1 = enc_grow_wf [OF a(1) fit(2) le1]
  have lv1: "enc_len_val ?e1 = word_of_nat (length (d1 @ d2))" by (simp add: enc_grow_def)
  have fit3: "length (ber_hdr t (enc_len_val ?e1)) \<le> enc_room ?e1" using fit(2,3) g1(2) unfolding lv1 by simp
  have m: "mem_grow ?e1 ?m1 ?h = mem_grow e mem (?h @ d1 @ d2)"
    by (rule mem_grow_grow [OF a(1)]) (use fit(3) le1 in simp_all)
  have "swicc_dato_bertlv_enc_hdr ?e1 ?m1 t = Some (SWICC_RET_SUCCESS, enc_grow ?e1 (length ?h) 0, mem_grow ?e1 ?m1 ?h)"
    using enc_hdr_ok [OF g1(1) t fit3] unfolding lv1 .
  then show "and_then (enc_data d2 (e, mem)) (enc_do d1 t) =
      Some (Some (enc_grow e (length (ber_tlv (Prim t (d1 @ d2)))) 0, mem_grow e mem (ber_tlv (Prim t (d1 @ d2)))))"
    using s2 s1 m by (simp add: enc_do_def enc_data_def enc_hdr_def succ_def and_then_def enc_grow_grow add.commute)
qed

end
