(* ===== verification/Swicc_Apduh.thy ===== *)
theory Swicc_Apduh
  imports Swicc_Fs Swicc_Encoders
begin

text \<open>
  \<^verbatim>\<open>src/apduh.c\<close>: the handlers of the APDU commands SELECT, READ BINARY, READ RECORD, UPDATE RECORD and
  GET RESPONSE, and the function that chooses among them.

  A handler gets the state, the response structure as it is before the call (its contents are
  whatever is in memory) and the number of procedure bytes sent so far.  The command it handles is
  the active command of the state, to which the only caller of the handlers passes the pointer.
\<close>

type_synonym handler = "swicc_st \<Rightarrow> swicc_apdu_res \<Rightarrow> u32 \<Rightarrow> (swicc_ret \<times> swicc_st \<times> swicc_apdu_res) option"

abbreviation st_cmd :: "swicc_st \<Rightarrow> swicc_apdu_cmd" where
  "st_cmd st \<equiv> in_tpdu_cur (st_in st)"

abbreviation st_va :: "swicc_st \<Rightarrow> swicc_va" where
  "st_va st \<equiv> fs_va (st_fs st)"

abbreviation st_disk :: "swicc_st \<Rightarrow> swicc_disk" where
  "st_disk st \<equiv> fs_disk (st_fs st)"

definition SWICC_APDUH_RES :: "swicc_apdu_res \<Rightarrow> u32 \<Rightarrow> u8 \<Rightarrow> u16 \<Rightarrow> swicc_apdu_res" where
  "SWICC_APDUH_RES res sw1 sw2 len =
     res\<lparr>res_sw1 := sw1, res_sw2 := sw2, res_data := (res_data res)\<lparr>data_len := len\<rparr>\<rparr>"

text \<open>A response without data ends most branches.\<close>

definition respond :: "swicc_st \<Rightarrow> swicc_apdu_res \<Rightarrow> u32 \<Rightarrow> u8 \<Rightarrow> (swicc_ret \<times> swicc_st \<times> swicc_apdu_res) option" where
  "respond st res sw1 sw2 = Some (SWICC_RET_SUCCESS, st, SWICC_APDUH_RES res sw1 sw2 0)"

definition apduh_unk :: handler where
  "apduh_unk st res procedure_count = respond st res SWICC_APDU_SW1_CHER_INS 0"

section \<open>SELECT\<close>

datatype select_meth =
    METH_RFU | METH_MF_ADF_DF_EF | METH_DF_NESTED | METH_EF_NESTED | METH_DF_PARENT
  | METH_DF_NAME | METH_MF_PATH | METH_DF_PATH | METH_DO | METH_DO_PARENT

datatype swicc_fs_occ = SWICC_FS_OCC_FIRST | SWICC_FS_OCC_LAST | SWICC_FS_OCC_NEXT | SWICC_FS_OCC_PREV

datatype select_data_req =
    DATA_REQ_RFU | DATA_REQ_FCI | DATA_REQ_FCP | DATA_REQ_FMD | DATA_REQ_TAGS | DATA_REQ_ABSENT

definition select_p1 :: "u8 \<Rightarrow> select_meth" where
  "select_p1 p1 =
     (if p1 = 0 then METH_MF_ADF_DF_EF
      else if p1 = 1 then METH_DF_NESTED
      else if p1 = 2 then METH_EF_NESTED
      else if p1 = 3 then METH_DF_PARENT
      else if p1 = 4 then METH_DF_NAME
      else if p1 = 8 then METH_MF_PATH
      else if p1 = 9 then METH_DF_PATH
      else if p1 = 0x10 then METH_DO
      else if p1 = 0x13 then METH_DO_PARENT
      else METH_RFU)"

definition p2_occ :: "u8 \<Rightarrow> swicc_fs_occ" where
  "p2_occ p2 =
     (let b = p2 AND 3 in
      if b = 0 then SWICC_FS_OCC_FIRST
      else if b = 1 then SWICC_FS_OCC_LAST
      else if b = 2 then SWICC_FS_OCC_NEXT
      else SWICC_FS_OCC_PREV)"

definition select_p2 :: "select_meth \<Rightarrow> u8 \<Rightarrow> select_data_req" where
  "select_p2 meth p2 =
     (let b = p2 AND 12 in
      if b = 0 then DATA_REQ_FCI
      else if b = 4 then DATA_REQ_FCP
      else if b = 8 then (if meth = METH_DO \<or> meth = METH_DO_PARENT then DATA_REQ_TAGS else DATA_REQ_FMD)
      else if b = 12 then DATA_REQ_ABSENT
      else DATA_REQ_RFU)"

text \<open>
  A path is read from and written back to the data of the command as 16-bit numbers, converted to
  the endianness of the host in place.
\<close>

fun path_load :: "bytes \<Rightarrow> nat \<Rightarrow> nat \<Rightarrow> u16 list option" where
  "path_load b off 0 = Some []"
| "path_load b off (Suc n) = do {
     x \<leftarrow> le16_get b off;
     xs \<leftarrow> path_load b (off + 2) n;
     Some (htobe16 x # xs) }"

definition path_store :: "bytes \<Rightarrow> u16 list \<Rightarrow> bytes option" where
  "path_store b xs = wrn b 0 (concat (map le16_put xs))"

definition set_cmd_bytes :: "swicc_st \<Rightarrow> bytes \<Rightarrow> swicc_st" where
  "set_cmd_bytes st b =
     st\<lparr>st_in := (st_in st)\<lparr>in_tpdu_cur := (st_cmd st)\<lparr>cmd_data := (cmd_data (st_cmd st))\<lparr>data_b := b\<rparr>\<rparr>\<rparr>\<rparr>"

text \<open>The \<^verbatim>\<open>switch\<close> over the method; the methods that are refused before do not get here.\<close>

definition select_perform :: "swicc_st \<Rightarrow> select_meth \<Rightarrow> swicc_fs_occ \<Rightarrow> (swicc_ret \<times> swicc_st) option" where
  "select_perform st meth occ =
     (let len = data_len (cmd_data (st_cmd st)); b = data_b (cmd_data (st_cmd st)) in
      if meth = METH_MF_ADF_DF_EF then
        if len \<noteq> 2 then Some (SWICC_RET_ERROR, st)
        else do {
          raw \<leftarrow> le16_get b 0;
          (ret, fs) \<leftarrow> swicc_va_select_file_id (st_fs st) (htobe16 raw);
          Some (ret, st\<lparr>st_fs := fs\<rparr>) }
      else if meth = METH_DF_NAME then
        if unat len > SWICC_FS_NAME_LEN \<or> unat len < SWICC_FS_ADF_AID_RID_LEN \<or> occ \<noteq> SWICC_FS_OCC_FIRST
        then Some (SWICC_RET_ERROR, st)
        else do {
          (ret, fs) \<leftarrow> swicc_va_select_adf (st_fs st) b (ucast len - 5);
          if ret = SWICC_RET_FS_NOT_FOUND then do {
            (ret, fs') \<leftarrow> swicc_va_select_file_dfname fs b (ucast len);
            Some (ret, st\<lparr>st_fs := fs'\<rparr>) }
          else Some (ret, st\<lparr>st_fs := fs\<rparr>) }
      else if meth = METH_MF_PATH \<or> meth = METH_DF_PATH then
        if unat len < 2 \<or> occ \<noteq> SWICC_FS_OCC_FIRST \<or> unat len mod 2 \<noteq> 0 then Some (SWICC_RET_ERROR, st)
        else do {
          path \<leftarrow> path_load b 0 (unat len div 2);
          (ret, fs, path') \<leftarrow> swicc_va_select_file_path (st_fs st)
            (if meth = METH_MF_PATH then SWICC_FS_PATH_TYPE_MF else SWICC_FS_PATH_TYPE_DF) path;
          b' \<leftarrow> path_store b path';
          Some (ret, (set_cmd_bytes st b')\<lparr>st_fs := fs\<rparr>) }
      else None)"

subsection \<open>The control information\<close>

text \<open>\<open>tags\<close> are the parsed tags; the descriptor of the file is \<open>descr\<close> up to its length.\<close>

definition select_name_do :: "swicc_fs_file \<Rightarrow> swicc_dato_bertlv_tag list \<Rightarrow> enc_mem \<Rightarrow> enc_mem option option" where
  "select_name_do f tags em =
     (let t = ih_type (hdr_item f) in
      if t = SWICC_FS_ITEM_TYPE_FILE_MF then enc_do (hdr_spec_name f) (tags ! 6) em
      else if t = SWICC_FS_ITEM_TYPE_FILE_DF then enc_do (hdr_spec_name f) (tags ! 6) em
      else if t = SWICC_FS_ITEM_TYPE_FILE_ADF then
        and_then (enc_data (hdr_spec_adf_pix f) em) (enc_do (hdr_spec_adf_rid f) (tags ! 6))
      else Some (Some em))"

definition select_fcp_items ::
    "swicc_fs_file \<Rightarrow> u8 \<Rightarrow> bytes \<Rightarrow> swicc_dato_bertlv_tag list \<Rightarrow> enc_mem \<Rightarrow> enc_mem option option" where
  "select_fcp_items f lcs descr tags em =
     and_then (enc_do (le32_put (htobe32 (data_size f))) (tags ! 3) em) (\<lambda>em.
     and_then (if fh_sid (hdr_file f) \<noteq> 0 then enc_do [fh_sid (hdr_file f)] (tags ! 7) em else Some (Some em)) (\<lambda>em.
     and_then (enc_do [lcs] (tags ! 8) em) (\<lambda>em.
     and_then (select_name_do f tags em) (\<lambda>em.
     and_then (if fh_id (hdr_file f) \<noteq> 0 then enc_do (le16_put (htobe16 (fh_id (hdr_file f)))) (tags ! 5) em
               else Some (Some em))
     (enc_do descr (tags ! 4))))))"

definition select_fcp ::
    "swicc_fs_file \<Rightarrow> u8 \<Rightarrow> bytes \<Rightarrow> swicc_dato_bertlv_tag list \<Rightarrow> enc_mem \<Rightarrow> enc_mem option option" where
  "select_fcp f lcs descr tags = (\<lambda>(e, mem).
     and_then (nstd_start e) (\<lambda>e_fcp.
     and_then (select_fcp_items f lcs descr tags (e_fcp, mem)) (\<lambda>(e_fcp, mem).
     and_then (nstd_end e e_fcp) (\<lambda>e. enc_hdr (tags ! 0) (e, mem)))))"

definition select_fmd :: "swicc_dato_bertlv_tag list \<Rightarrow> enc_mem \<Rightarrow> enc_mem option option" where
  "select_fmd tags = (\<lambda>(e, mem).
     and_then (nstd_start e) (\<lambda>e_fmd.
     and_then (nstd_end e e_fmd) (\<lambda>e. enc_hdr (tags ! 1) (e, mem))))"

text \<open>One pass of the loop: with no buffer the dry run, which only computes the length.\<close>

definition select_enc_pass ::
    "select_data_req \<Rightarrow> swicc_fs_file \<Rightarrow> u8 \<Rightarrow> bytes \<Rightarrow> swicc_dato_bertlv_tag list \<Rightarrow> bool \<Rightarrow> u32 \<Rightarrow> bytes \<Rightarrow>
      enc_mem option option" where
  "select_enc_pass data_req f lcs descr tags null bertlv_len mem =
     (let enc = swicc_dato_bertlv_enc_init null bertlv_len in
      and_then (if data_req = DATA_REQ_FCI then nstd_start enc else Some (Some enc)) (\<lambda>e_nstd.
      and_then (if data_req = DATA_REQ_FCI \<or> data_req = DATA_REQ_FCP
                then select_fcp f lcs descr tags (e_nstd, mem) else Some (Some (e_nstd, mem))) (\<lambda>em.
      and_then (if data_req = DATA_REQ_FCI \<or> data_req = DATA_REQ_FMD then select_fmd tags em else Some (Some em)) (\<lambda>(e_nstd, mem).
      if data_req = DATA_REQ_FCI then
        and_then (nstd_end enc e_nstd) (\<lambda>enc. enc_hdr (tags ! 2) (enc, mem))
      else Some (Some (e_nstd, mem))))))"

text \<open>
  Both passes.  The result is the response buffer and its used length, or \<^term>\<open>None\<close> when the
  encoding failed or does not fit the buffer (a pass that fails half way leaves its bytes in the
  buffer, where no length covers them; they are not kept here).
\<close>

definition select_bertlv ::
    "select_data_req \<Rightarrow> swicc_fs_file \<Rightarrow> u8 \<Rightarrow> bytes \<Rightarrow> swicc_dato_bertlv_tag list \<Rightarrow> bytes \<Rightarrow>
      (bytes \<times> u32) option option" where
  "select_bertlv data_req f lcs descr tags res_b =
     and_then (select_enc_pass data_req f lcs descr tags True 0 []) (\<lambda>(enc, _).
       if unat (enc_len enc) > length res_b then Some None
       else and_then (select_enc_pass data_req f lcs descr tags False (enc_len enc) res_b)
         (\<lambda>(_, b). Some (Some (b, enc_len enc))))"

fun tags_create :: "u32 list \<Rightarrow> swicc_dato_bertlv_tag list option option" where
  "tags_create [] = Some (Some [])"
| "tags_create (t # ts) =
     and_then (succ (swicc_dato_bertlv_tag_create (tlv_tag bertlv_zero) t)) (\<lambda>tag.
     and_then (tags_create ts) (\<lambda>tags. Some (Some (tag # tags))))"

abbreviation select_tags :: "u32 list" where
  "select_tags \<equiv> [0x62, 0x64, 0x6F, 0x80, 0x82, 0x83, 0x84, 0x88, 0x8A]"

text \<open>The encoding goes into the response chaining buffer, from where it can be fetched.\<close>

definition select_enqueue ::
    "swicc_st \<Rightarrow> swicc_apdu_res \<Rightarrow> (bytes \<times> u32) option \<Rightarrow> (swicc_ret \<times> swicc_st \<times> swicc_apdu_res) option" where
  "select_enqueue st res enc = (case enc of
     None \<Rightarrow> respond st res SWICC_APDU_SW1_CHER_UNK 0
   | Some (b, bertlv_len) \<Rightarrow> do {
       let res' = res\<lparr>res_data := (res_data res)\<lparr>data_b := b\<rparr>\<rparr>;
       (ret_enq, rc) \<leftarrow> rc_enq (st_rc st) b bertlv_len;
       if ret_enq = SWICC_RET_SUCCESS
       then respond (st\<lparr>st_rc := rc\<rparr>) res' SWICC_APDU_SW1_NORM_BYTES_AVAILABLE (ucast bertlv_len)
       else respond (st\<lparr>st_rc := rc\<rparr>) res' SWICC_APDU_SW1_CHER_UNK 0 })"

definition select_describe ::
    "swicc_st \<Rightarrow> swicc_apdu_res \<Rightarrow> select_data_req \<Rightarrow> swicc_fs_file \<Rightarrow> swicc_dato_bertlv_tag list \<Rightarrow>
      (swicc_ret \<times> swicc_st \<times> swicc_apdu_res) option" where
  "select_describe st res data_req f tags = do {
     let (ret_lcs, lcs_out) = swicc_fs_file_lcs f None;
     if ret_lcs \<noteq> SWICC_RET_SUCCESS then respond st res SWICC_APDU_SW1_CHER_UNK 0
     else do {
       (ret_descr, descr, descr_len) \<leftarrow> swicc_fs_file_descr f (replicate SWICC_FS_FILE_DESCR_LEN_MAX 0) 0;
       if ret_descr \<noteq> SWICC_RET_SUCCESS then respond st res SWICC_APDU_SW1_CHER_UNK 0
       else do {
         lcs \<leftarrow> lcs_out;
         enc \<leftarrow> select_bertlv data_req f lcs (take (unat descr_len) descr) tags (data_b (res_data res));
         select_enqueue st res enc } } }"

text \<open>What is answered after a file has been selected.\<close>

definition select_answer :: "swicc_st \<Rightarrow> swicc_apdu_res \<Rightarrow> select_data_req \<Rightarrow> (swicc_ret \<times> swicc_st \<times> swicc_apdu_res) option" where
  "select_answer st res data_req =
     (let f = va_cur_file (st_va st) in
      if data_req = DATA_REQ_ABSENT then respond st res SWICC_APDU_SW1_NORM_NONE 0
      else do {
        tags \<leftarrow> tags_create select_tags;
        case tags of
          None \<Rightarrow> respond st res SWICC_APDU_SW1_CHER_UNK 0
        | Some tags \<Rightarrow> select_describe st res data_req f tags })"

definition apduh_select :: handler where
  "apduh_select st res procedure_count =
     (let cmd = st_cmd st; p1 = hdr_p1 (cmd_hdr cmd); p2 = hdr_p2 (cmd_hdr cmd); len = data_len (cmd_data cmd) in
      if p2 AND 0xF0 \<noteq> 0 then respond st res SWICC_APDU_SW1_CHER_P1P2_INFO 0x86
      else if procedure_count = 0 \<and> len \<noteq> 0 then respond st res SWICC_APDU_SW1_CHER_UNK 0
      else if procedure_count = 0 \<and> cmd_p3 cmd > 0 then
        Some (SWICC_RET_SUCCESS, st, SWICC_APDUH_RES res SWICC_APDU_SW1_PROC_ACK_ALL 0 (ucast (cmd_p3 cmd)))
      else if len \<noteq> ucast (cmd_p3 cmd) \<and> procedure_count \<ge> 1 then respond st res SWICC_APDU_SW1_CHER_LEN 0x02
      else
        (let meth = select_p1 p1; occ = p2_occ p2; data_req = select_p2 meth p2 in
         if meth = METH_RFU \<or> data_req = DATA_REQ_RFU \<or> meth = METH_DO \<or> meth = METH_DO_PARENT \<or>
            meth = METH_DF_PARENT \<or> meth = METH_EF_NESTED \<or> meth = METH_DF_NESTED
         then respond st res SWICC_APDU_SW1_CHER_P1P2 0
         else do {
           (ret_select, st') \<leftarrow> select_perform st meth occ;
           if ret_select = SWICC_RET_FS_NOT_FOUND then respond st' res SWICC_APDU_SW1_CHER_P1P2_INFO 0x82
           else if ret_select \<noteq> SWICC_RET_SUCCESS then respond st' res SWICC_APDU_SW1_CHER_UNK 0
           else select_answer st' res data_req }))"

section \<open>Memory of the trees\<close>

text \<open>Reading from and writing to memory through a pointer into a tree buffer.\<close>

definition tree_rd :: "swicc_disk \<Rightarrow> nat \<Rightarrow> nat \<Rightarrow> nat \<Rightarrow> bytes option" where
  "tree_rd disk ti off n = do { t \<leftarrow> rd (d_root disk) ti; rdn (t_buf t) off n }"

definition tree_wr :: "swicc_disk \<Rightarrow> nat \<Rightarrow> nat \<Rightarrow> bytes \<Rightarrow> swicc_disk option" where
  "tree_wr disk ti off bs = do {
     t \<leftarrow> rd (d_root disk) ti;
     b \<leftarrow> wrn (t_buf t) off bs;
     Some (disk\<lparr>d_root := (d_root disk)[ti := t\<lparr>t_buf := b\<rparr>]\<rparr>) }"

text \<open>The lookup of a short ID in the current tree; a lookup in the \<^verbatim>\<open>NULL\<close> tree is a bad parameter.\<close>

definition cur_tree_sid_lookup :: "swicc_st \<Rightarrow> u8 \<Rightarrow> (swicc_ret \<times> swicc_fs_file) option" where
  "cur_tree_sid_lookup st sid = (case va_cur_tree (st_va st) of
     None \<Rightarrow> Some (SWICC_RET_PARAM_BAD, file_zero)
   | Some ti \<Rightarrow> do { t \<leftarrow> rd (d_root (st_disk st)) ti; swicc_disk_lutsid_lookup ti t sid file_zero })"

definition put_bytes :: "swicc_apdu_res \<Rightarrow> bytes \<Rightarrow> swicc_apdu_res option" where
  "put_bytes res bs = do {
     b \<leftarrow> wrn (data_b (res_data res)) 0 bs;
     Some (res\<lparr>res_data := (res_data res)\<lparr>data_b := b\<rparr>\<rparr>) }"

section \<open>READ BINARY\<close>

text \<open>The part behind the choice of the file: \<open>sid\<close> is the short ID when one was used.\<close>

definition bin_read_file ::
    "swicc_st \<Rightarrow> swicc_apdu_res \<Rightarrow> swicc_fs_file \<Rightarrow> u16 \<Rightarrow> u8 \<Rightarrow> u8 option \<Rightarrow> (swicc_ret \<times> swicc_st \<times> swicc_apdu_res) option" where
  "bin_read_file st res f offset len_expected sid =
     (if ih_type (hdr_item f) = SWICC_FS_ITEM_TYPE_FILE_EF_TRANSPARENT then
        if ucast offset \<ge> data_size f then respond st res SWICC_APDU_SW1_CHER_P1P2 0
        else if ucast offset + ucast len_expected > data_size f then
          respond st res SWICC_APDU_SW1_CHER_LE (ucast (data_size f - ucast offset))
        else do {
          (ti, off) \<leftarrow> data_ptr f;
          bs \<leftarrow> tree_rd (st_disk st) ti (unat off + unat offset) (unat len_expected);
          res1 \<leftarrow> put_bytes res bs;
          let res2 = SWICC_APDUH_RES res1 SWICC_APDU_SW1_NORM_NONE 0 (ucast len_expected);
          case sid of
            None \<Rightarrow> Some (SWICC_RET_SUCCESS, st, res2)
          | Some sid \<Rightarrow> do {
              (ret, fs) \<leftarrow> swicc_va_select_file_sid (st_fs st) sid;
              if ret = SWICC_RET_SUCCESS then Some (SWICC_RET_SUCCESS, st\<lparr>st_fs := fs\<rparr>, res2)
              else respond (st\<lparr>st_fs := fs\<rparr>) res2 SWICC_APDU_SW1_CHER_UNK 0 } }
      else respond st res SWICC_APDU_SW1_CHER_CMD 0x81)"

definition apduh_bin_read :: handler where
  "apduh_bin_read st res procedure_count =
     (let cmd = st_cmd st; p1 = hdr_p1 (cmd_hdr cmd); p2 = hdr_p2 (cmd_hdr cmd) in
      if hdr_ins (cmd_hdr cmd) \<noteq> 0xB0 then respond st res SWICC_APDU_SW1_CHER_INS 0
      else if procedure_count = 0 then respond st res SWICC_APDU_SW1_PROC_ACK_ALL 0
      else if data_len (cmd_data cmd) \<noteq> 0 then respond st res SWICC_APDU_SW1_CHER_LEN 0x02
      else if p1 AND 0x80 \<noteq> 0 then
        if p1 AND 0x60 \<noteq> 0 then respond st res SWICC_APDU_SW1_CHER_P1P2_INFO 0x86
        else do {
          let sid = p1 AND 0x1F;
          (ret_lookup, f) \<leftarrow> cur_tree_sid_lookup st sid;
          if ret_lookup = SWICC_RET_FS_NOT_FOUND then respond st res SWICC_APDU_SW1_CHER_P1P2_INFO 0x82
          else if ret_lookup \<noteq> SWICC_RET_SUCCESS then respond st res SWICC_APDU_SW1_CHER_UNK 0
          else bin_read_file st res f (ucast p2) (cmd_p3 cmd) (Some sid) }
      else
        (let offset = push_bit 8 (ucast (p1 AND 0x7F)) OR ucast p2; f = va_cur_ef (st_va st) in
         if ih_type (hdr_item f) = SWICC_FS_ITEM_TYPE_INVALID then respond st res SWICC_APDU_SW1_CHER_CMD 0x86
         else bin_read_file st res f offset (cmd_p3 cmd) None))"

section \<open>READ RECORD and UPDATE RECORD\<close>

datatype rcrd_trgt = TRGT_EF_CUR | TRGT_EF_SID | TRGT_MANY

datatype rcrd_what = WHAT_P1 | WHAT_P1_TO_LAST | WHAT_LAST_TO_P1 | WHAT_RFU

datatype rcrd_meth = METH_RCRD_ID | METH_RCRD_NUM

text \<open>The parts of P2, the same for both commands.\<close>

definition rcrd_p2_target :: "u8 \<Rightarrow> u8" where
  "rcrd_p2_target p2 = drop_bit 3 (p2 AND 0xF8)"

definition rcrd_p2 :: "u8 \<Rightarrow> rcrd_trgt \<times> rcrd_meth \<times> rcrd_what" where
  "rcrd_p2 p2 =
     (let target = rcrd_p2_target p2;
          trgt = (if target = 0 then TRGT_EF_CUR else if target = 0x1F then TRGT_MANY else TRGT_EF_SID) in
      if p2 AND 0x04 \<noteq> 0 then
        (let b = p2 AND 3 in
         (trgt, METH_RCRD_NUM,
          if b = 0 then WHAT_P1 else if b = 1 then WHAT_P1_TO_LAST else if b = 2 then WHAT_LAST_TO_P1 else WHAT_RFU))
      else (trgt, METH_RCRD_ID, WHAT_RFU))"

text \<open>The refused parameters with their status words.\<close>

definition rcrd_refuse :: "u8 \<Rightarrow> u8 \<Rightarrow> (u32 \<times> u8) option" where
  "rcrd_refuse p1 p2 = (case rcrd_p2 p2 of (trgt, meth, what) \<Rightarrow>
     if p2 = 0xF8 \<or> meth = METH_RCRD_ID \<or> trgt = TRGT_MANY then Some (SWICC_APDU_SW1_CHER_P1P2_INFO, 0x81)
     else if (trgt = TRGT_MANY \<and> meth = METH_RCRD_ID) \<or> (trgt = TRGT_MANY \<and> meth = METH_RCRD_NUM) \<or>
             what = WHAT_RFU \<or> p1 = 0 \<or> p1 = 0xFF \<or> (meth = METH_RCRD_NUM \<and> p1 < 1)
     then Some (SWICC_APDU_SW1_CHER_P1P2_INFO, 0x86)
     else None)"

definition rcrd_target_ef :: "swicc_st \<Rightarrow> u8 \<Rightarrow> (swicc_ret \<times> swicc_fs_file) option" where
  "rcrd_target_ef st p2 = (case rcrd_p2 p2 of (trgt, _) \<Rightarrow>
     if trgt = TRGT_EF_CUR then Some (SWICC_RET_SUCCESS, va_cur_ef (st_va st))
     else cur_tree_sid_lookup st (rcrd_p2_target p2))"

text \<open>The selections of the file (when it was given by its short ID) and of the record.\<close>

definition rcrd_select :: "swicc_st \<Rightarrow> u8 \<Rightarrow> swicc_fs_file \<Rightarrow> u8 \<Rightarrow> (bool \<times> swicc_st) option" where
  "rcrd_select st p2 ef rcrd_idx = do {
     (ret_file, fs) \<leftarrow> (if fst (rcrd_p2 p2) = TRGT_EF_SID then swicc_va_select_file_sid (st_fs st) (fh_sid (hdr_file ef))
                       else Some (SWICC_RET_SUCCESS, st_fs st));
     if ret_file \<noteq> SWICC_RET_SUCCESS then Some (False, st\<lparr>st_fs := fs\<rparr>)
     else do {
       (ret_rcrd, fs') \<leftarrow> swicc_va_select_record_idx fs rcrd_idx;
       Some (ret_rcrd = SWICC_RET_SUCCESS, st\<lparr>st_fs := fs'\<rparr>) } }"

text \<open>What is done with the record once it is found at \<open>(ti, off)\<close>, for each of the commands.\<close>

definition rcrd_read_found ::
    "swicc_st \<Rightarrow> swicc_apdu_res \<Rightarrow> swicc_fs_file \<Rightarrow> nat \<Rightarrow> u32 \<Rightarrow> u8 \<Rightarrow> (swicc_ret \<times> swicc_st \<times> swicc_apdu_res) option" where
  "rcrd_read_found st res ef ti off rcrd_len =
     (let cmd = st_cmd st; p1 = hdr_p1 (cmd_hdr cmd); p2 = hdr_p2 (cmd_hdr cmd) in
      if cmd_p3 cmd \<noteq> rcrd_len then respond st res SWICC_APDU_SW1_CHER_LE rcrd_len
      else do {
        (ok, st') \<leftarrow> rcrd_select st p2 ef (p1 - 1);
        if \<not> ok then respond st' res SWICC_APDU_SW1_CHER_UNK 0
        else do {
          bs \<leftarrow> tree_rd (st_disk st') ti (unat off) (unat rcrd_len);
          res' \<leftarrow> put_bytes (SWICC_APDUH_RES res SWICC_APDU_SW1_NORM_NONE 0 (ucast rcrd_len)) bs;
          Some (SWICC_RET_SUCCESS, st', res') } })"

definition rcrd_update_found ::
    "swicc_st \<Rightarrow> swicc_apdu_res \<Rightarrow> u32 \<Rightarrow> swicc_fs_file \<Rightarrow> nat \<Rightarrow> u32 \<Rightarrow> u8 \<Rightarrow>
      (swicc_ret \<times> swicc_st \<times> swicc_apdu_res) option" where
  "rcrd_update_found st res procedure_count ef ti off rcrd_len =
     (let cmd = st_cmd st; p1 = hdr_p1 (cmd_hdr cmd); p2 = hdr_p2 (cmd_hdr cmd) in
      if procedure_count = 0 then
        Some (SWICC_RET_SUCCESS, st, SWICC_APDUH_RES res SWICC_APDU_SW1_PROC_ACK_ALL 0 (ucast rcrd_len))
      else if data_len (cmd_data cmd) \<noteq> ucast rcrd_len then
        Some (SWICC_RET_SUCCESS, st, SWICC_APDUH_RES res SWICC_APDU_SW1_CHER_LEN 0x02 (ucast rcrd_len))
      else if cmd_p3 cmd \<noteq> rcrd_len then respond st res SWICC_APDU_SW1_CHER_LE rcrd_len
      else do {
        (ok, st') \<leftarrow> rcrd_select st p2 ef (p1 - 1);
        if \<not> ok then respond st' res SWICC_APDU_SW1_CHER_UNK 0
        else do {
          bs \<leftarrow> rdn (data_b (cmd_data cmd)) 0 (unat rcrd_len);
          d \<leftarrow> tree_wr (st_disk st') ti (unat off) bs;
          respond (st'\<lparr>st_fs := (st_fs st')\<lparr>fs_disk := d\<rparr>\<rparr>) res SWICC_APDU_SW1_NORM_NONE 0 } })"

text \<open>Finding the record, the same for both commands: \<open>k\<close> gets the file, the record and its length.\<close>

definition rcrd_find ::
    "swicc_st \<Rightarrow> swicc_apdu_res \<Rightarrow> (swicc_fs_file \<Rightarrow> nat \<Rightarrow> u32 \<Rightarrow> u8 \<Rightarrow> (swicc_ret \<times> swicc_st \<times> swicc_apdu_res) option) \<Rightarrow>
      (swicc_ret \<times> swicc_st \<times> swicc_apdu_res) option" where
  "rcrd_find st res k =
     (let p1 = hdr_p1 (cmd_hdr (st_cmd st)); p2 = hdr_p2 (cmd_hdr (st_cmd st)) in
      case rcrd_refuse p1 p2 of
        Some (sw1, sw2) \<Rightarrow> respond st res sw1 sw2
      | None \<Rightarrow> do {
          (ret_ef, ef) \<leftarrow> rcrd_target_ef st p2;
          if ret_ef = SWICC_RET_FS_NOT_FOUND then respond st res SWICC_APDU_SW1_CHER_P1P2_INFO 0x82
          else if ret_ef \<noteq> SWICC_RET_SUCCESS then respond st res SWICC_APDU_SW1_CHER_UNK 0
          else do {
            (ret_rcrd, rcrd) \<leftarrow> (if va_cur_tree (st_va st) = None then Some (SWICC_RET_PARAM_BAD, None)
                                else swicc_disk_file_rcrd ef (p1 - 1));
            if ret_rcrd = SWICC_RET_FS_NOT_FOUND then respond st res SWICC_APDU_SW1_CHER_P1P2_INFO 0x83
            else if ret_rcrd \<noteq> SWICC_RET_SUCCESS then respond st res SWICC_APDU_SW1_CHER_UNK 0
            else do {
              ((ti, off), rcrd_len) \<leftarrow> rcrd;
              k ef ti off rcrd_len } } })"

definition apduh_rcrd_read :: handler where
  "apduh_rcrd_read st res procedure_count =
     (let cmd = st_cmd st in
      if hdr_ins (cmd_hdr cmd) \<noteq> 0xB2 then respond st res SWICC_APDU_SW1_CHER_INS 0
      else if procedure_count = 0 then respond st res SWICC_APDU_SW1_PROC_ACK_ALL 0
      else if data_len (cmd_data cmd) \<noteq> 0 then respond st res SWICC_APDU_SW1_CHER_LEN 0x02
      else rcrd_find st res (rcrd_read_found st res))"

definition apduh_rcrd_update :: handler where
  "apduh_rcrd_update st res procedure_count =
     (if hdr_ins (cmd_hdr (st_cmd st)) \<noteq> 0xDC then respond st res SWICC_APDU_SW1_CHER_INS 0
      else rcrd_find st res (rcrd_update_found st res procedure_count))"

section \<open>GET RESPONSE\<close>

definition apduh_res_get :: handler where
  "apduh_res_get st res procedure_count =
     (let cmd = st_cmd st; p3 = cmd_p3 cmd in
      if procedure_count = 0 then respond st res SWICC_APDU_SW1_PROC_ACK_ALL 0
      else if data_len (cmd_data cmd) \<noteq> 0 then respond st res SWICC_APDU_SW1_CHER_LEN 0x01
      else if hdr_p1 (cmd_hdr cmd) \<noteq> 0 \<or> hdr_p2 (cmd_hdr cmd) \<noteq> 0 then
        respond st res SWICC_APDU_SW1_CHER_P1P2_INFO 0x86
      else if p3 = 0 then respond st res SWICC_APDU_SW1_NORM_NONE 0
      else do {
        (ret_rc, rc, b, _) \<leftarrow> rc_deq (st_rc st) (data_b (res_data res)) (ucast p3);
        let st' = st\<lparr>st_rc := rc\<rparr>;
        let res' = res\<lparr>res_data := (res_data res)\<lparr>data_b := b\<rparr>\<rparr>;
        if ret_rc = SWICC_RET_SUCCESS then
          (let rem = rc_len_rem rc in
           if rem > 0 then
             Some (SWICC_RET_SUCCESS, st', SWICC_APDUH_RES res' SWICC_APDU_SW1_NORM_BYTES_AVAILABLE
               (if unat rem > 255 then 0xFF else ucast rem) (ucast p3))
           else Some (SWICC_RET_SUCCESS, st', SWICC_APDUH_RES res' SWICC_APDU_SW1_NORM_NONE 0 (ucast p3)))
        else respond st' res' SWICC_APDU_SW1_WARN_NVM_CHGN 0x82 })"

section \<open>Choosing the handler\<close>

definition apduh_func :: "u8 \<Rightarrow> handler" where
  "apduh_func ins =
     (if ins = 0xA4 then apduh_select
      else if ins = 0xB0 \<or> ins = 0xB1 then apduh_bin_read
      else if ins = 0xB2 \<or> ins = 0xB3 then apduh_rcrd_read
      else if ins = 0xC0 then apduh_res_get
      else if ins = 0xDC \<or> ins = 0xDD then apduh_rcrd_update
      else apduh_unk)"

text \<open>
  The \<^verbatim>\<open>switch\<close> over the type of the class.  \<open>H\<close> maps the numbers of the registered handlers to the
  functions.
\<close>

definition demux_cla :: "(nat \<Rightarrow> handler) \<Rightarrow> handler" where
  "demux_cla H st res procedure_count =
     (let hdr = cmd_hdr (st_cmd st) in
      case cla_type (hdr_cla hdr) of
        SWICC_APDU_CLA_TYPE_INVALID \<Rightarrow> respond st res SWICC_APDU_SW1_CHER_CLA 0
      | SWICC_APDU_CLA_TYPE_RFU \<Rightarrow> respond st res SWICC_APDU_SW1_CHER_CLA 0
      | SWICC_APDU_CLA_TYPE_INTERINDUSTRY \<Rightarrow> do {
          let st1 = (if hdr_ins hdr \<noteq> 0xC0 then st\<lparr>st_rc := rc_zero\<rparr> else st);
          (ret, st2, res2) \<leftarrow> (case in_apduh_pro (st_in st1) of
             None \<Rightarrow> Some (SWICC_RET_APDU_UNHANDLED, st1, res)
           | Some h \<Rightarrow> H h st1 res procedure_count);
          if ret \<noteq> SWICC_RET_APDU_UNHANDLED then Some (ret, st2, res2)
          else apduh_func (hdr_ins (cmd_hdr (st_cmd st2))) st2 res2 procedure_count }
      | SWICC_APDU_CLA_TYPE_PROPRIETARY \<Rightarrow>
          (case in_apduh_pro (st_in st) of
             None \<Rightarrow> Some (SWICC_RET_APDU_UNHANDLED, st, res)
           | Some h \<Rightarrow> H h st res procedure_count))"

definition swicc_apduh_demux :: "(nat \<Rightarrow> handler) \<Rightarrow> handler" where
  "swicc_apduh_demux H st res procedure_count = do {
     assert_ub (in_apdu_cur (st_in st));
     (ret, st1, res1) \<leftarrow> demux_cla H st res procedure_count;
     let res2 = (if ret = SWICC_RET_APDU_UNHANDLED then SWICC_APDUH_RES res1 SWICC_APDU_SW1_CHER_INS 0 0
                 else if ret \<noteq> SWICC_RET_SUCCESS then SWICC_APDUH_RES res1 SWICC_APDU_SW1_CHER_UNK 0 0
                 else res1);
     case in_apduh_override (st_in st1) of
       None \<Rightarrow> Some (SWICC_RET_SUCCESS, st1, res2)
     | Some h \<Rightarrow> do {
         (ret, st3, res3) \<leftarrow> H h st1 res2 procedure_count;
         Some (SWICC_RET_SUCCESS, st3,
           if ret \<noteq> SWICC_RET_SUCCESS then SWICC_APDUH_RES res3 SWICC_APDU_SW1_CHER_UNK 0 0 else res3) } }"

section \<open>What a handler may change\<close>

text \<open>
  A handler works on the file system, the response chaining buffer and, in place, on the data bytes
  of the command; it leaves the buffers to the interface and the state machine alone, and it keeps the
  memory of the response structure.  Registered handlers are not part of the library, so the
  contract speaks about states without any.
\<close>

definition no_ext :: "swicc_st \<Rightarrow> bool" where
  "no_ext st \<longleftrightarrow> in_apduh_pro (st_in st) = None \<and> in_apduh_override (st_in st) = None"

definition framed :: "swicc_st \<Rightarrow> swicc_st \<Rightarrow> bool" where
  "framed st st' \<longleftrightarrow>
     st_shutdown st' = st_shutdown st \<and> st_userdata st' = st_userdata st \<and>
     st_cont_rx st' = st_cont_rx st \<and> st_cont_tx st' = st_cont_tx st \<and>
     st_buf_rx st' = st_buf_rx st \<and> st_buf_rx_len st' = st_buf_rx_len st \<and>
     st_buf_tx st' = st_buf_tx st \<and> st_buf_tx_len st' = st_buf_tx_len st \<and>
     (st_in st')\<lparr>in_tpdu_cur := tpdu_zero\<rparr> = (st_in st)\<lparr>in_tpdu_cur := tpdu_zero\<rparr> \<and>
     cmd_hdr (st_cmd st') = cmd_hdr (st_cmd st) \<and> cmd_p3 (st_cmd st') = cmd_p3 (st_cmd st) \<and>
     data_len (cmd_data (st_cmd st')) = data_len (cmd_data (st_cmd st)) \<and>
     length (data_b (cmd_data (st_cmd st'))) = length (data_b (cmd_data (st_cmd st)))"

lemma framed_refl [simp]: "framed st st"
  by (simp add: framed_def)

lemma framed_upd:
  "framed st st' \<Longrightarrow> framed st (st'\<lparr>st_fs := fs\<rparr>)"
  "framed st st' \<Longrightarrow> framed st (st'\<lparr>st_rc := rc\<rparr>)"
  "framed st st' \<Longrightarrow> length b = length (data_b (cmd_data (st_cmd st'))) \<Longrightarrow> framed st (set_cmd_bytes st' b)"
  unfolding framed_def by (simp_all add: set_cmd_bytes_def)

lemma framed_trans: "framed st st1 \<Longrightarrow> framed st1 st2 \<Longrightarrow> framed st st2"
  unfolding framed_def by simp

lemma framed_in:
  assumes "framed st st'"
  shows "in_fsm_state (st_in st') = in_fsm_state (st_in st)" "in_apdu_cur (st_in st') = in_apdu_cur (st_in st)"
    "in_tpdu_hdr (st_in st') = in_tpdu_hdr (st_in st)" "in_tpdu_hdr_len (st_in st') = in_tpdu_hdr_len (st_in st)"
    "in_tpdu_processed (st_in st') = in_tpdu_processed (st_in st)"
    "in_pps (st_in st') = in_pps (st_in st)" "in_pps_len (st_in st') = in_pps_len (st_in st)"
    "in_procedure_count (st_in st') = in_procedure_count (st_in st)" "in_tp (st_in st') = in_tp (st_in st)"
    "in_apduh_pro (st_in st') = in_apduh_pro (st_in st)" "in_apduh_override (st_in st') = in_apduh_override (st_in st)"
proof -
  have e: "(st_in st')\<lparr>in_tpdu_cur := tpdu_zero\<rparr> = (st_in st)\<lparr>in_tpdu_cur := tpdu_zero\<rparr>"
    using assms by (simp add: framed_def)
  show "in_fsm_state (st_in st') = in_fsm_state (st_in st)" using arg_cong [OF e, of in_fsm_state] by simp
  show "in_apdu_cur (st_in st') = in_apdu_cur (st_in st)" using arg_cong [OF e, of in_apdu_cur] by simp
  show "in_tpdu_hdr (st_in st') = in_tpdu_hdr (st_in st)" using arg_cong [OF e, of in_tpdu_hdr] by simp
  show "in_tpdu_hdr_len (st_in st') = in_tpdu_hdr_len (st_in st)" using arg_cong [OF e, of in_tpdu_hdr_len] by simp
  show "in_tpdu_processed (st_in st') = in_tpdu_processed (st_in st)" using arg_cong [OF e, of in_tpdu_processed] by simp
  show "in_pps (st_in st') = in_pps (st_in st)" using arg_cong [OF e, of in_pps] by simp
  show "in_pps_len (st_in st') = in_pps_len (st_in st)" using arg_cong [OF e, of in_pps_len] by simp
  show "in_procedure_count (st_in st') = in_procedure_count (st_in st)" using arg_cong [OF e, of in_procedure_count] by simp
  show "in_tp (st_in st') = in_tp (st_in st)" using arg_cong [OF e, of in_tp] by simp
  show "in_apduh_pro (st_in st') = in_apduh_pro (st_in st)" using arg_cong [OF e, of in_apduh_pro] by simp
  show "in_apduh_override (st_in st') = in_apduh_override (st_in st)" using arg_cong [OF e, of in_apduh_override] by simp
qed

lemma framed_no_ext: "framed st st' \<Longrightarrow> no_ext st' \<longleftrightarrow> no_ext st"
  by (simp add: no_ext_def framed_in)

definition res_mem :: "swicc_apdu_res \<Rightarrow> nat" where
  "res_mem res = length (data_b (res_data res))"

lemma respond_Some: "respond st res sw1 sw2 = Some (r, st', res') \<longleftrightarrow>
    r = SWICC_RET_SUCCESS \<and> st' = st \<and> res' = SWICC_APDUH_RES res sw1 sw2 0"
  by (auto simp: respond_def)

lemma res_mem_simps [simp]:
  "res_mem (SWICC_APDUH_RES res sw1 sw2 n) = res_mem res"
  "put_bytes res bs = Some res' \<Longrightarrow> res_mem res' = res_mem res"
  by (auto simp: res_mem_def SWICC_APDUH_RES_def put_bytes_def bind_Some_iff wrn_def split: if_splits)

locale apdu_handler =
  fixes h :: handler
  assumes h_frame: "no_ext st \<Longrightarrow> h st res n = Some (r, st', res') \<Longrightarrow> framed st st'"
    and h_mem: "no_ext st \<Longrightarrow> h st res n = Some (r, st', res') \<Longrightarrow> res_mem res' = res_mem res"

subsection \<open>The handlers of the library\<close>

lemma select_perform_frame:
  "select_perform st meth occ = Some (r, st') \<Longrightarrow> framed st st'"
  by (auto simp: select_perform_def Let_def bind_Some_iff path_store_def length_wrn intro!: framed_upd split: if_splits prod.splits)

lemma and_then_Some:
  "and_then m f = Some (Some y) \<longleftrightarrow> (\<exists>x. m = Some (Some x) \<and> f x = Some (Some y))"
  by (auto simp: and_then_def split: option.splits)

lemma succ_Some: "succ m = Some (Some x) \<longleftrightarrow> m = Some (SWICC_RET_SUCCESS, x)"
  by (auto simp: succ_def split: option.splits)

lemma deprs_mem:
  "bertlv_hdr_deprs tlv dry mem n = Some (r, mem', n') \<Longrightarrow> length mem' = length mem"
  by (auto simp: bertlv_hdr_deprs_def Let_def bind_Some_iff length_wrn split: if_splits option.splits prod.splits)

lemma enc_hdr_mem: "enc_hdr tag em = Some (Some em') \<Longrightarrow> length (snd em') = length (snd em)"
  by (auto simp: enc_hdr_def succ_Some swicc_dato_bertlv_enc_hdr_def Let_def bind_Some_iff dest!: deprs_mem split: prod.splits)

lemma enc_data_mem: "enc_data d em = Some (Some em') \<Longrightarrow> length (snd em') = length (snd em)"
  by (auto simp: enc_data_def succ_Some swicc_dato_bertlv_enc_data_def Let_def bind_Some_iff dest!: length_wrn
      split: prod.splits if_splits)

lemma enc_do_mem: "enc_do d t em = Some (Some em') \<Longrightarrow> length (snd em') = length (snd em)"
  unfolding enc_do_def and_then_Some using enc_hdr_mem enc_data_mem by metis

lemma select_name_mem: "select_name_do f tags em = Some (Some em') \<Longrightarrow> length (snd em') = length (snd em)"
  by (auto simp: select_name_do_def Let_def and_then_Some dest!: enc_do_mem enc_data_mem split: if_splits)

lemma select_items_mem: "select_fcp_items f lcs descr tags em = Some (Some em') \<Longrightarrow> length (snd em') = length (snd em)"
  by (auto simp: select_fcp_items_def Let_def and_then_Some dest!: enc_do_mem select_name_mem split: if_splits)

lemma select_fcp_mem: "select_fcp f lcs descr tags em = Some (Some em') \<Longrightarrow> length (snd em') = length (snd em)"
  by (auto simp: select_fcp_def and_then_Some dest!: enc_hdr_mem select_items_mem split: prod.splits)

lemma select_fmd_mem: "select_fmd tags em = Some (Some em') \<Longrightarrow> length (snd em') = length (snd em)"
  by (auto simp: select_fmd_def and_then_Some dest!: enc_hdr_mem split: prod.splits)

lemma select_pass_mem:
  "select_enc_pass data_req f lcs descr tags null n mem = Some (Some em') \<Longrightarrow> length (snd em') = length mem"
  by (auto simp: select_enc_pass_def Let_def and_then_Some dest!: enc_hdr_mem select_fcp_mem select_fmd_mem
      split: if_splits prod.splits)

lemma select_bertlv_mem:
  "select_bertlv data_req f lcs descr tags b = Some (Some (b', n)) \<Longrightarrow> length b' = length b"
  by (auto simp: select_bertlv_def and_then_Some dest!: select_pass_mem split: if_splits prod.splits)

lemma select_enqueue_frame:
  "select_enqueue st res enc = Some (r, st', res') \<Longrightarrow> (\<forall>b n. enc = Some (b, n) \<longrightarrow> length b = length (data_b (res_data res))) \<Longrightarrow>
     framed st st' \<and> res_mem res' = res_mem res"
  by (auto simp: select_enqueue_def Let_def bind_Some_iff respond_Some res_mem_def SWICC_APDUH_RES_def
      intro!: framed_upd split: if_splits option.split_asm prod.split_asm)

lemma select_describe_frame:
  "select_describe st res data_req f tags = Some (r, st', res') \<Longrightarrow> framed st st' \<and> res_mem res' = res_mem res"
  by (auto simp: select_describe_def Let_def bind_Some_iff respond_Some
      dest!: select_enqueue_frame select_bertlv_mem split: if_splits prod.split_asm)

lemma select_answer_frame:
  "select_answer st res data_req = Some (r, st', res') \<Longrightarrow> framed st st' \<and> res_mem res' = res_mem res"
  by (auto simp: select_answer_def Let_def bind_Some_iff respond_Some
      dest!: select_describe_frame simp del: tags_create.simps split: if_splits option.split_asm)

interpretation sel: apdu_handler apduh_select
proof
  fix st res n r st' res'
  assume "apduh_select st res n = Some (r, st', res')"
  then show "framed st st'" "res_mem res' = res_mem res"
    by (auto simp: apduh_select_def Let_def bind_Some_iff respond_Some
        dest!: select_perform_frame select_answer_frame intro: framed_trans split: if_splits prod.splits)
qed

interpretation unk: apdu_handler apduh_unk
  by unfold_locales (auto simp: apduh_unk_def respond_Some)

interpretation get: apdu_handler apduh_res_get
  by unfold_locales
     (auto simp: apduh_res_get_def Let_def bind_Some_iff respond_Some rc_deq_def res_mem_def SWICC_APDUH_RES_def
        length_wrn intro!: framed_upd split: if_splits prod.splits)

lemma rcrd_select_frame: "rcrd_select st p2 ef i = Some (ok, st') \<Longrightarrow> framed st st'"
  by (auto simp: rcrd_select_def Let_def bind_Some_iff intro!: framed_upd split: if_splits prod.splits)

lemma rcrd_find_frame:
  assumes "rcrd_find st res k = Some (r, st', res')"
    and "\<And>ef ti off n. k ef ti off n = Some (r, st', res') \<Longrightarrow> framed st st' \<and> res_mem res' = res_mem res"
  shows "framed st st' \<and> res_mem res' = res_mem res"
  using assms
  by (auto simp: rcrd_find_def Let_def bind_Some_iff respond_Some split: if_splits option.split_asm prod.split_asm)

lemma rcrd_read_found_frame:
  "rcrd_read_found st res ef ti off n = Some (r, st', res') \<Longrightarrow> framed st st' \<and> res_mem res' = res_mem res"
  by (auto simp: rcrd_read_found_def Let_def bind_Some_iff respond_Some dest!: rcrd_select_frame
      split: if_splits prod.split_asm)

lemma rcrd_update_found_frame:
  "rcrd_update_found st res pc ef ti off n = Some (r, st', res') \<Longrightarrow> framed st st' \<and> res_mem res' = res_mem res"
  by (auto simp: rcrd_update_found_def Let_def bind_Some_iff respond_Some dest!: rcrd_select_frame
      intro!: framed_upd(1) split: if_splits prod.split_asm)

interpretation rd: apdu_handler apduh_rcrd_read
proof
  fix st res n r st' res'
  assume "apduh_rcrd_read st res n = Some (r, st', res')"
  then have "framed st st' \<and> res_mem res' = res_mem res"
    using rcrd_find_frame [of st res "rcrd_read_found st res" r st' res'] rcrd_read_found_frame
    by (auto simp: apduh_rcrd_read_def Let_def respond_Some split: if_splits)
  then show "framed st st'" "res_mem res' = res_mem res" by simp_all
qed

interpretation upd: apdu_handler apduh_rcrd_update
proof
  fix st res n r st' res'
  assume "apduh_rcrd_update st res n = Some (r, st', res')"
  then have "framed st st' \<and> res_mem res' = res_mem res"
    using rcrd_find_frame [of st res "rcrd_update_found st res n" r st' res'] rcrd_update_found_frame
    by (auto simp: apduh_rcrd_update_def respond_Some split: if_splits)
  then show "framed st st'" "res_mem res' = res_mem res" by simp_all
qed

lemma bin_read_file_frame:
  "bin_read_file st res f offset n sid = Some (r, st', res') \<Longrightarrow> framed st st' \<and> res_mem res' = res_mem res"
  by (auto simp: bin_read_file_def Let_def bind_Some_iff respond_Some intro!: framed_upd
        split: if_splits option.splits prod.splits)

interpretation bin: apdu_handler apduh_bin_read
  by unfold_locales
     (auto simp: apduh_bin_read_def Let_def bind_Some_iff respond_Some dest!: bin_read_file_frame
        split: if_splits prod.splits)

text \<open>The function that chooses satisfies the contract of the functions it chooses among.\<close>

lemma apduh_func_cases:
  "apduh_func ins = apduh_select \<or> apduh_func ins = apduh_bin_read \<or> apduh_func ins = apduh_rcrd_read \<or>
   apduh_func ins = apduh_res_get \<or> apduh_func ins = apduh_rcrd_update \<or> apduh_func ins = apduh_unk"
  by (simp add: apduh_func_def)

interpretation func: apdu_handler "apduh_func ins" for ins
  using apduh_func_cases [of ins] sel.apdu_handler_axioms bin.apdu_handler_axioms rd.apdu_handler_axioms
    get.apdu_handler_axioms upd.apdu_handler_axioms unk.apdu_handler_axioms by metis

lemma demux_cla_frame:
  assumes "no_ext st" and "demux_cla H st res n = Some (r, st', res')"
  shows "framed st st' \<and> res_mem res' = res_mem res"
proof -
  define hdr where "hdr = cmd_hdr (st_cmd st)"
  have nop: "in_apduh_pro (st_in st) = None" using assms(1) by (simp add: no_ext_def)
  have sub: "framed st st' \<and> res_mem res' = res_mem res"
    if "apduh_func ins st1 res n = Some (r, st', res')" "framed st st1" for ins st1
    using func.h_frame func.h_mem that framed_no_ext [OF that(2)] assms(1) framed_trans by blast
  have "framed st (st\<lparr>st_rc := rc_zero\<rparr>)" by (rule framed_upd) simp
  then show ?thesis
    using assms(2) sub [of "hdr_ins hdr" st] sub [of "hdr_ins hdr" "st\<lparr>st_rc := rc_zero\<rparr>"] nop
    by (cases "cla_type (hdr_cla hdr)")
       (simp_all add: demux_cla_def respond_Some Let_def hdr_def split: if_splits)
qed

interpretation demux: apdu_handler "swicc_apduh_demux H" for H
proof
  fix st res n r st' res'
  assume a: "no_ext st" "swicc_apduh_demux H st res n = Some (r, st', res')"
  then show "framed st st'" "res_mem res' = res_mem res"
    using demux_cla_frame [OF a(1)] framed_no_ext [of st]
    by (fastforce simp: swicc_apduh_demux_def Let_def bind_Some_iff no_ext_def split: if_splits option.splits)+
qed

end
