(* ===== verification/Swicc_Fsm.thy ===== *)
theory Swicc_Fsm
  imports Swicc_Apduh
begin

text \<open>
  \<^verbatim>\<open>include/swicc/fsm.h\<close> and \<^verbatim>\<open>src/fsm.c\<close>: the state machine of the card.  Every call looks at the
  contacts and at the bytes that were received, moves to another state and says which bytes are to be
  sent and how many are to be received next.

  The response structure of a command lives on the stack of \<^verbatim>\<open>fsm_handle_s_cmd_procedure\<close> and is not
  initialised; its contents are the parameter \<open>res0\<close>.
\<close>

section \<open>Handlers of the states\<close>

definition FSM_STATE_CONT_READY :: u32 where
  "FSM_STATE_CONT_READY = SWICC_IO_CONT_RST OR SWICC_IO_CONT_VCC OR SWICC_IO_CONT_IO OR SWICC_IO_CONT_CLK OR
     SWICC_IO_CONT_VALID_ALL"

text \<open>The new state and the lengths for the next exchange.\<close>

definition set_lens :: "swicc_st \<Rightarrow> u16 \<Rightarrow> u16 \<Rightarrow> swicc_st" where
  "set_lens st rx tx = st\<lparr>st_buf_rx_len := rx, st_buf_tx_len := tx\<rparr>"

definition set_state :: "swicc_st \<Rightarrow> swicc_fsm_state \<Rightarrow> swicc_st" where
  "set_state st s = st\<lparr>st_in := (st_in st)\<lparr>in_fsm_state := s\<rparr>\<rparr>"

definition fsm_handle_s_off :: "swicc_st \<Rightarrow> swicc_st" where
  "fsm_handle_s_off st =
     (let st1 = (if st_cont_rx st = SWICC_IO_CONT_VCC OR SWICC_IO_CONT_VALID_ALL
                 then set_state st SWICC_FSM_STATE_ACTIVATION else st) in
      set_lens st1 0 0)"

definition fsm_handle_s_activation :: "swicc_st \<Rightarrow> swicc_st" where
  "fsm_handle_s_activation st =
     (if st_cont_rx st = SWICC_IO_CONT_VCC OR SWICC_IO_CONT_IO OR SWICC_IO_CONT_CLK OR SWICC_IO_CONT_VALID_ALL
      then set_lens (set_state st SWICC_FSM_STATE_RESET_COLD) 0 0
      else if st_cont_rx st AND (SWICC_IO_CONT_VCC OR SWICC_IO_CONT_VALID_VCC) > 0 then set_lens st 0 0
      else set_lens (set_state st SWICC_FSM_STATE_OFF) 0 0)"

definition fsm_handle_s_reset_cold :: "swicc_st \<Rightarrow> swicc_st" where
  "fsm_handle_s_reset_cold st =
     (if st_cont_rx st = FSM_STATE_CONT_READY then
        (let st1 = st\<lparr>st_cont_tx := st_cont_tx st OR (SWICC_IO_CONT_IO OR SWICC_IO_CONT_VALID_IO)\<rparr> in
         set_lens (set_state st1 SWICC_FSM_STATE_ATR_REQ) 0 0)
      else if st_cont_rx st = FSM_STATE_CONT_READY AND NOT SWICC_IO_CONT_RST then set_lens st 0 0
      else set_lens (set_state st SWICC_FSM_STATE_OFF) 0 0)"

definition fsm_off :: "swicc_st \<Rightarrow> swicc_st" where
  "fsm_off st = set_lens (set_state st SWICC_FSM_STATE_OFF) 0 0"

definition fsm_handle_s_atr_req :: "swicc_st \<Rightarrow> swicc_st option" where
  "fsm_handle_s_atr_req st =
     (if st_cont_rx st = FSM_STATE_CONT_READY \<and> unat (st_buf_tx_len st) \<ge> length swicc_atr then do {
        tx \<leftarrow> wrn (st_buf_tx st) 0 swicc_atr;
        Some (set_state (set_lens (st\<lparr>st_buf_tx := tx\<rparr>) 1 (word_of_nat (length swicc_atr))) SWICC_FSM_STATE_ATR_RES) }
      else Some (fsm_off st))"

definition fsm_handle_s_atr_res :: "swicc_st \<Rightarrow> swicc_st option" where
  "fsm_handle_s_atr_res st =
     (if st_cont_rx st = FSM_STATE_CONT_READY \<and> st_buf_rx_len st = 1 then do {
        b \<leftarrow> rd (st_buf_rx st) 0;
        let i = st_in st;
        if b = SWICC_PPS_PPSS then do {
          pps \<leftarrow> wrn (in_pps i) 0 [b];
          Some (set_lens (st\<lparr>st_in := i\<lparr>in_pps := pps, in_pps_len := 1, in_fsm_state := SWICC_FSM_STATE_PPS_REQ\<rparr>\<rparr>) 0 0) }
        else do {
          hdr \<leftarrow> wrn (in_tpdu_hdr i) 0 [b];
          Some (set_lens (st\<lparr>st_in := i\<lparr>in_tpdu_hdr := hdr, in_tpdu_hdr_len := 1,
                                       in_fsm_state := SWICC_FSM_STATE_CMD_WAIT\<rparr>\<rparr>) 0 0) } }
      else Some (fsm_off st))"

definition fsm_handle_s_reset_warm :: "swicc_st \<Rightarrow> swicc_st option" where
  "fsm_handle_s_reset_warm st = do {
     (ret, st1) \<leftarrow> swicc_reset st;
     Some (if ret \<noteq> SWICC_RET_SUCCESS then fsm_off st1 else set_lens st1 0 0) }"

text \<open>
  The complete PPS request is handled here.  The return codes that are not looked at fall through to
  the deactivation.
\<close>

definition pps_req_complete :: "swicc_st \<Rightarrow> swicc_st option" where
  "pps_req_complete st = do {
     let i = st_in st;
     (ret, p, tx, tx_len) \<leftarrow> swicc_pps
       \<lparr>pps_t = 0, pps_fi_idx = SWICC_TP_CONF_DEFAULT, pps_di_idx = SWICC_TP_CONF_DEFAULT, pps_spu = 0\<rparr>
       (in_pps i) (ucast (in_pps_len i)) (st_buf_tx st) (st_buf_tx_len st);
     let st1 = st\<lparr>st_buf_tx := tx, st_buf_tx_len := tx_len\<rparr>;
     if ret = SWICC_RET_SUCCESS then do {
       di \<leftarrow> rd swicc_io_di (unat (pps_di_idx p));
       fi \<leftarrow> rd swicc_io_fi (unat (pps_fi_idx p));
       fmax \<leftarrow> rd swicc_io_fmax (unat (pps_fi_idx p));
       etu \<leftarrow> swicc_etu fi di fmax;
       Some (st1\<lparr>st_buf_rx_len := 0,
                 st_in := i\<lparr>in_fsm_state := SWICC_FSM_STATE_CMD_WAIT,
                           in_tp := \<lparr>tp_etu = etu, tp_fi = fi, tp_fmax = fmax, tp_di = di\<rparr>,
                           in_tpdu_processed := False\<rparr>\<rparr>) }
     else if ret = SWICC_RET_PPS_FAILED then
       Some ((set_state st1 SWICC_FSM_STATE_ATR_RES)\<lparr>st_buf_rx_len := 1\<rparr>)
     else if ret = SWICC_RET_PPS_INVALID then Some (set_lens (set_state st1 SWICC_FSM_STATE_ATR_RES) 1 0)
     else Some (fsm_off st1) }"

text \<open>A PPS that is longer than its second byte says is a point the code marks as unreachable.\<close>

definition fsm_handle_s_pps_req :: "swicc_st \<Rightarrow> swicc_st option" where
  "fsm_handle_s_pps_req st =
     (let i = st_in st in
      if st_cont_rx st = FSM_STATE_CONT_READY \<and>
         unat (in_pps_len i) + unat (st_buf_rx_len st) \<le> SWICC_PPS_LEN_MAX then do {
        src \<leftarrow> rdn (st_buf_rx st) 0 (unat (st_buf_rx_len st));
        pps \<leftarrow> wrn (in_pps i) (unat (in_pps_len i)) src;
        let pps_len = in_pps_len i + ucast (st_buf_rx_len st);
        let st1 = st\<lparr>st_in := i\<lparr>in_pps := pps, in_pps_len := pps_len\<rparr>\<rparr>;
        if pps_len < 2 then Some (set_lens st1 (2 - ucast pps_len) 0)
        else do {
          (ret, pps_len_exp) \<leftarrow> swicc_pps_len pps pps_len 0;
          if ret = SWICC_RET_SUCCESS then
            if pps_len = pps_len_exp then pps_req_complete st1
            else if pps_len < pps_len_exp then Some (set_lens st1 (ucast (pps_len_exp - pps_len)) 0)
            else None
          else Some (fsm_off st1) } }
      else Some (fsm_off st))"

text \<open>What is left over from the previous command is cleared.\<close>

definition cmd_wait_clear :: "swicc_internal \<Rightarrow> swicc_internal" where
  "cmd_wait_clear i =
     (if in_tpdu_processed i
      then i\<lparr>in_tpdu_cur := tpdu_zero, in_tpdu_hdr := replicate 5 0, in_tpdu_hdr_len := 0,
             in_procedure_count := 0, in_tpdu_processed := False\<rparr>
      else i)"

definition cmd_wait_again :: "swicc_st \<Rightarrow> swicc_st" where
  "cmd_wait_again st = set_lens (st\<lparr>st_in := (st_in st)\<lparr>in_tpdu_processed := True\<rparr>\<rparr>) 5 0"

definition fsm_handle_s_cmd_wait :: "swicc_st \<Rightarrow> swicc_st option" where
  "fsm_handle_s_cmd_wait st =
     (if st_cont_rx st = FSM_STATE_CONT_READY then
        (let i = cmd_wait_clear (st_in st); hdr_len = unat (st_buf_rx_len st) + unat (in_tpdu_hdr_len i) in
         if hdr_len \<le> 5 then do {
           src \<leftarrow> rdn (st_buf_rx st) 0 (unat (st_buf_rx_len st));
           hdr \<leftarrow> wrn (in_tpdu_hdr i) (unat (in_tpdu_hdr_len i)) src;
           let i1 = i\<lparr>in_tpdu_hdr := hdr, in_tpdu_hdr_len := word_of_nat hdr_len\<rparr>;
           if hdr_len = 5 then do {
             (ret, tpdu) \<leftarrow> swicc_tpdu_cmd_parse hdr 5 (in_tpdu_cur i1);
             let i2 = i1\<lparr>in_tpdu_cur := tpdu\<rparr>;
             if ret = SWICC_RET_SUCCESS then
               (case swicc_tpdu_to_apdu tpdu of (ret, apdu) \<Rightarrow>
                  if ret = SWICC_RET_SUCCESS then
                    Some (set_lens (st\<lparr>st_in := i2\<lparr>in_tpdu_cur := apdu, in_apdu_cur := True,
                                                    in_fsm_state := SWICC_FSM_STATE_CMD_PROCEDURE\<rparr>\<rparr>) 0 0)
                  else Some (cmd_wait_again (st\<lparr>st_in := i2\<rparr>)))
             else Some (cmd_wait_again (st\<lparr>st_in := i2\<rparr>)) }
           else Some (set_lens (st\<lparr>st_in := i1\<rparr>) (word_of_nat (5 - hdr_len)) 0) }
         else Some (cmd_wait_again (st\<lparr>st_in := i\<rparr>)))
      else Some (fsm_off st))"

definition cmd_done :: "swicc_st \<Rightarrow> swicc_st" where
  "cmd_done st =
     st\<lparr>st_in := (st_in st)\<lparr>in_tpdu_processed := True, in_fsm_state := SWICC_FSM_STATE_CMD_WAIT\<rparr>\<rparr>"

text \<open>
  What follows the conversion of the response into bytes.  The bound on the number of procedure bytes
  is the size of the counter in bytes.
\<close>

definition procedure_finish :: "swicc_st \<Rightarrow> swicc_apdu_res \<Rightarrow> swicc_ret \<Rightarrow> swicc_st option" where
  "procedure_finish st2 res ret_res =
     (if ret_res = SWICC_RET_SUCCESS then
        if res_sw1 res = SWICC_APDU_SW1_PROC_ACK_ONE \<or> res_sw1 res = SWICC_APDU_SW1_PROC_ACK_ALL then
          if unat (in_procedure_count (st_in st2) + 1) \<le> 4 then
            Some (st2\<lparr>st_in := (st_in st2)\<lparr>in_procedure_count := in_procedure_count (st_in st2) + 1,
                                        in_fsm_state := SWICC_FSM_STATE_CMD_DATA\<rparr>,
                      st_buf_rx_len := data_len (res_data res)\<rparr>)
          else Some (set_lens (cmd_done st2) 5 0)
        else Some ((cmd_done st2)\<lparr>st_buf_rx_len := 5\<rparr>)
      else do {
        tx' \<leftarrow> wrn (st_buf_tx st2) 0 [ucast SWICC_APDU_SW1_CHER_UNK, 0];
        Some ((cmd_done st2)\<lparr>st_buf_tx := tx', st_buf_tx_len := 2\<rparr>) })"

definition cmd_procedure_run :: "handler \<Rightarrow> swicc_apdu_res \<Rightarrow> swicc_st \<Rightarrow> swicc_st option" where
  "cmd_procedure_run demux res0 st = do {
     (ret, st1, res) \<leftarrow> demux st res0 (in_procedure_count (st_in st));
     if ret \<noteq> SWICC_RET_SUCCESS then Some (set_lens (cmd_done st1) 5 0)
     else do {
       (ret_res, tx, tx_len) \<leftarrow> swicc_apdu_res_deparse (st_buf_tx st1) (st_buf_tx_len st1) (st_cmd st1) res;
       procedure_finish (st1\<lparr>st_buf_tx := tx, st_buf_tx_len := tx_len\<rparr>) res ret_res } }"

definition fsm_handle_s_cmd_procedure :: "(nat \<Rightarrow> handler) \<Rightarrow> swicc_apdu_res \<Rightarrow> swicc_st \<Rightarrow> swicc_st option" where
  "fsm_handle_s_cmd_procedure H res0 st =
     (if st_cont_rx st = FSM_STATE_CONT_READY then cmd_procedure_run (swicc_apduh_demux H) res0 st
      else Some (fsm_off st))"

definition fsm_handle_s_cmd_data :: "swicc_st \<Rightarrow> swicc_st option" where
  "fsm_handle_s_cmd_data st =
     (if st_cont_rx st = FSM_STATE_CONT_READY then do {
        assert_ub (in_apdu_cur (st_in st));
        let i = st_in st;
        let d = cmd_data (in_tpdu_cur i);
        if unat (data_len d) + unat (st_buf_rx_len st) \<le> SWICC_DATA_MAX then do {
          src \<leftarrow> rdn (st_buf_rx st) 0 (unat (st_buf_rx_len st));
          b \<leftarrow> wrn (data_b d) (unat (data_len d)) src;
          let d' = \<lparr>data_len = data_len d + st_buf_rx_len st, data_b = b\<rparr>;
          Some (set_lens (st\<lparr>st_in := i\<lparr>in_tpdu_cur := (in_tpdu_cur i)\<lparr>cmd_data := d'\<rparr>,
             in_tpdu_processed := True, in_fsm_state := SWICC_FSM_STATE_CMD_PROCEDURE\<rparr>\<rparr>) 0 0) }
        else Some (set_lens (cmd_done st) 5 0) }
      else Some (fsm_off st))"

section \<open>A step of the machine\<close>

definition swicc_fsm :: "(nat \<Rightarrow> handler) \<Rightarrow> swicc_apdu_res \<Rightarrow> swicc_st \<Rightarrow> swicc_st option" where
  "swicc_fsm H res0 st = (case in_fsm_state (st_in st) of
     SWICC_FSM_STATE_OFF \<Rightarrow> Some (fsm_handle_s_off st)
   | SWICC_FSM_STATE_ACTIVATION \<Rightarrow> Some (fsm_handle_s_activation st)
   | SWICC_FSM_STATE_RESET_COLD \<Rightarrow> Some (fsm_handle_s_reset_cold st)
   | SWICC_FSM_STATE_ATR_REQ \<Rightarrow> fsm_handle_s_atr_req st
   | SWICC_FSM_STATE_ATR_RES \<Rightarrow> fsm_handle_s_atr_res st
   | SWICC_FSM_STATE_RESET_WARM \<Rightarrow> fsm_handle_s_reset_warm st
   | SWICC_FSM_STATE_PPS_REQ \<Rightarrow> fsm_handle_s_pps_req st
   | SWICC_FSM_STATE_CMD_WAIT \<Rightarrow> fsm_handle_s_cmd_wait st
   | SWICC_FSM_STATE_CMD_PROCEDURE \<Rightarrow> fsm_handle_s_cmd_procedure H res0 st
   | SWICC_FSM_STATE_CMD_DATA \<Rightarrow> fsm_handle_s_cmd_data st)"

section \<open>The procedure step under the contract of the handlers\<close>

lemma deparse_keeps:
  assumes "swicc_apdu_res_deparse buf n cmd res = Some (r, buf', n')" and "unat n \<le> length buf"
  shows "length buf' = length buf" "unat n' \<le> length buf'"
proof -
  have l: "length buf' = length buf"
    using assms(1) by (auto simp: swicc_apdu_res_deparse_def Let_def bind_Some_iff length_wrn split: if_splits)
  have "unat n' \<le> unat n"
    using assms(1)
    by (auto simp: swicc_apdu_res_deparse_def Let_def bind_Some_iff unat_word_ariths split: if_splits)
  with assms(2) l show "length buf' = length buf" "unat n' \<le> length buf'" by simp_all
qed

lemma set_lens_sel [simp]:
  "st_in (set_lens st rx tx) = st_in st" "st_cont_rx (set_lens st rx tx) = st_cont_rx st"
  "st_cont_tx (set_lens st rx tx) = st_cont_tx st" "st_buf_rx (set_lens st rx tx) = st_buf_rx st"
  "st_buf_tx (set_lens st rx tx) = st_buf_tx st" "st_buf_rx_len (set_lens st rx tx) = rx"
  "st_buf_tx_len (set_lens st rx tx) = tx" "st_fs (set_lens st rx tx) = st_fs st" "st_rc (set_lens st rx tx) = st_rc st"
  "st_shutdown (set_lens st rx tx) = st_shutdown st"
  by (simp_all add: set_lens_def)

lemma set_state_sel [simp]:
  "st_in (set_state st s) = (st_in st)\<lparr>in_fsm_state := s\<rparr>" "st_cont_rx (set_state st s) = st_cont_rx st"
  "st_cont_tx (set_state st s) = st_cont_tx st" "st_buf_rx (set_state st s) = st_buf_rx st"
  "st_buf_tx (set_state st s) = st_buf_tx st" "st_buf_rx_len (set_state st s) = st_buf_rx_len st"
  "st_buf_tx_len (set_state st s) = st_buf_tx_len st" "st_fs (set_state st s) = st_fs st" "st_rc (set_state st s) = st_rc st"
  "st_shutdown (set_state st s) = st_shutdown st"
  by (simp_all add: set_state_def)

lemma fsm_off_sel [simp]:
  "st_in (fsm_off st) = (st_in st)\<lparr>in_fsm_state := SWICC_FSM_STATE_OFF\<rparr>" "st_cont_rx (fsm_off st) = st_cont_rx st"
  "st_cont_tx (fsm_off st) = st_cont_tx st" "st_buf_rx (fsm_off st) = st_buf_rx st"
  "st_buf_tx (fsm_off st) = st_buf_tx st" "st_buf_rx_len (fsm_off st) = 0"
  "st_buf_tx_len (fsm_off st) = 0" "st_fs (fsm_off st) = st_fs st" "st_rc (fsm_off st) = st_rc st"
  "st_shutdown (fsm_off st) = st_shutdown st"
  by (simp_all add: fsm_off_def)

lemma cmd_done_sel [simp]:
  "st_in (cmd_done st) = (st_in st)\<lparr>in_tpdu_processed := True, in_fsm_state := SWICC_FSM_STATE_CMD_WAIT\<rparr>"
  "st_cont_rx (cmd_done st) = st_cont_rx st" "st_cont_tx (cmd_done st) = st_cont_tx st"
  "st_buf_rx (cmd_done st) = st_buf_rx st" "st_buf_tx (cmd_done st) = st_buf_tx st"
  "st_buf_rx_len (cmd_done st) = st_buf_rx_len st" "st_buf_tx_len (cmd_done st) = st_buf_tx_len st"
  "st_fs (cmd_done st) = st_fs st" "st_rc (cmd_done st) = st_rc st"
  "st_shutdown (cmd_done st) = st_shutdown st"
  by (simp_all add: cmd_done_def)

lemma cmd_wait_again_sel [simp]:
  "st_in (cmd_wait_again st) = (st_in st)\<lparr>in_tpdu_processed := True\<rparr>"
  "st_cont_rx (cmd_wait_again st) = st_cont_rx st" "st_cont_tx (cmd_wait_again st) = st_cont_tx st"
  "st_buf_rx (cmd_wait_again st) = st_buf_rx st" "st_buf_tx (cmd_wait_again st) = st_buf_tx st"
  "st_buf_rx_len (cmd_wait_again st) = 5" "st_buf_tx_len (cmd_wait_again st) = 0"
  "st_fs (cmd_wait_again st) = st_fs st" "st_rc (cmd_wait_again st) = st_rc st"
  "st_shutdown (cmd_wait_again st) = st_shutdown st"
  by (simp_all add: cmd_wait_again_def)

lemma cmd_wait_clear_state [simp]: "in_fsm_state (cmd_wait_clear i) = in_fsm_state i"
  by (simp add: cmd_wait_clear_def)

lemma procedure_finish_next:
  "procedure_finish st res ret = Some st' \<Longrightarrow>
     in_fsm_state (st_in st') = SWICC_FSM_STATE_CMD_DATA \<or> in_fsm_state (st_in st') = SWICC_FSM_STATE_CMD_WAIT"
  by (auto simp: procedure_finish_def bind_Some_iff split: if_splits)

lemma internal_wf_done [simp]:
  "internal_wf i \<Longrightarrow> internal_wf (i\<lparr>in_tpdu_processed := True, in_fsm_state := SWICC_FSM_STATE_CMD_WAIT\<rparr>)"
  by (simp add: internal_wf_def)

lemma internal_wf_ack [simp]:
  "internal_wf i \<Longrightarrow> in_apdu_cur i \<Longrightarrow>
     internal_wf (i\<lparr>in_procedure_count := n, in_fsm_state := SWICC_FSM_STATE_CMD_DATA\<rparr>)"
  by (simp add: internal_wf_def)

lemma internal_wf_off [simp]: "internal_wf i \<Longrightarrow> internal_wf (i\<lparr>in_fsm_state := SWICC_FSM_STATE_OFF\<rparr>)"
  by (simp add: internal_wf_def)

lemma wrn_pair: "wrn b 0 [x, y] = Some b' \<Longrightarrow> length b' = length b \<and> 2 \<le> length b"
  by (auto simp: wrn_Some)

definition kept :: "swicc_st \<Rightarrow> swicc_st \<Rightarrow> bool" where
  "kept st st' \<longleftrightarrow> no_ext st' = no_ext st \<and> st_cont_rx st' = st_cont_rx st \<and> st_cont_tx st' = st_cont_tx st \<and>
     st_buf_rx st' = st_buf_rx st \<and> length (st_buf_tx st') = length (st_buf_tx st) \<and>
     in_tp (st_in st') = in_tp (st_in st) \<and> st_shutdown st' = st_shutdown st"

lemma procedure_finish_keeps:
  assumes fin: "procedure_finish st res ret = Some st'" and tx: "unat (st_buf_tx_len st) \<le> length (st_buf_tx st)"
  shows "kept st st'" "unat (st_buf_tx_len st') \<le> length (st_buf_tx st')"
    "internal_wf (st_in st) \<Longrightarrow> in_apdu_cur (st_in st) \<Longrightarrow> internal_wf (st_in st')"
proof -
  show "kept st st'"
    using fin by (auto simp: procedure_finish_def bind_Some_iff kept_def no_ext_def dest: wrn_pair split: if_split_asm)
  show "unat (st_buf_tx_len st') \<le> length (st_buf_tx st')"
    using fin tx by (auto simp: procedure_finish_def bind_Some_iff dest: wrn_pair split: if_split_asm)
  show "internal_wf (st_in st')" if "internal_wf (st_in st)" "in_apdu_cur (st_in st)"
    using fin that by (auto simp: procedure_finish_def bind_Some_iff split: if_split_asm)
qed

context apdu_handler begin

lemma procedure_next:
  assumes "no_ext st" and "cmd_procedure_run h res0 st = Some st'"
  shows "in_fsm_state (st_in st') = SWICC_FSM_STATE_CMD_DATA \<or> in_fsm_state (st_in st') = SWICC_FSM_STATE_CMD_WAIT"
  using assms unfolding cmd_procedure_run_def
  by (auto simp: bind_Some_iff dest: procedure_finish_next split: if_splits)

lemma procedure_keeps:
  assumes ne: "no_ext st" and run: "cmd_procedure_run h res0 st = Some st'"
    and tx: "unat (st_buf_tx_len st) \<le> length (st_buf_tx st)"
  shows "kept st st'" "unat (st_buf_tx_len st') \<le> length (st_buf_tx st')"
    "internal_wf (st_in st) \<Longrightarrow> in_apdu_cur (st_in st) \<Longrightarrow> internal_wf (st_in st')"
proof -
  obtain r st1 res where h: "h st res0 (in_procedure_count (st_in st)) = Some (r, st1, res)"
    using run by (auto simp: cmd_procedure_run_def bind_Some_iff)
  have fr: "framed st st1" by (rule h_frame [OF ne h])
  note same = fr [unfolded framed_def]
  have k1: "kept st st1"
    using same framed_in [OF fr] framed_no_ext [OF fr] by (simp add: kept_def)
  have wf: "internal_wf (st_in st1) = internal_wf (st_in st)" "in_apdu_cur (st_in st1) = in_apdu_cur (st_in st)"
    using framed_in [OF fr] same by (simp_all add: internal_wf_def data_ok_def)
  have "kept st st' \<and> unat (st_buf_tx_len st') \<le> length (st_buf_tx st') \<and>
      (internal_wf (st_in st1) \<longrightarrow> in_apdu_cur (st_in st1) \<longrightarrow> internal_wf (st_in st'))"
  proof (cases "r = SWICC_RET_SUCCESS")
    case False
    then have "st' = set_lens (cmd_done st1) 5 0" using run h by (simp add: cmd_procedure_run_def)
    then show ?thesis using k1 by (simp add: kept_def no_ext_def)
  next
    case True
    obtain rr tx' n where dep: "swicc_apdu_res_deparse (st_buf_tx st1) (st_buf_tx_len st1) (st_cmd st1) res = Some (rr, tx', n)"
      and fin: "procedure_finish (st1\<lparr>st_buf_tx := tx', st_buf_tx_len := n\<rparr>) res rr = Some st'"
      using run h True by (auto simp: cmd_procedure_run_def bind_Some_iff)
    have "unat (st_buf_tx_len st1) \<le> length (st_buf_tx st1)" using same tx by simp
    note dk = deparse_keeps [OF dep this]
    have "kept st1 (st1\<lparr>st_buf_tx := tx', st_buf_tx_len := n\<rparr>)" using dk(1) by (simp add: kept_def no_ext_def)
    then show ?thesis
      using procedure_finish_keeps [OF fin] dk k1 by (simp add: kept_def)
  qed
  with wf show "kept st st'" "unat (st_buf_tx_len st') \<le> length (st_buf_tx st')"
    "internal_wf (st_in st) \<Longrightarrow> in_apdu_cur (st_in st) \<Longrightarrow> internal_wf (st_in st')" by simp_all
qed

end

section \<open>The graph of the machine\<close>

text \<open>The edges that a step can take, staying in a state included.\<close>

definition fsm_edges :: "(swicc_fsm_state \<times> swicc_fsm_state) list" where
  "fsm_edges =
     [(SWICC_FSM_STATE_OFF, SWICC_FSM_STATE_OFF), (SWICC_FSM_STATE_OFF, SWICC_FSM_STATE_ACTIVATION),
      (SWICC_FSM_STATE_ACTIVATION, SWICC_FSM_STATE_ACTIVATION), (SWICC_FSM_STATE_ACTIVATION, SWICC_FSM_STATE_RESET_COLD),
      (SWICC_FSM_STATE_ACTIVATION, SWICC_FSM_STATE_OFF),
      (SWICC_FSM_STATE_RESET_COLD, SWICC_FSM_STATE_RESET_COLD), (SWICC_FSM_STATE_RESET_COLD, SWICC_FSM_STATE_ATR_REQ),
      (SWICC_FSM_STATE_RESET_COLD, SWICC_FSM_STATE_OFF),
      (SWICC_FSM_STATE_ATR_REQ, SWICC_FSM_STATE_ATR_RES), (SWICC_FSM_STATE_ATR_REQ, SWICC_FSM_STATE_OFF),
      (SWICC_FSM_STATE_ATR_RES, SWICC_FSM_STATE_PPS_REQ), (SWICC_FSM_STATE_ATR_RES, SWICC_FSM_STATE_CMD_WAIT),
      (SWICC_FSM_STATE_ATR_RES, SWICC_FSM_STATE_OFF),
      (SWICC_FSM_STATE_RESET_WARM, SWICC_FSM_STATE_OFF),
      (SWICC_FSM_STATE_PPS_REQ, SWICC_FSM_STATE_PPS_REQ), (SWICC_FSM_STATE_PPS_REQ, SWICC_FSM_STATE_CMD_WAIT),
      (SWICC_FSM_STATE_PPS_REQ, SWICC_FSM_STATE_ATR_RES), (SWICC_FSM_STATE_PPS_REQ, SWICC_FSM_STATE_OFF),
      (SWICC_FSM_STATE_CMD_WAIT, SWICC_FSM_STATE_CMD_WAIT), (SWICC_FSM_STATE_CMD_WAIT, SWICC_FSM_STATE_CMD_PROCEDURE),
      (SWICC_FSM_STATE_CMD_WAIT, SWICC_FSM_STATE_OFF),
      (SWICC_FSM_STATE_CMD_PROCEDURE, SWICC_FSM_STATE_CMD_DATA), (SWICC_FSM_STATE_CMD_PROCEDURE, SWICC_FSM_STATE_CMD_WAIT),
      (SWICC_FSM_STATE_CMD_PROCEDURE, SWICC_FSM_STATE_OFF),
      (SWICC_FSM_STATE_CMD_DATA, SWICC_FSM_STATE_CMD_PROCEDURE), (SWICC_FSM_STATE_CMD_DATA, SWICC_FSM_STATE_CMD_WAIT),
      (SWICC_FSM_STATE_CMD_DATA, SWICC_FSM_STATE_OFF)]"

lemmas fsm_simps = Let_def bind_Some_iff fsm_edges_def

lemma reset_state: "swicc_reset st = Some (SWICC_RET_SUCCESS, st') \<Longrightarrow> in_fsm_state (st_in st') = SWICC_FSM_STATE_OFF"
  by (cases "swicc_va_reset (st_fs st)")
     (auto simp: swicc_reset_def Let_def internal_zero_def bind_Some_iff split: if_split_asm prod.split_asm)

lemma pps_complete_next:
  "pps_req_complete st = Some st' \<Longrightarrow>
     in_fsm_state (st_in st') \<in> {SWICC_FSM_STATE_CMD_WAIT, SWICC_FSM_STATE_ATR_RES, SWICC_FSM_STATE_OFF}"
  by (auto simp: pps_req_complete_def fsm_simps split: if_splits)

lemma fsm_edge_run:
  assumes "no_ext st" and "swicc_fsm H res0 st = Some st'"
  shows "(in_fsm_state (st_in st), in_fsm_state (st_in st')) \<in> set fsm_edges"
proof (cases "in_fsm_state (st_in st)")
  case SWICC_FSM_STATE_OFF
  then show ?thesis using assms(2) by (auto simp: swicc_fsm_def fsm_handle_s_off_def fsm_simps split: if_splits)
next
  case SWICC_FSM_STATE_ACTIVATION
  then show ?thesis using assms(2) by (auto simp: swicc_fsm_def fsm_handle_s_activation_def fsm_simps split: if_splits)
next
  case SWICC_FSM_STATE_RESET_COLD
  then show ?thesis using assms(2) by (auto simp: swicc_fsm_def fsm_handle_s_reset_cold_def fsm_simps split: if_splits)
next
  case SWICC_FSM_STATE_ATR_REQ
  then show ?thesis
    using assms(2) by (auto simp: swicc_fsm_def fsm_handle_s_atr_req_def fsm_simps split: if_splits)
next
  case SWICC_FSM_STATE_ATR_RES
  then show ?thesis
    using assms(2) by (auto simp: swicc_fsm_def fsm_handle_s_atr_res_def fsm_simps split: if_splits)
next
  case SWICC_FSM_STATE_RESET_WARM
  then show ?thesis
    using assms(2) reset_state
    by (auto simp: swicc_fsm_def fsm_handle_s_reset_warm_def fsm_simps split: if_splits)
next
  case SWICC_FSM_STATE_PPS_REQ
  then show ?thesis
    using assms(2)
    by (auto simp: swicc_fsm_def fsm_handle_s_pps_req_def fsm_simps dest!: pps_complete_next split: if_splits)
next
  case SWICC_FSM_STATE_CMD_WAIT
  then show ?thesis
    using assms(2)
    by (auto simp: swicc_fsm_def fsm_handle_s_cmd_wait_def swicc_tpdu_to_apdu_def fsm_simps split: if_splits)
next
  case SWICC_FSM_STATE_CMD_PROCEDURE
  then show ?thesis
    using assms demux.procedure_next [OF assms(1)]
    by (auto simp: swicc_fsm_def fsm_handle_s_cmd_procedure_def fsm_edges_def split: if_splits)
next
  case SWICC_FSM_STATE_CMD_DATA
  then show ?thesis
    using assms(2)
    by (auto simp: swicc_fsm_def fsm_handle_s_cmd_data_def fsm_simps split: if_splits)
qed

end
