(* ===== verification/Swicc_Run.thy ===== *)
theory Swicc_Run
  imports Swicc_Fsm
begin

text \<open>
  Runs of the card: the interface sets the contacts and the receive buffer and calls \<^verbatim>\<open>swicc_io\<close>, over
  and over.  What holds in every run is proved by rule induction, from what a single step of the state
  machine does.
\<close>

section \<open>Runs\<close>

definition swicc_io :: "(nat \<Rightarrow> handler) \<Rightarrow> swicc_apdu_res \<Rightarrow> swicc_st \<Rightarrow> swicc_st option" where
  "swicc_io H res0 st = swicc_fsm H res0 st"

text \<open>
  What the interface does between two calls: it drives the contacts, hands over the bytes it has and
  says how much room it has for the answer.  The bytes the card sends are the first
  \<^verbatim>\<open>buf_tx_len\<close> bytes of the TX buffer.
\<close>

definition iface :: "u32 \<Rightarrow> bytes \<Rightarrow> u16 \<Rightarrow> u16 \<Rightarrow> swicc_st \<Rightarrow> swicc_st" where
  "iface cont rx rx_len tx_len st =
     st\<lparr>st_cont_rx := cont, st_buf_rx := rx, st_buf_rx_len := rx_len, st_buf_tx_len := tx_len\<rparr>"

definition iface_ok :: "bytes \<Rightarrow> u16 \<Rightarrow> u16 \<Rightarrow> swicc_st \<Rightarrow> bool" where
  "iface_ok rx rx_len tx_len st \<longleftrightarrow> unat rx_len \<le> length rx \<and> unat tx_len \<le> length (st_buf_tx st)"

definition sent :: "swicc_st \<Rightarrow> bytes" where
  "sent st = take (unat (st_buf_tx_len st)) (st_buf_tx st)"

text \<open>A run with its trace: the state after every call and the bytes that were sent then.\<close>

inductive card_run ::
    "(nat \<Rightarrow> handler) \<Rightarrow> swicc_st \<Rightarrow> (swicc_fsm_state \<times> bytes) list \<Rightarrow> swicc_st \<Rightarrow> bool" for H where
  stop: "card_run H st [] st"
| move: "iface_ok rx rx_len tx_len st \<Longrightarrow> card_run H (iface cont rx rx_len tx_len st) tr st' \<Longrightarrow>
    card_run H st tr st'"
| call: "swicc_io H res0 st = Some st1 \<Longrightarrow> card_run H st1 tr st' \<Longrightarrow>
    card_run H st ((in_fsm_state (st_in st1), sent st1) # tr) st'"

inductive_cases card_runE: "card_run H st tr st'"

definition card_wf :: "swicc_st \<Rightarrow> bool" where
  "card_wf st \<longleftrightarrow> no_ext st \<and> internal_wf (st_in st) \<and> in_fsm_state (st_in st) \<noteq> SWICC_FSM_STATE_RESET_WARM \<and>
     2 \<le> length (st_buf_tx st) \<and> unat (st_buf_tx_len st) \<le> length (st_buf_tx st)"

lemma iface_sel [simp]:
  "st_in (iface c rx n m st) = st_in st" "st_cont_rx (iface c rx n m st) = c"
  "st_buf_rx (iface c rx n m st) = rx" "st_buf_rx_len (iface c rx n m st) = n"
  "st_buf_tx (iface c rx n m st) = st_buf_tx st" "st_buf_tx_len (iface c rx n m st) = m"
  "st_fs (iface c rx n m st) = st_fs st" "st_rc (iface c rx n m st) = st_rc st"
  "st_cont_tx (iface c rx n m st) = st_cont_tx st"
  by (simp_all add: iface_def)

lemma iface_wf: "iface_ok rx n m st \<Longrightarrow> card_wf st \<Longrightarrow> card_wf (iface c rx n m st)"
  by (simp add: card_wf_def iface_ok_def no_ext_def)

section \<open>Every handler keeps the card well-formed\<close>

text \<open>What a step may do to the rest of the card, from which the invariant follows.\<close>

lemma wf_set:
  assumes "card_wf st"
  shows "card_wf (fsm_off st)"
    "s \<notin> {SWICC_FSM_STATE_RESET_WARM, SWICC_FSM_STATE_CMD_PROCEDURE, SWICC_FSM_STATE_CMD_DATA} \<Longrightarrow>
      card_wf (set_lens (set_state st s) n 0)"
    "card_wf (set_lens st n 0)" "card_wf (st\<lparr>st_cont_tx := c\<rparr>)"
    "card_wf (set_lens (cmd_done st) n 0)" "card_wf (cmd_wait_again st)"
  using assms by (simp_all add: card_wf_def no_ext_def internal_wf_def)

lemma wf_first_states:
  assumes "card_wf st"
  shows "card_wf (fsm_handle_s_off st)" "card_wf (fsm_handle_s_activation st)" "card_wf (fsm_handle_s_reset_cold st)"
  using wf_set [OF assms] wf_set [OF wf_set(4) [OF assms]]
  by (simp_all add: fsm_handle_s_off_def fsm_handle_s_activation_def fsm_handle_s_reset_cold_def Let_def)

lemma wf_atr_req: "card_wf st \<Longrightarrow> fsm_handle_s_atr_req st = Some st' \<Longrightarrow> card_wf st'"
  using wf_set(1) [of st]
  by (auto simp: fsm_handle_s_atr_req_def bind_Some_iff swicc_atr_wf card_wf_def no_ext_def internal_wf_def
      dest: length_wrn split: if_split_asm)

lemma wf_atr_res: "card_wf st \<Longrightarrow> fsm_handle_s_atr_res st = Some st' \<Longrightarrow> card_wf st'"
  using wf_set(1) [of st]
  by (auto simp: fsm_handle_s_atr_res_def Let_def bind_Some_iff card_wf_def no_ext_def internal_wf_def
      dest: length_wrn split: if_split_asm)

lemma pps_deparse_keeps:
  assumes "pps_deparse p pps0 tx m = Some (r, tx', m')" "unat m \<le> length tx"
  shows "length tx' = length tx \<and> unat m' \<le> length tx'"
proof -
  obtain body where b: "pps_body p pps0 = Some body" using assms(1) by (auto simp: pps_deparse_def bind_Some_iff)
  then have "length body \<le> 5" by (auto simp: pps_body_def bind_Some_iff split: if_split_asm)
  then have "unat (word_of_nat (length body + 1) :: u16) = length body + 1"
    by (simp only: unat_of_nat) simp
  then show ?thesis
    using assms b by (auto simp: pps_deparse_def bind_Some_iff wrn_Some split: if_split_asm)
qed

lemma swicc_pps_keeps:
  "swicc_pps p rx n tx m = Some (r, p', tx', m') \<Longrightarrow> unat m \<le> length tx \<Longrightarrow>
     length tx' = length tx \<and> unat m' \<le> length tx'"
  by (auto simp: swicc_pps_def bind_Some_iff dest: pps_deparse_keeps split: if_split_asm)

lemma wf_pps_complete:
  assumes "card_wf st" "in_fsm_state (st_in st) = SWICC_FSM_STATE_PPS_REQ" "pps_req_complete st = Some st'"
  shows "card_wf st'"
proof -
  have "unat (st_buf_tx_len st) \<le> length (st_buf_tx st)" using assms(1) by (simp add: card_wf_def)
  then show ?thesis
    using assms
    by (auto simp: pps_req_complete_def Let_def bind_Some_iff card_wf_def no_ext_def internal_wf_def
        dest!: swicc_pps_keeps split: if_split_asm)
qed

lemma short_sum: "unat (n :: u16) + unat (k :: u8) < 256 \<Longrightarrow> unat (ucast n + k) = unat n + unat k"
  by (simp add: unat_word_ariths unsigned_ucast_eq take_bit_eq_mod)

lemma wf_pps_req:
  assumes "card_wf st" "in_fsm_state (st_in st) = SWICC_FSM_STATE_PPS_REQ" "fsm_handle_s_pps_req st = Some st'"
  shows "card_wf st'"
proof (cases "st_cont_rx st = FSM_STATE_CONT_READY \<and> unat (in_pps_len (st_in st)) + unat (st_buf_rx_len st) \<le> SWICC_PPS_LEN_MAX")
  case False
  then have "st' = fsm_off st" using assms(3) unfolding fsm_handle_s_pps_req_def Let_def by (metis option.inject)
  then show ?thesis using wf_set(1) [OF assms(1)] by simp
next
  case True
  then obtain src pps where w: "rdn (st_buf_rx st) 0 (unat (st_buf_rx_len st)) = Some src"
      "wrn (in_pps (st_in st)) (unat (in_pps_len (st_in st))) src = Some pps"
    using assms(3) by (auto simp: fsm_handle_s_pps_req_def Let_def bind_Some_iff)
  define n where "n = in_pps_len (st_in st) + ucast (st_buf_rx_len st)"
  define st1 where "st1 = st\<lparr>st_in := (st_in st)\<lparr>in_pps := pps, in_pps_len := n\<rparr>\<rparr>"
  have "unat n \<le> SWICC_PPS_LEN_MAX"
    using True short_sum [of "st_buf_rx_len st" "in_pps_len (st_in st)"] by (simp add: n_def add.commute)
  then have wf1: "card_wf st1" and s1: "in_fsm_state (st_in st1) = SWICC_FSM_STATE_PPS_REQ"
    using assms(1,2) length_wrn [OF w(2)] by (simp_all add: st1_def card_wf_def no_ext_def internal_wf_def)
  show ?thesis
    using assms(3) True w wf_pps_complete [OF wf1 s1] wf_set(1,3) [OF wf1]
    unfolding fsm_handle_s_pps_req_def Let_def
    by (auto simp: bind_Some_iff st1_def n_def split: if_split_asm)
qed

lemma tpdu_parse_keeps:
  "swicc_tpdu_cmd_parse hdr 5 c = Some (r, c') \<Longrightarrow> data_ok (cmd_data c) \<Longrightarrow>
     unat (data_len (cmd_data c)) \<le> SWICC_DATA_MAX \<Longrightarrow>
     data_ok (cmd_data c') \<and> unat (data_len (cmd_data c')) \<le> SWICC_DATA_MAX"
  by (auto simp: swicc_tpdu_cmd_parse_def Let_def bind_Some_iff data_ok_def dest: length_wrn split: if_split_asm)

lemma clear_wf: "internal_wf i \<Longrightarrow> internal_wf (cmd_wait_clear i)"
  by (simp add: cmd_wait_clear_def internal_wf_def tpdu_zero_def data_zero_def data_ok_def)

lemma clear_no_ext:
  "in_apduh_pro (cmd_wait_clear i) = in_apduh_pro i" "in_apduh_override (cmd_wait_clear i) = in_apduh_override i"
  by (simp_all add: cmd_wait_clear_def)

lemma wf_cmd_wait:
  assumes "card_wf st" "in_fsm_state (st_in st) = SWICC_FSM_STATE_CMD_WAIT" "fsm_handle_s_cmd_wait st = Some st'"
  shows "card_wf st'"
proof -
  define i where "i = cmd_wait_clear (st_in st)"
  have i: "internal_wf i" "in_fsm_state i = SWICC_FSM_STATE_CMD_WAIT" "in_apduh_pro i = None" "in_apduh_override i = None"
    "2 \<le> length (st_buf_tx st)"
    using assms(1,2) clear_wf [of "st_in st"] by (simp_all add: i_def card_wf_def no_ext_def clear_no_ext)
  show ?thesis
    using assms(3) i wf_set(1) [OF assms(1)]
    unfolding fsm_handle_s_cmd_wait_def i_def [symmetric] Let_def
    by (auto simp: bind_Some_iff swicc_tpdu_to_apdu_def card_wf_def no_ext_def internal_wf_def short_sum
        dest!: length_wrn tpdu_parse_keeps split: if_split_asm)
qed

lemma wf_cmd_data:
  assumes "card_wf st" "fsm_handle_s_cmd_data st = Some st'"
  shows "card_wf st'"
  using assms wf_set(1) [OF assms(1)]
  by (auto simp: fsm_handle_s_cmd_data_def Let_def bind_Some_iff card_wf_def no_ext_def internal_wf_def data_ok_def
      assert_ub_def unat_word_ariths dest!: length_wrn split: if_split_asm)

lemma wf_cmd_procedure:
  assumes "card_wf st" "in_fsm_state (st_in st) = SWICC_FSM_STATE_CMD_PROCEDURE"
    and "fsm_handle_s_cmd_procedure H res0 st = Some st'"
  shows "card_wf st'"
proof (cases "st_cont_rx st = FSM_STATE_CONT_READY")
  case False
  then show ?thesis using assms(3) wf_set(1) [OF assms(1)] by (auto simp: fsm_handle_s_cmd_procedure_def)
next
  case True
  have st: "no_ext st" "internal_wf (st_in st)" "in_apdu_cur (st_in st)" "2 \<le> length (st_buf_tx st)"
    "unat (st_buf_tx_len st) \<le> length (st_buf_tx st)"
    using assms(1,2) by (simp_all add: card_wf_def internal_wf_def)
  have run: "cmd_procedure_run (swicc_apduh_demux H) res0 st = Some st'"
    using True assms(3) by (simp add: fsm_handle_s_cmd_procedure_def)
  show ?thesis
    using demux.procedure_keeps [OF st(1) run st(5)] demux.procedure_next [OF st(1) run] st
    by (auto simp: card_wf_def kept_def)
qed

lemma step_wf:
  assumes wf: "card_wf st" and run: "swicc_io H res0 st = Some st'"
  shows "card_wf st'"
  using run wf_first_states [OF wf] wf_atr_req [OF wf] wf_atr_res [OF wf] wf_pps_req [OF wf] wf_cmd_wait [OF wf]
    wf_cmd_data [OF wf] wf_cmd_procedure [OF wf] wf
  by (cases "in_fsm_state (st_in st)") (auto simp: swicc_io_def swicc_fsm_def card_wf_def)

text \<open>What no step changes; once the card has its I/O contact up, it stays up.\<close>

definition io_same :: "swicc_st \<Rightarrow> swicc_st \<Rightarrow> bool" where
  "io_same st st' \<longleftrightarrow> st_cont_rx st' = st_cont_rx st \<and> st_buf_rx st' = st_buf_rx st \<and>
     st_shutdown st' = st_shutdown st \<and> length (st_buf_tx st') = length (st_buf_tx st) \<and>
     (st_cont_tx st = 0x6000 \<longrightarrow> st_cont_tx st' = 0x6000)"

lemma same_first_states:
  "io_same st (fsm_handle_s_off st)" "io_same st (fsm_handle_s_activation st)" "io_same st (fsm_handle_s_reset_cold st)"
  by (simp_all add: io_same_def fsm_handle_s_off_def fsm_handle_s_activation_def fsm_handle_s_reset_cold_def Let_def)

lemma same_atr:
  "fsm_handle_s_atr_req st = Some st' \<Longrightarrow> io_same st st'" "fsm_handle_s_atr_res st = Some st' \<Longrightarrow> io_same st st'"
  by (auto simp: io_same_def fsm_handle_s_atr_req_def fsm_handle_s_atr_res_def Let_def bind_Some_iff length_wrn split: if_split_asm)

lemma same_pps_complete:
  assumes run: "pps_req_complete st = Some st'" and tx: "unat (st_buf_tx_len st) \<le> length (st_buf_tx st)"
  shows "io_same st st'"
  using run swicc_pps_keeps [OF _ tx] by (auto simp: io_same_def pps_req_complete_def Let_def bind_Some_iff split: if_split_asm)

lemma io_same_simps:
  "io_same (st\<lparr>st_in := i\<rparr>) st' \<longleftrightarrow> io_same st st'" "io_same st (set_lens st m n)" "io_same st (fsm_off st)"
  by (simp_all add: io_same_def)

lemma same_pps_req:
  assumes "fsm_handle_s_pps_req st = Some st'" and "unat (st_buf_tx_len st) \<le> length (st_buf_tx st)"
  shows "io_same st st'"
proof -
  have "io_same st st'" if "pps_req_complete (st\<lparr>st_in := i\<rparr>) = Some st'" for i
    using same_pps_complete [OF that] assms(2) by (simp add: io_same_simps)
  moreover have "io_same st (set_lens (st\<lparr>st_in := i\<rparr>) m n)" "io_same st (fsm_off (st\<lparr>st_in := i\<rparr>))" for i m n
    by (simp_all add: io_same_def)
  ultimately show ?thesis
    using assms(1) by (auto simp: fsm_handle_s_pps_req_def Let_def bind_Some_iff io_same_simps split: if_split_asm)
qed

lemma same_cmd_wait: "fsm_handle_s_cmd_wait st = Some st' \<Longrightarrow> io_same st st'"
  by (auto simp: io_same_def fsm_handle_s_cmd_wait_def swicc_tpdu_to_apdu_def Let_def bind_Some_iff split: if_split_asm)

lemma same_cmd_data: "fsm_handle_s_cmd_data st = Some st' \<Longrightarrow> io_same st st'"
  by (auto simp: io_same_def fsm_handle_s_cmd_data_def Let_def bind_Some_iff split: if_split_asm)

lemma same_cmd_procedure:
  assumes "card_wf st" "fsm_handle_s_cmd_procedure H res0 st = Some st'"
  shows "io_same st st'"
proof (cases "st_cont_rx st = FSM_STATE_CONT_READY")
  case True
  then have "cmd_procedure_run (swicc_apduh_demux H) res0 st = Some st'"
    using assms(2) by (simp add: fsm_handle_s_cmd_procedure_def)
  moreover have "no_ext st" "unat (st_buf_tx_len st) \<le> length (st_buf_tx st)" using assms(1) by (simp_all add: card_wf_def)
  ultimately have "kept st st'" by (intro demux.procedure_keeps(1))
  then show ?thesis by (simp add: kept_def io_same_def)
next
  case False
  then show ?thesis using assms(2) by (auto simp: fsm_handle_s_cmd_procedure_def io_same_def)
qed

lemma io_keeps:
  assumes wf: "card_wf st" and run: "swicc_io H res0 st = Some st'"
  shows "io_same st st'"
proof -
  have "unat (st_buf_tx_len st) \<le> length (st_buf_tx st)" "in_fsm_state (st_in st) \<noteq> SWICC_FSM_STATE_RESET_WARM"
    using wf by (simp_all add: card_wf_def)
  then show ?thesis
    using run same_first_states same_atr same_pps_req same_cmd_wait same_cmd_data same_cmd_procedure [OF wf]
    by (cases "in_fsm_state (st_in st)") (auto simp: swicc_io_def swicc_fsm_def)
qed

lemma run_wf: "card_run H st tr st' \<Longrightarrow> card_wf st \<Longrightarrow> card_wf st'"
  by (induction rule: card_run.induct) (auto dest: step_wf simp: iface_wf)

section \<open>A run follows the graph\<close>

lemma run_edges:
  "card_run H st tr st' \<Longrightarrow> card_wf st \<Longrightarrow>
     successively (\<lambda>s t. (s, t) \<in> set fsm_edges) (in_fsm_state (st_in st) # map fst tr)"
proof (induction rule: card_run.induct)
  case (stop st)
  then show ?case by simp
next
  case (move rx n m st c tr st')
  then show ?case using iface_wf by fastforce
next
  case (call res0 st st1 tr st')
  have "(in_fsm_state (st_in st), in_fsm_state (st_in st1)) \<in> set fsm_edges"
    using call.hyps(1) call.prems fsm_edge_run by (auto simp: swicc_io_def card_wf_def)
  then show ?case using call step_wf by (auto simp: successively_Cons)
qed

text \<open>A card right after a reset, without registered handlers.\<close>

definition card_init :: "swicc_st \<Rightarrow> bool" where
  "card_init st \<longleftrightarrow> st_in st = internal_zero \<and> 2 \<le> length (st_buf_tx st) \<and> st_buf_tx_len st = 0"

lemma init_wf: "card_init st \<Longrightarrow> card_wf st"
  using internal_zero_wf [of None None]
  by (simp add: card_init_def card_wf_def no_ext_def) (simp add: internal_zero_def)

definition demo_card :: swicc_st where
  "demo_card = \<lparr>st_shutdown = False, st_userdata = 0, st_cont_rx = 0, st_cont_tx = 0,
     st_buf_rx = replicate 8 0, st_buf_rx_len = 0, st_buf_tx = replicate 64 0, st_buf_tx_len = 0,
     st_fs = \<lparr>fs_va = va_zero, fs_disk = disk_zero\<rparr>, st_rc = rc_zero, st_in = internal_zero\<rparr>"

lemma demo_card_init: "card_init demo_card"
  by (simp add: card_init_def demo_card_def)

text \<open>
  C3.  Whatever an interface does to a card after its reset, the card stays well-formed (no header, PPS
  or command data ever exceeds its array, the bytes to send stay within the TX buffer, a command is being
  handled only after one was received), the states it goes through follow the graph of the machine, and
  it never gets to the warm reset.
\<close>

theorem runs_follow_graph:
  assumes "card_init st" and "card_run H st tr st'"
  shows "card_wf st' \<and> SWICC_FSM_STATE_RESET_WARM \<noteq> in_fsm_state (st_in st') \<and>
    successively (\<lambda>s t. (s, t) \<in> set fsm_edges) (SWICC_FSM_STATE_OFF # map fst tr)"
  using run_wf [OF assms(2) init_wf [OF assms(1)]] run_edges [OF assms(2) init_wf [OF assms(1)]] assms(1)
  by (auto simp: card_init_def internal_zero_def card_wf_def)

text \<open>Two calls on the small card: one with the supply on, one with the supply lost.\<close>

definition demo_vcc :: swicc_st where
  "demo_vcc = fsm_handle_s_off (iface (SWICC_IO_CONT_VCC OR SWICC_IO_CONT_VALID_ALL) [] 0 64 demo_card)"

lemma demo_run: "\<exists>st'. card_run H demo_card [(SWICC_FSM_STATE_ACTIVATION, []), (SWICC_FSM_STATE_OFF, [])] st'"
proof -
  let ?on = "iface (SWICC_IO_CONT_VCC OR SWICC_IO_CONT_VALID_ALL) [] 0 64 demo_card"
  let ?off = "iface 0 [] 0 64 demo_vcc"
  have s: "in_fsm_state (st_in demo_vcc) = SWICC_FSM_STATE_ACTIVATION" "sent demo_vcc = []" "st_buf_tx demo_vcc = replicate 64 0"
    by (simp_all add: demo_vcc_def fsm_handle_s_off_def sent_def demo_card_def Let_def)
  have on: "swicc_io H res0 ?on = Some demo_vcc" for res0
    by (simp add: swicc_io_def swicc_fsm_def demo_vcc_def) (simp add: demo_card_def internal_zero_def)
  have off: "swicc_io H res0 ?off = Some (fsm_off ?off)" for res0
    using s by (simp add: swicc_io_def swicc_fsm_def fsm_handle_s_activation_def fsm_off_def SWICC_IO_CONT_VALID_ALL_def)
  have "card_run H ?off [(SWICC_FSM_STATE_OFF, [])] (fsm_off ?off)"
    using card_run.call [OF off card_run.stop] by (simp add: sent_def)
  then have "card_run H demo_vcc [(SWICC_FSM_STATE_OFF, [])] (fsm_off ?off)"
    by (rule card_run.move [rotated]) (simp add: iface_ok_def s)
  from card_run.call [OF on this] s have "card_run H ?on [(SWICC_FSM_STATE_ACTIVATION, []), (SWICC_FSM_STATE_OFF, [])] (fsm_off ?off)"
    by simp
  then have "card_run H demo_card [(SWICC_FSM_STATE_ACTIVATION, []), (SWICC_FSM_STATE_OFF, [])] (fsm_off ?off)"
    by (rule card_run.move [rotated]) (simp add: iface_ok_def demo_card_def)
  then show ?thesis ..
qed

theorem runs_follow_graph_witness:
  "\<exists>st'. card_run (\<lambda>_. apduh_unk) demo_card [(SWICC_FSM_STATE_ACTIVATION, []), (SWICC_FSM_STATE_OFF, [])] st' \<and> card_wf st'"
  using demo_run runs_follow_graph [OF demo_card_init] by blast

section \<open>The first answer\<close>

abbreviation unanswered :: "swicc_fsm_state set" where
  "unanswered \<equiv> {SWICC_FSM_STATE_OFF, SWICC_FSM_STATE_ACTIVATION, SWICC_FSM_STATE_RESET_COLD, SWICC_FSM_STATE_ATR_REQ}"

text \<open>
  An observer of the trace: \<open>pend\<close> says that nothing was sent since the card was last off; then the next
  bytes have to be the answer to reset.
\<close>

fun atr_first :: "bool \<Rightarrow> (swicc_fsm_state \<times> bytes) list \<Rightarrow> bool" where
  "atr_first pend [] = True"
| "atr_first pend ((s, b) # tr) =
     ((pend \<longrightarrow> b = [] \<or> b = swicc_atr) \<and> atr_first (s = SWICC_FSM_STATE_OFF \<or> (pend \<and> b = [])) tr)"

lemma atr_req_sends:
  assumes "fsm_handle_s_atr_req st = Some st1"
  shows "sent st1 = [] \<and> in_fsm_state (st_in st1) = SWICC_FSM_STATE_OFF \<or> sent st1 = swicc_atr"
  using assms
  by (auto simp: fsm_handle_s_atr_req_def bind_Some_iff sent_def swicc_atr_wf wrn_Some split: if_split_asm)

lemma first_states_silent:
  "sent (fsm_handle_s_off st) = []" "in_fsm_state (st_in st) = SWICC_FSM_STATE_OFF \<Longrightarrow> in_fsm_state (st_in (fsm_handle_s_off st)) \<in> unanswered"
  "sent (fsm_handle_s_activation st) = []"
  "in_fsm_state (st_in st) = SWICC_FSM_STATE_ACTIVATION \<Longrightarrow> in_fsm_state (st_in (fsm_handle_s_activation st)) \<in> unanswered"
  "sent (fsm_handle_s_reset_cold st) = []"
  "in_fsm_state (st_in st) = SWICC_FSM_STATE_RESET_COLD \<Longrightarrow> in_fsm_state (st_in (fsm_handle_s_reset_cold st)) \<in> unanswered"
  by (simp_all add: fsm_handle_s_off_def fsm_handle_s_activation_def fsm_handle_s_reset_cold_def Let_def sent_def)

lemma unanswered_step:
  assumes "in_fsm_state (st_in st) \<in> unanswered" and "swicc_io H res0 st = Some st1"
  shows "(sent st1 = [] \<and> in_fsm_state (st_in st1) \<in> unanswered) \<or> sent st1 = swicc_atr"
proof -
  consider "in_fsm_state (st_in st) = SWICC_FSM_STATE_OFF" "st1 = fsm_handle_s_off st"
    | "in_fsm_state (st_in st) = SWICC_FSM_STATE_ACTIVATION" "st1 = fsm_handle_s_activation st"
    | "in_fsm_state (st_in st) = SWICC_FSM_STATE_RESET_COLD" "st1 = fsm_handle_s_reset_cold st"
    | "fsm_handle_s_atr_req st = Some st1"
    using assms by (auto simp: swicc_io_def swicc_fsm_def)
  then show ?thesis
    by cases (use first_states_silent [of st] atr_req_sends [of st st1] in auto)
qed

lemma atr_first_run:
  "card_run H st tr st' \<Longrightarrow> pend \<longrightarrow> in_fsm_state (st_in st) \<in> unanswered \<Longrightarrow> atr_first pend tr"
proof (induction arbitrary: pend rule: card_run.induct)
  case (call res0 st st1 tr st')
  have ne: "swicc_atr \<noteq> []" by (simp add: swicc_atr_def)
  have one: "pend \<Longrightarrow> (sent st1 = [] \<and> in_fsm_state (st_in st1) \<in> unanswered) \<or> sent st1 = swicc_atr"
    using unanswered_step [OF _ call.hyps(1)] call.prems by blast
  have "atr_first (in_fsm_state (st_in st1) = SWICC_FSM_STATE_OFF \<or> (pend \<and> sent st1 = [])) tr"
  proof (rule call.IH, rule impI)
    assume "in_fsm_state (st_in st1) = SWICC_FSM_STATE_OFF \<or> (pend \<and> sent st1 = [])"
    then show "in_fsm_state (st_in st1) \<in> unanswered" using one ne by (elim disjE) auto
  qed
  then show ?case using one by auto
qed simp_all

text \<open>
  C26.  After a reset and after every deactivation, the first bytes the card sends are the answer to reset,
  whatever the interface does.
\<close>

theorem first_answer_is_atr:
  assumes "card_init st" and "card_run H st tr st'"
  shows "atr_first True tr"
  using assms(1) atr_first_run [OF assms(2), of True] by (simp add: card_init_def internal_zero_def)

text \<open>The small card, powered up, with the clock on and out of reset: it sends its ATR.\<close>

lemma run_call:
  assumes "iface_ok rx n m st" and "swicc_io H res0 (iface c rx n m st) = Some st1" and "card_run H st1 tr st'"
  shows "card_run H st ((in_fsm_state (st_in st1), sent st1) # tr) st'"
  by (rule card_run.move [OF assms(1) card_run.call [OF assms(2,3)]])

lemma demo_atr_run:
  "\<exists>st'. card_run H demo_card
     [(SWICC_FSM_STATE_ACTIVATION, []), (SWICC_FSM_STATE_RESET_COLD, []), (SWICC_FSM_STATE_ATR_REQ, []),
      (SWICC_FSM_STATE_ATR_RES, swicc_atr)] st'"
proof -
  let ?on = "SWICC_IO_CONT_VCC OR SWICC_IO_CONT_IO OR SWICC_IO_CONT_CLK OR SWICC_IO_CONT_VALID_ALL"
  define res0 where "res0 = \<lparr>res_sw1 = 0, res_sw2 = 0, res_data = data_zero\<rparr>"
  define d1 where "d1 = fsm_handle_s_off (iface (SWICC_IO_CONT_VCC OR SWICC_IO_CONT_VALID_ALL) [] 0 64 demo_card)"
  define d2 where "d2 = fsm_handle_s_activation (iface ?on [] 0 64 d1)"
  define d3 where "d3 = fsm_handle_s_reset_cold (iface FSM_STATE_CONT_READY [] 0 64 d2)"
  have l: "length (st_buf_tx d1) = 64" "length (st_buf_tx d2) = 64" "length (st_buf_tx d3) = 64"
    by (simp_all add: d1_def d2_def d3_def fsm_handle_s_off_def fsm_handle_s_activation_def fsm_handle_s_reset_cold_def Let_def demo_card_def)
  have f1: "in_fsm_state (st_in d1) = SWICC_FSM_STATE_ACTIVATION" "sent d1 = []"
    by (simp_all add: d1_def fsm_handle_s_off_def sent_def Let_def)
  have f2: "in_fsm_state (st_in d2) = SWICC_FSM_STATE_RESET_COLD" "sent d2 = []"
    by (simp_all add: d2_def fsm_handle_s_activation_def sent_def Let_def)
  have f3: "in_fsm_state (st_in d3) = SWICC_FSM_STATE_ATR_REQ" "sent d3 = []"
    by (simp_all add: d3_def fsm_handle_s_reset_cold_def sent_def Let_def)
  obtain tx where tx: "wrn (st_buf_tx d3) 0 swicc_atr = Some tx" "take (length swicc_atr) tx = swicc_atr"
    using l(3) swicc_atr_wf by (simp add: wrn_def)
  let ?d4 = "set_state (set_lens ((iface FSM_STATE_CONT_READY [] 0 64 d3)\<lparr>st_buf_tx := tx\<rparr>) 1 (word_of_nat (length swicc_atr))) SWICC_FSM_STATE_ATR_RES"
  have f4: "in_fsm_state (st_in ?d4) = SWICC_FSM_STATE_ATR_RES" "sent ?d4 = swicc_atr"
    using tx swicc_atr_wf by (simp_all add: sent_def)
  have c4: "swicc_io H res0 (iface FSM_STATE_CONT_READY [] 0 64 d3) = Some ?d4"
    using f3 l(3) tx(1) swicc_atr_wf by (simp add: swicc_io_def swicc_fsm_def fsm_handle_s_atr_req_def)
  have "card_run H d3 ((in_fsm_state (st_in ?d4), sent ?d4) # []) ?d4"
    by (rule run_call [OF _ c4 card_run.stop]) (simp add: iface_ok_def l)
  then have r3: "card_run H d3 [(SWICC_FSM_STATE_ATR_RES, swicc_atr)] ?d4" unfolding f4 .
  have c3: "swicc_io H res0 (iface FSM_STATE_CONT_READY [] 0 64 d2) = Some d3"
    using f2 by (simp add: swicc_io_def swicc_fsm_def d3_def)
  note r2 = run_call [OF _ c3 r3, unfolded f3]
  have c2: "swicc_io H res0 (iface ?on [] 0 64 d1) = Some d2"
    using f1 by (simp add: swicc_io_def swicc_fsm_def d2_def)
  have c1: "swicc_io H res0 (iface (SWICC_IO_CONT_VCC OR SWICC_IO_CONT_VALID_ALL) [] 0 64 demo_card) = Some d1"
    by (simp add: swicc_io_def swicc_fsm_def d1_def) (simp add: demo_card_def internal_zero_def)
  have ok: "iface_ok [] 0 64 d2" "iface_ok [] 0 64 d1" "iface_ok [] 0 64 demo_card" using l by (simp_all add: iface_ok_def demo_card_def)
  show ?thesis
    using run_call [OF ok(3) c1 run_call [OF ok(2) c2 r2 [OF ok(1)], unfolded f2], unfolded f1] by blast
qed

theorem first_answer_is_atr_witness:
  "\<exists>st'. card_run (\<lambda>_. apduh_unk) demo_card
     [(SWICC_FSM_STATE_ACTIVATION, []), (SWICC_FSM_STATE_RESET_COLD, []), (SWICC_FSM_STATE_ATR_REQ, []),
      (SWICC_FSM_STATE_ATR_RES, swicc_atr)] st' \<and>
     atr_first True [(SWICC_FSM_STATE_ACTIVATION, []), (SWICC_FSM_STATE_RESET_COLD, []), (SWICC_FSM_STATE_ATR_REQ, []),
      (SWICC_FSM_STATE_ATR_RES, swicc_atr)] \<and> length swicc_atr = SWICC_ATR_LEN"
proof -
  obtain st' where run: "card_run (\<lambda>_. apduh_unk) demo_card
     [(SWICC_FSM_STATE_ACTIVATION, []), (SWICC_FSM_STATE_RESET_COLD, []), (SWICC_FSM_STATE_ATR_REQ, []),
      (SWICC_FSM_STATE_ATR_RES, swicc_atr)] st'"
    using demo_atr_run by blast
  show ?thesis using run first_answer_is_atr [OF demo_card_init run] swicc_atr_wf by blast
qed

section \<open>The end of the command phase\<close>

lemma procedure_off:
  assumes "no_ext st" "fsm_handle_s_cmd_procedure H res0 st = Some st'"
  shows "if st_cont_rx st = FSM_STATE_CONT_READY then in_fsm_state (st_in st') \<noteq> SWICC_FSM_STATE_OFF else st' = fsm_off st"
proof (cases "st_cont_rx st = FSM_STATE_CONT_READY")
  case True
  then have "cmd_procedure_run (swicc_apduh_demux H) res0 st = Some st'"
    using assms(2) by (simp add: fsm_handle_s_cmd_procedure_def)
  from demux.procedure_next [OF assms(1) this] True show ?thesis by auto
next
  case False
  then show ?thesis using assms(2) by (simp add: fsm_handle_s_cmd_procedure_def)
qed

lemma command_phase_step:
  assumes "no_ext st" and "swicc_io H res0 st = Some st'"
    and "in_fsm_state (st_in st) \<in> {SWICC_FSM_STATE_CMD_WAIT, SWICC_FSM_STATE_CMD_PROCEDURE, SWICC_FSM_STATE_CMD_DATA}"
  shows "if st_cont_rx st = FSM_STATE_CONT_READY then in_fsm_state (st_in st') \<noteq> SWICC_FSM_STATE_OFF else st' = fsm_off st"
proof -
  consider (wait) "in_fsm_state (st_in st) = SWICC_FSM_STATE_CMD_WAIT" "fsm_handle_s_cmd_wait st = Some st'"
    | (proc) "fsm_handle_s_cmd_procedure H res0 st = Some st'"
    | (data) "in_fsm_state (st_in st) = SWICC_FSM_STATE_CMD_DATA" "fsm_handle_s_cmd_data st = Some st'"
    using assms(2,3) by (auto simp: swicc_io_def swicc_fsm_def)
  then show ?thesis
  proof cases
    case wait
    then show ?thesis
      by (auto simp: fsm_handle_s_cmd_wait_def Let_def bind_Some_iff swicc_tpdu_to_apdu_def split: if_split_asm)
  next
    case proc
    then show ?thesis by (rule procedure_off [OF assms(1)])
  next
    case data
    then show ?thesis by (auto simp: fsm_handle_s_cmd_data_def Let_def bind_Some_iff split: if_split_asm)
  qed
qed

text \<open>
  C27.  While commands are exchanged the card switches itself off exactly when the contacts leave the
  operating condition, and then it sends nothing, asks for nothing and keeps its files and its response
  buffer as they are; nothing that is received in the operating condition can switch it off.
\<close>

theorem command_phase_ends_by_contacts:
  assumes "no_ext st" and "swicc_io H res0 st = Some st'"
    and "in_fsm_state (st_in st) \<in> {SWICC_FSM_STATE_CMD_WAIT, SWICC_FSM_STATE_CMD_PROCEDURE, SWICC_FSM_STATE_CMD_DATA}"
  shows "(in_fsm_state (st_in st') = SWICC_FSM_STATE_OFF \<longleftrightarrow> st_cont_rx st \<noteq> FSM_STATE_CONT_READY) \<and>
    (st_cont_rx st \<noteq> FSM_STATE_CONT_READY \<longrightarrow>
      sent st' = [] \<and> st_buf_rx_len st' = 0 \<and> st_fs st' = st_fs st \<and> st_rc st' = st_rc st)"
  using command_phase_step [OF assms] by (simp add: sent_def split: if_split_asm)

text \<open>A card in the middle of a header.\<close>

definition demo_wait :: swicc_st where
  "demo_wait = set_state (iface FSM_STATE_CONT_READY [0x00, 0xA4] 2 64 demo_card) SWICC_FSM_STATE_CMD_WAIT"

lemma demo_wait_step:
  "\<exists>st'. swicc_io H res0 demo_wait = Some st' \<and> in_fsm_state (st_in st') = SWICC_FSM_STATE_CMD_WAIT"
  by (simp add: demo_wait_def swicc_io_def swicc_fsm_def fsm_handle_s_cmd_wait_def cmd_wait_clear_def demo_card_def
      internal_zero_def Let_def rdn_def wrn_def)

theorem command_phase_ends_by_contacts_witness:
  "\<exists>st'. swicc_io (\<lambda>_. apduh_unk) \<lparr>res_sw1 = 0, res_sw2 = 0, res_data = data_zero\<rparr> demo_wait = Some st' \<and>
     in_fsm_state (st_in st') \<noteq> SWICC_FSM_STATE_OFF"
proof -
  have "no_ext demo_wait" "in_fsm_state (st_in demo_wait) = SWICC_FSM_STATE_CMD_WAIT" "st_cont_rx demo_wait = FSM_STATE_CONT_READY"
    by (simp_all add: demo_wait_def no_ext_def demo_card_def internal_zero_def)
  with demo_wait_step command_phase_ends_by_contacts show ?thesis by blast
qed

section \<open>No step leaves its buffers\<close>

lemma wrn_ex: "off + length bs \<le> length b \<Longrightarrow> \<exists>b'. wrn b off bs = Some b'"
  by (simp add: wrn_def)

lemma atr_req_defined:
  assumes "card_wf st"
  shows "\<exists>st'. fsm_handle_s_atr_req st = Some st'"
proof -
  have "unat (st_buf_tx_len st) \<le> length (st_buf_tx st)" using assms by (simp add: card_wf_def)
  then show ?thesis by (auto simp: fsm_handle_s_atr_req_def wrn_def swicc_atr_wf)
qed

lemma atr_res_defined:
  assumes "card_wf st" "unat (st_buf_rx_len st) \<le> length (st_buf_rx st)"
  shows "\<exists>st'. fsm_handle_s_atr_res st = Some st'"
proof (cases "st_buf_rx_len st = 1")
  case True
  then have "0 < length (st_buf_rx st)" using assms(2) by (simp add: Suc_le_eq)
  moreover have "length (in_pps (st_in st)) = SWICC_PPS_LEN_MAX" "length (in_tpdu_hdr (st_in st)) = 5"
    using assms(1) by (simp_all add: card_wf_def internal_wf_def)
  ultimately show ?thesis by (simp add: fsm_handle_s_atr_res_def Let_def rd_def wrn_def)
qed (simp add: fsm_handle_s_atr_res_def)

lemma cmd_wait_defined:
  assumes "card_wf st" "unat (st_buf_rx_len st) \<le> length (st_buf_rx st)"
  shows "\<exists>st'. fsm_handle_s_cmd_wait st = Some st'"
proof -
  define i where "i = cmd_wait_clear (st_in st)"
  have i: "length (in_tpdu_hdr i) = 5"
    using assms(1) clear_wf [of "st_in st"] by (simp add: i_def card_wf_def internal_wf_def)
  show ?thesis
  proof (cases "unat (st_buf_rx_len st) + unat (in_tpdu_hdr_len i) \<le> 5")
    case True
    obtain src where src: "rdn (st_buf_rx st) 0 (unat (st_buf_rx_len st)) = Some src" "length src = unat (st_buf_rx_len st)"
      using assms(2) by (simp add: rdn_def)
    obtain hdr where hdr: "wrn (in_tpdu_hdr i) (unat (in_tpdu_hdr_len i)) src = Some hdr"
      using wrn_ex [of "unat (in_tpdu_hdr_len i)" src "in_tpdu_hdr i"] True i src(2) by auto
    have "length hdr = 5" using length_wrn [OF hdr] i by simp
    then obtain r t where "swicc_tpdu_cmd_parse hdr 5 (in_tpdu_cur i) = Some (r, t)"
      by (simp add: swicc_tpdu_cmd_parse_def rd_def rdn_def wrn_def)
    then show ?thesis
      using True src(1) hdr by (simp add: fsm_handle_s_cmd_wait_def i_def [symmetric] Let_def swicc_tpdu_to_apdu_def)
  qed (simp add: fsm_handle_s_cmd_wait_def i_def [symmetric] Let_def)
qed

lemma cmd_data_defined:
  assumes "card_wf st" "unat (st_buf_rx_len st) \<le> length (st_buf_rx st)"
    and "in_fsm_state (st_in st) = SWICC_FSM_STATE_CMD_DATA"
  shows "\<exists>st'. fsm_handle_s_cmd_data st = Some st'"
  using assms by (simp add: fsm_handle_s_cmd_data_def Let_def card_wf_def internal_wf_def data_ok_def rdn_def wrn_def assert_ub_def)

text \<open>
  C28.  In no state but the two that work on a complete PPS request and on a complete command can a step of
  a well-formed card read or write outside a buffer, however many bytes of whatever kind were received
  and however little room there is for the answer.
\<close>

theorem step_defined:
  assumes "card_wf st" and "unat (st_buf_rx_len st) \<le> length (st_buf_rx st)"
    and "in_fsm_state (st_in st) \<notin> {SWICC_FSM_STATE_PPS_REQ, SWICC_FSM_STATE_CMD_PROCEDURE}"
  shows "\<exists>st'. swicc_io H res0 st = Some st' \<and> card_wf st'"
proof -
  have "\<exists>st'. swicc_io H res0 st = Some st'"
    using assms(1,3) atr_req_defined [OF assms(1)] atr_res_defined [OF assms(1,2)] cmd_wait_defined [OF assms(1,2)]
      cmd_data_defined [OF assms(1,2)]
    by (cases "in_fsm_state (st_in st)") (simp_all add: swicc_io_def swicc_fsm_def card_wf_def)
  then show ?thesis using step_wf [OF assms(1)] by blast
qed

theorem step_defined_witness:
  "\<exists>st'. swicc_io (\<lambda>_. apduh_unk) \<lparr>res_sw1 = 0, res_sw2 = 0, res_data = data_zero\<rparr>
     (iface 0 [1, 2, 3] 3 64 demo_card) = Some st' \<and> card_wf st'"
proof (rule step_defined)
  show "card_wf (iface 0 [1, 2, 3] 3 64 demo_card)"
    by (rule iface_wf [OF _ init_wf [OF demo_card_init]]) (simp add: iface_ok_def demo_card_def)
qed (simp_all add: demo_card_def internal_zero_def)

end
