(* ===== verification/Swicc_Exchange.thy ===== *)
theory Swicc_Exchange
  imports Swicc_Run
begin

text \<open>
  Exchanges of several steps between the interface and the card: the assembly of a command header from the
  pieces in which it is received, the negotiation of the transmission parameters and the exchange of a
  whole command.
\<close>

section \<open>The header of a command\<close>

text \<open>
  The interface puts the bytes \<open>c\<close> at the start of the RX buffer, with the contacts in the operating
  condition and room for \<open>tx\<close> bytes.
\<close>

definition rx_fill :: "bytes \<Rightarrow> swicc_st \<Rightarrow> bytes" where
  "rx_fill c st = c @ drop (length c) (st_buf_rx st)"

lemma rx_fill_nil [simp]: "rx_fill [] st = st_buf_rx st"
  by (simp add: rx_fill_def)

lemma rx_fill_room [simp]: "length c \<le> length (rx_fill c st)"
  by (simp add: rx_fill_def)

definition deliver :: "(nat \<Rightarrow> handler) \<Rightarrow> swicc_apdu_res \<Rightarrow> u16 \<Rightarrow> bytes \<Rightarrow> swicc_st \<Rightarrow> swicc_st option" where
  "deliver H res0 tx c st = swicc_io H res0 (iface FSM_STATE_CONT_READY (rx_fill c st) (word_of_nat (length c)) tx st)"

fun deliver_all :: "(nat \<Rightarrow> handler) \<Rightarrow> swicc_apdu_res \<Rightarrow> u16 \<Rightarrow> bytes list \<Rightarrow> swicc_st \<Rightarrow> swicc_st option" where
  "deliver_all H res0 tx [] st = Some st"
| "deliver_all H res0 tx (c # cs) st = do { st' \<leftarrow> deliver H res0 tx c st; deliver_all H res0 tx cs st' }"

text \<open>The card waits for a command of which it has the header bytes \<open>h\<close>.\<close>

definition pending :: "bytes \<Rightarrow> swicc_st \<Rightarrow> bool" where
  "pending h st \<longleftrightarrow> card_wf st \<and> in_fsm_state (st_in st) = SWICC_FSM_STATE_CMD_WAIT \<and>
     (let i = cmd_wait_clear (st_in st) in
        length h = unat (in_tpdu_hdr_len i) \<and> take (length h) (in_tpdu_hdr i) = h \<and> in_procedure_count i = 0)"

definition cmd_of :: "bytes \<Rightarrow> swicc_apdu_cmd" where
  "cmd_of hdr = \<lparr>cmd_hdr = \<lparr>hdr_cla = swicc_apdu_cmd_cla_parse (hdr ! 0), hdr_ins = hdr ! 1, hdr_p1 = hdr ! 2, hdr_p2 = hdr ! 3\<rparr>,
     cmd_p3 = hdr ! 4, cmd_data = data_zero\<rparr>"

definition commanded :: "bytes \<Rightarrow> swicc_st \<Rightarrow> bool" where
  "commanded hdr st \<longleftrightarrow> card_wf st \<and> in_fsm_state (st_in st) = SWICC_FSM_STATE_CMD_PROCEDURE \<and>
     in_apdu_cur (st_in st) \<and> in_procedure_count (st_in st) = 0 \<and> st_cmd st = cmd_of hdr"

definition rest_same :: "swicc_st \<Rightarrow> swicc_st \<Rightarrow> bool" where
  "rest_same st st' \<longleftrightarrow> st_fs st' = st_fs st \<and> st_rc st' = st_rc st \<and> st_buf_tx st' = st_buf_tx st \<and>
     in_tp (st_in st') = in_tp (st_in st)"

lemma rest_same_refl: "rest_same st st"
  by (simp add: rest_same_def)

lemma rest_same_trans: "rest_same st st1 \<Longrightarrow> rest_same st1 st2 \<Longrightarrow> rest_same st st2"
  by (simp add: rest_same_def)

lemma clear_tp [simp]: "in_tp (cmd_wait_clear i) = in_tp i"
  by (simp add: cmd_wait_clear_def)

lemma clear_processed [simp]: "\<not> in_tpdu_processed (cmd_wait_clear i)"
  by (simp add: cmd_wait_clear_def)

lemma clear_id: "\<not> in_tpdu_processed i \<Longrightarrow> cmd_wait_clear i = i"
  by (simp add: cmd_wait_clear_def)

lemma deliver_wf:
  assumes "card_wf st" "unat tx \<le> length (st_buf_tx st)" "length c < 2 ^ 16" "deliver H res0 tx c st = Some st'"
  shows "card_wf st'"
proof (rule step_wf)
  show "card_wf (iface FSM_STATE_CONT_READY (rx_fill c st) (word_of_nat (length c)) tx st)"
    by (rule iface_wf [OF _ assms(1)]) (use assms(2,3) in \<open>simp add: iface_ok_def unat_of_nat\<close>)
qed (use assms(4) in \<open>simp add: deliver_def\<close>)

lemma header_more:
  assumes p: "pending h st" and tx: "unat tx \<le> length (st_buf_tx st)" and n: "length h + length c < 5"
  shows "\<exists>st'. deliver H res0 tx c st = Some st' \<and> pending (h @ c) st' \<and> rest_same st st' \<and>
    sent st' = [] \<and> unat (st_buf_rx_len st') = 5 - length (h @ c)"
proof -
  define i where "i = cmd_wait_clear (st_in st)"
  have hp: "length h = unat (in_tpdu_hdr_len i)" "take (length h) (in_tpdu_hdr i) = h" "in_procedure_count i = 0"
    "in_fsm_state i = SWICC_FSM_STATE_CMD_WAIT" "card_wf st"
    using p unfolding pending_def i_def [symmetric] Let_def by (auto simp: i_def)
  have l5: "length (in_tpdu_hdr i) = 5" using hp(5) clear_wf [of "st_in st"] by (simp add: i_def card_wf_def internal_wf_def)
  have lc: "unat (word_of_nat (length c) :: u16) = length c" using n by (simp add: unat_of_nat)
  obtain hdr where hdr: "wrn (in_tpdu_hdr i) (length h) c = Some hdr" using wrn_ex [of "length h" c "in_tpdu_hdr i"] n l5 by auto
  have th: "take (length (h @ c)) hdr = h @ c" using hdr hp(2) by (auto simp: wrn_def split: if_split_asm)
  define k where "k = length (h @ c)"
  have "k < 5" using n by (simp add: k_def)
  then have k: "unat (word_of_nat k :: u8) = k" "k < 5"
    "unat (word_of_nat (length c) :: u16) + unat (in_tpdu_hdr_len i) = k"
    using lc hp(1) by (simp_all add: unat_of_nat) (simp add: k_def)
  let ?i1 = "i\<lparr>in_tpdu_hdr := hdr, in_tpdu_hdr_len := word_of_nat k\<rparr>"
  let ?st' = "set_lens (iface FSM_STATE_CONT_READY (rx_fill c st) (word_of_nat (length c)) tx st\<lparr>st_in := ?i1\<rparr>) (word_of_nat (5 - k)) 0"
  have run: "deliver H res0 tx c st = Some ?st'"
    using hdr hp(1) k lc p by (simp add: deliver_def swicc_io_def swicc_fsm_def fsm_handle_s_cmd_wait_def i_def [symmetric]
        pending_def Let_def rdn_def rx_fill_def)
  have "card_wf ?st'" by (rule deliver_wf [OF hp(5) tx _ run]) (use n in simp)
  moreover have "\<not> in_tpdu_processed i" by (simp add: i_def)
  ultimately have "pending (h @ c) ?st'"
    using hp(3,4) th k by (simp add: pending_def clear_id Let_def k_def [symmetric] del: length_append)
  moreover have "rest_same st ?st'" by (simp add: rest_same_def i_def)
  moreover have "unat (st_buf_rx_len ?st') = 5 - k" by (simp only: set_lens_sel unat_of_nat) simp
  moreover have "sent ?st' = []" by (simp add: sent_def)
  ultimately show ?thesis
    using run unfolding k_def by blast
qed

lemma header_done:
  assumes p: "pending h st" and tx: "unat tx \<le> length (st_buf_tx st)" and n: "length (h @ c) = 5"
  shows "\<exists>st'. deliver H res0 tx c st = Some st' \<and> commanded (h @ c) st' \<and> rest_same st st' \<and>
    sent st' = [] \<and> st_buf_rx_len st' = 0"
proof -
  define i where "i = cmd_wait_clear (st_in st)"
  have hp: "length h = unat (in_tpdu_hdr_len i)" "take (length h) (in_tpdu_hdr i) = h" "in_procedure_count i = 0"
    "in_fsm_state i = SWICC_FSM_STATE_CMD_WAIT" "card_wf st"
    using p unfolding pending_def i_def [symmetric] Let_def by (auto simp: i_def)
  have l5: "length (in_tpdu_hdr i) = 5" using hp(5) clear_wf [of "st_in st"] by (simp add: i_def card_wf_def internal_wf_def)
  have lc: "unat (word_of_nat (length c) :: u16) = length c" using n by (simp add: unat_of_nat)
  have k: "unat (word_of_nat (length c) :: u16) + unat (in_tpdu_hdr_len i) = 5" using lc hp(1) n by simp
  have hdr: "wrn (in_tpdu_hdr i) (length h) c = Some (h @ c)" using n l5 hp(2) by (simp add: wrn_def)
  define hc where "hc = h @ c"
  have parse: "swicc_tpdu_cmd_parse hc 5 t = Some (SWICC_RET_SUCCESS, cmd_of hc)" for t
    using n by (simp add: swicc_tpdu_cmd_parse_def rd_def rdn_def wrn_def cmd_of_def data_zero_def hc_def)
  let ?i1 = "i\<lparr>in_tpdu_hdr := hc, in_tpdu_hdr_len := 5, in_tpdu_cur := cmd_of hc, in_apdu_cur := True,
               in_fsm_state := SWICC_FSM_STATE_CMD_PROCEDURE\<rparr>"
  let ?st' = "set_lens (iface FSM_STATE_CONT_READY (rx_fill c st) (word_of_nat (length c)) tx st\<lparr>st_in := ?i1\<rparr>) 0 0"
  have run: "deliver H res0 tx c st = Some ?st'"
    using hdr hp(1) k lc p parse by (simp add: deliver_def swicc_io_def swicc_fsm_def fsm_handle_s_cmd_wait_def i_def [symmetric]
        pending_def Let_def rdn_def rx_fill_def swicc_tpdu_to_apdu_def hc_def)
  have "card_wf ?st'" by (rule deliver_wf [OF hp(5) tx _ run]) (use n in simp)
  then have "commanded hc ?st'" using hp(3) by (simp add: commanded_def)
  moreover have "rest_same st ?st'" by (simp add: rest_same_def i_def)
  ultimately show ?thesis using run by (auto simp: sent_def hc_def)
qed

lemma header_pieces:
  assumes "pending h st" "unat tx \<le> length (st_buf_tx st)" "length (h @ concat cs) = 5" "cs \<noteq> []" "last cs \<noteq> []"
  shows "\<exists>st'. deliver_all H res0 tx cs st = Some st' \<and> commanded (h @ concat cs) st' \<and> rest_same st st' \<and>
    sent st' = [] \<and> st_buf_rx_len st' = 0"
  using assms
proof (induction cs arbitrary: h st)
  case (Cons c cs)
  show ?case
  proof (cases "cs = []")
    case True
    then obtain st' where "deliver H res0 tx c st = Some st'" "commanded (h @ c) st'" "rest_same st st'"
      "sent st' = []" "st_buf_rx_len st' = 0"
      using header_done [OF Cons.prems(1,2), of c] Cons.prems(3) by auto
    then show ?thesis using True by simp
  next
    case False
    then have "last cs \<noteq> []" "last cs \<in> set cs" using Cons.prems(5) by simp_all
    then have "concat cs \<noteq> []" by auto
    then have lt: "length h + length c < 5" using Cons.prems(3) by (cases "concat cs") simp_all
    obtain st1 where st1: "deliver H res0 tx c st = Some st1" "pending (h @ c) st1" "rest_same st st1"
      using header_more [OF Cons.prems(1,2) lt] by blast
    have "unat tx \<le> length (st_buf_tx st1)" using st1(3) Cons.prems(2) by (simp add: rest_same_def)
    then obtain st' where "deliver_all H res0 tx cs st1 = Some st'" "commanded ((h @ c) @ concat cs) st'" "rest_same st1 st'"
      "sent st' = []" "st_buf_rx_len st' = 0"
      using Cons.IH [OF st1(2)] Cons.prems(3) False \<open>last cs \<noteq> []\<close> by auto
    then show ?thesis using st1 rest_same_trans by fastforce
  qed
qed simp

text \<open>
  The header of a command may come in any pieces, empty ones included: once five bytes are there, the
  card has the command that these five bytes make, whatever was left over from an earlier command;
  nothing is sent, and files, response buffer and transmission parameters are as before.
\<close>

theorem header_from_pieces:
  assumes "pending [] st" and "unat tx \<le> length (st_buf_tx st)"
    and "length (concat cs) = 5" and "last cs \<noteq> []"
  shows "\<exists>st'. deliver_all H res0 tx cs st = Some st' \<and> commanded (concat cs) st' \<and> rest_same st st' \<and>
    sent st' = [] \<and> st_buf_rx_len st' = 0"
proof -
  have "cs \<noteq> []" using assms(3) by auto
  then show ?thesis using header_pieces [OF assms(1,2)] assms(3,4) by simp
qed

text \<open>A card that has handled a command, waiting for the next one.\<close>

definition demo_ready :: swicc_st where
  "demo_ready = cmd_done demo_card"

lemma demo_ready_pending: "pending [] demo_ready"
proof -
  have "card_wf demo_ready"
    using init_wf [OF demo_card_init]
    by (simp add: demo_ready_def card_wf_def no_ext_def)
  then show ?thesis by (simp add: pending_def demo_ready_def cmd_wait_clear_def)
qed

theorem header_from_pieces_witness:
  "\<exists>st'. deliver_all (\<lambda>_. apduh_unk) \<lparr>res_sw1 = 0, res_sw2 = 0, res_data = data_zero\<rparr> 64
     [[0x00], [], [0xA4, 0x00], [0x0C, 0x02]] demo_ready = Some st' \<and> commanded [0x00, 0xA4, 0x00, 0x0C, 0x02] st'"
  using header_from_pieces [OF demo_ready_pending, of 64 "[[0x00], [], [0xA4, 0x00], [0x0C, 0x02]]"]
  by (fastforce simp: demo_ready_def demo_card_def)

section \<open>A whole command\<close>

text \<open>
  The card works on the command \<open>cmd\<close> after it has sent \<open>n\<close> procedure bytes, in the state \<open>s\<close> of the
  machine, with the files \<open>fs\<close> and the response buffer \<open>rc\<close>.
\<close>

definition working :: "swicc_fsm_state \<Rightarrow> u32 \<Rightarrow> swicc_apdu_cmd \<Rightarrow> swicc_fs \<Rightarrow> swicc_apdu_rc \<Rightarrow> swicc_st \<Rightarrow> bool" where
  "working s n cmd fs rc st \<longleftrightarrow> card_wf st \<and> in_fsm_state (st_in st) = s \<and> in_apdu_cur (st_in st) \<and>
     in_procedure_count (st_in st) = n \<and> st_cmd st = cmd \<and> st_fs st = fs \<and> st_rc st = rc"

lemma commanded_working: "commanded hdr st \<longleftrightarrow> working SWICC_FSM_STATE_CMD_PROCEDURE 0 (cmd_of hdr) (st_fs st) (st_rc st) st"
  by (auto simp: commanded_def working_def)

lemma working_iface:
  assumes "working s n cmd fs rc st" "unat tx \<le> length (st_buf_tx st)" "length c < 2 ^ 16"
  shows "working s n cmd fs rc (iface FSM_STATE_CONT_READY (rx_fill c st) (word_of_nat (length c)) tx st)"
  using assms iface_wf [of "rx_fill c st" "word_of_nat (length c)" tx st FSM_STATE_CONT_READY]
  by (simp add: working_def iface_ok_def unat_of_nat)

text \<open>What a response makes of the machine.\<close>

definition is_ack :: "swicc_apdu_res \<Rightarrow> bool" where
  "is_ack res \<longleftrightarrow> res_sw1 res = SWICC_APDU_SW1_PROC_ACK_ONE \<or> res_sw1 res = SWICC_APDU_SW1_PROC_ACK_ALL"

lemma procedure_step:
  assumes w: "working SWICC_FSM_STATE_CMD_PROCEDURE n cmd fs rc st"
    and tx: "unat tx \<le> length (st_buf_tx st)"
    and h: "swicc_apduh_demux H (iface FSM_STATE_CONT_READY (st_buf_rx st) 0 tx st) res0 n = Some (SWICC_RET_SUCCESS, st1, res)"
    and res: "data_ok (res_data res)" "unat (data_len (res_data res)) \<le> SWICC_DATA_MAX" "res_room res \<le> unat tx"
    and wire: "res_wire (st_cmd st1) res = Some bs" and n: "unat n < 4"
  shows "\<exists>st'. deliver H res0 tx [] st = Some st' \<and> sent st' = bs \<and> length (st_buf_tx st') = length (st_buf_tx st) \<and>
    in_tp (st_in st') = in_tp (st_in st) \<and>
    (if is_ack res
     then working SWICC_FSM_STATE_CMD_DATA (n + 1) (st_cmd st1) (st_fs st1) (st_rc st1) st' \<and> st_buf_rx_len st' = data_len (res_data res)
     else pending [] st' \<and> st_fs st' = st_fs st1 \<and> st_rc st' = st_rc st1 \<and> st_buf_rx_len st' = 5)"
proof -
  let ?s = "iface FSM_STATE_CONT_READY (st_buf_rx st) 0 tx st"
  have ws: "card_wf st" "in_procedure_count (st_in st) = n" "in_fsm_state (st_in st) = SWICC_FSM_STATE_CMD_PROCEDURE"
    "in_apdu_cur (st_in st)" using w by (simp_all add: working_def)
  have ne: "no_ext ?s" using ws(1) by (simp add: card_wf_def no_ext_def)
  have fr: "framed ?s st1" by (rule demux.h_frame [OF ne h])
  note same = fr [unfolded framed_def, simplified] and inn = framed_in [OF fr, simplified]
  obtain buf' len' where dep: "swicc_apdu_res_deparse (st_buf_tx st1) (st_buf_tx_len st1) (st_cmd st1) res = Some (SWICC_RET_SUCCESS, buf', len')"
    and buf: "length buf' = length (st_buf_tx st)" "unat len' = length bs" "take (length bs) buf' = bs"
    using res_deparse_run [OF res(1,2), of tx "st_buf_tx st" "st_cmd st1"] res(3) tx wire same by auto
  define st2 where "st2 = st1\<lparr>st_buf_tx := buf', st_buf_tx_len := len'\<rparr>"
  have sim: "st_fs st2 = st_fs st1" "st_rc st2 = st_rc st1" "st_in st2 = st_in st1" "st_buf_tx st2 = buf'" "st_buf_tx_len st2 = len'"
    by (simp_all add: st2_def)
  have n4: "unat (n + 1) \<le> 4" using n by (simp add: unat_word_ariths)
  have io: "deliver H res0 tx [] st = procedure_finish st2 res SWICC_RET_SUCCESS"
    using ws h dep by (simp add: deliver_def swicc_io_def swicc_fsm_def fsm_handle_s_cmd_procedure_def cmd_procedure_run_def st2_def)
  define st' where "st' = (if is_ack res
    then st2\<lparr>st_in := (st_in st2)\<lparr>in_procedure_count := in_procedure_count (st_in st2) + 1, in_fsm_state := SWICC_FSM_STATE_CMD_DATA\<rparr>,
             st_buf_rx_len := data_len (res_data res)\<rparr>
    else (cmd_done st2)\<lparr>st_buf_rx_len := 5\<rparr>)"
  have fin: "procedure_finish st2 res SWICC_RET_SUCCESS = Some st'"
    using n4 inn(8) ws(2) sim(3) by (simp add: procedure_finish_def st'_def is_ack_def)
  have wf': "card_wf st'"
    by (rule deliver_wf [OF ws(1) tx _ io [unfolded fin]]) simp
  have "sent st' = bs" using buf by (simp add: sent_def st'_def sim)
  moreover have "length (st_buf_tx st') = length (st_buf_tx st)" "in_tp (st_in st') = in_tp (st_in st)"
    using buf(1) inn(9) by (simp_all add: st'_def sim)
  moreover have "working SWICC_FSM_STATE_CMD_DATA (n + 1) (st_cmd st1) (st_fs st1) (st_rc st1) st' \<and> st_buf_rx_len st' = data_len (res_data res)"
    if "is_ack res" using that wf' inn ws by (simp add: working_def st'_def sim)
  moreover have "pending [] st' \<and> st_fs st' = st_fs st1 \<and> st_rc st' = st_rc st1 \<and> st_buf_rx_len st' = 5"
    if "\<not> is_ack res" using that wf' by (simp add: pending_def st'_def sim cmd_wait_clear_def)
  ultimately show ?thesis using io fin by auto
qed

text \<open>A command with its data field filled.\<close>

definition cmd_with :: "swicc_apdu_cmd \<Rightarrow> bytes \<Rightarrow> swicc_apdu_cmd" where
  "cmd_with cmd bs = cmd\<lparr>cmd_data := \<lparr>data_len = word_of_nat (length bs),
     data_b = bs @ drop (length bs) (data_b (cmd_data cmd))\<rparr>\<rparr>"

lemma data_step:
  assumes w: "working SWICC_FSM_STATE_CMD_DATA n cmd fs rc st" and e: "data_len (cmd_data cmd) = 0"
    and tx: "unat tx \<le> length (st_buf_tx st)" and bs: "length bs \<le> SWICC_DATA_MAX"
  shows "\<exists>st'. deliver H res0 tx bs st = Some st' \<and> working SWICC_FSM_STATE_CMD_PROCEDURE n (cmd_with cmd bs) fs rc st' \<and>
    sent st' = [] \<and> st_buf_rx_len st' = 0 \<and> st_buf_tx st' = st_buf_tx st \<and> in_tp (st_in st') = in_tp (st_in st)"
proof -
  have ws: "card_wf st" "in_fsm_state (st_in st) = SWICC_FSM_STATE_CMD_DATA" "in_apdu_cur (st_in st)" "st_cmd st = cmd"
    "in_procedure_count (st_in st) = n" "st_fs st = fs" "st_rc st = rc"
    using w by (simp_all add: working_def)
  have d: "length (data_b (cmd_data cmd)) = SWICC_DATA_MAX"
    using ws(1,4) by (auto simp: card_wf_def internal_wf_def data_ok_def)
  have lb: "unat (word_of_nat (length bs) :: u16) = length bs" using bs by (simp add: unat_of_nat)
  have wr: "wrn (data_b (cmd_data cmd)) 0 bs = Some (bs @ drop (length bs) (data_b (cmd_data cmd)))"
    using d bs by (simp add: wrn_def)
  let ?st' = "set_lens (iface FSM_STATE_CONT_READY (rx_fill bs st) (word_of_nat (length bs)) tx st
    \<lparr>st_in := (st_in st)\<lparr>in_tpdu_cur := cmd_with cmd bs, in_tpdu_processed := True, in_fsm_state := SWICC_FSM_STATE_CMD_PROCEDURE\<rparr>\<rparr>) 0 0"
  have run: "deliver H res0 tx bs st = Some ?st'"
    using ws bs d lb e wr
    by (simp add: deliver_def swicc_io_def swicc_fsm_def fsm_handle_s_cmd_data_def Let_def rdn_def rx_fill_def assert_ub_def cmd_with_def)
  have "card_wf ?st'" by (rule deliver_wf [OF ws(1) tx _ run]) (use bs in simp)
  then have "working SWICC_FSM_STATE_CMD_PROCEDURE n (cmd_with cmd bs) fs rc ?st'"
    using ws by (simp add: working_def)
  with run show ?thesis by (intro exI [of _ ?st']) (simp add: sent_def)
qed

text \<open>
  The exchange: the header, room for the procedure byte, the data (possibly none) and room for the
  response.  The result is what the card sent at the second and at the last step; at the other two it has
  to be silent.  After every step the card expects what the interface delivers next, in particular as many
  bytes as the command has data, and at the end the header of another command.
\<close>

definition exchange ::
    "(nat \<Rightarrow> handler) \<Rightarrow> swicc_apdu_res \<Rightarrow> u16 \<Rightarrow> bytes \<Rightarrow> bytes \<Rightarrow> swicc_st \<Rightarrow> (bytes \<times> bytes \<times> swicc_st) option" where
  "exchange H res0 tx hdr data st = do {
     st1 \<leftarrow> deliver H res0 tx hdr st;
     assert_ub (sent st1 = [] \<and> st_buf_rx_len st1 = 0);
     st2 \<leftarrow> deliver H res0 tx [] st1;
     assert_ub (st_buf_rx_len st2 = word_of_nat (length data));
     st3 \<leftarrow> deliver H res0 tx data st2;
     assert_ub (sent st3 = [] \<and> st_buf_rx_len st3 = 0);
     st4 \<leftarrow> deliver H res0 tx [] st3;
     assert_ub (st_buf_rx_len st4 = 5);
     Some (sent st2, sent st4, st4) }"

text \<open>
  What a handler has to do for the exchange to go through: acknowledge the header and ask for \<open>n\<close> bytes,
  and with the data there answer.  \<open>ans\<close> relates the state before the answer to the bytes sent and the new files and
  response buffer.
\<close>

definition acks :: "(nat \<Rightarrow> handler) \<Rightarrow> swicc_apdu_res \<Rightarrow> u16 \<Rightarrow> swicc_apdu_cmd \<Rightarrow> swicc_fs \<Rightarrow> swicc_apdu_rc \<Rightarrow> swicc_apdu_rc \<Rightarrow> nat \<Rightarrow> bool" where
  "acks H res0 tx cmd fs rc rc1 n \<longleftrightarrow>
     (\<forall>s. working SWICC_FSM_STATE_CMD_PROCEDURE 0 cmd fs rc s \<longrightarrow>
       (\<exists>s' ack. swicc_apduh_demux H s res0 0 = Some (SWICC_RET_SUCCESS, s', ack) \<and>
          res_sw1 ack = SWICC_APDU_SW1_PROC_ACK_ALL \<and> res_sw2 ack = 0 \<and> data_len (res_data ack) = word_of_nat n \<and>
          n \<le> SWICC_DATA_MAX \<and> n < unat tx \<and> st_cmd s' = cmd \<and> st_fs s' = fs \<and> st_rc s' = rc1))"

definition answers ::
    "(nat \<Rightarrow> handler) \<Rightarrow> swicc_apdu_res \<Rightarrow> u16 \<Rightarrow> swicc_apdu_cmd \<Rightarrow> swicc_fs \<Rightarrow> swicc_apdu_rc \<Rightarrow> bytes \<Rightarrow> swicc_fs \<Rightarrow> swicc_apdu_rc \<Rightarrow> bool" where
  "answers H res0 tx cmd fs rc bs fs' rc' \<longleftrightarrow>
     (\<forall>s. working SWICC_FSM_STATE_CMD_PROCEDURE 1 cmd fs rc s \<longrightarrow>
       (\<exists>s' res. swicc_apduh_demux H s res0 1 = Some (SWICC_RET_SUCCESS, s', res) \<and>
          \<not> is_ack res \<and> res_wire (st_cmd s') res = Some bs \<and> res_room res \<le> unat tx \<and>
          unat (data_len (res_data res)) \<le> SWICC_DATA_MAX \<and> st_fs s' = fs' \<and> st_rc s' = rc'))"

lemma exchange_run:
  assumes p: "pending [] st" and hdr: "length hdr = 5" and bs: "length data \<le> SWICC_DATA_MAX"
    and tx: "unat tx \<le> length (st_buf_tx st)" and r0: "data_ok (res_data res0)"
    and ack: "acks H res0 tx (cmd_of hdr) (st_fs st) (st_rc st) rc1 (length data)"
    and ans: "answers H res0 tx (cmd_with (cmd_of hdr) data) (st_fs st) rc1 resp fs' rc'"
  shows "\<exists>st'. exchange H res0 tx hdr data st = Some ([hdr ! 1], resp, st') \<and> pending [] st' \<and>
    st_fs st' = fs' \<and> st_rc st' = rc' \<and> length (st_buf_tx st') = length (st_buf_tx st)"
proof -
  obtain st1 where st1: "deliver H res0 tx hdr st = Some st1" "commanded hdr st1" "rest_same st st1" "sent st1 = []" "st_buf_rx_len st1 = 0"
    using header_done [OF p tx, of hdr] hdr by auto
  have w1: "working SWICC_FSM_STATE_CMD_PROCEDURE 0 (cmd_of hdr) (st_fs st) (st_rc st) st1" and tx1: "unat tx \<le> length (st_buf_tx st1)"
    using st1(2,3) tx by (auto simp: commanded_working rest_same_def)
  have i1: "working SWICC_FSM_STATE_CMD_PROCEDURE 0 (cmd_of hdr) (st_fs st) (st_rc st) (iface FSM_STATE_CONT_READY (st_buf_rx st1) 0 tx st1)"
    using working_iface [OF w1 tx1, of "[]"] by simp
  obtain s' a where a': "swicc_apduh_demux H (iface FSM_STATE_CONT_READY (st_buf_rx st1) 0 tx st1) res0 0 = Some (SWICC_RET_SUCCESS, s', a)"
    "res_sw1 a = SWICC_APDU_SW1_PROC_ACK_ALL" "res_sw2 a = 0" "data_len (res_data a) = word_of_nat (length data)"
    "length data \<le> SWICC_DATA_MAX" "length data < unat tx" "st_cmd s' = cmd_of hdr" "st_fs s' = st_fs st" "st_rc s' = rc1"
    using ack i1 unfolding acks_def by blast
  have ln: "unat (data_len (res_data a)) = length data" using a'(4) bs by (simp add: unat_of_nat_u16)
  have le: "unat (data_len (res_data a)) < unat tx" "unat (data_len (res_data a)) \<le> SWICC_DATA_MAX" using a'(5,6) by (simp_all add: ln)
  note a = a'(1-3) le a'(7-9) a'(4)
  have ne1: "no_ext (iface FSM_STATE_CONT_READY (st_buf_rx st1) 0 tx st1)" using i1 by (simp add: working_def card_wf_def)
  have da: "data_ok (res_data a)" using demux.h_mem [OF ne1 a(1)] r0 by (simp add: data_ok_def res_mem_def)
  obtain st2 where st2: "deliver H res0 tx [] st1 = Some st2" "sent st2 = [hdr ! 1]" "length (st_buf_tx st2) = length (st_buf_tx st1)"
    "working SWICC_FSM_STATE_CMD_DATA (0 + 1) (cmd_of hdr) (st_fs st) rc1 st2" "st_buf_rx_len st2 = word_of_nat (length data)"
    using procedure_step [OF w1 tx1 a(1) da a(5)] a by (auto simp: res_room_def res_wire_def is_ack_def cmd_of_def Let_def)
  have tx2: "unat tx \<le> length (st_buf_tx st2)" using st2(3) tx1 by simp
  obtain st3 where st3: "deliver H res0 tx data st2 = Some st3" "st_buf_tx st3 = st_buf_tx st2"
    "working SWICC_FSM_STATE_CMD_PROCEDURE (0 + 1) (cmd_with (cmd_of hdr) data) (st_fs st) rc1 st3" "sent st3 = []" "st_buf_rx_len st3 = 0"
    using data_step [OF st2(4) _ tx2 bs] by (auto simp: cmd_of_def data_zero_def)
  have tx3: "unat tx \<le> length (st_buf_tx st3)" using st3(2) tx2 by simp
  have i3: "working SWICC_FSM_STATE_CMD_PROCEDURE 1 (cmd_with (cmd_of hdr) data) (st_fs st) rc1 (iface FSM_STATE_CONT_READY (st_buf_rx st3) 0 tx st3)"
    using working_iface [OF st3(3) tx3, of "[]"] by simp
  obtain s'' r where r: "swicc_apduh_demux H (iface FSM_STATE_CONT_READY (st_buf_rx st3) 0 tx st3) res0 1 = Some (SWICC_RET_SUCCESS, s'', r)"
    "\<not> is_ack r" "res_wire (st_cmd s'') r = Some resp" "res_room r \<le> unat tx"
    "unat (data_len (res_data r)) \<le> SWICC_DATA_MAX" "st_fs s'' = fs'" "st_rc s'' = rc'"
    using ans i3 unfolding answers_def by blast
  have ne3: "no_ext (iface FSM_STATE_CONT_READY (st_buf_rx st3) 0 tx st3)" using i3 by (simp add: working_def card_wf_def)
  have dr: "data_ok (res_data r)" using demux.h_mem [OF ne3 r(1)] r0 by (simp add: data_ok_def res_mem_def)
  obtain st4 where st4: "deliver H res0 tx [] st3 = Some st4" "sent st4 = resp" "length (st_buf_tx st4) = length (st_buf_tx st3)"
    "pending [] st4" "st_fs st4 = fs'" "st_rc st4 = rc'" "st_buf_rx_len st4 = 5"
    using procedure_step [OF st3(3) tx3 _ dr r(5,4,3)] r by auto
  show ?thesis
    using st1 st2 st3 st4 by (simp add: exchange_def rest_same_def assert_ub_def)
qed

end
