(* ===== verification/Swicc_Commands.thy ===== *)
theory Swicc_Commands
  imports Swicc_Exchange
begin

text \<open>
  What an interface sees of the commands that read and write files: the bytes of the whole exchange, for
  READ BINARY, READ RECORD, UPDATE RECORD and GET RESPONSE.
\<close>

section \<open>From the chosen handler to the answer of the card\<close>

lemma demux_func:
  assumes w: "working SWICC_FSM_STATE_CMD_PROCEDURE k cmd fs rc s"
    and cla: "cla_type (hdr_cla (cmd_hdr cmd)) = SWICC_APDU_CLA_TYPE_INTERINDUSTRY"
    and rc1: "rc1 = (if hdr_ins (cmd_hdr cmd) \<noteq> 0xC0 then rc_zero else rc)"
    and h: "apduh_func (hdr_ins (cmd_hdr cmd)) (s\<lparr>st_rc := rc1\<rparr>) res n = Some (SWICC_RET_SUCCESS, s', r)"
  shows "swicc_apduh_demux H s res n = Some (SWICC_RET_SUCCESS, s', r)"
proof -
  have ne: "no_ext (s\<lparr>st_rc := rc1\<rparr>)" "no_ext s" and a: "in_apdu_cur (st_in s)" and c: "st_cmd s = cmd" and rcs: "st_rc s = rc"
    using w by (simp_all add: working_def card_wf_def no_ext_def)
  have eq: "(if hdr_ins (cmd_hdr cmd) \<noteq> 0xC0 then s\<lparr>st_rc := rc_zero\<rparr> else s) = s\<lparr>st_rc := rc1\<rparr>"
    using rc1 rcs by simp
  have "no_ext s'" using framed_no_ext [OF func.h_frame [OF ne(1) h]] ne(1) by simp
  then show ?thesis
    using h eq cla a c ne(2)
    by (simp add: swicc_apduh_demux_def demux_cla_def Let_def assert_ub_def no_ext_def)
qed

text \<open>A status word alone.\<close>

lemma status_wire:
  "\<not> sw1_is_proc sw1 \<Longrightarrow> \<not> (sw1_needs_sw2_zero sw1 \<and> sw2 \<noteq> 0) \<Longrightarrow>
     res_wire cmd (SWICC_APDUH_RES res sw1 sw2 0) = Some [ucast sw1, sw2]"
  "\<not> sw1_is_proc sw1 \<Longrightarrow> res_room (SWICC_APDUH_RES res sw1 sw2 0) = 2"
  "is_ack (SWICC_APDUH_RES res sw1 sw2 n) \<longleftrightarrow> sw1 = SWICC_APDU_SW1_PROC_ACK_ONE \<or> sw1 = SWICC_APDU_SW1_PROC_ACK_ALL"
  "data_len (res_data (SWICC_APDUH_RES res sw1 sw2 n)) = n"
  "res_sw1 (SWICC_APDUH_RES res sw1 sw2 n) = sw1" "res_sw2 (SWICC_APDUH_RES res sw1 sw2 n) = sw2"
  by (auto simp: res_wire_def res_room_def SWICC_APDUH_RES_def is_ack_def Let_def)

lemma acks_run:
  assumes cla: "cla_type (hdr_cla (cmd_hdr cmd)) = SWICC_APDU_CLA_TYPE_INTERINDUSTRY"
    and rc1: "rc1 = (if hdr_ins (cmd_hdr cmd) \<noteq> 0xC0 then rc_zero else rc)"
    and tx: "0 < unat tx"
    and h: "\<And>s. st_cmd s = cmd \<Longrightarrow> apduh_func (hdr_ins (cmd_hdr cmd)) s res0 0 = respond s res0 SWICC_APDU_SW1_PROC_ACK_ALL 0"
  shows "acks H res0 tx cmd fs rc rc1 0"
  unfolding acks_def
proof (intro allI impI)
  fix s assume w: "working SWICC_FSM_STATE_CMD_PROCEDURE 0 cmd fs rc s"
  then have c: "st_cmd s = cmd" "st_fs s = fs" by (simp_all add: working_def)
  then have "apduh_func (hdr_ins (cmd_hdr cmd)) (s\<lparr>st_rc := rc1\<rparr>) res0 0 =
      Some (SWICC_RET_SUCCESS, s\<lparr>st_rc := rc1\<rparr>, SWICC_APDUH_RES res0 SWICC_APDU_SW1_PROC_ACK_ALL 0 0)"
    using h by (simp add: respond_def)
  then have "swicc_apduh_demux H s res0 0 =
      Some (SWICC_RET_SUCCESS, s\<lparr>st_rc := rc1\<rparr>, SWICC_APDUH_RES res0 SWICC_APDU_SW1_PROC_ACK_ALL 0 0)"
    by (intro demux_func [OF w cla]) (simp_all add: rc1)
  then show "\<exists>s' ack. swicc_apduh_demux H s res0 0 = Some (SWICC_RET_SUCCESS, s', ack) \<and>
      res_sw1 ack = SWICC_APDU_SW1_PROC_ACK_ALL \<and> res_sw2 ack = 0 \<and> data_len (res_data ack) = word_of_nat 0 \<and>
      0 \<le> SWICC_DATA_MAX \<and> 0 < unat tx \<and> st_cmd s' = cmd \<and> st_fs s' = fs \<and> st_rc s' = rc1"
    using tx c by (simp add: status_wire)
qed

lemma answers_run:
  assumes h: "\<And>s. working SWICC_FSM_STATE_CMD_PROCEDURE 1 cmd fs rc s \<Longrightarrow>
      \<exists>s' res. apduh_func (hdr_ins (cmd_hdr cmd)) s res0 1 = Some (SWICC_RET_SUCCESS, s', res) \<and>
        \<not> is_ack res \<and> res_wire (st_cmd s') res = Some bs \<and> res_room res \<le> unat tx \<and>
        unat (data_len (res_data res)) \<le> SWICC_DATA_MAX \<and> st_fs s' = fs' \<and> st_rc s' = rc'"
    and cla: "cla_type (hdr_cla (cmd_hdr cmd)) = SWICC_APDU_CLA_TYPE_INTERINDUSTRY"
    and rc: "hdr_ins (cmd_hdr cmd) \<noteq> 0xC0 \<Longrightarrow> rc = rc_zero"
  shows "answers H res0 tx cmd fs rc bs fs' rc'"
  unfolding answers_def
proof (intro allI impI)
  fix s assume w: "working SWICC_FSM_STATE_CMD_PROCEDURE 1 cmd fs rc s"
  then have "s\<lparr>st_rc := rc\<rparr> = s" by (auto simp: working_def)
  moreover obtain s' res where r: "apduh_func (hdr_ins (cmd_hdr cmd)) s res0 1 = Some (SWICC_RET_SUCCESS, s', res)"
    "\<not> is_ack res" "res_wire (st_cmd s') res = Some bs" "res_room res \<le> unat tx"
    "unat (data_len (res_data res)) \<le> SWICC_DATA_MAX" "st_fs s' = fs'" "st_rc s' = rc'"
    using h [OF w] by blast
  ultimately have "swicc_apduh_demux H s res0 1 = Some (SWICC_RET_SUCCESS, s', res)"
    using rc by (intro demux_func [OF w cla, of rc]) auto
  with r show "\<exists>s' res. swicc_apduh_demux H s res0 1 = Some (SWICC_RET_SUCCESS, s', res) \<and> \<not> is_ack res \<and>
      res_wire (st_cmd s') res = Some bs \<and> res_room res \<le> unat tx \<and>
      unat (data_len (res_data res)) \<le> SWICC_DATA_MAX \<and> st_fs s' = fs' \<and> st_rc s' = rc'" by blast
qed

text \<open>Data with the status word 9000.\<close>

lemma data_wire:
  assumes "put_bytes res bs = Some res1" "length bs = unat n"
  shows "res_wire cmd (SWICC_APDUH_RES res1 SWICC_APDU_SW1_NORM_NONE 0 n) = Some (bs @ [0x90, 0])"
    "res_room (SWICC_APDUH_RES res1 SWICC_APDU_SW1_NORM_NONE 0 n) = unat n + 2"
  using assms
  by (auto simp: put_bytes_def bind_Some_iff res_wire_def res_room_def SWICC_APDUH_RES_def Let_def wrn_Some)

lemma put_bytes_ok:
  "data_ok (res_data res) \<Longrightarrow> length bs \<le> SWICC_DATA_MAX \<Longrightarrow> \<exists>res1. put_bytes res bs = Some res1"
  by (simp add: put_bytes_def data_ok_def wrn_def)

section \<open>Files as byte strings\<close>

definition file_content :: "swicc_disk \<Rightarrow> swicc_fs_file \<Rightarrow> bytes option" where
  "file_content disk f = do { (ti, off) \<leftarrow> data_ptr f; tree_rd disk ti (unat off) (unat (data_size f)) }"

lemma tree_rd_part:
  assumes "tree_rd disk ti off n = Some bs" and "o1 + k \<le> n"
  shows "tree_rd disk ti (off + o1) k = Some (take k (drop o1 bs))"
  using assms by (auto simp: tree_rd_def bind_Some_iff rdn_def min_def add.commute drop_take split: if_split_asm)

lemma tree_rd_length: "tree_rd disk ti off n = Some bs \<Longrightarrow> length bs = n"
  by (auto simp: tree_rd_def bind_Some_iff rdn_def split: if_split_asm)

section \<open>READ BINARY\<close>

text \<open>The answer, as a function of the contents of the file, the offset and the expected length.\<close>

definition bin_answer :: "bytes \<Rightarrow> nat \<Rightarrow> nat \<Rightarrow> bytes" where
  "bin_answer content off le =
     (if length content \<le> off then [0x6B, 0x00]
      else if length content < off + le then [0x6C, word_of_nat (length content - off)]
      else take le (drop off content) @ [0x90, 0x00])"

lemma unat_u8_data [simp]: "unat (x :: u8) \<le> SWICC_DATA_MAX"
  using unat_u8_less [of x] by (rule less_imp_le)

lemma u8_high_clear: "unat (p :: u8) < 128 \<Longrightarrow> p AND 0x80 = 0"
proof -
  assume "unat p < 128"
  moreover have "\<forall>p :: u8. unat p < 128 \<longrightarrow> p AND 0x80 = 0"
    unfolding forall_u8 by code_simp
  ultimately show ?thesis by blast
qed

lemma and_mask_7: "(p :: u8) AND 0x7F = take_bit 7 p"
  by (simp add: take_bit_eq_mask mask_eq_exp_minus_1)

lemma offset_value:
  fixes p1 p2 :: u8
  assumes "unat p1 < 128"
  shows "unat (push_bit 8 (ucast (p1 AND 0x7F)) OR ucast p2 :: u16) = unat p1 * 256 + unat p2"
proof -
  have "take_bit 7 (unat p1) = unat p1" using assms by (simp add: take_bit_nat_eq_self)
  then have low: "p1 AND 0x7F = p1" by (simp add: and_mask_7 word_unat_eq_iff unsigned_take_bit_eq)
  have p2: "unat p2 < 256" by (rule unat_u8_less)
  then have lt: "unat p1 * 256 + unat p2 < 65536" using assms by linarith
  have "push_bit 8 (ucast p1) AND (ucast p2 :: u16) = 0"
    by (rule bit_word_eqI) (auto simp: bit_simps dest: bit_imp_le_length)
  then have "push_bit 8 (ucast p1) OR ucast p2 = (push_bit 8 (ucast p1) + ucast p2 :: u16)"
    by (simp add: disjunctive_add_eq_or)
  also have "unat \<dots> = unat p1 * 256 + unat p2"
    using lt by (simp add: push_bit_eq_mult unat_word_ariths unsigned_ucast_eq take_bit_eq_mod)
  finally show ?thesis by (simp add: low)
qed

lemma bin_read_ok:
  assumes ty: "ih_type (hdr_item f) = SWICC_FS_ITEM_TYPE_FILE_EF_TRANSPARENT"
    and cont: "file_content (st_disk s) f = Some content" and r0: "data_ok (res_data res)"
  shows "\<exists>res'. bin_read_file s res f offset le None = Some (SWICC_RET_SUCCESS, s, res') \<and> \<not> is_ack res' \<and>
    res_wire cmd res' = Some (bin_answer content (unat offset) (unat le)) \<and> res_room res' \<le> unat le + 2 \<and>
    unat (data_len (res_data res')) \<le> SWICC_DATA_MAX"
proof -
  obtain ti off where ptr: "data_ptr f = Some (ti, off)" and rd: "tree_rd (st_disk s) ti (unat off) (unat (data_size f)) = Some content"
    using cont by (auto simp: file_content_def bind_Some_iff)
  have len: "length content = unat (data_size f)" by (rule tree_rd_length [OF rd])
  have sum: "unat offset + unat le < 4294967296" using unat_u16_less [of offset] unat_u8_less [of le] by linarith
  have o: "unat (ucast offset :: u32) = unat offset" "unat (ucast offset + ucast le :: u32) = unat offset + unat le"
    "unat le < 256"
    using sum unat_u8_less [of le] by (simp_all add: unat_word_ariths)
  consider (out) "unat (data_size f) \<le> unat offset"
    | (long) "unat offset < unat (data_size f)" "unat (data_size f) < unat offset + unat le"
    | (fit) "unat offset < unat (data_size f)" "unat offset + unat le \<le> unat (data_size f)" by linarith
  then show ?thesis
  proof cases
    case out
    then have "ucast offset \<ge> data_size f" by (simp add: word_le_nat_alt)
    then show ?thesis
      using out ty len by (simp add: bin_read_file_def respond_def status_wire bin_answer_def)
  next
    case long
    have c: "\<not> ucast offset \<ge> data_size f" "ucast offset + ucast le > data_size f"
      using long o by (simp_all add: word_le_nat_alt word_less_nat_alt)
    have "unat (data_size f - ucast offset) = unat (data_size f) - unat offset"
      using long(1) o(1) by (simp add: unat_sub word_le_nat_alt)
    then have "ucast (data_size f - ucast offset) = (word_of_nat (unat (data_size f) - unat offset) :: u8)"
      by (metis of_nat_unat)
    then show ?thesis
      using c long ty len by (simp add: bin_read_file_def respond_def status_wire bin_answer_def)
  next
    case fit
    have c: "\<not> ucast offset \<ge> data_size f" "\<not> ucast offset + ucast le > data_size f"
      using fit o by (simp_all add: word_le_nat_alt word_less_nat_alt)
    let ?bs = "take (unat le) (drop (unat offset) content)"
    have part: "tree_rd (st_disk s) ti (unat off + unat offset) (unat le) = Some ?bs"
      by (rule tree_rd_part [OF rd fit(2)])
    have lb: "length ?bs = unat (ucast le :: u16)" using fit len by simp
    then obtain res1 where put: "put_bytes res ?bs = Some res1" using put_bytes_ok [OF r0, of ?bs] o by auto
    note dw = data_wire [OF put lb]
    show ?thesis
      using c ty part put dw fit len o(3) ptr
      by (simp add: bin_read_file_def status_wire bin_answer_def)
  qed
qed

text \<open>
  C10.  READ BINARY on the current file: whatever the offset and the expected length, the card acknowledges the
  header and then answers with exactly the requested bytes of the file, with the number of bytes that are
  there when too many were asked for, or with the status word for an offset behind the end; no file
  changes, and the card is ready for the next command.
\<close>

theorem read_binary_exchange:
  assumes "pending [] st" and "unat tx \<le> length (st_buf_tx st)" and "data_ok (res_data res0)"
    and "cla_type (swicc_apdu_cmd_cla_parse c) = SWICC_APDU_CLA_TYPE_INTERINDUSTRY" and "unat p1 < 128"
    and "ih_type (hdr_item (va_cur_ef (st_va st))) = SWICC_FS_ITEM_TYPE_FILE_EF_TRANSPARENT"
    and "file_content (st_disk st) (va_cur_ef (st_va st)) = Some content" and "unat le + 2 \<le> unat tx"
  shows "\<exists>st'. exchange H res0 tx [c, 0xB0, p1, p2, le] [] st =
      Some ([0xB0], bin_answer content (unat p1 * 256 + unat p2) (unat le), st') \<and>
    pending [] st' \<and> st_fs st' = st_fs st \<and> st_rc st' = rc_zero"
proof -
  let ?cmd = "cmd_of [c, 0xB0, p1, p2, le]" and ?f = "va_cur_ef (st_va st)"
  have ack: "acks H res0 tx ?cmd (st_fs st) (st_rc st) rc_zero 0"
    using assms(4,8) by (intro acks_run) (simp_all add: cmd_of_def apduh_func_def apduh_bin_read_def Let_def)
  have "answers H res0 tx (cmd_with ?cmd []) (st_fs st) rc_zero (bin_answer content (unat p1 * 256 + unat p2) (unat le))
      (st_fs st) rc_zero"
  proof (rule answers_run)
    fix s assume "working SWICC_FSM_STATE_CMD_PROCEDURE 1 (cmd_with ?cmd []) (st_fs st) rc_zero s"
    then have s: "st_cmd s = cmd_with ?cmd []" "st_fs s = st_fs st" "st_rc s = rc_zero" by (simp_all add: working_def)
    obtain res' where r: "bin_read_file s res0 ?f (push_bit 8 (ucast (p1 AND 0x7F)) OR ucast p2) le None =
        Some (SWICC_RET_SUCCESS, s, res')" "\<not> is_ack res'"
      "res_wire (cmd_with ?cmd []) res' = Some (bin_answer content (unat p1 * 256 + unat p2) (unat le))"
      "res_room res' \<le> unat le + 2" "unat (data_len (res_data res')) \<le> SWICC_DATA_MAX"
      using bin_read_ok [OF assms(6) _ assms(3), of s content] assms(7) s(2) offset_value [OF assms(5), of p2]
      by fastforce
    have "p1 AND 0x80 = 0" using assms(5) by (simp add: u8_high_clear)
    then have "apduh_func 0xB0 s res0 1 = Some (SWICC_RET_SUCCESS, s, res')"
      using s r(1) assms(6) by (simp add: apduh_func_def apduh_bin_read_def cmd_of_def cmd_with_def data_zero_def Let_def)
    then show "\<exists>s' res. apduh_func (hdr_ins (cmd_hdr (cmd_with ?cmd []))) s res0 1 = Some (SWICC_RET_SUCCESS, s', res) \<and> \<not> is_ack res \<and>
        res_wire (st_cmd s') res = Some (bin_answer content (unat p1 * 256 + unat p2) (unat le)) \<and> res_room res \<le> unat tx \<and>
        unat (data_len (res_data res)) \<le> SWICC_DATA_MAX \<and> st_fs s' = st_fs st \<and> st_rc s' = rc_zero"
      using r s assms(8) by (intro exI [of _ s] exI [of _ res']) (simp add: cmd_of_def cmd_with_def)
  qed (simp_all add: cmd_of_def cmd_with_def assms(4))
  from exchange_run [OF assms(1) _ _ assms(2,3) _ this] ack show ?thesis by auto
qed

text \<open>A card whose current file is a transparent file with four bytes.\<close>

definition demo_bin :: swicc_st where
  "demo_bin = demo_ready\<lparr>st_fs :=
     \<lparr>fs_va = va_zero\<lparr>va_cur_ef := file_zero\<lparr>hdr_item := (hdr_item file_zero)\<lparr>ih_type := SWICC_FS_ITEM_TYPE_FILE_EF_TRANSPARENT\<rparr>,
                                        data_size := 4, data_ptr := Some (0, 2)\<rparr>\<rparr>,
      fs_disk = disk_zero\<lparr>d_root := [tree_zero\<lparr>t_buf := [9, 9, 1, 2, 3, 4]\<rparr>]\<rparr>\<rparr>\<rparr>"

definition demo_res :: swicc_apdu_res where
  "demo_res = \<lparr>res_sw1 = 0, res_sw2 = 0, res_data = data_zero\<rparr>"

lemma pending_fs: "pending h (st\<lparr>st_fs := fs\<rparr>) = pending h st" "pending h (st\<lparr>st_rc := rc\<rparr>) = pending h st"
  by (simp_all add: pending_def card_wf_def no_ext_def)

lemma demo_bin_facts:
  "pending [] demo_bin" "length (st_buf_tx demo_bin) = 64"
  "ih_type (hdr_item (va_cur_ef (st_va demo_bin))) = SWICC_FS_ITEM_TYPE_FILE_EF_TRANSPARENT"
  "file_content (st_disk demo_bin) (va_cur_ef (st_va demo_bin)) = Some [1, 2, 3, 4]" "data_ok (res_data demo_res)"
  using demo_ready_pending
  by (simp_all add: demo_bin_def pending_fs demo_ready_def demo_card_def file_content_def tree_rd_def rdn_def rd_def
      disk_zero_def demo_res_def data_zero_def data_ok_def)

lemma cla_00: "cla_type (swicc_apdu_cmd_cla_parse 0) = SWICC_APDU_CLA_TYPE_INTERINDUSTRY"
  by code_simp

theorem read_binary_exchange_witness:
  "\<exists>st'. exchange (\<lambda>_. apduh_unk) demo_res 64 [0x00, 0xB0, 0, 1, 2] [] demo_bin = Some ([0xB0], [2, 3, 0x90, 0x00], st')"
  using read_binary_exchange [OF demo_bin_facts(1) _ demo_bin_facts(5) cla_00 _ demo_bin_facts(3,4), of 64 0 2 "\<lambda>_. apduh_unk" 1]
    demo_bin_facts(2)
  by (auto simp: bin_answer_def)

section \<open>GET RESPONSE\<close>

text \<open>The answer, as a function of what is left in the response buffer and the expected length.\<close>

definition get_answer :: "bytes \<Rightarrow> nat \<Rightarrow> bytes" where
  "get_answer content n =
     (if n = 0 then [0x90, 0x00]
      else if length content < n then [0x62, 0x82]
      else take n content @ (if length content = n then [0x90, 0x00] else [0x61, word_of_nat (min 255 (length content - n))]))"

definition get_left :: "bytes \<Rightarrow> nat \<Rightarrow> bytes" where
  "get_left content n = (if length content < n then content else drop n content)"

definition get_rc :: "swicc_apdu_rc \<Rightarrow> u8 \<Rightarrow> swicc_apdu_rc" where
  "get_rc rc n = (if n = 0 \<or> length (rc_content rc) < unat n then rc else rc\<lparr>rc_offset := rc_offset rc + ucast n\<rparr>)"

text \<open>Data with a status word.\<close>

lemma data_status_wire:
  assumes "take (unat n) (data_b (res_data res)) = bs" "length bs = unat n" "\<not> sw1_is_proc sw1"
    and "\<not> (sw1_needs_sw2_zero sw1 \<and> sw2 \<noteq> 0)"
  shows "res_wire cmd (SWICC_APDUH_RES res sw1 sw2 n) = Some (bs @ [ucast sw1, sw2])"
    "res_room (SWICC_APDUH_RES res sw1 sw2 n) = unat n + 2"
  using assms by (auto simp: res_wire_def res_room_def SWICC_APDUH_RES_def Let_def)

lemma res_get_ok:
  assumes wf: "rc_wf (st_rc s)" and r0: "data_ok (res_data res)"
    and c: "hdr_p1 (cmd_hdr (st_cmd s)) = 0" "hdr_p2 (cmd_hdr (st_cmd s)) = 0" "cmd_p3 (st_cmd s) = n"
      "data_len (cmd_data (st_cmd s)) = 0"
  shows "\<exists>res'. apduh_res_get s res 1 = Some (SWICC_RET_SUCCESS, s\<lparr>st_rc := get_rc (st_rc s) n\<rparr>, res') \<and> \<not> is_ack res' \<and>
    (\<forall>cmd. res_wire cmd res' = Some (get_answer (rc_content (st_rc s)) (unat n))) \<and> res_room res' \<le> unat n + 2 \<and>
    unat (data_len (res_data res')) \<le> SWICC_DATA_MAX \<and> rc_wf (get_rc (st_rc s) n) \<and>
    rc_content (get_rc (st_rc s) n) = get_left (rc_content (st_rc s)) (unat n)"
proof -
  let ?content = "rc_content (st_rc s)"
  consider (none) "n = 0" | (short) "n \<noteq> 0" "length ?content < unat n" | (some) "n \<noteq> 0" "unat n \<le> length ?content" by linarith
  then show ?thesis
  proof cases
    case none
    then show ?thesis
      using c wf by (simp add: get_rc_def apduh_res_get_def Let_def respond_def status_wire get_answer_def get_left_def)
  next
    case short
    have "rc_deq (st_rc s) (data_b (res_data res)) (ucast n) =
        Some (SWICC_RET_BUFFER_TOO_SHORT, st_rc s, data_b (res_data res), rc_len_rem (st_rc s))"
      using short(2) rc_len_rem_content [OF wf] by (simp add: rc_deq_def Let_def word_le_nat_alt rc_len_rem_def)
    then show ?thesis
      using c wf short
      by (simp add: get_rc_def apduh_res_get_def Let_def respond_def status_wire get_answer_def get_left_def unat_eq_0)
  next
    case some
    have "unat (ucast n :: u32) \<le> length (data_b (res_data res))" using r0 by (simp add: data_ok_def)
    then obtain rc' where deq: "rc_deq (st_rc s) (data_b (res_data res)) (ucast n) =
        Some (SWICC_RET_SUCCESS, rc', take (unat n) ?content @ drop (unat n) (data_b (res_data res)), ucast n)"
      and rc': "rc_wf rc'" "rc_content rc' = drop (unat n) ?content"
      using rc_deq_ok [OF wf, of "ucast n" "data_b (res_data res)"] some(2) by auto
    have grc: "get_rc (st_rc s) n = rc'"
      using deq some by (auto simp: get_rc_def rc_deq_def Let_def bind_Some_iff split: if_split_asm)
    define rem where "rem = rc_len_rem rc'"
    have rem: "unat rem = length ?content - unat n" using rc_len_rem_content [OF rc'(1)] rc'(2) by (simp add: rem_def)
    let ?res1 = "res\<lparr>res_data := (res_data res)\<lparr>data_b := take (unat n) ?content @ drop (unat n) (data_b (res_data res))\<rparr>\<rparr>"
    have pl: "take (unat (ucast n :: u16)) (data_b (res_data ?res1)) = take (unat n) ?content"
      "length (take (unat n) ?content) = unat (ucast n :: u16)" using some(2) by simp_all
    note dw = data_status_wire [OF pl]
    have w: "unat n \<noteq> 0" using some(1) by (simp add: unat_eq_0)
    have left: "rc_content rc' = get_left ?content (unat n)" using rc'(2) some(2) by (simp add: get_left_def)
    show ?thesis
    proof (cases "rem = 0")
      case True
      then have eq: "length ?content = unat n" using rem some(2) by simp
      have "apduh_res_get s res 1 = Some (SWICC_RET_SUCCESS, s\<lparr>st_rc := rc'\<rparr>, SWICC_APDUH_RES ?res1 SWICC_APDU_SW1_NORM_NONE 0 (ucast n))"
        using c deq some(1) True by (simp add: apduh_res_get_def Let_def rem_def)
      then show ?thesis
        using dw [of SWICC_APDU_SW1_NORM_NONE 0] rc'(1) left w eq by (simp add: status_wire get_answer_def grc)
    next
      case False
      then have gt: "rem > 0" "unat n < length ?content" using rem by (simp_all add: word_gt_0 unat_eq_0 [symmetric])
      let ?sw2 = "if unat rem > 255 then 0xFF else ucast rem :: u8"
      have sw2: "?sw2 = word_of_nat (min 255 (length ?content - unat n))"
        using rem by (auto simp: min_def word_unat_eq_iff unat_of_nat unsigned_ucast_eq take_bit_eq_mod)
      have "apduh_res_get s res 1 = Some (SWICC_RET_SUCCESS, s\<lparr>st_rc := rc'\<rparr>,
          SWICC_APDUH_RES ?res1 SWICC_APDU_SW1_NORM_BYTES_AVAILABLE ?sw2 (ucast n))"
        using c deq some(1) gt(1) by (simp add: apduh_res_get_def Let_def rem_def [symmetric])
      moreover have "get_answer ?content (unat n) = take (unat n) ?content @ [0x61, ?sw2]"
        using w gt(2) by (simp add: get_answer_def sw2 del: of_nat_min)
      ultimately show ?thesis
        using dw [of SWICC_APDU_SW1_NORM_BYTES_AVAILABLE ?sw2] rc'(1) left by (simp add: status_wire grc)
    qed
  qed
qed

lemma get_response_run:
  assumes "pending [] st" and "unat tx \<le> length (st_buf_tx st)" and "data_ok (res_data res0)"
    and "cla_type (swicc_apdu_cmd_cla_parse c) = SWICC_APDU_CLA_TYPE_INTERINDUSTRY"
    and wf: "rc_wf (st_rc st)" and "unat n + 2 \<le> unat tx"
  shows "\<exists>st'. exchange H res0 tx [c, 0xC0, 0, 0, n] [] st = Some ([0xC0], get_answer (rc_content (st_rc st)) (unat n), st') \<and>
    pending [] st' \<and> st_fs st' = st_fs st \<and> rc_wf (st_rc st') \<and> rc_content (st_rc st') = get_left (rc_content (st_rc st)) (unat n) \<and>
    length (st_buf_tx st') = length (st_buf_tx st)"
proof -
  let ?cmd = "cmd_of [c, 0xC0, 0, 0, n]"
  have ack: "acks H res0 tx ?cmd (st_fs st) (st_rc st) (st_rc st) 0"
    using assms(4,6) by (intro acks_run) (simp_all add: cmd_of_def apduh_func_def apduh_res_get_def)
  let ?rc' = "get_rc (st_rc st) n"
  have h: "\<exists>res'. apduh_res_get s res0 1 = Some (SWICC_RET_SUCCESS, s\<lparr>st_rc := ?rc'\<rparr>, res') \<and> \<not> is_ack res' \<and>
      (\<forall>cmd. res_wire cmd res' = Some (get_answer (rc_content (st_rc st)) (unat n))) \<and> res_room res' \<le> unat n + 2 \<and>
      unat (data_len (res_data res')) \<le> SWICC_DATA_MAX \<and> rc_wf ?rc' \<and> rc_content ?rc' = get_left (rc_content (st_rc st)) (unat n)"
    if "st_cmd s = cmd_with ?cmd []" "st_rc s = st_rc st" for s
    using res_get_ok [of s res0 n] wf assms(3) that by (simp add: cmd_of_def cmd_with_def)
  have rc': "rc_wf ?rc'" "rc_content ?rc' = get_left (rc_content (st_rc st)) (unat n)"
    using h [of "st\<lparr>st_in := (st_in st)\<lparr>in_tpdu_cur := cmd_with ?cmd []\<rparr>\<rparr>"] by auto
  have "answers H res0 tx (cmd_with ?cmd []) (st_fs st) (st_rc st) (get_answer (rc_content (st_rc st)) (unat n)) (st_fs st) ?rc'"
  proof (rule answers_run)
    fix s assume "working SWICC_FSM_STATE_CMD_PROCEDURE 1 (cmd_with ?cmd []) (st_fs st) (st_rc st) s"
    then have s: "st_cmd s = cmd_with ?cmd []" "st_fs s = st_fs st" "st_rc s = st_rc st" by (simp_all add: working_def)
    have "apduh_func (hdr_ins (cmd_hdr (cmd_with ?cmd []))) s res0 1 = apduh_res_get s res0 1"
      by (simp add: cmd_of_def cmd_with_def apduh_func_def)
    with h [OF s(1,3)] show "\<exists>s' res. apduh_func (hdr_ins (cmd_hdr (cmd_with ?cmd []))) s res0 1 = Some (SWICC_RET_SUCCESS, s', res) \<and>
        \<not> is_ack res \<and> res_wire (st_cmd s') res = Some (get_answer (rc_content (st_rc st)) (unat n)) \<and> res_room res \<le> unat tx \<and>
        unat (data_len (res_data res)) \<le> SWICC_DATA_MAX \<and> st_fs s' = st_fs st \<and> st_rc s' = ?rc'"
      using s(2) assms(6) by fastforce
  qed (simp_all add: cmd_of_def cmd_with_def assms(4))
  from exchange_run [OF assms(1) _ _ assms(2,3) _ this] ack rc' show ?thesis by auto
qed

text \<open>
  C29.  GET RESPONSE: the card answers with the next bytes of the response that waits in its buffer and says how
  many are left (255 when there are more), or with a warning when fewer bytes wait than were asked for;
  what was sent is taken out of the buffer, so that the next GET RESPONSE goes on from there.
\<close>

theorem get_response_exchange:
  assumes "pending [] st" and "unat tx \<le> length (st_buf_tx st)" and "data_ok (res_data res0)"
    and "cla_type (swicc_apdu_cmd_cla_parse c) = SWICC_APDU_CLA_TYPE_INTERINDUSTRY"
    and "rc_wf (st_rc st)" and "unat n + 2 \<le> unat tx"
  shows "\<exists>st'. exchange H res0 tx [c, 0xC0, 0, 0, n] [] st = Some ([0xC0], get_answer (rc_content (st_rc st)) (unat n), st') \<and>
    pending [] st' \<and> st_fs st' = st_fs st \<and> rc_wf (st_rc st') \<and> rc_content (st_rc st') = get_left (rc_content (st_rc st)) (unat n)"
  using get_response_run [OF assms] by blast

definition demo_rc :: swicc_apdu_rc where
  "demo_rc = \<lparr>rc_b = [1, 2, 3] @ replicate 253 0, rc_len = 3, rc_offset = 0\<rparr>"

theorem get_response_exchange_witness:
  "\<exists>st'. exchange (\<lambda>_. apduh_unk) demo_res 64 [0x00, 0xC0, 0, 0, 2] [] (demo_ready\<lparr>st_rc := demo_rc\<rparr>) =
      Some ([0xC0], [1, 2, 0x61, 1], st') \<and> rc_content (st_rc st') = [3]"
proof -
  have rc: "rc_wf demo_rc" "rc_content demo_rc = [1, 2, 3]" by (simp_all add: demo_rc_def rc_wf_def rc_content_def)
  have p: "pending [] (demo_ready\<lparr>st_rc := demo_rc\<rparr>)" using demo_ready_pending by (simp add: pending_fs)
  show ?thesis
    using get_response_exchange [OF p _ demo_bin_facts(5) cla_00, of 64 2 "\<lambda>_. apduh_unk"] rc
    by (auto simp: demo_ready_def demo_card_def get_answer_def get_left_def)
qed

end
