(* ===== verification/Swicc_Records.thy ===== *)
theory Swicc_Records
  imports Swicc_Commands
begin

text \<open>
  READ RECORD and UPDATE RECORD by record number on the current file, as exchanges between the interface and
  the card, and what the one reads after the other has written.
\<close>

section \<open>Files as sequences of records\<close>

text \<open>
  The current file is a linear-fixed one with records of \<open>r\<close> bytes and the contents \<open>content\<close>, which lie
  within the 32-bit offsets of its tree.
\<close>

definition rcrd_file :: "swicc_fs \<Rightarrow> nat \<Rightarrow> bytes \<Rightarrow> bool" where
  "rcrd_file fs r content \<longleftrightarrow> va_cur_tree (fs_va fs) \<noteq> None \<and>
     ih_type (hdr_item (va_cur_ef (fs_va fs))) = SWICC_FS_ITEM_TYPE_FILE_EF_LINEARFIXED \<and>
     0 < r \<and> unat (hdr_spec_rcrd_size (va_cur_ef (fs_va fs))) = r \<and>
     file_content (fs_disk fs) (va_cur_ef (fs_va fs)) = Some content \<and>
     (\<forall>ti off. data_ptr (va_cur_ef (fs_va fs)) = Some (ti, off) \<longrightarrow> unat off + length content < 2 ^ 32)"

definition record_of :: "nat \<Rightarrow> bytes \<Rightarrow> nat \<Rightarrow> bytes" where
  "record_of r content i = take r (drop (r * i) content)"

definition record_put :: "nat \<Rightarrow> bytes \<Rightarrow> nat \<Rightarrow> bytes \<Rightarrow> bytes" where
  "record_put r content i bs = take (r * i) content @ bs @ drop (r * i + r) content"

lemma record_in: "i < length content div r \<Longrightarrow> r * i + r \<le> length content"
proof -
  assume "i < length content div r"
  then have "r * Suc i \<le> r * (length content div r)" by (intro mult_le_mono2) simp
  also have "\<dots> \<le> length content" by simp
  finally show ?thesis by simp
qed

lemma record_put_length: "r * i + r \<le> length content \<Longrightarrow> length bs = r \<Longrightarrow> length (record_put r content i bs) = length content"
  by (simp add: record_put_def)

lemma record_put_same: "r * i + r \<le> length content \<Longrightarrow> length bs = r \<Longrightarrow> record_of r (record_put r content i bs) i = bs"
  by (simp add: record_put_def record_of_def)

lemma record_put_other:
  assumes "r * i + r \<le> length content" "length bs = r" "i \<noteq> j"
  shows "record_of r (record_put r content i bs) j = record_of r content j"
proof (cases "j < i")
  case True
  then have "r * Suc j \<le> r * i" by (intro mult_le_mono2) simp
  then have le: "r * j + r \<le> r * i" by simp
  have "drop (r * j) (take (r * i) content) = take (r * i - r * j) (drop (r * j) content)" by (simp add: drop_take)
  moreover have "r * j \<le> length (take (r * i) content)" "r \<le> length (drop (r * j) (take (r * i) content))"
    using assms(1) le by (simp_all add: less_imp_le [OF True])
  ultimately show ?thesis using le by (simp add: record_put_def record_of_def min_def less_imp_le [OF True])
next
  case False
  then have "r * Suc i \<le> r * j" using assms(3) by (intro mult_le_mono2) simp
  then have le: "r * i + r \<le> r * j" by simp
  have ij: "i \<le> j" using False by simp
  then have "r * i - r * j = 0" "drop (r * j) (take (r * i) content) = []" by (simp_all add: mult_le_mono2 min.coboundedI2)
  then show ?thesis
    using assms le by (simp add: record_put_def record_of_def)
qed

lemma tree_wr_ok:
  assumes rd: "tree_rd d ti off n = Some bs" and le: "o1 + length xs \<le> n"
  shows "\<exists>d'. tree_wr d ti (off + o1) xs = Some d' \<and>
    tree_rd d' ti off n = Some (take o1 bs @ xs @ drop (o1 + length xs) bs)"
proof -
  obtain t where t: "rd (d_root d) ti = Some t" "off + n \<le> length (t_buf t)" "bs = take n (drop off (t_buf t))"
    using rd by (auto simp: tree_rd_def bind_Some_iff rdn_def split: if_split_asm)
  have ti: "ti < length (d_root d)" "d_root d ! ti = t" using t(1) by (simp_all add: rd_def split: if_split_asm)
  obtain b where b: "wrn (t_buf t) (off + o1) xs = Some b" using wrn_ex [of "off + o1" xs "t_buf t"] t(2) le by auto
  have lb: "length b = length (t_buf t)" by (rule length_wrn [OF b])
  have "take n (drop off b) = take o1 bs @ xs @ drop (o1 + length xs) bs"
    using b t(2,3) le
    by (intro nth_equalityI) (auto simp: wrn_def nth_append add.commute add.left_commute less_diff_conv split: if_split_asm)
  then show ?thesis
    using t(1,2) ti b lb by (simp add: tree_wr_def tree_rd_def rd_def rdn_def)
qed

section \<open>Finding and selecting a record\<close>

text \<open>The current file after the selection of a record, which is all that a read changes.\<close>

definition select_rcrd :: "swicc_fs \<Rightarrow> u8 \<Rightarrow> swicc_fs" where
  "select_rcrd fs idx = fs\<lparr>fs_va := (fs_va fs)\<lparr>va_cur_rcrd := idx\<rparr>\<rparr>"

lemma p2_current: "rcrd_p2 4 = (TRGT_EF_CUR, METH_RCRD_NUM, WHAT_P1)"
  by (simp add: rcrd_p2_def rcrd_p2_target_def)

lemma p1_index:
  fixes p1 :: u8
  assumes "0 < unat p1" "unat p1 < 255"
  shows "p1 \<noteq> 0" "p1 \<noteq> 0xFF" "\<not> p1 < 1" "unat (p1 - 1) = unat p1 - 1"
proof -
  show "p1 \<noteq> 0" "p1 \<noteq> 0xFF" using assms by auto
  show "\<not> p1 < 1" using assms(1) by (simp add: word_less_nat_alt)
  show "unat (p1 - 1) = unat p1 - 1" using assms(1) by (simp add: unat_sub word_le_nat_alt)
qed

lemma not_refused: "0 < unat p1 \<Longrightarrow> unat p1 < 255 \<Longrightarrow> rcrd_refuse p1 4 = None"
  using p1_index [of p1] by (simp add: rcrd_refuse_def p2_current)

lemma rcrd_count:
  assumes "rcrd_file fs r content"
  shows "swicc_disk_file_rcrd_cnt (va_cur_ef (fs_va fs)) 0 = Some (SWICC_RET_SUCCESS, data_size (va_cur_ef (fs_va fs)) div ucast (hdr_spec_rcrd_size (va_cur_ef (fs_va fs))))"
    and "unat (data_size (va_cur_ef (fs_va fs)) div ucast (hdr_spec_rcrd_size (va_cur_ef (fs_va fs)))) = length content div r"
proof -
  have nz: "hdr_spec_rcrd_size (va_cur_ef (fs_va fs)) \<noteq> 0" using assms by (auto simp: rcrd_file_def)
  then show "swicc_disk_file_rcrd_cnt (va_cur_ef (fs_va fs)) 0 = Some (SWICC_RET_SUCCESS, data_size (va_cur_ef (fs_va fs)) div ucast (hdr_spec_rcrd_size (va_cur_ef (fs_va fs))))"
    using assms by (simp add: rcrd_file_def swicc_disk_file_rcrd_cnt_def assert_ub_def)
  have "length content = unat (data_size (va_cur_ef (fs_va fs)))"
    using assms by (auto simp: rcrd_file_def file_content_def bind_Some_iff dest: tree_rd_length)
  then show "unat (data_size (va_cur_ef (fs_va fs)) div ucast (hdr_spec_rcrd_size (va_cur_ef (fs_va fs)))) = length content div r"
    using assms by (simp add: rcrd_file_def unat_div)
qed

lemma file_rcrd_run:
  assumes f: "rcrd_file fs r content"
  shows "length content div r \<le> unat idx \<Longrightarrow>
      swicc_disk_file_rcrd (va_cur_ef (fs_va fs)) idx = Some (SWICC_RET_FS_NOT_FOUND, None)"
    and "unat idx < length content div r \<Longrightarrow> \<exists>ti off off'.
      data_ptr (va_cur_ef (fs_va fs)) = Some (ti, off) \<and> unat off' = unat off + r * unat idx \<and>
      tree_rd (fs_disk fs) ti (unat off) (length content) = Some content \<and>
      swicc_disk_file_rcrd (va_cur_ef (fs_va fs)) idx =
        Some (SWICC_RET_SUCCESS, Some ((ti, off'), hdr_spec_rcrd_size (va_cur_ef (fs_va fs))))"
proof -
  let ?f = "va_cur_ef (fs_va fs)" let ?r = "hdr_spec_rcrd_size ?f"
  note cnt = rcrd_count [OF f]
  obtain ti off where ptr: "data_ptr ?f = Some (ti, off)" and rd: "tree_rd (fs_disk fs) ti (unat off) (unat (data_size ?f)) = Some content"
    using f by (auto simp: rcrd_file_def file_content_def bind_Some_iff)
  have len: "unat (data_size ?f) = length content" using tree_rd_length [OF rd] by simp
  have bound: "unat off + length content < 2 ^ 32" using f ptr by (auto simp: rcrd_file_def)
  have ty: "ih_type (hdr_item ?f) = SWICC_FS_ITEM_TYPE_FILE_EF_LINEARFIXED" and r: "unat ?r = r" "0 < r"
    using f by (auto simp: rcrd_file_def)
  show "swicc_disk_file_rcrd ?f idx = Some (SWICC_RET_FS_NOT_FOUND, None)" if "length content div r \<le> unat idx"
  proof -
    have "ucast idx \<ge> data_size ?f div ucast ?r" using that cnt(2) by (simp add: word_le_nat_alt)
    then show ?thesis using ty cnt(1) by (simp add: swicc_disk_file_rcrd_def Let_def)
  qed
  show "\<exists>ti off off'. data_ptr ?f = Some (ti, off) \<and> unat off' = unat off + r * unat idx \<and>
      tree_rd (fs_disk fs) ti (unat off) (length content) = Some content \<and>
      swicc_disk_file_rcrd ?f idx = Some (SWICC_RET_SUCCESS, Some ((ti, off'), ?r))" if i: "unat idx < length content div r"
  proof -
    have lt: "r * unat idx + r \<le> length content" by (rule record_in [OF i])
    have c1: "\<not> ucast idx \<ge> data_size ?f div ucast ?r" using i cnt(2) by (simp add: word_le_nat_alt)
    have ro: "unat (ucast ?r * ucast idx :: u32) = r * unat idx"
      using lt bound r(1) by (simp add: unat_word_ariths)
    then have c2: "\<not> ucast ?r * ucast idx \<ge> data_size ?f" using lt r(2) len by (simp add: word_le_nat_alt)
    have "unat (off + ucast ?r * ucast idx) = unat off + r * unat idx"
      using ro lt bound by (simp add: unat_word_ariths)
    then show ?thesis
      using ty cnt(1) c1 c2 ptr rd len by (simp add: swicc_disk_file_rcrd_def Let_def)
  qed
qed

lemma select_rcrd_ok:
  assumes f: "rcrd_file (st_fs s) r content"
  shows "rcrd_select s 4 ef idx = Some (True, s\<lparr>st_fs := select_rcrd (st_fs s) idx\<rparr>)"
  using f rcrd_count(1) [OF f]
  by (simp add: rcrd_select_def p2_current swicc_va_select_record_idx_def Let_def rcrd_file_def select_rcrd_def)

lemma rcrd_find_run:
  assumes f: "rcrd_file (st_fs s) r content" and p1: "0 < unat p1" "unat p1 < 255"
    and c: "hdr_p1 (cmd_hdr (st_cmd s)) = p1" "hdr_p2 (cmd_hdr (st_cmd s)) = 4"
  shows "length content div r < unat p1 \<Longrightarrow> rcrd_find s res k = respond s res SWICC_APDU_SW1_CHER_P1P2_INFO 0x83"
    and "unat p1 \<le> length content div r \<Longrightarrow> \<exists>ti off off'.
      data_ptr (va_cur_ef (st_va s)) = Some (ti, off) \<and> unat off' = unat off + r * (unat p1 - 1) \<and>
      tree_rd (st_disk s) ti (unat off) (length content) = Some content \<and>
      rcrd_find s res k = k (va_cur_ef (st_va s)) ti off' (hdr_spec_rcrd_size (va_cur_ef (st_va s)))"
proof -
  obtain t where tree: "va_cur_tree (st_va s) = Some t" using f by (auto simp: rcrd_file_def)
  have ef: "rcrd_target_ef s 4 = Some (SWICC_RET_SUCCESS, va_cur_ef (st_va s))" by (simp add: rcrd_target_ef_def p2_current)
  note i = p1_index(4) [OF p1]
  show "rcrd_find s res k = respond s res SWICC_APDU_SW1_CHER_P1P2_INFO 0x83" if "length content div r < unat p1"
    using file_rcrd_run(1) [OF f, of "p1 - 1"] that i c not_refused [OF p1] ef tree p1(1)
    by (simp add: rcrd_find_def Let_def)
  show "\<exists>ti off off'. data_ptr (va_cur_ef (st_va s)) = Some (ti, off) \<and> unat off' = unat off + r * (unat p1 - 1) \<and>
      tree_rd (st_disk s) ti (unat off) (length content) = Some content \<and>
      rcrd_find s res k = k (va_cur_ef (st_va s)) ti off' (hdr_spec_rcrd_size (va_cur_ef (st_va s)))"
    if n: "unat p1 \<le> length content div r"
  proof -
    have "unat (p1 - 1) < length content div r" using n i p1(1) by simp
    from file_rcrd_run(2) [OF f this] show ?thesis
      using i c not_refused [OF p1] ef tree by (fastforce simp: rcrd_find_def Let_def)
  qed
qed

section \<open>READ RECORD\<close>

definition rcrd_answer :: "nat \<Rightarrow> bytes \<Rightarrow> nat \<Rightarrow> nat \<Rightarrow> bytes" where
  "rcrd_answer r content nr le =
     (if length content div r < nr then [0x6A, 0x83]
      else if le \<noteq> r then [0x6C, word_of_nat r]
      else record_of r content (nr - 1) @ [0x90, 0x00])"

text \<open>The record is only selected when it is read.\<close>

definition rcrd_selected :: "swicc_fs \<Rightarrow> nat \<Rightarrow> bytes \<Rightarrow> u8 \<Rightarrow> nat \<Rightarrow> swicc_fs" where
  "rcrd_selected fs r content p1 le =
     (if length content div r < unat p1 \<or> le \<noteq> r then fs else select_rcrd fs (p1 - 1))"

lemma rcrd_read_ok:
  assumes f: "rcrd_file (st_fs s) r content" and p1: "0 < unat p1" "unat p1 < 255"
    and c: "hdr_p1 (cmd_hdr (st_cmd s)) = p1" "hdr_p2 (cmd_hdr (st_cmd s)) = 4" "cmd_p3 (st_cmd s) = le"
    and r0: "data_ok (res_data res)"
  shows "\<exists>s' res'. rcrd_find s res (rcrd_read_found s res) = Some (SWICC_RET_SUCCESS, s', res') \<and> \<not> is_ack res' \<and>
    res_wire cmd res' = Some (rcrd_answer r content (unat p1) (unat le)) \<and> res_room res' \<le> r + 2 \<and>
    unat (data_len (res_data res')) \<le> SWICC_DATA_MAX \<and>
    s' = s\<lparr>st_fs := rcrd_selected (st_fs s) r content p1 (unat le)\<rparr>"
proof (cases "length content div r < unat p1")
  case True
  then show ?thesis
    using rcrd_find_run(1) [OF f p1 c(1,2) True, of res "rcrd_read_found s res"]
    by (simp add: respond_def status_wire rcrd_answer_def rcrd_selected_def)
next
  case False
  let ?f = "va_cur_ef (st_va s)"
  have r: "unat (hdr_spec_rcrd_size ?f) = r" using f by (simp add: rcrd_file_def)
  have rb: "r \<le> SWICC_DATA_MAX" unfolding r [symmetric] by (rule unat_u8_data)
  have n: "unat p1 \<le> length content div r" using False by simp
  obtain ti off' and off :: u32 where fd: "unat off' = unat off + r * (unat p1 - 1)"
    "tree_rd (st_disk s) ti (unat off) (length content) = Some content"
    "rcrd_find s res (rcrd_read_found s res) = rcrd_read_found s res ?f ti off' (hdr_spec_rcrd_size ?f)"
    using rcrd_find_run(2) [OF f p1 c(1,2) n, of res "rcrd_read_found s res"] by blast
  show ?thesis
  proof (cases "unat le = r")
    case le: False
    then have "le \<noteq> hdr_spec_rcrd_size ?f" using r by auto
    moreover have "(word_of_nat r :: u8) = hdr_spec_rcrd_size ?f" using r by (metis of_nat_unat ucast_id)
    ultimately show ?thesis
      using fd(3) c False le
      by (simp add: rcrd_read_found_def Let_def respond_def status_wire rcrd_answer_def rcrd_selected_def)
  next
    case le: True
    then have leq: "le = hdr_spec_rcrd_size ?f" using r by (simp add: word_unat_eq_iff)
    have "unat p1 - 1 < length content div r" using False p1(1) by linarith
    note fits = record_in [OF this]
    have part: "tree_rd (st_disk s) ti (unat off') (unat le) = Some (record_of r content (unat p1 - 1))"
      using tree_rd_part [OF fd(2) fits] fd(1) le by (simp add: record_of_def)
    have lb: "length (record_of r content (unat p1 - 1)) = unat (ucast le :: u16)"
      using tree_rd_length [OF part] by simp
    have "data_ok (res_data (SWICC_APDUH_RES res SWICC_APDU_SW1_NORM_NONE 0 (ucast le)))"
      "length (record_of r content (unat p1 - 1)) \<le> SWICC_DATA_MAX"
      using r0 lb by (simp_all add: SWICC_APDUH_RES_def data_ok_def)
    from put_bytes_ok [OF this]
    obtain res1 where put: "put_bytes (SWICC_APDUH_RES res SWICC_APDU_SW1_NORM_NONE 0 (ucast le)) (record_of r content (unat p1 - 1)) = Some res1"
      by blast
    then have res1: "res1 = SWICC_APDUH_RES res1 SWICC_APDU_SW1_NORM_NONE 0 (ucast le)"
      by (auto simp: put_bytes_def bind_Some_iff SWICC_APDUH_RES_def)
    have "put_bytes (SWICC_APDUH_RES res SWICC_APDU_SW1_NORM_NONE 0 (ucast le)) (record_of r content (unat p1 - 1)) =
        Some (SWICC_APDUH_RES res1 SWICC_APDU_SW1_NORM_NONE 0 (ucast le))" using put res1 by simp
    moreover note dw = data_wire [OF put lb]
    ultimately show ?thesis
      using fd(3) c False le leq part select_rcrd_ok [OF f] rb
      by (simp add: rcrd_read_found_def Let_def status_wire rcrd_answer_def rcrd_selected_def select_rcrd_def)
  qed
qed

lemma read_record_run:
  assumes "pending [] st" and "unat tx \<le> length (st_buf_tx st)" and "data_ok (res_data res0)"
    and "cla_type (swicc_apdu_cmd_cla_parse c) = SWICC_APDU_CLA_TYPE_INTERINDUSTRY"
    and "rcrd_file (st_fs st) r content" and "0 < unat p1" and "unat p1 < 255" and "r + 2 \<le> unat tx"
  shows "\<exists>st'. exchange H res0 tx [c, 0xB2, p1, 4, le] [] st = Some ([0xB2], rcrd_answer r content (unat p1) (unat le), st') \<and>
    pending [] st' \<and> st_fs st' = rcrd_selected (st_fs st) r content p1 (unat le)"
proof -
  let ?cmd = "cmd_of [c, 0xB2, p1, 4, le]" and ?fs' = "rcrd_selected (st_fs st) r content p1 (unat le)"
  have ack: "acks H res0 tx ?cmd (st_fs st) (st_rc st) rc_zero 0"
    using assms(4,8) by (intro acks_run) (simp_all add: cmd_of_def apduh_func_def apduh_rcrd_read_def)
  have "answers H res0 tx (cmd_with ?cmd []) (st_fs st) rc_zero (rcrd_answer r content (unat p1) (unat le)) ?fs' rc_zero"
  proof (rule answers_run)
    fix s assume "working SWICC_FSM_STATE_CMD_PROCEDURE 1 (cmd_with ?cmd []) (st_fs st) rc_zero s"
    then have s: "st_cmd s = cmd_with ?cmd []" "st_fs s = st_fs st" "st_rc s = rc_zero" by (simp_all add: working_def)
    then have "\<exists>s' res'. rcrd_find s res0 (rcrd_read_found s res0) = Some (SWICC_RET_SUCCESS, s', res') \<and> \<not> is_ack res' \<and>
        res_wire cmd res' = Some (rcrd_answer r content (unat p1) (unat le)) \<and> res_room res' \<le> r + 2 \<and>
        unat (data_len (res_data res')) \<le> SWICC_DATA_MAX \<and> s' = s\<lparr>st_fs := ?fs'\<rparr>" for cmd
      using rcrd_read_ok [OF _ assms(6,7) _ _ _ assms(3), of s r content le cmd] assms(5)
      by (simp add: cmd_of_def cmd_with_def)
    moreover have "apduh_func (hdr_ins (cmd_hdr (cmd_with ?cmd []))) s res0 1 = rcrd_find s res0 (rcrd_read_found s res0)"
      using s(1) by (simp add: cmd_of_def cmd_with_def apduh_func_def apduh_rcrd_read_def data_zero_def)
    ultimately show "\<exists>s' res. apduh_func (hdr_ins (cmd_hdr (cmd_with ?cmd []))) s res0 1 = Some (SWICC_RET_SUCCESS, s', res) \<and>
        \<not> is_ack res \<and> res_wire (st_cmd s') res = Some (rcrd_answer r content (unat p1) (unat le)) \<and> res_room res \<le> unat tx \<and>
        unat (data_len (res_data res)) \<le> SWICC_DATA_MAX \<and> st_fs s' = ?fs' \<and> st_rc s' = rc_zero"
      using s(1,3) assms(8) by fastforce
  qed (simp_all add: cmd_of_def cmd_with_def assms(4))
  from exchange_run [OF assms(1) _ _ assms(2,3) _ this] ack show ?thesis by auto
qed

text \<open>
  C14.  READ RECORD by number on the current linear-fixed file: the card acknowledges the header and answers
  with exactly the record, with the record's length when another one was asked for, or with the status
  word for a record that is not there; only a record that was read becomes the current one, and nothing
  else of the file system changes.
\<close>

theorem read_record_exchange:
  assumes "pending [] st" and "unat tx \<le> length (st_buf_tx st)" and "data_ok (res_data res0)"
    and "cla_type (swicc_apdu_cmd_cla_parse c) = SWICC_APDU_CLA_TYPE_INTERINDUSTRY"
    and "rcrd_file (st_fs st) r content" and "0 < unat p1" and "unat p1 < 255" and "r + 2 \<le> unat tx"
  shows "\<exists>st'. exchange H res0 tx [c, 0xB2, p1, 4, le] [] st = Some ([0xB2], rcrd_answer r content (unat p1) (unat le), st') \<and>
    pending [] st' \<and> st_fs st' = rcrd_selected (st_fs st) r content p1 (unat le)"
  by (rule read_record_run) (fact assms)+

text \<open>A card whose current file has two records of three bytes.\<close>

definition demo_rcrd :: swicc_st where
  "demo_rcrd = demo_ready\<lparr>st_fs :=
     \<lparr>fs_va = va_zero\<lparr>va_cur_tree := Some 0,
        va_cur_ef := file_zero\<lparr>hdr_item := (hdr_item file_zero)\<lparr>ih_type := SWICC_FS_ITEM_TYPE_FILE_EF_LINEARFIXED\<rparr>,
                               hdr_spec := [3], data_size := 6, data_ptr := Some (0, 1)\<rparr>\<rparr>,
      fs_disk = disk_zero\<lparr>d_root := [tree_zero\<lparr>t_buf := [9, 1, 2, 3, 4, 5, 6, 9]\<rparr>]\<rparr>\<rparr>\<rparr>"

lemma demo_rcrd_facts:
  "pending [] demo_rcrd" "length (st_buf_tx demo_rcrd) = 64" "rcrd_file (st_fs demo_rcrd) 3 [1, 2, 3, 4, 5, 6]"
  using demo_ready_pending
  by (simp_all add: demo_rcrd_def pending_fs demo_ready_def demo_card_def rcrd_file_def file_content_def tree_rd_def
      rdn_def rd_def disk_zero_def hdr_spec_rcrd_size_def)

theorem read_record_exchange_witness:
  "\<exists>st'. exchange (\<lambda>_. apduh_unk) demo_res 64 [0x00, 0xB2, 2, 4, 3] [] demo_rcrd = Some ([0xB2], [4, 5, 6, 0x90, 0x00], st') \<and>
     va_cur_rcrd (st_va st') = 1"
  using read_record_exchange [OF demo_rcrd_facts(1) _ demo_bin_facts(5) cla_00 demo_rcrd_facts(3), of 64 2 "\<lambda>_. apduh_unk" 3]
    demo_rcrd_facts(2)
  by (auto simp: rcrd_answer_def record_of_def rcrd_selected_def select_rcrd_def)

section \<open>UPDATE RECORD\<close>

lemma rcrd_find_at:
  assumes "va_cur_tree (st_va s) \<noteq> None" and "0 < unat p1" "unat p1 < 255"
    and "hdr_p1 (cmd_hdr (st_cmd s)) = p1" "hdr_p2 (cmd_hdr (st_cmd s)) = 4"
    and "swicc_disk_file_rcrd (va_cur_ef (st_va s)) (p1 - 1) = Some (SWICC_RET_SUCCESS, Some ((ti, off), n))"
  shows "rcrd_find s res k = k (va_cur_ef (st_va s)) ti off n"
  using assms not_refused [OF assms(2,3)] by (auto simp: rcrd_find_def Let_def rcrd_target_ef_def p2_current)

text \<open>Files that share no byte.\<close>

definition apart :: "swicc_fs_file \<Rightarrow> swicc_fs_file \<Rightarrow> bool" where
  "apart f g \<longleftrightarrow> (\<forall>ti off ti' off'. data_ptr f = Some (ti, off) \<longrightarrow> data_ptr g = Some (ti', off') \<longrightarrow>
     ti \<noteq> ti' \<or> unat off + unat (data_size f) \<le> unat off' \<or> unat off' + unat (data_size g) \<le> unat off)"

lemma rdn_apart:
  assumes "wrn b o1 xs = Some b'" and "o2 + n \<le> o1 \<or> o1 + length xs \<le> o2"
  shows "rdn b' o2 n = rdn b o2 n"
proof (cases "o2 + n \<le> length b")
  case True
  have l: "length b' = length b" by (rule length_wrn [OF assms(1)])
  have "take n (drop o2 b') = take n (drop o2 b)"
    using assms True l by (intro nth_equalityI) (auto simp: wrn_def nth_append split: if_split_asm)
  then show ?thesis using l by (simp add: rdn_def)
qed (simp add: rdn_def length_wrn [OF assms(1)])

lemma tree_wr_apart:
  assumes "tree_wr d ti o1 xs = Some d'" and "ti \<noteq> ti2 \<or> o2 + n \<le> o1 \<or> o1 + length xs \<le> o2"
  shows "tree_rd d' ti2 o2 n = tree_rd d ti2 o2 n"
proof -
  obtain t b where t: "rd (d_root d) ti = Some t" "wrn (t_buf t) o1 xs = Some b"
    "d' = d\<lparr>d_root := (d_root d)[ti := t\<lparr>t_buf := b\<rparr>]\<rparr>"
    using assms(1) by (auto simp: tree_wr_def bind_Some_iff)
  have ti: "ti < length (d_root d)" "d_root d ! ti = t" using t(1) by (simp_all add: rd_def split: if_split_asm)
  show ?thesis
  proof (cases "ti = ti2")
    case True
    then have "rdn b o2 n = rdn (t_buf t) o2 n" using assms(2) by (intro rdn_apart [OF t(2)]) auto
    then show ?thesis using t(1,3) ti True by (simp add: tree_rd_def rd_def)
  qed (simp add: tree_rd_def rd_def t(3))
qed

definition rcrd_updated :: "swicc_fs \<Rightarrow> nat \<Rightarrow> bytes \<Rightarrow> u8 \<Rightarrow> bytes \<Rightarrow> swicc_fs \<Rightarrow> bool" where
  "rcrd_updated fs r content p1 data fs' \<longleftrightarrow>
     fs_va fs' = fs_va (select_rcrd fs (p1 - 1)) \<and> rcrd_file fs' r (record_put r content (unat p1 - 1) data) \<and>
     (\<forall>g. apart (va_cur_ef (fs_va fs)) g \<longrightarrow> file_content (fs_disk fs') g = file_content (fs_disk fs) g)"

lemma tree_wr_updated:
  assumes f: "rcrd_file fs r content" and p1: "0 < unat p1" "unat p1 < 255" "unat p1 \<le> length content div r"
    and data: "length data = r"
  shows "\<exists>ti off d'. swicc_disk_file_rcrd (va_cur_ef (fs_va fs)) (p1 - 1) =
      Some (SWICC_RET_SUCCESS, Some ((ti, off), hdr_spec_rcrd_size (va_cur_ef (fs_va fs)))) \<and>
    tree_wr (fs_disk fs) ti (unat off) data = Some d' \<and>
    rcrd_updated fs r content p1 data ((select_rcrd fs (p1 - 1))\<lparr>fs_disk := d'\<rparr>)"
proof -
  let ?f = "va_cur_ef (fs_va fs)" let ?i = "unat p1 - 1"
  have i: "unat (p1 - 1) = ?i" "?i < length content div r" using p1_index(4) [OF p1(1,2)] p1(1,3) by simp_all
  have fits: "r * ?i + r \<le> length content" by (rule record_in [OF i(2)])
  obtain ti off off' where ptr: "data_ptr ?f = Some (ti, off)" and off': "unat off' = unat off + r * ?i"
    and rd: "tree_rd (fs_disk fs) ti (unat off) (length content) = Some content"
    and fr: "swicc_disk_file_rcrd ?f (p1 - 1) = Some (SWICC_RET_SUCCESS, Some ((ti, off'), hdr_spec_rcrd_size ?f))"
    using file_rcrd_run(2) [OF f, of "p1 - 1"] i by auto
  obtain d' where d': "tree_wr (fs_disk fs) ti (unat off') data = Some d'"
    "tree_rd d' ti (unat off) (length content) = Some (record_put r content ?i data)"
    using tree_wr_ok [OF rd, of "r * ?i" data] fits data off' by (auto simp: record_put_def)
  have len: "unat (data_size ?f) = length content"
    using f by (auto simp: rcrd_file_def file_content_def bind_Some_iff dest: tree_rd_length)
  have lp: "length (record_put r content ?i data) = length content" by (rule record_put_length [OF fits data])
  let ?fs' = "(select_rcrd fs (p1 - 1))\<lparr>fs_disk := d'\<rparr>"
  have "rcrd_file ?fs' r (record_put r content ?i data)"
    using f d'(2) ptr len lp by (simp add: rcrd_file_def select_rcrd_def file_content_def)
  moreover have "file_content d' g = file_content (fs_disk fs) g" if g: "apart ?f g" for g
  proof (cases "data_ptr g")
    case (Some p)
    obtain ti2 off2 where p: "p = (ti2, off2)" by (cases p)
    have "ti \<noteq> ti2 \<or> unat off2 + unat (data_size g) \<le> unat off' \<or> unat off' + length data \<le> unat off2"
      using g Some p ptr len off' fits data unfolding apart_def by force
    from tree_wr_apart [OF d'(1) this] show ?thesis using Some p by (simp add: file_content_def)
  qed (simp add: file_content_def)
  ultimately have "rcrd_updated fs r content p1 data ?fs'" by (simp add: rcrd_updated_def)
  with fr d'(1) show ?thesis by blast
qed

lemma rcrd_size_byte: "rcrd_file fs r content \<Longrightarrow> hdr_spec_rcrd_size (va_cur_ef (fs_va fs)) = word_of_nat r \<and> r < 256"
  using unat_u8_less [of "hdr_spec_rcrd_size (va_cur_ef (fs_va fs))"] by (auto simp: rcrd_file_def)

lemma update_record_run:
  assumes "pending [] st" and "unat tx \<le> length (st_buf_tx st)" and "data_ok (res_data res0)"
    and "cla_type (swicc_apdu_cmd_cla_parse c) = SWICC_APDU_CLA_TYPE_INTERINDUSTRY"
    and f: "rcrd_file (st_fs st) r content" and p1: "0 < unat p1" "unat p1 < 255" "unat p1 \<le> length content div r"
    and data: "length data = r" and "r + 2 \<le> unat tx"
  shows "\<exists>st'. exchange H res0 tx [c, 0xDC, p1, 4, word_of_nat r] data st = Some ([0xDC], [0x90, 0x00], st') \<and>
    pending [] st' \<and> rcrd_updated (st_fs st) r content p1 data (st_fs st') \<and> length (st_buf_tx st') = length (st_buf_tx st)"
proof -
  let ?cmd = "cmd_of [c, 0xDC, p1, 4, word_of_nat r]" and ?f = "va_cur_ef (st_va st)"
  obtain ti off d' where fr: "swicc_disk_file_rcrd ?f (p1 - 1) = Some (SWICC_RET_SUCCESS, Some ((ti, off), hdr_spec_rcrd_size ?f))"
    and wr: "tree_wr (st_disk st) ti (unat off) data = Some d'"
    and up: "rcrd_updated (st_fs st) r content p1 data ((select_rcrd (st_fs st) (p1 - 1))\<lparr>fs_disk := d'\<rparr>)"
    using tree_wr_updated [OF f p1 data] by blast
  let ?fs' = "(select_rcrd (st_fs st) (p1 - 1))\<lparr>fs_disk := d'\<rparr>"
  have rs: "hdr_spec_rcrd_size ?f = word_of_nat r" and r256: "r < 256" using rcrd_size_byte [OF f] by simp_all
  have ru: "unat (word_of_nat r :: u8) = r" "unat (ucast (word_of_nat r :: u8) :: u16) = r"
    using r256 by (simp_all add: unat_of_nat_u8)
  have rn: "(ucast (word_of_nat r :: u8) :: u16) = word_of_nat r" using r256 ru(2) by (simp add: word_unat_eq_iff unat_of_nat_u16)
  have tree: "va_cur_tree (st_va st) \<noteq> None" using f by (simp add: rcrd_file_def)
  have find: "rcrd_find s res k = k ?f ti off (word_of_nat r)"
    if "st_fs s = st_fs st" "hdr_p1 (cmd_hdr (st_cmd s)) = p1" "hdr_p2 (cmd_hdr (st_cmd s)) = 4" for s res k
    using rcrd_find_at [of s p1 ti off _ res k, OF _ p1(1,2)] that tree fr rs by simp
  have ack: "acks H res0 tx ?cmd (st_fs st) (st_rc st) rc_zero (length data)"
    unfolding acks_def
  proof (intro allI impI)
    fix s assume w: "working SWICC_FSM_STATE_CMD_PROCEDURE 0 ?cmd (st_fs st) (st_rc st) s"
    then have s: "st_cmd s = ?cmd" "st_fs s = st_fs st" by (simp_all add: working_def)
    let ?s = "s\<lparr>st_rc := rc_zero\<rparr>" and ?a = "SWICC_APDUH_RES res0 SWICC_APDU_SW1_PROC_ACK_ALL 0 (ucast (word_of_nat r :: u8))"
    have "apduh_func 0xDC ?s res0 0 = Some (SWICC_RET_SUCCESS, ?s, ?a)"
      using s find [of ?s res0 "rcrd_update_found ?s res0 0"]
      by (simp add: apduh_func_def apduh_rcrd_update_def cmd_of_def rcrd_update_found_def Let_def)
    then have "swicc_apduh_demux H s res0 0 = Some (SWICC_RET_SUCCESS, ?s, ?a)"
      by (intro demux_func [OF w]) (simp_all add: cmd_of_def assms(4))
    then show "\<exists>s' ack. swicc_apduh_demux H s res0 0 = Some (SWICC_RET_SUCCESS, s', ack) \<and>
        res_sw1 ack = SWICC_APDU_SW1_PROC_ACK_ALL \<and> res_sw2 ack = 0 \<and> data_len (res_data ack) = word_of_nat (length data) \<and>
        length data \<le> SWICC_DATA_MAX \<and> length data < unat tx \<and> st_cmd s' = ?cmd \<and> st_fs s' = st_fs st \<and> st_rc s' = rc_zero"
      using data ru r256 assms(10) s by (simp add: status_wire rn)
  qed
  have "answers H res0 tx (cmd_with ?cmd data) (st_fs st) rc_zero [0x90, 0x00] ?fs' rc_zero"
  proof (rule answers_run)
    fix s assume "working SWICC_FSM_STATE_CMD_PROCEDURE 1 (cmd_with ?cmd data) (st_fs st) rc_zero s"
    then have s: "st_cmd s = cmd_with ?cmd data" "st_fs s = st_fs st" "st_rc s = rc_zero" by (simp_all add: working_def)
    have d: "rdn (data_b (cmd_data (st_cmd s))) 0 r = Some data" using s(1) data by (simp add: cmd_with_def rdn_def)
    have sel: "rcrd_select s 4 ?f (p1 - 1) = Some (True, s\<lparr>st_fs := select_rcrd (st_fs st) (p1 - 1)\<rparr>)"
      using select_rcrd_ok [of s r content] f s(2) by simp
    have "data_len (cmd_data (st_cmd s)) = ucast (word_of_nat r :: u8)"
      using s(1) data ru r256 by (simp add: cmd_with_def word_unat_eq_iff unat_of_nat_u16)
    then have "apduh_func 0xDC s res0 1 = Some (SWICC_RET_SUCCESS, s\<lparr>st_fs := ?fs'\<rparr>, SWICC_APDUH_RES res0 SWICC_APDU_SW1_NORM_NONE 0 0)"
      using s find [of s res0 "rcrd_update_found s res0 1"] d sel wr ru(1)
      by (simp add: apduh_func_def apduh_rcrd_update_def cmd_of_def cmd_with_def rcrd_update_found_def Let_def respond_def select_rcrd_def)
    then show "\<exists>s' res. apduh_func (hdr_ins (cmd_hdr (cmd_with ?cmd data))) s res0 1 = Some (SWICC_RET_SUCCESS, s', res) \<and>
        \<not> is_ack res \<and> res_wire (st_cmd s') res = Some [0x90, 0x00] \<and> res_room res \<le> unat tx \<and>
        unat (data_len (res_data res)) \<le> SWICC_DATA_MAX \<and> st_fs s' = ?fs' \<and> st_rc s' = rc_zero"
      using s(3) assms(10) by (simp add: cmd_of_def cmd_with_def status_wire)
  qed (simp_all add: cmd_of_def cmd_with_def assms(4))
  from exchange_run [OF assms(1) _ _ assms(2,3) ack this] data r256 up show ?thesis by auto
qed

text \<open>
  C15.  UPDATE RECORD by number with data of the record's length: the card acknowledges, takes the data,
  answers 9000 and is ready for the next command; the file then has the data in that record and is
  otherwise the same, every file that shares no byte with it reads as before, and of the selection only
  the current record changes.
\<close>

theorem update_record_exchange:
  assumes "pending [] st" and "unat tx \<le> length (st_buf_tx st)" and "data_ok (res_data res0)"
    and "cla_type (swicc_apdu_cmd_cla_parse c) = SWICC_APDU_CLA_TYPE_INTERINDUSTRY"
    and "rcrd_file (st_fs st) r content" and "0 < unat p1" and "unat p1 < 255" and "unat p1 \<le> length content div r"
    and "length data = r" and "r + 2 \<le> unat tx"
  shows "\<exists>st'. exchange H res0 tx [c, 0xDC, p1, 4, word_of_nat r] data st = Some ([0xDC], [0x90, 0x00], st') \<and>
    pending [] st' \<and> rcrd_updated (st_fs st) r content p1 data (st_fs st')"
  using update_record_run [OF assms] by blast

theorem update_record_exchange_witness:
  "\<exists>st'. exchange (\<lambda>_. apduh_unk) demo_res 64 [0x00, 0xDC, 1, 4, 3] [7, 8, 9] demo_rcrd = Some ([0xDC], [0x90, 0x00], st') \<and>
     rcrd_file (st_fs st') 3 [7, 8, 9, 4, 5, 6]"
  using update_record_exchange [OF demo_rcrd_facts(1) _ demo_bin_facts(5) cla_00 demo_rcrd_facts(3), of 64 1 "[7, 8, 9]" "\<lambda>_. apduh_unk"]
    demo_rcrd_facts(2)
  by (auto simp: rcrd_updated_def record_put_def)

text \<open>
  C5.  After a record has been updated, reading it gives back the data that was written, and reading any other
  record gives what that record held before.
\<close>

theorem update_then_read:
  assumes "pending [] st" and "unat tx \<le> length (st_buf_tx st)" and "data_ok (res_data res0)"
    and "cla_type (swicc_apdu_cmd_cla_parse c) = SWICC_APDU_CLA_TYPE_INTERINDUSTRY"
    and "rcrd_file (st_fs st) r content" and "0 < unat p1" and "unat p1 < 255" and "unat p1 \<le> length content div r"
    and "length data = r" and "r + 2 \<le> unat tx"
    and "0 < unat q1" and "unat q1 < 255" and "unat q1 \<le> length content div r"
  shows "\<exists>st1 st2. exchange H res0 tx [c, 0xDC, p1, 4, word_of_nat r] data st = Some ([0xDC], [0x90, 0x00], st1) \<and>
    exchange H res0 tx [c, 0xB2, q1, 4, word_of_nat r] [] st1 =
      Some ([0xB2], (if q1 = p1 then data else record_of r content (unat q1 - 1)) @ [0x90, 0x00], st2)"
proof -
  obtain st1 where st1: "exchange H res0 tx [c, 0xDC, p1, 4, word_of_nat r] data st = Some ([0xDC], [0x90, 0x00], st1)"
    "pending [] st1" "rcrd_updated (st_fs st) r content p1 data (st_fs st1)" "length (st_buf_tx st1) = length (st_buf_tx st)"
    using update_record_run [OF assms(1-10)] by blast
  let ?content = "record_put r content (unat p1 - 1) data"
  have "unat p1 - 1 < length content div r" using assms(6,8) by linarith
  note fits = record_in [OF this]
  have f1: "rcrd_file (st_fs st1) r ?content" using st1(3) by (simp add: rcrd_updated_def)
  have len: "length ?content = length content" by (rule record_put_length [OF fits assms(9)])
  have r: "unat (word_of_nat r :: u8) = r" using rcrd_size_byte [OF assms(5)] by (simp add: unat_of_nat_u8)
  have rec: "record_of r ?content (unat q1 - 1) = (if q1 = p1 then data else record_of r content (unat q1 - 1))"
  proof (cases "q1 = p1")
    case True
    then show ?thesis using record_put_same [OF fits assms(9)] by simp
  next
    case False
    then have "unat p1 \<noteq> unat q1" by (auto simp: word_unat_eq_iff)
    then have "unat p1 - 1 \<noteq> unat q1 - 1" using assms(6,11) by linarith
    then show ?thesis using record_put_other [OF fits assms(9)] False by simp
  qed
  obtain st2 where "exchange H res0 tx [c, 0xB2, q1, 4, word_of_nat r] [] st1 =
      Some ([0xB2], rcrd_answer r ?content (unat q1) (unat (word_of_nat r :: u8)), st2)"
    using read_record_run [OF st1(2) _ assms(3,4) f1 assms(11,12,10)] assms(2) st1(4) by auto
  moreover have "rcrd_answer r ?content (unat q1) (unat (word_of_nat r :: u8)) =
      (if q1 = p1 then data else record_of r content (unat q1 - 1)) @ [0x90, 0x00]"
    using assms(13) len r rec by (simp add: rcrd_answer_def)
  ultimately show ?thesis using st1(1) by auto
qed

theorem update_then_read_witness:
  "\<exists>st1 st2. exchange (\<lambda>_. apduh_unk) demo_res 64 [0x00, 0xDC, 1, 4, 3] [7, 8, 9] demo_rcrd = Some ([0xDC], [0x90, 0x00], st1) \<and>
     exchange (\<lambda>_. apduh_unk) demo_res 64 [0x00, 0xB2, 1, 4, 3] [] st1 = Some ([0xB2], [7, 8, 9, 0x90, 0x00], st2)"
  using update_then_read [OF demo_rcrd_facts(1) _ demo_bin_facts(5) cla_00 demo_rcrd_facts(3), of 64 1 "[7, 8, 9]" 1 "\<lambda>_. apduh_unk"]
    demo_rcrd_facts(2)
  by auto

end
