(* ===== verification/Swicc_Negotiation.thy ===== *)
theory Swicc_Negotiation
  imports Swicc_Exchange
begin

text \<open>
  The negotiation of the transmission parameters after the answer to reset: a PPS request that comes in
  pieces is answered and the parameters of the card are set.
\<close>

section \<open>Receiving the request\<close>

text \<open>The card has the first bytes \<open>g\<close> of a PPS request.\<close>

definition pps_got :: "bytes \<Rightarrow> swicc_st \<Rightarrow> bool" where
  "pps_got g st \<longleftrightarrow> card_wf st \<and> in_fsm_state (st_in st) = SWICC_FSM_STATE_PPS_REQ \<and>
     length g = unat (in_pps_len (st_in st)) \<and> take (length g) (in_pps (st_in st)) = g"

text \<open>What a step in the negotiation leaves alone.\<close>

definition nego_same :: "swicc_st \<Rightarrow> swicc_st \<Rightarrow> bool" where
  "nego_same st st' \<longleftrightarrow> st_fs st' = st_fs st \<and> st_rc st' = st_rc st \<and> length (st_buf_tx st') = length (st_buf_tx st) \<and>
     in_tpdu_hdr_len (st_in st') = in_tpdu_hdr_len (st_in st) \<and> in_procedure_count (st_in st') = in_procedure_count (st_in st)"

lemma nego_same_trans: "nego_same st st1 \<Longrightarrow> nego_same st1 st2 \<Longrightarrow> nego_same st st2"
  by (simp add: nego_same_def)

lemma pps_start:
  assumes wf: "card_wf st" "in_fsm_state (st_in st) = SWICC_FSM_STATE_ATR_RES" and tx: "unat tx \<le> length (st_buf_tx st)"
  shows "\<exists>st'. deliver H res0 tx [SWICC_PPS_PPSS] st = Some st' \<and> pps_got [SWICC_PPS_PPSS] st' \<and> nego_same st st' \<and>
    in_tp (st_in st') = in_tp (st_in st)"
proof -
  have l6: "length (in_pps (st_in st)) = SWICC_PPS_LEN_MAX" using wf(1) by (simp add: card_wf_def internal_wf_def)
  then obtain pps where pps: "wrn (in_pps (st_in st)) 0 [SWICC_PPS_PPSS] = Some pps" "take 1 pps = [SWICC_PPS_PPSS]"
    by (simp add: wrn_def)
  let ?st' = "set_lens (iface FSM_STATE_CONT_READY (rx_fill [SWICC_PPS_PPSS] st) 1 tx st
    \<lparr>st_in := (st_in st)\<lparr>in_pps := pps, in_pps_len := 1, in_fsm_state := SWICC_FSM_STATE_PPS_REQ\<rparr>\<rparr>) 0 0"
  have run: "deliver H res0 tx [SWICC_PPS_PPSS] st = Some ?st'"
    using wf(2) pps(1) by (simp add: deliver_def swicc_io_def swicc_fsm_def fsm_handle_s_atr_res_def Let_def rd_def rx_fill_def)
  have "card_wf ?st'" by (rule deliver_wf [OF wf(1) tx _ run]) simp
  then have "pps_got [SWICC_PPS_PPSS] ?st'" using pps(2) by (simp add: pps_got_def)
  then show ?thesis using run by (intro exI [of _ ?st']) (simp add: nego_same_def sent_def)
qed

text \<open>The length that the second byte announces.\<close>

lemma pps_req_len:
  assumes "length g \<ge> 2" and "take 2 g = [SWICC_PPS_PPSS, pps0]" and "length g \<le> 6"
  shows "swicc_pps_len (g @ rest) (word_of_nat (length g)) 0 =
    Some (SWICC_RET_SUCCESS, word_of_nat (length (pps_req pps0 pps1 pps2)))"
proof -
  obtain t where g: "g = SWICC_PPS_PPSS # pps0 # t" using assms(1,2) by (cases g; cases "tl g") auto
  have "\<not> (word_of_nat (length g) :: u8) < 2" using assms(1,3) by (simp add: word_less_nat_alt unat_of_nat_u8)
  then show ?thesis
    by (simp add: swicc_pps_len_def g rd_def pps_req_def pps_req_body_def u8_and_bits word_gt_0)
qed

text \<open>
  A request that starts with PPSS and has the length its second byte announces; nothing is said of the
  other bytes.
\<close>

definition pps_announced :: "bytes \<Rightarrow> bool" where
  "pps_announced r \<longleftrightarrow> 2 \<le> length r \<and> r ! 0 = SWICC_PPS_PPSS \<and> length r = length (pps_req (r ! 1) 0 0)"

lemma pps_announced_facts:
  assumes "pps_announced r"
  shows "take 2 r = [SWICC_PPS_PPSS, r ! 1]" "2 \<le> length r" "length r \<le> 6"
proof -
  have l: "2 \<le> length r" "r ! 0 = SWICC_PPS_PPSS" "length r = length (pps_req (r ! 1) 0 0)" using assms by (simp_all add: pps_announced_def)
  then obtain a b t where "r = a # b # t" by (cases r; cases "tl r") auto
  then show "take 2 r = [SWICC_PPS_PPSS, r ! 1]" using l(2) by simp
  show "2 \<le> length r" by (fact l(1))
  show "length r \<le> 6" using l(3) length_pps_req_body [of "r ! 1" 0 0] by (simp add: length_pps_req)
qed

lemma pps_req_announced: "pps_announced (pps_req a b c)"
  by (simp add: pps_announced_def pps_req_def pps_req_body_def)

text \<open>One more piece goes into the array.\<close>

lemma pps_store:
  assumes g: "pps_got g st" and c: "length (g @ c) \<le> SWICC_PPS_LEN_MAX"
  shows "\<exists>pps. wrn (in_pps (st_in st)) (unat (in_pps_len (st_in st))) c = Some pps \<and>
    take (length (g @ c)) pps = g @ c \<and> unat (word_of_nat (length c) :: u16) = length c \<and>
    in_pps_len (st_in st) + ucast (word_of_nat (length c) :: u16) = word_of_nat (length (g @ c)) \<and>
    unat (word_of_nat (length (g @ c)) :: u8) = length (g @ c)"
proof -
  have l6: "length (in_pps (st_in st)) = SWICC_PPS_LEN_MAX" and lg: "length g = unat (in_pps_len (st_in st))"
    and tg: "take (length g) (in_pps (st_in st)) = g"
    using g by (auto simp: pps_got_def card_wf_def internal_wf_def)
  obtain pps where w: "wrn (in_pps (st_in st)) (length g) c = Some pps" using wrn_ex [of "length g" c "in_pps (st_in st)"] c l6 by auto
  have "take (length (g @ c)) pps = g @ c" using w tg by (auto simp: wrn_def split: if_split_asm)
  moreover have n: "unat (word_of_nat (length c) :: u16) = length c" "unat (word_of_nat (length (g @ c)) :: u8) = length (g @ c)"
    using c by (intro unat_of_nat_u16 unat_of_nat_u8; simp)+
  moreover have "unat (in_pps_len (st_in st) + ucast (word_of_nat (length c) :: u16)) = length (g @ c)"
    using short_sum [of "word_of_nat (length c)" "in_pps_len (st_in st)"] n(1) lg c by (simp add: add.commute)
  then have "in_pps_len (st_in st) + ucast (word_of_nat (length c) :: u16) = word_of_nat (length (g @ c))"
    using n(2) by (simp only: word_unat_eq_iff)
  ultimately show ?thesis using w lg by simp
qed

lemma pps_more:
  assumes g: "pps_got g st" "g \<noteq> []" and tx: "unat tx \<le> length (st_buf_tx st)"
    and r: "r = (g @ c) @ d" "d \<noteq> []" "pps_announced r"
  shows "\<exists>st'. deliver H res0 tx c st = Some st' \<and> pps_got (g @ c) st' \<and> nego_same st st' \<and>
    in_tp (st_in st') = in_tp (st_in st)"
proof -
  define gc where "gc = g @ c"
  define n where "n = (word_of_nat (length gc) :: u8)"
  have lr: "length gc + length d = length r" using r(1) by (simp add: gc_def)
  note ann = pps_announced_facts [OF r(3)]
  have "0 < length d" using r(2) by simp
  then have "length gc \<le> 6" and lt: "length gc < length r" using lr ann(3) by linarith+
  then have le: "length (g @ c) \<le> SWICC_PPS_LEN_MAX" by (simp add: gc_def)
  obtain pps where pps: "wrn (in_pps (st_in st)) (unat (in_pps_len (st_in st))) c = Some pps" "take (length gc) pps = gc"
    "unat (word_of_nat (length c) :: u16) = length c" "in_pps_len (st_in st) + ucast (word_of_nat (length c) :: u16) = n"
    "unat n = length gc"
    using pps_store [OF g(1) le] unfolding gc_def n_def by blast
  have st: "card_wf st" "in_fsm_state (st_in st) = SWICC_FSM_STATE_PPS_REQ" "length g = unat (in_pps_len (st_in st))"
    using g(1) by (simp_all add: pps_got_def)
  define l where "l = (if n < 2 then 2 - ucast n else ucast (word_of_nat (length r) - n) :: u16)"
  let ?st' = "set_lens (iface FSM_STATE_CONT_READY (rx_fill c st) (word_of_nat (length c)) tx st
    \<lparr>st_in := (st_in st)\<lparr>in_pps := pps, in_pps_len := n\<rparr>\<rparr>) l 0"
  have guard: "unat (in_pps_len (st_in st)) + length c \<le> SWICC_PPS_LEN_MAX" using le st(3) by simp
  have run: "deliver H res0 tx c st = Some ?st'"
  proof (cases "n < 2")
    case True
    then show ?thesis
      using st(2) pps guard by (simp add: deliver_def swicc_io_def swicc_fsm_def fsm_handle_s_pps_req_def Let_def rdn_def rx_fill_def l_def)
  next
    case False
    then have two: "2 \<le> length gc" using pps(5) by (simp add: word_less_nat_alt)
    have "take 2 gc = take 2 r" using r(1) two by (simp add: gc_def)
    then have "take 2 gc = [SWICC_PPS_PPSS, r ! 1]" using ann(1) by simp
    from pps_req_len [OF two this, of "drop (length gc) pps" 0 0] le pps(2) r(3)
    have exp: "swicc_pps_len pps n 0 = Some (SWICC_RET_SUCCESS, word_of_nat (length r))"
      by (metis append_take_drop_id gc_def n_def pps_announced_def)
    have "unat (word_of_nat (length r) :: u8) = length r"
      using ann(3) by (intro unat_of_nat_u8) simp
    then have "n < word_of_nat (length r)" "n \<noteq> word_of_nat (length r)"
      using lt pps(5) by (auto simp: word_less_nat_alt)
    then show ?thesis
      using st(2) pps guard exp False
      by (simp add: deliver_def swicc_io_def swicc_fsm_def fsm_handle_s_pps_req_def Let_def rdn_def rx_fill_def l_def)
  qed
  have "card_wf ?st'" by (rule deliver_wf [OF st(1) tx _ run]) (use le in simp)
  then have "pps_got gc ?st'" using st(2) pps(2,5) by (simp add: pps_got_def)
  then show ?thesis using run by (intro exI [of _ ?st']) (simp add: nego_same_def gc_def)
qed

text \<open>With the last piece the whole request is handled.\<close>

lemma pps_last:
  assumes g: "pps_got g st" and r: "r = g @ c" "pps_announced r"
  shows "\<exists>pps. take (length r) pps = r \<and>
    deliver H res0 tx c st = pps_req_complete ((iface FSM_STATE_CONT_READY (rx_fill c st) (word_of_nat (length c)) tx st)
      \<lparr>st_in := (st_in st)\<lparr>in_pps := pps, in_pps_len := word_of_nat (length r)\<rparr>\<rparr>)"
proof -
  note ann = pps_announced_facts [OF r(2)]
  define n where "n = (word_of_nat (length r) :: u8)"
  have le: "length (g @ c) \<le> SWICC_PPS_LEN_MAX" using ann(3) r(1) by simp
  obtain pps where pps: "wrn (in_pps (st_in st)) (unat (in_pps_len (st_in st))) c = Some pps" "take (length r) pps = r"
    "unat (word_of_nat (length c) :: u16) = length c" "in_pps_len (st_in st) + ucast (word_of_nat (length c) :: u16) = n"
    "unat n = length r"
    using pps_store [OF g le] unfolding n_def r(1) by blast
  have st: "in_fsm_state (st_in st) = SWICC_FSM_STATE_PPS_REQ" "length g = unat (in_pps_len (st_in st))"
    using g by (simp_all add: pps_got_def)
  have split: "pps = r @ drop (length r) pps" using pps(2) by (metis append_take_drop_id)
  have n2: "\<not> n < 2" using pps(5) ann(2) by (simp add: word_less_nat_alt)
  from pps_req_len [OF ann(2,1,3), of "drop (length r) pps" 0 0] split r(2)
  have exp: "swicc_pps_len pps n 0 = Some (SWICC_RET_SUCCESS, n)" by (metis n_def pps_announced_def)
  have guard: "unat (in_pps_len (st_in st)) + length c \<le> SWICC_PPS_LEN_MAX" using le st(2) by simp
  have "deliver H res0 tx c st = pps_req_complete ((iface FSM_STATE_CONT_READY (rx_fill c st) (word_of_nat (length c)) tx st)
      \<lparr>st_in := (st_in st)\<lparr>in_pps := pps, in_pps_len := n\<rparr>\<rparr>)"
    using st(1) pps(1,3,4) guard exp n2
    by (simp add: deliver_def swicc_io_def swicc_fsm_def fsm_handle_s_pps_req_def Let_def rdn_def rx_fill_def)
  then show ?thesis using pps(2) n_def by blast
qed

text \<open>All pieces but the last one are stored.\<close>

lemma pps_pieces:
  assumes "pps_got g st" "g \<noteq> []" "unat tx \<le> length (st_buf_tx st)"
    and "r = g @ concat cs" "pps_announced r" "cs \<noteq> []" "last cs \<noteq> []"
  shows "\<exists>g' c st1. deliver_all H res0 tx cs st = deliver H res0 tx c st1 \<and> pps_got g' st1 \<and> r = g' @ c \<and>
    nego_same st st1 \<and> in_tp (st_in st1) = in_tp (st_in st)"
  using assms
proof (induction cs arbitrary: g st)
  case (Cons c cs)
  show ?case
  proof (cases "cs = []")
    case True
    then have "deliver_all H res0 tx (c # cs) st = deliver H res0 tx c st" "r = g @ c"
      using Cons.prems(4) by (cases "deliver H res0 tx c st"; simp)+
    then show ?thesis using Cons.prems(1) by (intro exI [of _ g] exI [of _ c] exI [of _ st]) (simp add: nego_same_def)
  next
    case False
    then have last: "last cs \<noteq> []" "last cs \<in> set cs" using Cons.prems(7) by simp_all
    then have ne: "concat cs \<noteq> []" by auto
    have r: "r = (g @ c) @ concat cs" using Cons.prems(4) by simp
    obtain st1 where st1: "deliver H res0 tx c st = Some st1" "pps_got (g @ c) st1" "nego_same st st1"
      "in_tp (st_in st1) = in_tp (st_in st)"
      using pps_more [OF Cons.prems(1-3) r ne Cons.prems(5)] by blast
    have "unat tx \<le> length (st_buf_tx st1)" "g @ c \<noteq> []" using st1(3) Cons.prems(2,3) by (simp_all add: nego_same_def)
    from Cons.IH [OF st1(2) this(2,1) r Cons.prems(5) False last(1)]
    obtain g' c' st2 where "deliver_all H res0 tx cs st1 = deliver H res0 tx c' st2" "pps_got g' st2" "r = g' @ c'"
      "nego_same st1 st2" "in_tp (st_in st2) = in_tp (st_in st1)" by blast
    then show ?thesis using st1(1,4) nego_same_trans [OF st1(3)] by (intro exI [of _ g'] exI [of _ c'] exI [of _ st2]) simp
  qed
qed simp

section \<open>The answer\<close>

text \<open>The parameters that are requested, on top of the default ones, and what the tables make of them.\<close>

definition pps_wanted :: "u8 \<Rightarrow> u8 \<Rightarrow> u8 \<Rightarrow> swicc_pps_params" where
  "pps_wanted pps0 pps1 pps2 = pps_taken pps0 pps1 pps2
     \<lparr>pps_t = 0, pps_fi_idx = SWICC_TP_CONF_DEFAULT, pps_di_idx = SWICC_TP_CONF_DEFAULT, pps_spu = 0\<rparr>"

definition tp_of :: "swicc_pps_params \<Rightarrow> swicc_tp" where
  "tp_of p = \<lparr>tp_etu = 0, tp_fi = swicc_io_fi ! unat (pps_fi_idx p), tp_fmax = swicc_io_fmax ! unat (pps_fi_idx p),
     tp_di = swicc_io_di ! unat (pps_di_idx p)\<rparr>"

definition tp_supported :: "swicc_pps_params \<Rightarrow> bool" where
  "tp_supported p \<longleftrightarrow> swicc_io_fmax ! unat (pps_fi_idx p) \<noteq> 0 \<and> swicc_io_di ! unat (pps_di_idx p) \<noteq> 0"

lemma wanted_indices: "unat (pps_fi_idx (pps_wanted pps0 pps1 pps2)) < 16" "unat (pps_di_idx (pps_wanted pps0 pps1 pps2)) < 16"
proof -
  have t: "unat (take_bit 4 x) < 16" and d: "unat (drop_bit 4 x) < 16" for x :: u8
  proof -
    show "unat (take_bit 4 x) < 16" 
      using take_bit_nat_less_exp [of 4 "unat x"] by (simp only: unsigned_take_bit_eq) simp
    have "unat x div 16 < 16" by (rule less_mult_imp_div_less) simp
    then show "unat (drop_bit 4 x) < 16" by (simp add: drop_bit_eq_div unat_div)
  qed
  show "unat (pps_fi_idx (pps_wanted pps0 pps1 pps2)) < 16" using t by (simp add: pps_wanted_def pps_taken_eq)
  show "unat (pps_di_idx (pps_wanted pps0 pps1 pps2)) < 16" using d by (simp add: pps_wanted_def pps_taken_eq)
qed

text \<open>Any piece that ends the request; the parameters asked for start from the default ones.\<close>

abbreviation pps_default :: swicc_pps_params where
  "pps_default \<equiv> \<lparr>pps_t = 0, pps_fi_idx = SWICC_TP_CONF_DEFAULT, pps_di_idx = SWICC_TP_CONF_DEFAULT, pps_spu = 0\<rparr>"

lemma pps_answer:
  assumes g: "pps_got g st" and tx: "unat tx \<le> length (st_buf_tx st)" and r: "r = g @ c" "pps_announced r"
    and sw: "\<And>rest. \<exists>p. swicc_pps pps_default (r @ rest) (word_of_nat (length r)) (st_buf_tx st) tx = Some (ret, p, tx', n')"
    and ret: "ret = SWICC_RET_PPS_FAILED \<and> n = n' \<or> ret = SWICC_RET_PPS_INVALID \<and> n = 0"
    and l: "length tx' = length (st_buf_tx st)"
  shows "\<exists>st'. deliver H res0 tx c st = Some st' \<and> card_wf st' \<and> in_fsm_state (st_in st') = SWICC_FSM_STATE_ATR_RES \<and>
    nego_same st st' \<and> in_tp (st_in st') = in_tp (st_in st) \<and> sent st' = take (unat n) tx'"
proof -
  note ann = pps_announced_facts [OF r(2)]
  obtain pps where pps: "take (length r) pps = r" "deliver H res0 tx c st =
      pps_req_complete ((iface FSM_STATE_CONT_READY (rx_fill c st) (word_of_nat (length c)) tx st)
      \<lparr>st_in := (st_in st)\<lparr>in_pps := pps, in_pps_len := word_of_nat (length r)\<rparr>\<rparr>)"
    using pps_last [OF g r] by blast
  have split: "pps = r @ drop (length r) pps" using pps(1) by (metis append_take_drop_id)
  have n16: "(ucast (word_of_nat (length r) :: u8) :: u16) = word_of_nat (length r)"
    using ann(3) by (simp add: word_unat_eq_iff unat_of_nat_u16 unat_of_nat_u8 unsigned_ucast_eq take_bit_eq_mod unat_of_nat)
  obtain p where sw': "swicc_pps pps_default pps (ucast (word_of_nat (length r) :: u8)) (st_buf_tx st) tx = Some (ret, p, tx', n')"
    using sw [of "drop (length r) pps"] split n16 by auto
  let ?st' = "(iface FSM_STATE_CONT_READY (rx_fill c st) (word_of_nat (length c)) tx st)
    \<lparr>st_buf_tx := tx', st_buf_tx_len := n, st_buf_rx_len := 1,
     st_in := (st_in st)\<lparr>in_pps := pps, in_pps_len := word_of_nat (length r), in_fsm_state := SWICC_FSM_STATE_ATR_RES\<rparr>\<rparr>"
  have run: "deliver H res0 tx c st = Some ?st'"
    unfolding pps(2) using ret sw'
    by (elim disjE conjE) (simp_all add: pps_req_complete_def Let_def set_lens_def set_state_def)
  have st: "card_wf st" using g by (simp add: pps_got_def)
  have "card_wf ?st'" by (rule deliver_wf [OF st tx _ run]) (use ann(3) r(1) in simp)
  moreover have "nego_same st ?st'" using l by (simp add: nego_same_def)
  ultimately show ?thesis using run by (intro exI [of _ ?st']) (simp add: sent_def)
qed

text \<open>A well-formed request for supported parameters that does not spell out the default PPS1 is echoed.\<close>

lemma pps_done:
  assumes g: "pps_got g st" and tx: "unat tx \<le> length (st_buf_tx st)" "SWICC_PPS_LEN_MAX \<le> unat tx"
    and r: "pps_req pps0 pps1 pps2 = g @ c" and ok: "\<not> bit pps0 7" "\<not> (bit pps0 4 \<and> pps1 = 0x11)"
    and sup: "tp_supported (pps_wanted pps0 pps1 pps2)"
  shows "\<exists>st'. deliver H res0 tx c st = Some st' \<and> card_wf st' \<and> in_fsm_state (st_in st') = SWICC_FSM_STATE_CMD_WAIT \<and>
    \<not> in_tpdu_processed (st_in st') \<and> nego_same st st' \<and> sent st' = pps_req pps0 pps1 pps2 \<and>
    in_tp (st_in st') = tp_of (pps_wanted pps0 pps1 pps2)"
proof -
  let ?r = "pps_req pps0 pps1 pps2" and ?p = "pps_wanted pps0 pps1 pps2"
  have r6: "length ?r \<le> 6" using length_pps_req_body [of pps0 pps1 pps2] by (simp add: length_pps_req)
  define n where "n = (word_of_nat (length ?r) :: u8)"
  obtain pps where pps: "take (length ?r) pps = ?r" "deliver H res0 tx c st =
      pps_req_complete ((iface FSM_STATE_CONT_READY (rx_fill c st) (word_of_nat (length c)) tx st)
      \<lparr>st_in := (st_in st)\<lparr>in_pps := pps, in_pps_len := n\<rparr>\<rparr>)"
    using pps_last [OF g r pps_req_announced] unfolding n_def by blast
  have split: "pps = ?r @ drop (length ?r) pps" using pps(1) by (metis append_take_drop_id)
  have n16: "(ucast n :: u16) = word_of_nat (length ?r)"
    using r6 unfolding n_def by (simp add: word_unat_eq_iff unat_of_nat_u16 unat_of_nat_u8 unsigned_ucast_eq take_bit_eq_mod unat_of_nat)
  have room: "tx_room (st_buf_tx st) tx" using tx by (simp add: tx_room_def)
  let ?tx' = "?r @ drop (length ?r) (st_buf_tx st)"
  have sw: "swicc_pps pps_default pps (ucast n) (st_buf_tx st) tx = Some (SWICC_RET_SUCCESS, ?p, ?tx', word_of_nat (length ?r))"
    using pps_accepts [OF ok room, of _ pps2 "drop (length ?r) pps"] split n16 by (simp add: pps_wanted_def)
  have tab: "rd swicc_io_di (unat (pps_di_idx ?p)) = Some (tp_di (tp_of ?p))"
    "rd swicc_io_fi (unat (pps_fi_idx ?p)) = Some (tp_fi (tp_of ?p))"
    "rd swicc_io_fmax (unat (pps_fi_idx ?p)) = Some (tp_fmax (tp_of ?p))"
    "swicc_etu (tp_fi (tp_of ?p)) (tp_di (tp_of ?p)) (tp_fmax (tp_of ?p)) = Some (tp_etu (tp_of ?p))"
    using wanted_indices [of pps0 pps1 pps2] etu_tables [OF wanted_indices] sup by (simp_all add: rd_def tp_of_def tp_supported_def)
  let ?i = "(st_in st)\<lparr>in_pps := pps, in_pps_len := n, in_fsm_state := SWICC_FSM_STATE_CMD_WAIT, in_tp := tp_of ?p, in_tpdu_processed := False\<rparr>"
  let ?st' = "(iface FSM_STATE_CONT_READY (rx_fill c st) (word_of_nat (length c)) tx st)
    \<lparr>st_buf_tx := ?tx', st_buf_tx_len := word_of_nat (length ?r), st_buf_rx_len := 0, st_in := ?i\<rparr>"
  have run: "deliver H res0 tx c st = Some ?st'"
    unfolding pps(2) using sw tab by (simp add: pps_req_complete_def Let_def tp_of_def)
  have st: "card_wf st" using g by (simp add: pps_got_def)
  have "card_wf ?st'" by (rule deliver_wf [OF st tx(1) _ run]) (use r6 r in simp)
  moreover have "sent ?st' = ?r" using r6 by (simp add: sent_def unat_of_nat_u16)
  moreover have "nego_same st ?st'" using r6 tx by (simp add: nego_same_def)
  ultimately show ?thesis using run by (intro exI [of _ ?st']) simp
qed

text \<open>One that spells out the default PPS1 is answered without PPS1, which ends the exchange without success.\<close>

lemma pps_default_pps1:
  assumes "\<not> bit pps0 7" "bit pps0 4" and room: "tx_room tx tx_len"
  shows "\<exists>p'. swicc_pps p (pps_req pps0 0x11 pps2 @ rest) (word_of_nat (length (pps_req pps0 0x11 pps2))) tx tx_len =
    Some (SWICC_RET_PPS_FAILED, p', pps_req (pps0 AND 0xEF) 0 pps2 @ drop (length (pps_req (pps0 AND 0xEF) 0 pps2)) tx,
      word_of_nat (length (pps_req (pps0 AND 0xEF) 0 pps2)))"
proof -
  let ?r = "pps_req pps0 0x11 pps2" and ?a = "pps_req (pps0 AND 0xEF) 0 pps2" and ?b = "pps_req_body (pps0 AND 0xEF) 0 pps2"
  have body: "pps_body (pps_taken pps0 0x11 pps2 p) pps0 = Some ?b"
    using assms(2) by (auto simp: pps_body_def pps_taken_eq pps_req_body_def u8_and_bits bits_and_ef)
  have len: "length ?b \<le> 4" "length ?r = length ?a + 1" "length ?a = length ?b + 1" "length ?r \<le> 6"
    using assms(2) length_pps_req_body [of pps0 "0x11" pps2] by (auto simp: pps_req_def pps_req_body_def u8_and_bits bits_and_ef)
  have ck: "swicc_ck ?b (word_of_nat (length ?b)) = Some (xor_all ?b)"
    using swicc_ck_list [of ?b "[]"] len by simp
  have "length ?b + 1 \<le> length tx" "\<not> unat tx_len < length ?b" using room len by (simp_all add: tx_room_def)
  then have dep: "pps_deparse (pps_taken pps0 0x11 pps2 p) pps0 tx tx_len =
      Some (SWICC_RET_SUCCESS, ?a @ drop (length ?a) tx, word_of_nat (length ?a))"
    using body ck by (simp add: pps_deparse_def wrn_ok pps_req_def)
  have "unat (word_of_nat (length ?a) :: u16) = length ?a" "unat (word_of_nat (length ?r) :: u16) = length ?r"
    by (rule unat_of_nat_u16, use len in linarith)+
  then have ne: "(word_of_nat (length ?a) :: u16) \<noteq> word_of_nat (length ?r)" using len(2) by (metis n_not_Suc_n Suc_eq_plus1)
  have "rd (?r @ rest) 1 = Some pps0" by (simp add: pps_req_def pps_req_body_def rd_def)
  then show ?thesis
    using dep ne pps_parse_req [OF assms(1), of p "0x11" pps2 rest] by (simp add: swicc_pps_def pps_xchg_success_def)
qed

text \<open>Every other request of the announced length is invalid and not answered.\<close>

definition pps_well_formed :: "bytes \<Rightarrow> bool" where
  "pps_well_formed r \<longleftrightarrow> (\<exists>pps0 pps1 pps2. r = pps_req pps0 pps1 pps2 \<and> \<not> bit pps0 7)"

lemma pps_shape:
  assumes "pps_announced r"
  shows "\<exists>l1 l2 l3 ck. r = [SWICC_PPS_PPSS, r ! 1] @ (if bit (r ! 1) 4 then [l1] else []) @ (if bit (r ! 1) 5 then [l2] else [])
    @ (if bit (r ! 1) 6 then [l3] else []) @ [ck]"
proof -
  define a where "a = r ! 1"
  obtain t where r: "r = SWICC_PPS_PPSS # a # t"
    using assms unfolding pps_announced_def a_def by (cases r; cases "tl r") auto
  have "length t = 1 + (if bit a 4 then 1 else 0) + (if bit a 5 then 1 else 0) + (if bit a 6 then 1 else 0)"
    using assms r by (simp add: pps_announced_def pps_req_def pps_req_body_def u8_and_bits)
  then have "\<exists>l1 l2 l3 ck. t = (if bit a 4 then [l1] else []) @ (if bit a 5 then [l2] else []) @ (if bit a 6 then [l3] else []) @ [ck]"
    by (cases "bit a 4"; cases "bit a 5"; cases "bit a 6") (auto simp: length_Suc_conv numeral_2_eq_2 numeral_3_eq_3 eval_nat_numeral)
  then show ?thesis unfolding a_def [symmetric] using r by simp
qed

lemma pps_parse_malformed:
  assumes "pps_announced r" and "\<not> pps_well_formed r"
  shows "\<exists>p'. pps_parse p (r @ rest) (word_of_nat (length r)) = Some (SWICC_RET_PPS_INVALID, p')"
proof -
  note ann = pps_announced_facts [OF assms(1)]
  define a where "a = r ! 1"
  obtain l1 l2 l3 ck where r: "r = [SWICC_PPS_PPSS, a] @ (if bit a 4 then [l1] else []) @ (if bit a 5 then [l2] else [])
      @ (if bit a 6 then [l3] else []) @ [ck]"
    using pps_shape [OF assms(1)] unfolding a_def by blast
  define N :: u16 where "N = word_of_nat (length r)"
  have n: "unat N = length r" unfolding N_def by (rule unat_of_nat_u16) (use ann(3) in simp)
  have l: "length r \<le> 6" "2 \<le> length r" using ann by simp_all
  have hd: "rd (r @ rest) 0 = Some 0xFF" "rd (r @ rest) (Suc 0) = Some a" unfolding r by (simp_all add: rd_def)
  have xo: "swicc_ck (r @ rest) N = Some (xor_all r)" using swicc_ck_eq [of N "r @ rest"] by (simp add: n)
  show ?thesis
  proof (cases "xor_all r = 0 \<and> \<not> bit a 7")
    case False
    then show ?thesis
      unfolding N_def [symmetric] using l by (auto simp: pps_parse_def n hd xo u8_and_bits)
  next
    case True
    have "\<not> (bit a 6 \<longrightarrow> l3 = 0)"
    proof
      assume z: "bit a 6 \<longrightarrow> l3 = 0"
      then have b: "r = pps_req_body a l1 l2 @ [ck]" by (subst r) (simp add: pps_req_body_def u8_and_bits)
      then have "xor_all (pps_req_body a l1 l2) XOR ck = 0" using True by simp
      then have "ck = xor_all (pps_req_body a l1 l2)" by (metis xor_self_eq xor.left_commute xor.right_neutral)
      then have "r = pps_req a l1 l2" using b by (simp add: pps_req_def)
      then show False using assms(2) True by (auto simp: pps_well_formed_def)
    qed
    then have "\<exists>p'. pps_parse_loop 3 1 0x10 2 a (r @ rest) (length r) p = Some (SWICC_RET_PPS_INVALID, p')"
      by (subst (1 2) r) (cases "bit a 4"; cases "bit a 5"; simp add: numeral_3_eq_3 u8_and_bits rd_def nth_append)
    then show ?thesis
      unfolding N_def [symmetric] using l True by (auto simp: pps_parse_def n hd xo u8_and_bits)
  qed
qed

lemma pps_malformed:
  assumes "pps_announced r" and "\<not> pps_well_formed r"
  shows "\<exists>p'. swicc_pps p (r @ rest) (word_of_nat (length r)) tx tx_len = Some (SWICC_RET_PPS_INVALID, p', tx, tx_len)"
  using pps_parse_malformed [OF assms, of p rest] by (auto simp: swicc_pps_def)

lemma pps_silent:
  assumes g: "pps_got g st" and tx: "unat tx \<le> length (st_buf_tx st)" and r: "r = g @ c" "pps_announced r"
    and bad: "\<not> pps_well_formed r"
  shows "\<exists>st'. deliver H res0 tx c st = Some st' \<and> card_wf st' \<and> in_fsm_state (st_in st') = SWICC_FSM_STATE_ATR_RES \<and>
    nego_same st st' \<and> in_tp (st_in st') = in_tp (st_in st) \<and> sent st' = []"
  using pps_answer [OF g tx r pps_malformed [OF r(2) bad], of 0] by simp

lemma pps_refused:
  assumes g: "pps_got g st" and tx: "unat tx \<le> length (st_buf_tx st)" "SWICC_PPS_LEN_MAX \<le> unat tx"
    and r: "pps_req pps0 0x11 pps2 = g @ c" and d: "\<not> bit pps0 7" "bit pps0 4"
  shows "\<exists>st'. deliver H res0 tx c st = Some st' \<and> card_wf st' \<and> in_fsm_state (st_in st') = SWICC_FSM_STATE_ATR_RES \<and>
    nego_same st st' \<and> in_tp (st_in st') = in_tp (st_in st) \<and> sent st' = pps_req (pps0 AND 0xEF) 0 pps2"
proof -
  let ?a = "pps_req (pps0 AND 0xEF) 0 pps2"
  have room: "tx_room (st_buf_tx st) tx" using tx by (simp add: tx_room_def)
  have la: "length ?a \<le> 6" using length_pps_req_body [of "pps0 AND 0xEF" 0 pps2] by (simp add: length_pps_req)
  have l: "length (?a @ drop (length ?a) (st_buf_tx st)) = length (st_buf_tx st)" using la tx by simp
  have "unat (word_of_nat (length ?a) :: u16) = length ?a" by (rule unat_of_nat_u16) (use la in simp)
  then show ?thesis
    using pps_answer [OF g tx(1) r pps_req_announced pps_default_pps1 [OF d room] _ l, of "word_of_nat (length ?a)"] by simp
qed

text \<open>The request as a whole.\<close>

lemma pps_received:
  assumes "card_wf st" and "in_fsm_state (st_in st) = SWICC_FSM_STATE_ATR_RES" and tx: "unat tx \<le> length (st_buf_tx st)"
    and ann: "pps_announced r" and cs: "concat cs = tl r" "last cs \<noteq> []"
  shows "\<exists>g c st2. deliver_all H res0 tx ([SWICC_PPS_PPSS] # cs) st = deliver H res0 tx c st2 \<and> pps_got g st2 \<and> r = g @ c \<and>
    nego_same st st2 \<and> in_tp (st_in st2) = in_tp (st_in st) \<and> unat tx \<le> length (st_buf_tx st2)"
proof -
  obtain st1 where st1: "deliver H res0 tx [SWICC_PPS_PPSS] st = Some st1" "pps_got [SWICC_PPS_PPSS] st1" "nego_same st st1"
    "in_tp (st_in st1) = in_tp (st_in st)"
    using pps_start [OF assms(1-3)] by blast
  have "2 \<le> length r" "r ! 0 = SWICC_PPS_PPSS" using ann by (simp_all add: pps_announced_def)
  then have r: "r = [SWICC_PPS_PPSS] @ concat cs" "concat cs \<noteq> []" using cs(1) by (cases r; cases "tl r"; simp)+
  then have "cs \<noteq> []" by auto
  moreover have room1: "unat tx \<le> length (st_buf_tx st1)" using st1(3) tx by (simp add: nego_same_def)
  ultimately obtain g c st2 where st2: "deliver_all H res0 tx cs st1 = deliver H res0 tx c st2" "pps_got g st2" "r = g @ c"
    "nego_same st1 st2" "in_tp (st_in st2) = in_tp (st_in st1)"
    using pps_pieces [OF st1(2) _ room1 r(1) ann _ cs(2), of H res0] by blast
  have "nego_same st st2" by (rule nego_same_trans [OF st1(3) st2(4)])
  moreover from this have "unat tx \<le> length (st_buf_tx st2)" using tx by (simp add: nego_same_def)
  ultimately show ?thesis
    using st1(1,4) st2 by (intro exI [of _ g] exI [of _ c] exI [of _ st2]) simp
qed

text \<open>
  C18.  A PPS request that comes in after the answer to reset, the byte FF first and the rest in any
  pieces, as many bytes as its second byte announces.  A well-formed request without the default PPS1 value
  and for supported parameters is answered with its own bytes and the parameters it asks for are in force,
  with the halves of PPS1 exchanged; when no header bytes were left over, the card waits for the first
  command.  A well-formed request that spells out the default PPS1 is answered without PPS1, and one that is
  not well-formed (reserved bit of PPS0 set, PPS3 not zero or wrong check byte) is not answered at all; in
  both cases the parameters stay as they are and the card waits for another request.
\<close>

theorem pps_exchange:
  assumes "card_wf st" and "in_fsm_state (st_in st) = SWICC_FSM_STATE_ATR_RES"
    and "unat tx \<le> length (st_buf_tx st)" and "SWICC_PPS_LEN_MAX \<le> unat tx"
    and "pps_announced r" and "concat cs = tl r" and "last cs \<noteq> []"
  shows "(\<forall>pps0 pps1 pps2. r = pps_req pps0 pps1 pps2 \<and> \<not> bit pps0 7 \<and> \<not> (bit pps0 4 \<and> pps1 = 0x11) \<and>
        tp_supported (pps_wanted pps0 pps1 pps2) \<longrightarrow>
      (\<exists>st'. deliver_all H res0 tx ([SWICC_PPS_PPSS] # cs) st = Some st' \<and> sent st' = r \<and>
        in_tp (st_in st') = tp_of (pps_wanted pps0 pps1 pps2) \<and> st_fs st' = st_fs st \<and>
        (in_tpdu_hdr_len (st_in st) = 0 \<and> in_procedure_count (st_in st) = 0 \<longrightarrow> pending [] st'))) \<and>
    (\<forall>pps0 pps2. r = pps_req pps0 0x11 pps2 \<and> \<not> bit pps0 7 \<and> bit pps0 4 \<longrightarrow>
      (\<exists>st'. deliver_all H res0 tx ([SWICC_PPS_PPSS] # cs) st = Some st' \<and> sent st' = pps_req (pps0 AND 0xEF) 0 pps2 \<and>
        in_tp (st_in st') = in_tp (st_in st) \<and> st_fs st' = st_fs st \<and>
        card_wf st' \<and> in_fsm_state (st_in st') = SWICC_FSM_STATE_ATR_RES)) \<and>
    (\<not> pps_well_formed r \<longrightarrow>
      (\<exists>st'. deliver_all H res0 tx ([SWICC_PPS_PPSS] # cs) st = Some st' \<and> sent st' = [] \<and>
        in_tp (st_in st') = in_tp (st_in st) \<and> st_fs st' = st_fs st \<and>
        card_wf st' \<and> in_fsm_state (st_in st') = SWICC_FSM_STATE_ATR_RES))"
proof -
  obtain g c st2 where run: "deliver_all H res0 tx ([SWICC_PPS_PPSS] # cs) st = deliver H res0 tx c st2"
    and g: "pps_got g st2" "r = g @ c" and same: "nego_same st st2" "in_tp (st_in st2) = in_tp (st_in st)"
    and room: "unat tx \<le> length (st_buf_tx st2)"
    using pps_received [OF assms(1-3,5-7), of H res0] by blast
  have fs: "st_fs st2 = st_fs st" using same(1) by (simp add: nego_same_def)
  have 1: "\<exists>st'. deliver H res0 tx c st2 = Some st' \<and> sent st' = r \<and>
        in_tp (st_in st') = tp_of (pps_wanted pps0 pps1 pps2) \<and> st_fs st' = st_fs st \<and>
        (in_tpdu_hdr_len (st_in st) = 0 \<and> in_procedure_count (st_in st) = 0 \<longrightarrow> pending [] st')"
    if "r = pps_req pps0 pps1 pps2" "\<not> bit pps0 7" "\<not> (bit pps0 4 \<and> pps1 = 0x11)" "tp_supported (pps_wanted pps0 pps1 pps2)"
    for pps0 pps1 pps2
  proof -
    have req: "pps_req pps0 pps1 pps2 = g @ c" using that(1) g(2) by simp
    obtain st' where st': "deliver H res0 tx c st2 = Some st'" "card_wf st'" "in_fsm_state (st_in st') = SWICC_FSM_STATE_CMD_WAIT"
      "\<not> in_tpdu_processed (st_in st')" "nego_same st2 st'" "sent st' = pps_req pps0 pps1 pps2"
      "in_tp (st_in st') = tp_of (pps_wanted pps0 pps1 pps2)"
      using pps_done [OF g(1) room assms(4) req \<open>\<not> bit pps0 7\<close> \<open>\<not> (bit pps0 4 \<and> pps1 = 0x11)\<close> \<open>tp_supported (pps_wanted pps0 pps1 pps2)\<close>] by blast
    have "nego_same st st'" by (rule nego_same_trans [OF same(1) st'(5)])
    then show ?thesis using st' req g(2) by (intro exI [of _ st']) (auto simp: pending_def clear_id nego_same_def Let_def)
  qed
  have 2: "\<exists>st'. deliver H res0 tx c st2 = Some st' \<and> sent st' = pps_req (pps0 AND 0xEF) 0 pps2 \<and>
        in_tp (st_in st') = in_tp (st_in st) \<and> st_fs st' = st_fs st \<and> card_wf st' \<and> in_fsm_state (st_in st') = SWICC_FSM_STATE_ATR_RES"
    if "r = pps_req pps0 0x11 pps2" "\<not> bit pps0 7" "bit pps0 4" for pps0 pps2
    using pps_refused [OF g(1) room assms(4) trans [OF sym [OF that(1)] g(2)] that(2,3), of H res0] same fs
    by (auto simp: nego_same_def)
  have 3: "\<exists>st'. deliver H res0 tx c st2 = Some st' \<and> sent st' = [] \<and>
        in_tp (st_in st') = in_tp (st_in st) \<and> st_fs st' = st_fs st \<and> card_wf st' \<and> in_fsm_state (st_in st') = SWICC_FSM_STATE_ATR_RES"
    if "\<not> pps_well_formed r"
    using pps_silent [OF g(1) room g(2) assms(5) that, of H res0] same fs by (auto simp: nego_same_def)
  show ?thesis unfolding run using 1 2 3 by blast
qed

text \<open>
  A card that has just sent its answer to reset, a request with PPS1 = 49, and one with a wrong check
  byte.  The answer to the first one agrees to Fi = 4 and Di = 9 in the reading of the standard; the card
  takes the index 9 for Fi, which is 512.
\<close>

definition demo_atr :: swicc_st where
  "demo_atr = set_state demo_card SWICC_FSM_STATE_ATR_RES"

lemma well_formed_check: "pps_well_formed r \<Longrightarrow> xor_all r = 0"
  by (auto simp: pps_well_formed_def pps_req_def)

theorem pps_exchange_witness:
  "(\<exists>st'. deliver_all (\<lambda>_. apduh_unk) \<lparr>res_sw1 = 0, res_sw2 = 0, res_data = data_zero\<rparr> 64 [[0xFF], [], [0x10], [0x49], [0xA6]] demo_atr = Some st' \<and>
     sent st' = [0xFF, 0x10, 0x49, 0xA6] \<and> tp_fi (in_tp (st_in st')) = 512 \<and> pending [] st') \<and>
   (\<exists>st'. deliver_all (\<lambda>_. apduh_unk) \<lparr>res_sw1 = 0, res_sw2 = 0, res_data = data_zero\<rparr> 64 [[0xFF], [0x10, 0x49], [0xA7]] demo_atr = Some st' \<and>
     sent st' = [] \<and> in_fsm_state (st_in st') = SWICC_FSM_STATE_ATR_RES)"
proof -
  have wf: "card_wf demo_atr"
    using init_wf [OF demo_card_init] by (simp add: demo_atr_def card_wf_def no_ext_def internal_wf_def)
  have r: "pps_req 0x10 0x49 0 = [0xFF, 0x10, 0x49, 0xA6]" by code_simp
  have ann: "pps_announced [0xFF, 0x10, 0x49, 0xA6]" "pps_announced [0xFF, 0x10, 0x49, 0xA7]" by code_simp+
  have "xor_all [0xFF, 0x10, 0x49, 0xA7] \<noteq> 0" by code_simp
  then have bad: "\<not> pps_well_formed [0xFF, 0x10, 0x49, 0xA7]" using well_formed_check by blast
  have sup: "tp_supported (pps_wanted 0x10 0x49 0)" and fi: "tp_fi (tp_of (pps_wanted 0x10 0x49 0)) = 512" and b7: "\<not> bit (0x10 :: u8) 7"
    by code_simp+
  have st: "in_fsm_state (st_in demo_atr) = SWICC_FSM_STATE_ATR_RES" "unat (64 :: u16) \<le> length (st_buf_tx demo_atr)"
    "SWICC_PPS_LEN_MAX \<le> unat (64 :: u16)" "in_tpdu_hdr_len (st_in demo_atr) = 0" "in_procedure_count (st_in demo_atr) = 0"
    by (simp_all add: demo_atr_def demo_card_def internal_zero_def)
  note x = pps_exchange [OF wf st(1-3), where H = "\<lambda>_. apduh_unk" and ?res0.0 = "\<lparr>res_sw1 = 0, res_sw2 = 0, res_data = data_zero\<rparr>"]
  have "concat [[], [0x10], [0x49], [0xA6]] = tl [0xFF, 0x10, 0x49, 0xA6 :: u8]" "last [[], [0x10], [0x49], [0xA6 :: u8]] \<noteq> []" by simp_all
  note x1 = conjunct1 [OF x [OF ann(1) this], rule_format, of "0x10" "0x49" 0]
  have "[0xFF, 0x10, 0x49, 0xA6] = pps_req 0x10 0x49 0 \<and> \<not> bit (0x10 :: u8) 7 \<and> \<not> (bit (0x10 :: u8) 4 \<and> (0x49 :: u8) = 0x11) \<and>
      tp_supported (pps_wanted 0x10 0x49 0)"
    using r sup b7 by simp
  then obtain st1 where
    "deliver_all (\<lambda>_. apduh_unk) \<lparr>res_sw1 = 0, res_sw2 = 0, res_data = data_zero\<rparr> 64 ([SWICC_PPS_PPSS] # [[], [0x10], [0x49], [0xA6]]) demo_atr = Some st1"
    "sent st1 = [0xFF, 0x10, 0x49, 0xA6]" "in_tp (st_in st1) = tp_of (pps_wanted 0x10 0x49 0)" "pending [] st1"
    using x1 st(4,5) by blast
  moreover have "concat [[0x10, 0x49], [0xA7]] = tl [0xFF, 0x10, 0x49, 0xA7 :: u8]" "last [[0x10, 0x49], [0xA7 :: u8]] \<noteq> []" by simp_all
  note x2 = conjunct2 [OF conjunct2 [OF x [OF ann(2) this]], rule_format, OF bad]
  then obtain st2 where
    "deliver_all (\<lambda>_. apduh_unk) \<lparr>res_sw1 = 0, res_sw2 = 0, res_data = data_zero\<rparr> 64 ([SWICC_PPS_PPSS] # [[0x10, 0x49], [0xA7]]) demo_atr = Some st2"
    "sent st2 = []" "in_fsm_state (st_in st2) = SWICC_FSM_STATE_ATR_RES"
    by blast
  ultimately show ?thesis using fi by (intro conjI exI [of _ st1] exI [of _ st2]) simp_all
qed

end
