(* ===== verification/Swicc_Mock.thy ===== *)
theory Swicc_Mock
  imports Swicc_Negotiation
begin

text \<open>
  \<^verbatim>\<open>src/mock.c\<close>: a mocked interface that brings the card through the cold reset and, on demand, through
  a PPS exchange.
\<close>

section \<open>The steps of the interface\<close>

definition mock_pps_req :: bytes where
  "mock_pps_req = [0xFF, 0x10, 0x94, 0x7B]"

text \<open>The RX buffer is filled in place, the contacts are changed one at a time.\<close>

definition mock_rx :: "bytes \<Rightarrow> swicc_st \<Rightarrow> swicc_st option" where
  "mock_rx bs st = do {
     b \<leftarrow> wrn (st_buf_rx st) 0 bs;
     Some (st\<lparr>st_buf_rx := b, st_buf_rx_len := word_of_nat (length bs), st_buf_tx_len := word_of_nat SWICC_DATA_MAX\<rparr>) }"

definition mock_cont :: "u32 \<Rightarrow> swicc_st \<Rightarrow> swicc_st option" where
  "mock_cont cont st = mock_rx [] (st\<lparr>st_cont_rx := cont\<rparr>)"

definition mock_setup :: "nat \<Rightarrow> swicc_st \<Rightarrow> swicc_st option" where
  "mock_setup step st =
     (if step = 0 then mock_cont (st_cont_rx st AND NOT SWICC_IO_CONT_RST) st
      else if step = 1 then mock_cont (st_cont_rx st OR SWICC_IO_CONT_VCC) st
      else if step = 2 then mock_cont (st_cont_rx st OR SWICC_IO_CONT_IO) st
      else if step = 3 then mock_cont (st_cont_rx st OR SWICC_IO_CONT_CLK) st
      else if step = 4 then mock_cont (st_cont_rx st OR SWICC_IO_CONT_RST) st
      else if step = 5 then mock_rx [] st
      else if step = 6 then mock_rx [mock_pps_req ! 0] st
      else if step = 7 then mock_rx [] st
      else if step = 8 then mock_rx [mock_pps_req ! 1] st
      else if step = 9 then mock_rx (drop 2 mock_pps_req) st
      else Some st)"

text \<open>What the interface expects after the step: the state and the number of bytes asked for.\<close>

definition mock_expected :: "nat \<Rightarrow> (swicc_fsm_state \<times> nat) option" where
  "mock_expected step =
     (if step = 0 then Some (SWICC_FSM_STATE_OFF, 0)
      else if step = 1 then Some (SWICC_FSM_STATE_ACTIVATION, 0)
      else if step = 2 then Some (SWICC_FSM_STATE_ACTIVATION, 0)
      else if step = 3 then Some (SWICC_FSM_STATE_RESET_COLD, 0)
      else if step = 4 then Some (SWICC_FSM_STATE_ATR_REQ, 0)
      else if step = 5 then Some (SWICC_FSM_STATE_ATR_RES, 1)
      else if step = 6 then Some (SWICC_FSM_STATE_PPS_REQ, 0)
      else if step = 7 then Some (SWICC_FSM_STATE_PPS_REQ, 1)
      else if step = 8 then Some (SWICC_FSM_STATE_PPS_REQ, length mock_pps_req - 2)
      else if step = 9 then Some (SWICC_FSM_STATE_CMD_WAIT, 0)
      else None)"

definition mock_state_ok :: "nat \<Rightarrow> swicc_st \<Rightarrow> bool" where
  "mock_state_ok step st \<longleftrightarrow>
     mock_expected step = Some (swicc_fsm_state_get st, unat (st_buf_rx_len st))"

text \<open>The loop over the steps; it is left at the latest in step 9, before the list of steps is used up.\<close>

fun mock_loop :: "(nat \<Rightarrow> handler) \<Rightarrow> swicc_apdu_res \<Rightarrow> bool \<Rightarrow> nat list \<Rightarrow> swicc_st \<Rightarrow> (swicc_ret \<times> swicc_st) option" where
  "mock_loop H res0 mock_pps [] st = None"
| "mock_loop H res0 mock_pps (step # steps) st = do {
     st1 \<leftarrow> mock_setup step st;
     st2 \<leftarrow> swicc_io H res0 st1;
     if \<not> mock_state_ok step st2 then Some (SWICC_RET_ERROR, st2)
     else if step = 5 \<and> \<not> mock_pps then Some (SWICC_RET_SUCCESS, st2)
     else if step = 9 then Some (SWICC_RET_SUCCESS, st2)
     else mock_loop H res0 mock_pps steps st2 }"

definition swicc_mock_reset_cold ::
    "(nat \<Rightarrow> handler) \<Rightarrow> swicc_apdu_res \<Rightarrow> bool \<Rightarrow> swicc_st \<Rightarrow> (swicc_ret \<times> swicc_st) option" where
  "swicc_mock_reset_cold H res0 mock_pps st = do {
     (ret, st1) \<leftarrow> swicc_reset (st\<lparr>st_cont_rx := SWICC_IO_CONT_VALID_ALL\<rparr>);
     if ret \<noteq> SWICC_RET_SUCCESS then Some (SWICC_RET_ERROR, st1)
     else mock_loop H res0 mock_pps [0..<10] st1 }"

section \<open>The cold reset succeeds\<close>

definition mock_at :: "swicc_st \<Rightarrow> u32 \<Rightarrow> swicc_internal \<Rightarrow> swicc_st \<Rightarrow> bool" where
  "mock_at st0 c i st \<longleftrightarrow> st_in st = i \<and> st_cont_rx st = c \<and> st_fs st = st_fs st0 \<and>
     st_cont_tx st = (if in_fsm_state i \<in> {SWICC_FSM_STATE_OFF, SWICC_FSM_STATE_ACTIVATION, SWICC_FSM_STATE_RESET_COLD} then 0 else 0x6000) \<and>
     length (st_buf_rx st) = length (st_buf_rx st0) \<and> length (st_buf_tx st) = length (st_buf_tx st0)"

definition mock_step :: "(nat \<Rightarrow> handler) \<Rightarrow> swicc_apdu_res \<Rightarrow> nat \<Rightarrow> swicc_st \<Rightarrow> swicc_st option" where
  "mock_step H res0 step st = do { st1 \<leftarrow> mock_setup step st; swicc_io H res0 st1 }"

lemma mock_loop_step:
  "mock_loop H res0 mock_pps (step # steps) st = do {
     st2 \<leftarrow> mock_step H res0 step st;
     if \<not> mock_state_ok step st2 then Some (SWICC_RET_ERROR, st2)
     else if step = 5 \<and> \<not> mock_pps then Some (SWICC_RET_SUCCESS, st2)
     else if step = 9 then Some (SWICC_RET_SUCCESS, st2)
     else mock_loop H res0 mock_pps steps st2 }"
  by (simp add: mock_step_def)

lemmas mock_simps = mock_step_def mock_setup_def mock_cont_def mock_rx_def mock_state_ok_def mock_expected_def
  mock_pps_req_def swicc_io_def swicc_fsm_def swicc_fsm_state_get_def

lemmas contact_simps = SWICC_IO_CONT_VALID_ALL_def FSM_STATE_CONT_READY_def

abbreviation stage :: "swicc_internal \<Rightarrow> swicc_fsm_state \<Rightarrow> swicc_internal" where
  "stage i s \<equiv> i\<lparr>in_fsm_state := s\<rparr>"

lemma mock_contacts:
  assumes "mock_at st0 SWICC_IO_CONT_VALID_ALL internal_zero st"
  shows "\<exists>st'. mock_step H res0 0 st = Some st' \<and> mock_state_ok 0 st' \<and> mock_at st0 SWICC_IO_CONT_VALID_ALL internal_zero st'"
  using assms
  by (auto simp: mock_at_def mock_simps contact_simps wrn_def fsm_handle_s_off_def internal_zero_def Let_def)

lemma mock_vcc:
  assumes "mock_at st0 SWICC_IO_CONT_VALID_ALL internal_zero st"
  shows "\<exists>st'. mock_step H res0 1 st = Some st' \<and> mock_state_ok 1 st' \<and>
    mock_at st0 (SWICC_IO_CONT_VALID_ALL OR SWICC_IO_CONT_VCC) (stage internal_zero SWICC_FSM_STATE_ACTIVATION) st'"
  using assms
  by (auto simp: mock_at_def mock_simps contact_simps wrn_def fsm_handle_s_off_def internal_zero_def Let_def)

lemma mock_io:
  assumes "mock_at st0 (SWICC_IO_CONT_VALID_ALL OR SWICC_IO_CONT_VCC) (stage internal_zero SWICC_FSM_STATE_ACTIVATION) st"
  shows "\<exists>st'. mock_step H res0 2 st = Some st' \<and> mock_state_ok 2 st' \<and>
    mock_at st0 (SWICC_IO_CONT_VALID_ALL OR SWICC_IO_CONT_VCC OR SWICC_IO_CONT_IO) (stage internal_zero SWICC_FSM_STATE_ACTIVATION) st'"
  using assms
  by (auto simp: mock_at_def mock_simps contact_simps wrn_def fsm_handle_s_activation_def internal_zero_def Let_def)

lemma mock_clk:
  assumes "mock_at st0 (SWICC_IO_CONT_VALID_ALL OR SWICC_IO_CONT_VCC OR SWICC_IO_CONT_IO) (stage internal_zero SWICC_FSM_STATE_ACTIVATION) st"
  shows "\<exists>st'. mock_step H res0 3 st = Some st' \<and> mock_state_ok 3 st' \<and>
    mock_at st0 (FSM_STATE_CONT_READY AND NOT SWICC_IO_CONT_RST) (stage internal_zero SWICC_FSM_STATE_RESET_COLD) st'"
  using assms
  by (auto simp: mock_at_def mock_simps contact_simps wrn_def fsm_handle_s_activation_def internal_zero_def Let_def)

lemma mock_rst:
  assumes "mock_at st0 (FSM_STATE_CONT_READY AND NOT SWICC_IO_CONT_RST) (stage internal_zero SWICC_FSM_STATE_RESET_COLD) st"
  shows "\<exists>st'. mock_step H res0 4 st = Some st' \<and> mock_state_ok 4 st' \<and>
    mock_at st0 FSM_STATE_CONT_READY (stage internal_zero SWICC_FSM_STATE_ATR_REQ) st'"
  using assms
  by (auto simp: mock_at_def mock_simps contact_simps wrn_def fsm_handle_s_reset_cold_def internal_zero_def Let_def)

lemma mock_atr:
  assumes "mock_at st0 FSM_STATE_CONT_READY (stage internal_zero SWICC_FSM_STATE_ATR_REQ) st" and "SWICC_DATA_MAX \<le> length (st_buf_tx st0)"
  shows "\<exists>st'. mock_step H res0 5 st = Some st' \<and> mock_state_ok 5 st' \<and>
    mock_at st0 FSM_STATE_CONT_READY (stage internal_zero SWICC_FSM_STATE_ATR_RES) st' \<and> sent st' = swicc_atr"
  using assms
  by (auto simp: mock_at_def mock_simps wrn_def fsm_handle_s_atr_req_def internal_zero_def Let_def swicc_atr_wf sent_def)

abbreviation pps_stage :: "bytes \<Rightarrow> u8 \<Rightarrow> swicc_internal" where
  "pps_stage pps n \<equiv> internal_zero\<lparr>in_pps := pps, in_pps_len := n, in_fsm_state := SWICC_FSM_STATE_PPS_REQ\<rparr>"

lemmas mock_pps_simps = mock_at_def mock_simps wrn_def rdn_def rd_def fsm_handle_s_pps_req_def internal_zero_def Let_def
  swicc_pps_len_def nth_append

lemma mock_ppss:
  assumes "mock_at st0 FSM_STATE_CONT_READY (stage internal_zero SWICC_FSM_STATE_ATR_RES) st" and "2 \<le> length (st_buf_rx st0)"
  shows "\<exists>st'. mock_step H res0 6 st = Some st' \<and> mock_state_ok 6 st' \<and>
    mock_at st0 FSM_STATE_CONT_READY (pps_stage [0xFF, 0, 0, 0, 0, 0] 1) st'"
  using assms
  by (auto simp: mock_pps_simps fsm_handle_s_atr_res_def numeral_eq_Suc Suc_le_eq)

lemma mock_pps_nothing:
  assumes "mock_at st0 FSM_STATE_CONT_READY (pps_stage [0xFF, 0, 0, 0, 0, 0] 1) st"
  shows "\<exists>st'. mock_step H res0 7 st = Some st' \<and> mock_state_ok 7 st' \<and>
    mock_at st0 FSM_STATE_CONT_READY (pps_stage [0xFF, 0, 0, 0, 0, 0] 1) st'"
  using assms by (auto simp: mock_pps_simps)

lemma mock_pps0:
  assumes "mock_at st0 FSM_STATE_CONT_READY (pps_stage [0xFF, 0, 0, 0, 0, 0] 1) st" and "2 \<le> length (st_buf_rx st0)"
  shows "\<exists>st'. mock_step H res0 8 st = Some st' \<and> mock_state_ok 8 st' \<and>
    mock_at st0 FSM_STATE_CONT_READY (pps_stage [0xFF, 0x10, 0, 0, 0, 0] 2) st'"
  using assms by (auto simp: mock_pps_simps Suc_le_eq)

text \<open>The parameters that the mocked request asks for.\<close>

definition mock_tp :: swicc_tp where
  "mock_tp = \<lparr>tp_etu = 0, tp_fi = 1116, tp_fmax = 12000, tp_di = 20\<rparr>"

lemma mock_request: "pps_req 0x10 0x94 0 = mock_pps_req" "tp_of (pps_wanted 0x10 0x94 0) = mock_tp"
  "tp_supported (pps_wanted 0x10 0x94 0)"
  by code_simp+

lemma mock_rest:
  assumes at: "mock_at st0 FSM_STATE_CONT_READY (pps_stage [0xFF, 0x10, 0, 0, 0, 0] 2) st"
    and rx: "2 \<le> length (st_buf_rx st0)" and tx: "SWICC_DATA_MAX \<le> length (st_buf_tx st0)"
  shows "\<exists>st'. mock_step H res0 9 st = Some st' \<and> mock_state_ok 9 st' \<and> sent st' = mock_pps_req \<and> st_buf_rx_len st' = 0 \<and>
    mock_at st0 FSM_STATE_CONT_READY (internal_zero\<lparr>in_pps := mock_pps_req @ [0, 0], in_pps_len := 4, in_tp := mock_tp,
      in_fsm_state := SWICC_FSM_STATE_CMD_WAIT\<rparr>) st'"
proof -
  have at': "st_in st = pps_stage [0xFF, 0x10, 0, 0, 0, 0] 2" "st_cont_rx st = FSM_STATE_CONT_READY"
    "length (st_buf_rx st) = length (st_buf_rx st0)" "length (st_buf_tx st) = length (st_buf_tx st0)" "st_fs st = st_fs st0" "st_cont_tx st = 0x6000"
    using at by (simp_all add: mock_at_def)
  define rx' where "rx' = [0x94, 0x7B] @ drop 2 (st_buf_rx st)"
  have w: "wrn (st_buf_rx st) 0 [0x94, 0x7B] = Some rx'" and lrx: "length rx' = length (st_buf_rx st0)" "take 2 rx' = [0x94, 0x7B]"
    using rx at'(3) by (simp_all add: wrn_def rx'_def numeral_2_eq_2)
  define sti where "sti = iface FSM_STATE_CONT_READY rx' 2 (word_of_nat SWICC_DATA_MAX) st"
  define pps where "pps = mock_pps_req @ [0, 0]"
  define st1 where "st1 = sti\<lparr>st_in := pps_stage pps 4\<rparr>"
  have set: "mock_setup 9 st = Some sti"
    using w at'(2) by (simp add: mock_setup_def mock_rx_def mock_pps_req_def sti_def iface_def)
  have io: "swicc_io H res0 sti = pps_req_complete st1"
    using lrx(2) rx at'(1) lrx(1)
    by (simp add: swicc_io_def swicc_fsm_def fsm_handle_s_pps_req_def Let_def sti_def rdn_def wrn_def internal_zero_def
        swicc_pps_len_def rd_def st1_def pps_def mock_pps_req_def)
  have room: "tx_room (st_buf_tx st) (word_of_nat SWICC_DATA_MAX)" using tx at'(4) by (simp add: tx_room_def)
  let ?tx' = "mock_pps_req @ drop (length mock_pps_req) (st_buf_tx st)"
  have "swicc_pps \<lparr>pps_t = 0, pps_fi_idx = SWICC_TP_CONF_DEFAULT, pps_di_idx = SWICC_TP_CONF_DEFAULT, pps_spu = 0\<rparr>
      pps 4 (st_buf_tx st) (word_of_nat SWICC_DATA_MAX) = Some (SWICC_RET_SUCCESS, pps_wanted 0x10 0x94 0, ?tx', 4)"
    using pps_accepts [OF _ _ room, where ?pps0.0 = "0x10" and ?pps1.0 = "0x94" and ?pps2.0 = "0" and rest = "[0, 0]"] by (simp add: mock_request pps_wanted_def pps_def mock_pps_req_def)
  moreover have "rd swicc_io_di (unat (pps_di_idx (pps_wanted 0x10 0x94 0))) = Some 20"
    "rd swicc_io_fi (unat (pps_fi_idx (pps_wanted 0x10 0x94 0))) = Some 1116"
    "rd swicc_io_fmax (unat (pps_fi_idx (pps_wanted 0x10 0x94 0))) = Some 12000" "swicc_etu 1116 20 12000 = Some 0"
    by code_simp+
  ultimately have "pps_req_complete st1 = Some (st1\<lparr>st_buf_tx := ?tx', st_buf_tx_len := 4, st_buf_rx_len := 0,
      st_in := (pps_stage pps 4)\<lparr>in_fsm_state := SWICC_FSM_STATE_CMD_WAIT, in_tp := mock_tp, in_tpdu_processed := False\<rparr>\<rparr>)"
    by (simp add: pps_req_complete_def Let_def st1_def sti_def mock_tp_def)
  then show ?thesis
    using set io tx at'(4-6) lrx(1)
    by (simp add: mock_step_def mock_state_ok_def mock_expected_def swicc_fsm_state_get_def sent_def mock_at_def st1_def sti_def
        pps_def mock_pps_req_def internal_zero_def)
qed

section \<open>The whole reset\<close>

lemma mock_run:
  assumes at: "mock_at st0 SWICC_IO_CONT_VALID_ALL internal_zero st"
    and rx: "2 \<le> length (st_buf_rx st0)" and tx: "SWICC_DATA_MAX \<le> length (st_buf_tx st0)"
  shows "\<exists>st'. mock_loop H res0 mock_pps [0..<10] st = Some (SWICC_RET_SUCCESS, st') \<and>
    (if mock_pps
     then sent st' = mock_pps_req \<and> st_buf_rx_len st' = 0 \<and> mock_at st0 FSM_STATE_CONT_READY (internal_zero\<lparr>in_pps := mock_pps_req @ [0, 0], in_pps_len := 4,
       in_tp := mock_tp, in_fsm_state := SWICC_FSM_STATE_CMD_WAIT\<rparr>) st'
     else sent st' = swicc_atr \<and> mock_at st0 FSM_STATE_CONT_READY (stage internal_zero SWICC_FSM_STATE_ATR_RES) st')"
proof -
  obtain s1 where s1: "mock_step H res0 0 st = Some s1" "mock_state_ok 0 s1" "mock_at st0 SWICC_IO_CONT_VALID_ALL internal_zero s1"
    using mock_contacts [OF at] by blast
  obtain s2 where s2: "mock_step H res0 1 s1 = Some s2" "mock_state_ok 1 s2"
    "mock_at st0 (SWICC_IO_CONT_VALID_ALL OR SWICC_IO_CONT_VCC) (stage internal_zero SWICC_FSM_STATE_ACTIVATION) s2"
    using mock_vcc [OF s1(3)] by blast
  obtain s3 where s3: "mock_step H res0 2 s2 = Some s3" "mock_state_ok 2 s3"
    "mock_at st0 (SWICC_IO_CONT_VALID_ALL OR SWICC_IO_CONT_VCC OR SWICC_IO_CONT_IO) (stage internal_zero SWICC_FSM_STATE_ACTIVATION) s3"
    using mock_io [OF s2(3)] by blast
  obtain s4 where s4: "mock_step H res0 3 s3 = Some s4" "mock_state_ok 3 s4"
    "mock_at st0 (FSM_STATE_CONT_READY AND NOT SWICC_IO_CONT_RST) (stage internal_zero SWICC_FSM_STATE_RESET_COLD) s4"
    using mock_clk [OF s3(3)] by blast
  obtain s5 where s5: "mock_step H res0 4 s4 = Some s5" "mock_state_ok 4 s5"
    "mock_at st0 FSM_STATE_CONT_READY (stage internal_zero SWICC_FSM_STATE_ATR_REQ) s5"
    using mock_rst [OF s4(3)] by blast
  obtain s6 where s6: "mock_step H res0 5 s5 = Some s6" "mock_state_ok 5 s6"
    "mock_at st0 FSM_STATE_CONT_READY (stage internal_zero SWICC_FSM_STATE_ATR_RES) s6" "sent s6 = swicc_atr"
    using mock_atr [OF s5(3) tx] by blast
  obtain s7 where s7: "mock_step H res0 6 s6 = Some s7" "mock_state_ok 6 s7"
    "mock_at st0 FSM_STATE_CONT_READY (pps_stage [0xFF, 0, 0, 0, 0, 0] 1) s7"
    using mock_ppss [OF s6(3) rx] by blast
  obtain s8 where s8: "mock_step H res0 7 s7 = Some s8" "mock_state_ok 7 s8"
    "mock_at st0 FSM_STATE_CONT_READY (pps_stage [0xFF, 0, 0, 0, 0, 0] 1) s8"
    using mock_pps_nothing [OF s7(3)] by blast
  obtain s9 where s9: "mock_step H res0 8 s8 = Some s9" "mock_state_ok 8 s9"
    "mock_at st0 FSM_STATE_CONT_READY (pps_stage [0xFF, 0x10, 0, 0, 0, 0] 2) s9"
    using mock_pps0 [OF s8(3) rx] by blast
  have steps: "[0..<10] = [0, 1, 2, 3, 4, 5, 6, 7, 8, 9]" by (simp add: upt_rec)
  have six: "mock_loop H res0 mock_pps [0..<10] st =
      (if mock_pps then mock_loop H res0 mock_pps [6, 7, 8, 9] s6 else Some (SWICC_RET_SUCCESS, s6))"
    using s1(1,2) s2(1,2) s3(1,2) s4(1,2) s5(1,2) s6(1,2) unfolding steps by (simp add: mock_loop_step del: mock_loop.simps)
  show ?thesis
  proof (cases mock_pps)
    case False
    then show ?thesis using six s6(3,4) by simp
  next
    case True
    obtain s10 where s10: "mock_step H res0 9 s9 = Some s10" "mock_state_ok 9 s10" "sent s10 = mock_pps_req" "st_buf_rx_len s10 = 0"
      "mock_at st0 FSM_STATE_CONT_READY (internal_zero\<lparr>in_pps := mock_pps_req @ [0, 0], in_pps_len := 4, in_tp := mock_tp,
        in_fsm_state := SWICC_FSM_STATE_CMD_WAIT\<rparr>) s10"
      using mock_rest [OF s9(3) rx tx] by blast
    have "mock_loop H res0 mock_pps [6, 7, 8, 9] s6 = Some (SWICC_RET_SUCCESS, s10)"
      using s7(1,2) s8(1,2) s9(1,2) s10(1,2) by (simp add: mock_loop_step True del: mock_loop.simps)
    then show ?thesis using six s10(3-5) True by simp
  qed
qed

lemma mock_pending:
  assumes at: "mock_at st0 c (internal_zero\<lparr>in_pps := mock_pps_req @ [0, 0], in_pps_len := 4, in_tp := mock_tp,
      in_fsm_state := SWICC_FSM_STATE_CMD_WAIT\<rparr>) st"
    and s: "sent st = mock_pps_req" and tx: "SWICC_DATA_MAX \<le> length (st_buf_tx st0)"
  shows "pending [] st"
proof -
  have i: "st_in st = internal_zero\<lparr>in_pps := mock_pps_req @ [0, 0], in_pps_len := 4, in_tp := mock_tp,
      in_fsm_state := SWICC_FSM_STATE_CMD_WAIT\<rparr>" and l: "SWICC_DATA_MAX \<le> length (st_buf_tx st)"
    using at tx by (simp_all add: mock_at_def)
  have "length (sent st) = 4" using s by (simp add: mock_pps_req_def)
  then have "unat (st_buf_tx_len st) = 4" using l by (simp add: sent_def min_def split: if_split_asm)
  moreover have "internal_wf (st_in st)"
    by (simp add: i internal_wf_def internal_zero_def mock_pps_req_def tpdu_zero_def data_zero_def data_ok_def)
  moreover have "no_ext st" "in_fsm_state (st_in st) = SWICC_FSM_STATE_CMD_WAIT" "\<not> in_tpdu_processed (st_in st)"
    "in_tpdu_hdr_len (st_in st) = 0" "in_procedure_count (st_in st) = 0"
    by (simp_all add: i no_ext_def internal_zero_def)
  ultimately show ?thesis using l by (simp add: pending_def card_wf_def clear_id)
qed

lemma mock_reset_run:
  assumes "st_wf ns st" and "no_ext st" and "2 \<le> length (st_buf_rx st)" and "SWICC_DATA_MAX \<le> length (st_buf_tx st)"
  shows "\<exists>ret st'. swicc_mock_reset_cold H res0 mock_pps st = Some (ret, st') \<and>
    ret = (if last_with_id 0x3F00 (forest_files 0 ns) = None then SWICC_RET_ERROR else SWICC_RET_SUCCESS) \<and>
    fs_disk (st_fs st') = fs_disk (st_fs st) \<and> (ret = SWICC_RET_SUCCESS \<longrightarrow> fs_ok ns (st_fs st') \<and> st_cont_rx st' = FSM_STATE_CONT_READY \<and>
      st_cont_tx st' = 0x6000 \<and> (mock_pps \<longrightarrow> st_buf_rx_len st' = 0)) \<and>
    (ret = SWICC_RET_SUCCESS \<longrightarrow>
      (if mock_pps then sent st' = mock_pps_req \<and> in_tp (st_in st') = mock_tp \<and> pending [] st'
       else sent st' = swicc_atr \<and> in_fsm_state (st_in st') = SWICC_FSM_STATE_ATR_RES))"
proof -
  let ?st0 = "st\<lparr>st_cont_rx := SWICC_IO_CONT_VALID_ALL\<rparr>"
  have wf0: "st_wf ns ?st0" using assms(1) by (simp add: st_wf_def bufs_wf_def)
  obtain r st1 where r: "swicc_reset ?st0 = Some (r, st1)" "fs_disk (st_fs st1) = fs_disk (st_fs st)"
    "r = SWICC_RET_SUCCESS \<longleftrightarrow> last_with_id 0x3F00 (forest_files 0 ns) \<noteq> None"
    "r = SWICC_RET_SUCCESS \<longrightarrow> st_wf ns st1 \<and> st_in st1 =
       internal_zero\<lparr>in_apduh_pro := in_apduh_pro (st_in ?st0), in_apduh_override := in_apduh_override (st_in ?st0)\<rparr> \<and> st_cont_tx st1 = 0"
    using reset_run [OF wf0] by auto
  show ?thesis
  proof (cases "r = SWICC_RET_SUCCESS")
    case False
    then show ?thesis using r by (simp add: swicc_mock_reset_cold_def)
  next
    case True
    have same: "st_cont_rx st1 = SWICC_IO_CONT_VALID_ALL" "length (st_buf_rx st1) = length (st_buf_rx st)"
      "length (st_buf_tx st1) = length (st_buf_tx st)"
      using r(1) True by (auto simp: swicc_reset_def bind_Some_iff Let_def dest: length_wrn split: if_split_asm prod.split_asm)
    have "st_in st1 = internal_zero" using r(4) True assms(2) by (simp add: no_ext_def internal_zero_def)
    then have "mock_at st1 SWICC_IO_CONT_VALID_ALL internal_zero st1" using same r(4) True by (simp add: mock_at_def internal_zero_def)
    from mock_run [OF this, of H res0 mock_pps] same assms(3,4)
    obtain st' where st': "mock_loop H res0 mock_pps [0..<10] st1 = Some (SWICC_RET_SUCCESS, st')"
      "if mock_pps
       then sent st' = mock_pps_req \<and> st_buf_rx_len st' = 0 \<and> mock_at st1 FSM_STATE_CONT_READY (internal_zero\<lparr>in_pps := mock_pps_req @ [0, 0], in_pps_len := 4,
         in_tp := mock_tp, in_fsm_state := SWICC_FSM_STATE_CMD_WAIT\<rparr>) st'
       else sent st' = swicc_atr \<and> mock_at st1 FSM_STATE_CONT_READY (stage internal_zero SWICC_FSM_STATE_ATR_RES) st'"
      by auto
    have run: "swicc_mock_reset_cold H res0 mock_pps st = Some (SWICC_RET_SUCCESS, st')"
      using r(1) True st'(1) by (simp add: swicc_mock_reset_cold_def)
    have same': "fs_ok ns (st_fs st')" "st_cont_rx st' = FSM_STATE_CONT_READY" "st_cont_tx st' = 0x6000" "mock_pps \<longrightarrow> st_buf_rx_len st' = 0"
      using st'(2) r(4) True by (auto simp: mock_at_def st_wf_def internal_zero_def split: if_split_asm)
    have disk: "fs_disk (st_fs st') = fs_disk (st_fs st)" using st'(2) r(2) by (auto simp: mock_at_def split: if_split_asm)
    have "pending [] st'" if mock_pps
      using st'(2) that mock_pending [of st1 FSM_STATE_CONT_READY st'] same(3) assms(4) by simp
    then show ?thesis using run disk same' st'(2) True r(3) by (auto simp: mock_at_def internal_zero_def split: if_split_asm)
  qed
qed

text \<open>
  C19.  The mocked interface brings every well-formed card without registered handlers, and with a master
  file, through the cold reset: the contacts are activated in the order of the standard, the card answers
  with its ATR and, when a PPS exchange is asked for, echoes the request, uses the new parameters and waits
  for the first command.  Without a master file an error is reported.
\<close>

theorem mock_reset_succeeds:
  assumes "st_wf ns st" and "no_ext st" and "2 \<le> length (st_buf_rx st)" and "SWICC_DATA_MAX \<le> length (st_buf_tx st)"
  shows "\<exists>ret st'. swicc_mock_reset_cold H res0 mock_pps st = Some (ret, st') \<and>
    ret = (if last_with_id 0x3F00 (forest_files 0 ns) = None then SWICC_RET_ERROR else SWICC_RET_SUCCESS) \<and>
    fs_disk (st_fs st') = fs_disk (st_fs st) \<and>
    (ret = SWICC_RET_SUCCESS \<longrightarrow>
      (if mock_pps then sent st' = mock_pps_req \<and> in_tp (st_in st') = mock_tp \<and> pending [] st'
       else sent st' = swicc_atr \<and> in_fsm_state (st_in st') = SWICC_FSM_STATE_ATR_RES))"
  using mock_reset_run [OF assms, of H res0 mock_pps] by blast

theorem mock_reset_succeeds_witness:
  "\<exists>d st'. swicc_mock_reset_cold (\<lambda>_. apduh_unk) \<lparr>res_sw1 = 0, res_sw2 = 0, res_data = data_zero\<rparr> True
      ((demo_st d)\<lparr>st_in := internal_zero\<rparr>) = Some (SWICC_RET_SUCCESS, st') \<and> sent st' = mock_pps_req \<and> pending [] st'"
proof -
  obtain d where "fs_ok [demo_mf] (demo_fs d)" using demo_fs_ok by blast
  then have "st_wf [demo_mf] ((demo_st d)\<lparr>st_in := internal_zero\<rparr>)"
    using demo_st_wf [of d] internal_zero_wf [of None None]
    by (simp add: st_wf_def bufs_wf_def) (simp add: internal_zero_def)
  from mock_reset_succeeds [OF this, of "\<lambda>_. apduh_unk" _ True] demo_mf_last
  show ?thesis by (fastforce simp: no_ext_def internal_zero_def demo_st_def)
qed

end
