(* ===== verification/Swicc_Select.thy ===== *)
theory Swicc_Select
  imports Swicc_Commands
begin

text \<open>
  What SELECT reports of a file: the control parameters as a BER-TLV data object.  The encoding that the
  handler builds in two passes, from its end and in place, is the BER form of a template that lists the
  properties of the file.
\<close>

section \<open>The control information as a data object\<close>

definition app_tag :: "u32 \<Rightarrow> swicc_dato_bertlv_tag" where
  "app_tag n = \<lparr>tag_num = n, tag_cla = SWICC_DATO_BERTLV_TAG_CLA_APPLICATION, tag_pc = True\<rparr>"

definition ctx_tag :: "u32 \<Rightarrow> swicc_dato_bertlv_tag" where
  "ctx_tag n = \<lparr>tag_num = n, tag_cla = SWICC_DATO_BERTLV_TAG_CLA_CONTEXT_SPECIFIC, tag_pc = False\<rparr>"

definition sel_tags :: "swicc_dato_bertlv_tag list" where
  "sel_tags = [app_tag 2, app_tag 4, app_tag 15, ctx_tag 0, ctx_tag 2, ctx_tag 3, ctx_tag 4, ctx_tag 8, ctx_tag 10]"

lemma sel_tags_created: "tags_create select_tags = Some (Some sel_tags)"
  unfolding sel_tags_def app_tag_def ctx_tag_def by code_simp

lemma sel_tags_nth: "sel_tags ! 0 = app_tag 2" "sel_tags ! 1 = app_tag 4" "sel_tags ! Suc 0 = app_tag 4" "sel_tags ! 2 = app_tag 15"
    "sel_tags ! 3 = ctx_tag 0" "sel_tags ! 4 = ctx_tag 2" "sel_tags ! 5 = ctx_tag 3" "sel_tags ! 6 = ctx_tag 4"
    "sel_tags ! 7 = ctx_tag 8" "sel_tags ! 8 = ctx_tag 10"
  by (simp_all add: sel_tags_def)

lemma sel_tags_ok [writes_intro]: "tag_ok (app_tag 2)" "tag_ok (app_tag 4)" "tag_ok (app_tag 15)"
    "tag_ok (ctx_tag 0)" "tag_ok (ctx_tag 2)" "tag_ok (ctx_tag 3)" "tag_ok (ctx_tag 4)" "tag_ok (ctx_tag 8)" "tag_ok (ctx_tag 10)"
  by (simp_all add: tag_ok_def app_tag_def ctx_tag_def)

lemma mask_bits: "(0xFF00 :: u32) = push_bit 8 (mask 8)"
  by (simp add: mask_eq_exp_minus_1)

lemma be32_put: "le32_put (htobe32 x) = be32 x"
  unfolding le32_put_def be32_def htobe32_def mask_bits
  by (simp; intro conjI; rule bit_word_eqI; auto simp: bit_simps dest: bit_imp_le_length)

text \<open>
  The name by which the file is known: that of a folder, or the identifier of an application.
\<close>

definition file_name :: "swicc_fs_file \<Rightarrow> bytes option" where
  "file_name f =
     (let t = ih_type (hdr_item f) in
      if t = SWICC_FS_ITEM_TYPE_FILE_MF \<or> t = SWICC_FS_ITEM_TYPE_FILE_DF then Some (hdr_spec_name f)
      else if t = SWICC_FS_ITEM_TYPE_FILE_ADF then Some (hdr_spec_adf_rid f @ hdr_spec_adf_pix f)
      else None)"

text \<open>The control parameters: descriptor, file ID, name, life cycle status, short ID and size.\<close>

definition fcp_items :: "swicc_fs_file \<Rightarrow> u8 \<Rightarrow> bytes \<Rightarrow> tlv list" where
  "fcp_items f lcs descr =
     [Prim (ctx_tag 2) descr]
     @ (if fh_id (hdr_file f) \<noteq> 0 then [Prim (ctx_tag 3) (be16 (fh_id (hdr_file f)))] else [])
     @ (case file_name f of None \<Rightarrow> [] | Some n \<Rightarrow> [Prim (ctx_tag 4) n])
     @ [Prim (ctx_tag 10) [lcs]]
     @ (if fh_sid (hdr_file f) \<noteq> 0 then [Prim (ctx_tag 8) [fh_sid (hdr_file f)]] else [])
     @ [Prim (ctx_tag 0) (be32 (data_size f))]"

definition fcp :: "swicc_fs_file \<Rightarrow> u8 \<Rightarrow> bytes \<Rightarrow> tlv" where
  "fcp f lcs descr = Constr (app_tag 2) (fcp_items f lcs descr)"

definition fmd :: tlv where
  "fmd = Constr (app_tag 4) []"

definition control_info :: "select_data_req \<Rightarrow> swicc_fs_file \<Rightarrow> u8 \<Rightarrow> bytes \<Rightarrow> tlv" where
  "control_info data_req f lcs descr =
     (if data_req = DATA_REQ_FCP then fcp f lcs descr
      else if data_req = DATA_REQ_FMD then fmd
      else Constr (app_tag 15) [fmd, fcp f lcs descr])"

subsection \<open>The encoder writes it\<close>

lemma writes_name:
  "writes (select_name_do f sel_tags) (concat (map ber_tlv (case file_name f of None \<Rightarrow> [] | Some n \<Rightarrow> [Prim (ctx_tag 4) n])))"
proof -

  have "select_name_do f sel_tags = (case file_name f of None \<Rightarrow> (\<lambda>em. Some (Some em))
      | Some n \<Rightarrow> if ih_type (hdr_item f) = SWICC_FS_ITEM_TYPE_FILE_ADF
          then (\<lambda>em. and_then (enc_data (hdr_spec_adf_pix f) em) (enc_do (hdr_spec_adf_rid f) (ctx_tag 4)))
          else enc_do n (ctx_tag 4))"
    by (rule ext) (simp add: select_name_do_def file_name_def sel_tags_nth Let_def)
  then show ?thesis
    using writes_prim [OF sel_tags_ok(7), of "hdr_spec_name f"]
      writes_split [OF sel_tags_ok(7), of "hdr_spec_adf_pix f" "hdr_spec_adf_rid f"] writes_nothing
    by (auto simp: file_name_def Let_def simp del: ber_tlv.simps)
qed

lemma writes_if:
  "writes f xs \<Longrightarrow> writes (\<lambda>em. if c then f em else Some (Some em)) (if c then xs else [])"
  by (simp add: writes_nothing)

lemma writes_items: "writes (select_fcp_items f lcs descr sel_tags) (concat (map ber_tlv (fcp_items f lcs descr)))"
proof -
  let ?id = "\<lambda>em. if fh_id (hdr_file f) \<noteq> 0 then enc_do (le16_put (htobe16 (fh_id (hdr_file f)))) (ctx_tag 3) em else Some (Some em)"
  let ?sid = "\<lambda>em. if fh_sid (hdr_file f) \<noteq> 0 then enc_do [fh_sid (hdr_file f)] (ctx_tag 8) em else Some (Some em)"
  have "writes (\<lambda>em. and_then (enc_do (le32_put (htobe32 (data_size f))) (ctx_tag 0) em) (\<lambda>em.
      and_then (?sid em) (\<lambda>em. and_then (enc_do [lcs] (ctx_tag 10) em) (\<lambda>em.
      and_then (select_name_do f sel_tags em) (\<lambda>em. and_then (?id em) (enc_do descr (ctx_tag 2)))))))
    (((((ber_tlv (Prim (ctx_tag 2) descr)
       @ (if fh_id (hdr_file f) \<noteq> 0 then ber_tlv (Prim (ctx_tag 3) (le16_put (htobe16 (fh_id (hdr_file f))))) else []))
       @ concat (map ber_tlv (case file_name f of None \<Rightarrow> [] | Some n \<Rightarrow> [Prim (ctx_tag 4) n])))
       @ ber_tlv (Prim (ctx_tag 10) [lcs]))
       @ (if fh_sid (hdr_file f) \<noteq> 0 then ber_tlv (Prim (ctx_tag 8) [fh_sid (hdr_file f)]) else []))
       @ ber_tlv (Prim (ctx_tag 0) (le32_put (htobe32 (data_size f)))))"
    by (intro writes_then writes_if writes_name writes_prim sel_tags_ok)
  moreover have "select_fcp_items f lcs descr sel_tags = (\<lambda>em. and_then (enc_do (le32_put (htobe32 (data_size f))) (ctx_tag 0) em) (\<lambda>em.
      and_then (?sid em) (\<lambda>em. and_then (enc_do [lcs] (ctx_tag 10) em) (\<lambda>em.
      and_then (select_name_do f sel_tags em) (\<lambda>em. and_then (?id em) (enc_do descr (ctx_tag 2)))))))"
    by (rule ext) (simp only: select_fcp_items_def sel_tags_nth)
  ultimately show ?thesis
    by (simp add: fcp_items_def be16_put be32_put del: ber_tlv.simps split: if_splits option.splits)
qed

lemma select_fcp_nested: "select_fcp f lcs descr tags = enc_nested (tags ! 0) (select_fcp_items f lcs descr tags)"
  by (simp add: select_fcp_def enc_nested_def)

lemma select_fmd_nested: "select_fmd tags = enc_nested (tags ! 1) (\<lambda>em. Some (Some em))"
  by (simp add: select_fmd_def enc_nested_def and_then_def split: option.splits)

lemma writes_fcp: "writes (select_fcp f lcs descr sel_tags) (ber_tlv (fcp f lcs descr))"
  using writes_nested [OF writes_items [of f lcs descr] sel_tags_ok(1)]
  by (simp add: select_fcp_nested fcp_def Let_def sel_tags_nth)

lemma writes_fmd: "writes (select_fmd sel_tags) (ber_tlv fmd)"
  using writes_nested [OF writes_nothing sel_tags_ok(2)]
  by (simp add: select_fmd_nested fmd_def Let_def sel_tags_nth)

text \<open>What one pass runs after the start of the encoding.\<close>

definition select_writer :: "select_data_req \<Rightarrow> swicc_fs_file \<Rightarrow> u8 \<Rightarrow> bytes \<Rightarrow> enc_mem \<Rightarrow> enc_mem option option" where
  "select_writer data_req f lcs descr =
     (if data_req = DATA_REQ_FCP then select_fcp f lcs descr sel_tags
      else if data_req = DATA_REQ_FMD then select_fmd sel_tags
      else enc_nested (app_tag 15) (\<lambda>em. and_then (select_fcp f lcs descr sel_tags em) (select_fmd sel_tags)))"

lemma writes_control: "writes (select_writer data_req f lcs descr) (ber_tlv (control_info data_req f lcs descr))"
  using writes_fcp [of f lcs descr] writes_fmd
    writes_nested [OF writes_then [OF writes_fcp [of f lcs descr] writes_fmd] sel_tags_ok(3)]
  by (simp add: select_writer_def control_info_def Let_def)

declare and_then_simps [simp] and_then_id [simp]

lemma select_pass:
  assumes "data_req = DATA_REQ_FCI \<or> data_req = DATA_REQ_FCP \<or> data_req = DATA_REQ_FMD"
  shows "select_enc_pass data_req f lcs descr sel_tags null n mem =
    select_writer data_req f lcs descr (swicc_dato_bertlv_enc_init null n, mem)"
  using assms
  by (auto simp: select_enc_pass_def select_writer_def enc_nested_def and_then_assoc Let_def sel_tags_nth)

text \<open>Both passes: the first bytes of the response become the data object.\<close>

lemma select_bertlv_ok:
  assumes "data_req = DATA_REQ_FCI \<or> data_req = DATA_REQ_FCP \<or> data_req = DATA_REQ_FMD"
    and fit: "length (ber_tlv (control_info data_req f lcs descr)) \<le> length res_b" and res: "length res_b < 4294967295"
  shows "select_bertlv data_req f lcs descr sel_tags res_b =
    Some (Some (ber_tlv (control_info data_req f lcs descr) @ drop (length (ber_tlv (control_info data_req f lcs descr))) res_b,
      word_of_nat (length (ber_tlv (control_info data_req f lcs descr)))))"
proof -
  define xs where "xs = ber_tlv (control_info data_req f lcs descr)"
  define n :: u32 where "n = word_of_nat (length xs)"
  have fx: "length xs \<le> length res_b" using fit by (simp add: xs_def)
  have n: "unat n = length xs" unfolding n_def by (rule unat_of_nat_u32) (use fx res in simp)
  have w: "writes (select_writer data_req f lcs descr) xs" unfolding xs_def by (rule writes_control)
  let ?e1 = "swicc_dato_bertlv_enc_init True 0" and ?e2 = "swicc_dato_bertlv_enc_init False n"
  have "select_enc_pass data_req f lcs descr sel_tags True 0 [] = Some (Some (enc_grow ?e1 (length xs) 0, mem_grow ?e1 [] xs))"
    unfolding select_pass [OF assms(1)]
    by (rule writesD [OF w]) (use fx res in \<open>simp_all add: enc_init_wf\<close>)
  moreover have "select_enc_pass data_req f lcs descr sel_tags False n res_b = Some (Some (enc_grow ?e2 (length xs) 0, mem_grow ?e2 res_b xs))"
    unfolding select_pass [OF assms(1)]
    by (rule writesD [OF w]) (use fx n in \<open>simp_all add: enc_init_wf\<close>)
  moreover have "enc_len (enc_grow ?e1 (length xs) 0) = n"
    by (simp add: enc_grow_def swicc_dato_bertlv_enc_init_def n_def Let_def)
  moreover have "mem_grow ?e2 res_b xs = xs @ drop (length xs) res_b"
    by (simp add: mem_grow_def swicc_dato_bertlv_enc_init_def n Let_def)
  ultimately show ?thesis
    using fx n by (simp add: select_bertlv_def xs_def [symmetric] n_def [symmetric])
qed

section \<open>What is told about a file\<close>

definition life_cycle :: "swicc_fs_file \<Rightarrow> u8 option" where
  "life_cycle f =
     (let l = ih_lcs (hdr_item f) in
      if l = SWICC_FS_LCS_OPER_ACTIV then Some 0x05
      else if l = SWICC_FS_LCS_OPER_DEACTIV then Some 0x04
      else if l = SWICC_FS_LCS_TERM then Some 0x0C
      else None)"

definition record_count :: "swicc_fs_file \<Rightarrow> nat" where
  "record_count f = unat (data_size f) div unat (hdr_spec_rcrd_size f)"

definition file_descriptor :: "swicc_fs_file \<Rightarrow> bytes option" where
  "file_descriptor f =
     (let t = ih_type (hdr_item f) in
      if SWICC_FS_FILE_FOLDER_CHECK f then Some [0x38, 0x21]
      else if t = SWICC_FS_ITEM_TYPE_FILE_EF_TRANSPARENT then Some [0x09, 0x21]
      else if is_rcrd_type t \<and> record_count f \<le> 255 then
        Some ([if t = SWICC_FS_ITEM_TYPE_FILE_EF_LINEARFIXED then 0x0A else 0x0E, 0x21]
              @ be16 (ucast (hdr_spec_rcrd_size f)) @ [word_of_nat (record_count f)])
      else None)"

text \<open>The data object for a request, or nothing at all.\<close>

definition file_info :: "select_data_req \<Rightarrow> swicc_fs_file \<Rightarrow> bytes option" where
  "file_info data_req f =
     (if data_req = DATA_REQ_ABSENT then Some []
      else do { lcs \<leftarrow> life_cycle f; descr \<leftarrow> file_descriptor f; Some (ber_tlv (control_info data_req f lcs descr)) })"

lemma lcs_ok: "ih_type (hdr_item f) \<noteq> SWICC_FS_ITEM_TYPE_INVALID \<Longrightarrow> swicc_fs_file_lcs f None = (SWICC_RET_SUCCESS, life_cycle f)"
  by (simp add: swicc_fs_file_lcs_def life_cycle_def Let_def)

lemma file_descriptor_length: "file_descriptor f = Some d \<Longrightarrow> length d \<le> 5"
  by (auto simp: file_descriptor_def be16_def Let_def split: if_splits)

lemma replicate_5: "replicate 5 x = [x, x, x, x, x]"
  by (simp add: eval_nat_numeral)

lemma descr_ok:
  assumes "file_descriptor f = Some d" and "is_rcrd_type (ih_type (hdr_item f)) \<Longrightarrow> hdr_spec_rcrd_size f \<noteq> 0"
  shows "\<exists>buf n. swicc_fs_file_descr f (replicate SWICC_FS_FILE_DESCR_LEN_MAX 0) 0 = Some (SWICC_RET_SUCCESS, buf, n) \<and>
    take (unat n) buf = d"
proof (cases "is_rcrd_type (ih_type (hdr_item f))")
  case True
  have cnt: "unat (data_size f div ucast (hdr_spec_rcrd_size f)) = record_count f"
    by (simp add: record_count_def unat_div)
  have t: "ih_type (hdr_item f) = SWICC_FS_ITEM_TYPE_FILE_EF_LINEARFIXED \<or> ih_type (hdr_item f) = SWICC_FS_ITEM_TYPE_FILE_EF_CYCLIC"
    using True by (auto simp: is_rcrd_type_def)
  have d: "record_count f \<le> 255" "d = [if ih_type (hdr_item f) = SWICC_FS_ITEM_TYPE_FILE_EF_LINEARFIXED then 0x0A else 0x0E, 0x21]
      @ be16 (ucast (hdr_spec_rcrd_size f)) @ [word_of_nat (record_count f)]"
    using assms(1) True t by (auto simp: file_descriptor_def Let_def SWICC_FS_FILE_FOLDER_CHECK_def split: if_splits)
  have b: "(ucast (data_size f div ucast (hdr_spec_rcrd_size f)) :: u8) = word_of_nat (record_count f)"
    unfolding cnt [symmetric] by simp
  show ?thesis
    using t d(1) assms(2) [OF True] cnt b
    unfolding d(2) be16_put [symmetric]
    by (auto simp: swicc_fs_file_descr_def swicc_fs_file_descr_byte_def swicc_fs_file_data_coding_def
        swicc_disk_file_rcrd_cnt_def assert_ub_def rd_def wrn_def le16_put_def Let_def replicate_5)
next
  case False
  then show ?thesis
    using assms(1)
    by (auto simp: file_descriptor_def SWICC_FS_FILE_FOLDER_CHECK_def swicc_fs_file_descr_def swicc_fs_file_descr_byte_def
        swicc_fs_file_data_coding_def is_rcrd_type_def rd_def wrn_def Let_def replicate_5 split: if_splits)
qed

text \<open>All that is ever told fits into a short response.\<close>

lemma length_prim: "length (ber_tlv (Prim t d)) \<le> 8 + length d"
  using length_ber_hdr [of t "word_of_nat (length d)"] by simp

lemma fcp_length:
  assumes "length descr \<le> 5" and "length (hdr_spec f) = SWICC_FS_NAME_LEN"
  shows "length (ber_tlv (fcp f lcs descr)) \<le> 85"
proof -
  note l = length_prim [of "ctx_tag 2" descr] length_prim [of "ctx_tag 3" "be16 (fh_id (hdr_file f))"]
    length_prim [of "ctx_tag 10" "[lcs]"] length_prim [of "ctx_tag 8" "[fh_sid (hdr_file f)]"] length_prim [of "ctx_tag 0" "be32 (data_size f)"]
  have nm: "length (concat (map ber_tlv (case file_name f of None \<Rightarrow> [] | Some n \<Rightarrow> [Prim (ctx_tag 4) n]))) \<le> 24"
    using assms(2) length_prim [of "ctx_tag 4" "the (file_name f)"]
    by (auto simp: file_name_def hdr_spec_name_def hdr_spec_adf_rid_def hdr_spec_adf_pix_def Let_def simp del: ber_tlv.simps split: if_splits)
  have "length (concat (map ber_tlv (fcp_items f lcs descr))) \<le> 77"
    using l nm assms(1) by (simp add: fcp_items_def be16_def be32_def del: ber_tlv.simps)
  then show ?thesis
    using length_ber_hdr [of "app_tag 2" "word_of_nat (length (concat (map ber_tlv (fcp_items f lcs descr))))"]
    by (simp add: fcp_def Let_def)
qed

lemma control_length:
  assumes "length descr \<le> 5" and "length (hdr_spec f) = SWICC_FS_NAME_LEN"
  shows "length (ber_tlv (control_info data_req f lcs descr)) \<le> 101"
proof -
  have m: "length (ber_tlv fmd) \<le> 8" using length_ber_hdr [of "app_tag 4" 0] by (simp add: fmd_def)
  note l = fcp_length [OF assms, of lcs] m
    length_ber_hdr [of "app_tag 15" "word_of_nat (length (ber_tlv fmd @ ber_tlv (fcp f lcs descr)))"]
  show ?thesis using l by (simp add: control_info_def Let_def)
qed

section \<open>The exchange\<close>

text \<open>What the card answers, and the response buffer after it.\<close>

definition select_status :: "select_data_req \<Rightarrow> bytes \<Rightarrow> bytes" where
  "select_status data_req info = (if data_req = DATA_REQ_ABSENT then [0x90, 0x00] else [0x61, word_of_nat (length info)])"

lemma select_status_wire:
  "res_wire cmd (SWICC_APDUH_RES res SWICC_APDU_SW1_NORM_BYTES_AVAILABLE sw2 0) = Some [0x61, sw2]"
  by (simp add: status_wire)

lemma file_in_type:
  assumes "forest_repr d ns" and "file_in ns ti f"
  shows "ih_type (hdr_item f) \<noteq> SWICC_FS_ITEM_TYPE_INVALID"
  using file_in_kind(1) [OF assms] by (auto simp: SWICC_FS_FILE_FOLDER_CHECK_def SWICC_FS_FILE_EF_CHECK_def)

text \<open>What follows a selection of the file \<open>f\<close>.\<close>

lemma select_answer_ok:
  assumes fr: "forest_repr d ns" "file_in ns ti f" and cur: "va_cur_file (st_va s) = f"
    and req: "data_req \<in> {DATA_REQ_FCI, DATA_REQ_FCP, DATA_REQ_FMD, DATA_REQ_ABSENT}"
    and info: "file_info data_req f = Some info" and rc: "st_rc s = rc_zero" and r0: "data_ok (res_data res)"
    and rc': "rc' = (if data_req = DATA_REQ_ABSENT then rc_zero
      else snd (the (rc_enq rc_zero (info @ drop (length info) (data_b (res_data res))) (word_of_nat (length info)))))"
  shows "\<exists>res'. select_answer s res data_req = Some (SWICC_RET_SUCCESS, s\<lparr>st_rc := rc'\<rparr>, res') \<and> \<not> is_ack res' \<and>
    (\<forall>cmd. res_wire cmd res' = Some (select_status data_req info)) \<and> res_room res' = 2 \<and> data_len (res_data res') = 0 \<and>
    rc_wf rc' \<and> rc_content rc' = info"
proof (cases "data_req = DATA_REQ_ABSENT")
  case True
  then have "s\<lparr>st_rc := rc'\<rparr> = s" "info = []" using rc rc' info by (simp_all add: file_info_def)
  then show ?thesis using True rc'
    by (simp add: select_answer_def Let_def respond_def status_wire select_status_def)
next
  case False
  note kind = file_in_kind [OF fr]
  obtain lcs descr where l: "life_cycle f = Some lcs" "file_descriptor f = Some descr" and i: "info = ber_tlv (control_info data_req f lcs descr)"
    using info False by (auto simp: file_info_def bind_Some_iff)
  obtain buf n where descr: "swicc_fs_file_descr f (replicate SWICC_FS_FILE_DESCR_LEN_MAX 0) 0 = Some (SWICC_RET_SUCCESS, buf, n)"
    "take (unat n) buf = descr"
    using descr_ok [OF l(2)] kind(3) by blast
  have lcs: "swicc_fs_file_lcs f None = (SWICC_RET_SUCCESS, Some lcs)" using lcs_ok [OF file_in_type [OF fr]] l(1) by simp
  have len: "length info \<le> 101" unfolding i by (rule control_length [OF file_descriptor_length [OF l(2)] kind(2)])
  have rl: "length (data_b (res_data res)) = SWICC_DATA_MAX" using r0 by (simp add: data_ok_def)
  let ?b = "info @ drop (length info) (data_b (res_data res))"
  have enc: "select_bertlv data_req f lcs descr sel_tags (data_b (res_data res)) = Some (Some (?b, word_of_nat (length info)))"
    unfolding i by (rule select_bertlv_ok) (use req False len rl i in auto)
  obtain rc1 where rc1: "rc_enq rc_zero ?b (word_of_nat (length info)) = Some (SWICC_RET_SUCCESS, rc1)" "rc_wf rc1" "rc_content rc1 = info"
    using rc_enq_ok [OF rc_zero_wf(1), of info "drop (length info) (data_b (res_data res))"] len by auto
  have "rc' = rc1" using rc' rc1(1) False by simp
  moreover have "select_answer s res data_req = Some (SWICC_RET_SUCCESS, s\<lparr>st_rc := rc1\<rparr>,
      SWICC_APDUH_RES (res\<lparr>res_data := (res_data res)\<lparr>data_b := ?b\<rparr>\<rparr>) SWICC_APDU_SW1_NORM_BYTES_AVAILABLE (ucast (word_of_nat (length info) :: u32)) 0)"
    using False cur lcs descr enc rc1(1) rc
    by (simp add: select_answer_def sel_tags_created select_describe_def select_enqueue_def respond_def Let_def del: tags_create.simps)
  moreover have "(ucast (word_of_nat (length info) :: u32) :: u8) = word_of_nat (length info)"
    using len by (simp add: word_unat_eq_iff unat_of_nat unsigned_ucast_eq take_bit_eq_mod)
  ultimately show ?thesis
    using rc1 False by (simp add: status_wire select_status_def)
qed

lemma fid_get: "le16_get (be16 fid @ r) 0 = Some (htobe16 fid)"
  using le16_get_put [of "[]" "htobe16 fid" r] by (simp add: be16_put)

text \<open>The command, with the ID of the file as its data.\<close>

definition select_hdr :: "u8 \<Rightarrow> u8 \<Rightarrow> bytes" where
  "select_hdr c p2 = [c, 0xA4, 0, p2, 2]"

lemma select_acks:
  assumes cla: "cla_type (swicc_apdu_cmd_cla_parse c) = SWICC_APDU_CLA_TYPE_INTERINDUSTRY"
    and p2: "p2 AND 0xF0 = 0" and tx: "2 < unat tx"
  shows "acks H res0 tx (cmd_of (select_hdr c p2)) fs rc rc_zero (length (be16 fid))"
  unfolding acks_def
proof (intro allI impI)
  let ?cmd = "cmd_of (select_hdr c p2)"
  fix s assume w: "working SWICC_FSM_STATE_CMD_PROCEDURE 0 ?cmd fs rc s"
  then have s: "st_cmd s = ?cmd" "st_fs s = fs" by (simp_all add: working_def)
  let ?s = "s\<lparr>st_rc := rc_zero\<rparr>" and ?a = "SWICC_APDUH_RES res0 SWICC_APDU_SW1_PROC_ACK_ALL 0 2"
  have "apduh_func 0xA4 ?s res0 0 = Some (SWICC_RET_SUCCESS, ?s, ?a)"
    using s p2 by (simp add: apduh_func_def apduh_select_def cmd_of_def select_hdr_def data_zero_def Let_def)
  then have "swicc_apduh_demux H s res0 0 = Some (SWICC_RET_SUCCESS, ?s, ?a)"
    by (intro demux_func [OF w]) (simp_all add: cmd_of_def select_hdr_def cla)
  then show "\<exists>s' ack. swicc_apduh_demux H s res0 0 = Some (SWICC_RET_SUCCESS, s', ack) \<and>
      res_sw1 ack = SWICC_APDU_SW1_PROC_ACK_ALL \<and> res_sw2 ack = 0 \<and> data_len (res_data ack) = word_of_nat (length (be16 fid)) \<and>
      length (be16 fid) \<le> SWICC_DATA_MAX \<and> length (be16 fid) < unat tx \<and> st_cmd s' = ?cmd \<and> st_fs s' = fs \<and> st_rc s' = rc_zero"
    using tx s by (simp add: status_wire be16_def)
qed

lemma select_func:
  assumes s: "st_cmd s = cmd_with (cmd_of (select_hdr c p2)) (be16 fid)" and p2: "p2 AND 0xF0 = 0"
    and req: "select_p2 METH_MF_ADF_DF_EF p2 = data_req" "data_req \<noteq> DATA_REQ_RFU"
    and sel: "swicc_va_select_file_id (st_fs s) fid = Some (ret, fs')"
  shows "apduh_func 0xA4 s res 1 =
    (let s' = s\<lparr>st_fs := fs'\<rparr> in
     if ret = SWICC_RET_FS_NOT_FOUND then respond s' res SWICC_APDU_SW1_CHER_P1P2_INFO 0x82
     else if ret \<noteq> SWICC_RET_SUCCESS then respond s' res SWICC_APDU_SW1_CHER_UNK 0
     else select_answer s' res data_req)"
proof -
  have l: "length (be16 fid) = 2" by (simp add: be16_def)
  have "select_perform s METH_MF_ADF_DF_EF (p2_occ p2) = Some (ret, s\<lparr>st_fs := fs'\<rparr>)"
    using s sel by (simp add: select_perform_def cmd_with_def l fid_get Let_def)
  then show ?thesis
    using s p2 req l
    by (simp add: apduh_func_def apduh_select_def cmd_with_def cmd_of_def select_hdr_def select_p1_def Let_def)
qed

lemma select_id_exchange_run:
  assumes "pending [] st" and "unat tx \<le> length (st_buf_tx st)" and "data_ok (res_data res0)"
    and "cla_type (swicc_apdu_cmd_cla_parse c) = SWICC_APDU_CLA_TYPE_INTERINDUSTRY" and "2 < unat tx"
    and p2: "p2 AND 0xF0 = 0" "select_p2 METH_MF_ADF_DF_EF p2 = data_req"
    and ok: "fs_ok ns (st_fs st)" and found: "last_with_id fid (forest_files 0 ns) = Some (ti, f)"
    and info: "file_info data_req f = Some info"
  shows "\<exists>st'. exchange H res0 tx (select_hdr c p2) (be16 fid) st = Some ([0xA4], select_status data_req info, st') \<and>
    pending [] st' \<and> va_cur_tree (st_va st') = Some ti \<and> va_cur_file (st_va st') = f \<and> va_cur_rcrd (st_va st') = 0 \<and>
    st_disk st' = st_disk st \<and> fs_ok ns (st_fs st') \<and> rc_wf (st_rc st') \<and> rc_content (st_rc st') = info \<and>
    length (st_buf_tx st') = length (st_buf_tx st)"
proof -
  let ?cmd = "cmd_of (select_hdr c p2)"
  have fr: "forest_repr (st_disk st) ns" using ok by (simp add: fs_ok_def)
  note f = last_with_id_in [OF found fr]
  obtain v where v: "swicc_va_select_file_id (st_fs st) fid = Some (SWICC_RET_SUCCESS, (st_fs st)\<lparr>fs_va := v\<rparr>)" "va_ok ns v"
    "va_cur_tree v = Some ti" "va_cur_file v = f" "va_cur_rcrd v = 0"
    using va_select_file_ok [OF ok f(1)] select_id_run [OF ok, of fid] found by auto
  have "p2 AND 12 \<in> {0, 4, 8, 12}"
  proof -
    have "\<forall>p2 :: u8. p2 AND 12 \<in> {0, 4, 8, 12}" unfolding forall_u8 by code_simp
    then show ?thesis by blast
  qed
  then have req: "data_req \<in> {DATA_REQ_FCI, DATA_REQ_FCP, DATA_REQ_FMD, DATA_REQ_ABSENT}" and nrfu: "data_req \<noteq> DATA_REQ_RFU"
    using p2(2) by (auto simp: select_p2_def Let_def)
  define rc' where "rc' = (if data_req = DATA_REQ_ABSENT then rc_zero
      else snd (the (rc_enq rc_zero (info @ drop (length info) (data_b (res_data res0))) (word_of_nat (length info)))))"
  let ?fs' = "(st_fs st)\<lparr>fs_va := v\<rparr>"
  have h: "\<exists>res'. select_answer s res0 data_req = Some (SWICC_RET_SUCCESS, s\<lparr>st_rc := rc'\<rparr>, res') \<and> \<not> is_ack res' \<and>
      (\<forall>cmd. res_wire cmd res' = Some (select_status data_req info)) \<and> res_room res' = 2 \<and> data_len (res_data res') = 0 \<and>
      rc_wf rc' \<and> rc_content rc' = info" if "st_fs s = ?fs'" "st_rc s = rc_zero" for s
    using select_answer_ok [OF fr f(1) _ req info that(2) assms(3) rc'_def] that(1) v(4) by simp
  have rc': "rc_wf rc'" "rc_content rc' = info" using h [of "st\<lparr>st_fs := ?fs', st_rc := rc_zero\<rparr>"] by auto
  have "answers H res0 tx (cmd_with ?cmd (be16 fid)) (st_fs st) rc_zero (select_status data_req info) ?fs' rc'"
  proof (rule answers_run)
    fix s assume "working SWICC_FSM_STATE_CMD_PROCEDURE 1 (cmd_with ?cmd (be16 fid)) (st_fs st) rc_zero s"
    then have s: "st_cmd s = cmd_with ?cmd (be16 fid)" "st_fs s = st_fs st" "st_rc s = rc_zero" by (simp_all add: working_def)
    have "apduh_func (hdr_ins (cmd_hdr (cmd_with ?cmd (be16 fid)))) s res0 1 = select_answer (s\<lparr>st_fs := ?fs'\<rparr>) res0 data_req"
      using select_func [OF s(1) p2 nrfu, of SWICC_RET_SUCCESS ?fs' res0] v(1) s(2)
      by (simp add: cmd_with_def cmd_of_def select_hdr_def)
    with h [of "s\<lparr>st_fs := ?fs'\<rparr>"] show "\<exists>s' res. apduh_func (hdr_ins (cmd_hdr (cmd_with ?cmd (be16 fid)))) s res0 1 = Some (SWICC_RET_SUCCESS, s', res) \<and>
        \<not> is_ack res \<and> res_wire (st_cmd s') res = Some (select_status data_req info) \<and> res_room res \<le> unat tx \<and>
        unat (data_len (res_data res)) \<le> SWICC_DATA_MAX \<and> st_fs s' = ?fs' \<and> st_rc s' = rc'"
      using s(3) assms(5) by fastforce
  qed (simp_all add: cmd_of_def cmd_with_def select_hdr_def assms(4))
  from exchange_run [OF assms(1) _ _ assms(2,3) select_acks [OF assms(4) p2(1) assms(5)] this] v ok rc'
  show ?thesis by (auto simp: select_hdr_def be16_def fs_ok_def)
qed

text \<open>
  C4.  SELECT by file ID of a file that exists: the file becomes the current one (with its tree, and with the
  record pointer at the start), the disk is unchanged, and the response buffer holds the description of the
  file as a BER-TLV data object, complete, whose length the status word tells.
\<close>

theorem select_id_exchange:
  assumes "pending [] st" and "unat tx \<le> length (st_buf_tx st)" and "data_ok (res_data res0)"
    and "cla_type (swicc_apdu_cmd_cla_parse c) = SWICC_APDU_CLA_TYPE_INTERINDUSTRY" and "2 < unat tx"
    and "p2 AND 0xF0 = 0" and "select_p2 METH_MF_ADF_DF_EF p2 = data_req" and "fs_ok ns (st_fs st)"
    and "last_with_id fid (forest_files 0 ns) = Some (ti, f)" and "file_info data_req f = Some info"
  shows "\<exists>st'. exchange H res0 tx (select_hdr c p2) (be16 fid) st = Some ([0xA4], select_status data_req info, st') \<and>
    pending [] st' \<and> va_cur_tree (st_va st') = Some ti \<and> va_cur_file (st_va st') = f \<and> va_cur_rcrd (st_va st') = 0 \<and>
    st_disk st' = st_disk st \<and> fs_ok ns (st_fs st') \<and> rc_content (st_rc st') = info"
  using select_id_exchange_run [OF assms] by blast

text \<open>A card with the files of the example disk.\<close>

definition demo_sel :: "swicc_disk \<Rightarrow> swicc_st" where
  "demo_sel d = demo_ready\<lparr>st_fs := demo_fs d\<rparr>"

lemma demo_sel_facts:
  "pending [] (demo_sel d)" "length (st_buf_tx (demo_sel d)) = 64" "st_fs (demo_sel d) = demo_fs d"
  using demo_ready_pending by (simp_all add: demo_sel_def pending_fs demo_ready_def demo_card_def)

text \<open>The control parameters of a cyclic file with two records of two bytes.\<close>

definition demo_fcp :: bytes where
  "demo_fcp = [0x62, 0x17, 0x82, 5, 0x0E, 0x21, 0, 2, 2, 0x83, 2, 0x6F, 1, 0x8A, 1, 5, 0x88, 1, 1, 0x80, 4, 0, 0, 0, 4]"

lemma demo_info: "file_info DATA_REQ_FCP demo_ef = Some demo_fcp"
  unfolding demo_fcp_def by code_simp

lemma demo_p2: "select_p2 METH_MF_ADF_DF_EF 4 = DATA_REQ_FCP" "(4 :: u8) AND 0xF0 = 0"
  by code_simp+

theorem select_id_exchange_witness:
  "\<exists>d st'. exchange (\<lambda>_. apduh_unk) demo_res 64 (select_hdr 0 4) (be16 0x6F01) (demo_sel d) = Some ([0xA4], [0x61, 25], st') \<and>
     va_cur_file (st_va st') = demo_ef \<and> rc_content (st_rc st') = demo_fcp"
proof -
  obtain d where d: "fs_ok [demo_mf] (demo_fs d)" using demo_fs_ok by blast
  show ?thesis
    using select_id_exchange [OF demo_sel_facts(1) _ demo_bin_facts(5) cla_00 _ demo_p2(2,1) _ demo_last demo_info, of 64 d "\<lambda>_. apduh_unk"]
      demo_sel_facts(2,3) d
    by (auto simp: select_status_def demo_fcp_def)
qed

text \<open>
  C30.  SELECT of a file ID that no file has: the card reports that the file was not found and changes nothing, but
  it is left with an empty response buffer.
\<close>

theorem select_missing_exchange:
  assumes "pending [] st" and "unat tx \<le> length (st_buf_tx st)" and "data_ok (res_data res0)"
    and "cla_type (swicc_apdu_cmd_cla_parse c) = SWICC_APDU_CLA_TYPE_INTERINDUSTRY" and "2 < unat tx"
    and p2: "p2 AND 0xF0 = 0" "select_p2 METH_MF_ADF_DF_EF p2 \<noteq> DATA_REQ_RFU" and ok: "fs_ok ns (st_fs st)"
    and none: "last_with_id fid (forest_files 0 ns) = None"
  shows "\<exists>st'. exchange H res0 tx (select_hdr c p2) (be16 fid) st = Some ([0xA4], [0x6A, 0x82], st') \<and>
    pending [] st' \<and> st_fs st' = st_fs st \<and> st_rc st' = rc_zero"
proof -
  let ?cmd = "cmd_of (select_hdr c p2)"
  have "answers H res0 tx (cmd_with ?cmd (be16 fid)) (st_fs st) rc_zero [0x6A, 0x82] (st_fs st) rc_zero"
  proof (rule answers_run)
    fix s assume "working SWICC_FSM_STATE_CMD_PROCEDURE 1 (cmd_with ?cmd (be16 fid)) (st_fs st) rc_zero s"
    then have s: "st_cmd s = cmd_with ?cmd (be16 fid)" "st_fs s = st_fs st" "st_rc s = rc_zero" by (simp_all add: working_def)
    have same: "s\<lparr>st_fs := st_fs st\<rparr> = s" using s(2) by simp
    have "apduh_func (hdr_ins (cmd_hdr (cmd_with ?cmd (be16 fid)))) s res0 1 = respond s res0 SWICC_APDU_SW1_CHER_P1P2_INFO 0x82"
      using select_func [OF s(1) p2(1) refl p2(2), of SWICC_RET_FS_NOT_FOUND "st_fs st" res0] select_id_run [OF ok, of fid] none s(2) same
      by (simp add: cmd_with_def cmd_of_def select_hdr_def)
    then show "\<exists>s' res. apduh_func (hdr_ins (cmd_hdr (cmd_with ?cmd (be16 fid)))) s res0 1 = Some (SWICC_RET_SUCCESS, s', res) \<and>
        \<not> is_ack res \<and> res_wire (st_cmd s') res = Some [0x6A, 0x82] \<and> res_room res \<le> unat tx \<and>
        unat (data_len (res_data res)) \<le> SWICC_DATA_MAX \<and> st_fs s' = st_fs st \<and> st_rc s' = rc_zero"
      using s assms(5) by (simp add: respond_def status_wire)
  qed (simp_all add: cmd_of_def cmd_with_def select_hdr_def assms(4))
  from exchange_run [OF assms(1) _ _ assms(2,3) select_acks [OF assms(4) p2(1) assms(5)] this]
  show ?thesis by (auto simp: select_hdr_def be16_def)
qed

theorem select_missing_exchange_witness:
  "\<exists>d st'. exchange (\<lambda>_. apduh_unk) demo_res 64 (select_hdr 0 4) (be16 0x1234) (demo_sel d) = Some ([0xA4], [0x6A, 0x82], st') \<and>
     st_fs st' = demo_fs d"
proof -
  obtain d where d: "fs_ok [demo_mf] (demo_fs d)" using demo_fs_ok by blast
  have none: "last_with_id 0x1234 (forest_files 0 [demo_mf]) = None"
    by (simp add: last_with_id_def demo_mf_def demo_files_def demo_hdr_def visits_def file_of_def Let_def)
  show ?thesis
    using select_missing_exchange [OF demo_sel_facts(1) _ demo_bin_facts(5) cla_00 _ demo_p2(2) _ _ none, of 64 d "\<lambda>_. apduh_unk"]
      demo_sel_facts(2,3) d demo_p2(1)
    by auto
qed

lemma select_then_get_run:
  assumes "pending [] st" and "unat tx \<le> length (st_buf_tx st)" and "data_ok (res_data res0)"
    and "cla_type (swicc_apdu_cmd_cla_parse c) = SWICC_APDU_CLA_TYPE_INTERINDUSTRY" and "128 \<le> unat tx"
    and "p2 AND 0xF0 = 0" and "select_p2 METH_MF_ADF_DF_EF p2 = data_req" and "data_req \<noteq> DATA_REQ_ABSENT"
    and "fs_ok ns (st_fs st)" and "last_with_id fid (forest_files 0 ns) = Some (ti, f)" and "file_info data_req f = Some info"
  shows "\<exists>st1 st2. exchange H res0 tx (select_hdr c p2) (be16 fid) st = Some ([0xA4], [0x61, word_of_nat (length info)], st1) \<and>
    exchange H res0 tx [c, 0xC0, 0, 0, word_of_nat (length info)] [] st1 = Some ([0xC0], info @ [0x90, 0x00], st2) \<and>
    rc_content (st_rc st2) = [] \<and> va_cur_file (st_va st2) = f"
proof -
  have fr: "forest_repr (st_disk st) ns" using assms(9) by (simp add: fs_ok_def)
  note f = last_with_id_in [OF assms(10) fr]
  obtain lcs descr where l: "file_descriptor f = Some descr" and i: "info = ber_tlv (control_info data_req f lcs descr)"
    using assms(8,11) by (auto simp: file_info_def bind_Some_iff)
  have len: "length info \<le> 101" unfolding i by (rule control_length [OF file_descriptor_length [OF l] file_in_kind(2) [OF fr f(1)]])
  have pos: "info \<noteq> []"
    using length_ber_len(1) length_ber_tag(1) unfolding i
    by (auto simp: control_info_def fcp_def fmd_def ber_hdr_def Let_def ber_len_def)
  define n :: u8 where "n = word_of_nat (length info)"
  have n: "unat n = length info" unfolding n_def by (rule unat_of_nat_u8) (use len in simp)
  obtain st1 where st1: "exchange H res0 tx (select_hdr c p2) (be16 fid) st = Some ([0xA4], [0x61, n], st1)"
    "pending [] st1" "va_cur_file (st_va st1) = f" "rc_wf (st_rc st1)" "rc_content (st_rc st1) = info"
    "length (st_buf_tx st1) = length (st_buf_tx st)"
    using select_id_exchange_run [OF assms(1-4) _ assms(6,7,9-11), of H] assms(5,8) by (auto simp: select_status_def n_def)
  have tx: "unat tx \<le> length (st_buf_tx st1)" "unat n + 2 \<le> unat tx" using st1(6) assms(2,5) n len by simp_all
  obtain st2 where st2: "exchange H res0 tx [c, 0xC0, 0, 0, n] [] st1 = Some ([0xC0], get_answer info (unat n), st2)"
    "st_fs st2 = st_fs st1" "rc_content (st_rc st2) = get_left info (unat n)"
    using get_response_run [OF st1(2) tx(1) assms(3,4) st1(4) tx(2), of H] st1(5) by auto
  have "get_answer info (unat n) = info @ [0x90, 0x00]" "get_left info (unat n) = []"
    using n pos by (simp_all add: get_answer_def get_left_def)
  with st1 st2 show ?thesis by (auto simp: n_def)
qed

text \<open>
  C16.  SELECT and then GET RESPONSE with the length that the status word told: the second exchange brings exactly
  the description of the selected file, with the status word 9000, and empties the response buffer; the
  file stays selected.
\<close>

theorem select_then_get_response:
  assumes "pending [] st" and "unat tx \<le> length (st_buf_tx st)" and "data_ok (res_data res0)"
    and "cla_type (swicc_apdu_cmd_cla_parse c) = SWICC_APDU_CLA_TYPE_INTERINDUSTRY" and "128 \<le> unat tx"
    and "p2 AND 0xF0 = 0" and "select_p2 METH_MF_ADF_DF_EF p2 = data_req" and "data_req \<noteq> DATA_REQ_ABSENT"
    and "fs_ok ns (st_fs st)" and "last_with_id fid (forest_files 0 ns) = Some (ti, f)" and "file_info data_req f = Some info"
  shows "\<exists>st1 st2. exchange H res0 tx (select_hdr c p2) (be16 fid) st = Some ([0xA4], [0x61, word_of_nat (length info)], st1) \<and>
    exchange H res0 tx [c, 0xC0, 0, 0, word_of_nat (length info)] [] st1 = Some ([0xC0], info @ [0x90, 0x00], st2) \<and>
    rc_content (st_rc st2) = [] \<and> va_cur_file (st_va st2) = f"
  by (rule select_then_get_run) (fact assms)+

definition demo_sel_128 :: "swicc_disk \<Rightarrow> swicc_st" where
  "demo_sel_128 d = (demo_sel d)\<lparr>st_buf_tx := replicate 128 0\<rparr>"

theorem select_then_get_response_witness:
  "\<exists>d st1 st2. exchange (\<lambda>_. apduh_unk) demo_res 128 (select_hdr 0 4) (be16 0x6F01) (demo_sel_128 d) = Some ([0xA4], [0x61, 25], st1) \<and>
     exchange (\<lambda>_. apduh_unk) demo_res 128 [0, 0xC0, 0, 0, 25] [] st1 = Some ([0xC0], demo_fcp @ [0x90, 0x00], st2)"
proof -
  obtain d where d: "fs_ok [demo_mf] (demo_fs d)" using demo_fs_ok by blast
  have p: "pending [] (demo_sel_128 d)" "length (st_buf_tx (demo_sel_128 d)) = 128" "st_fs (demo_sel_128 d) = demo_fs d"
    using demo_sel_facts(1,3) [of d] by (simp_all add: demo_sel_128_def pending_def card_wf_def no_ext_def demo_sel_def demo_ready_def demo_card_def)
  show ?thesis
    using select_then_get_response [OF p(1) _ demo_bin_facts(5) cla_00 _ demo_p2(2,1) _ _ demo_last demo_info, of 128 "\<lambda>_. apduh_unk"] p(2,3) d
    by (auto simp: demo_fcp_def)
qed

end
