(* ===== verification/Swicc_Diskjs.thy ===== *)
theory Swicc_Diskjs
  imports Complex_Main Swicc_Encoders Swicc_Disk_Tables
begin

text \<open>
  \<^verbatim>\<open>src/fs/diskjs.c\<close>: creating a disk from its description as a JSON document.

  The JSON library is not part of the program.  What the code calls of it is the record \<open>cjson\<close>, a
  parameter of the model: the kind of a value, the member of an object with a given name, the elements of
  an array in their order, the string and the number of a value, and the parser.  Recursion over a
  document, whose depth is not bounded by the code, is bounded by a fuel \<open>k\<close>.

  A parser of an item gets the memory from its buffer on and the announced length of the buffer, and gives
  a return code, the memory afterwards and the length afterwards.  Messages to \<^verbatim>\<open>stderr\<close> are left out.
\<close>

section \<open>The JSON library\<close>

datatype js_kind = Js_Null | Js_Bool | Js_Number | Js_String | Js_Array | Js_Object

record 'j cjson =
  cj_kind :: "'j \<Rightarrow> js_kind"
  cj_item :: "'j \<Rightarrow> string \<Rightarrow> 'j option"
  cj_elems :: "'j \<Rightarrow> 'j list"
  cj_string :: "'j \<Rightarrow> bytes option"
  cj_number :: "'j \<Rightarrow> rat"
  cj_parse :: "bytes \<Rightarrow> 'j option"

text \<open>The conversion of a number to an unsigned type of \<open>w\<close> bits, undefined when it does not fit.\<close>

definition js_uint :: "nat \<Rightarrow> rat \<Rightarrow> nat option" where
  "js_uint w x = do {
     assert_ub (- 1 < x \<and> x < 2 ^ w);
     Some (nat \<lfloor>x\<rfloor>) }"

definition ascii :: "string \<Rightarrow> bytes" where
  "ascii s = map of_char s"

section \<open>Common parts of the parsers\<close>

type_synonym prs_res = "(swicc_ret \<times> bytes \<times> u32) option"

type_synonym 'j jsitem_prs_ft = "'j \<Rightarrow> u32 \<Rightarrow> bytes \<Rightarrow> u32 \<Rightarrow> prs_res"

text \<open>Parsing into the buffer that starts \<open>n\<close> bytes further.\<close>

definition in_sub :: "nat \<Rightarrow> (bytes \<Rightarrow> prs_res) \<Rightarrow> bytes \<Rightarrow> prs_res" where
  "in_sub n f buf = do {
     assert_ub (n \<le> length buf);
     (ret, b, len) \<leftarrow> f (drop n buf);
     Some (ret, take n buf @ b, len) }"

definition item_type_str :: "(string \<times> swicc_fs_item_type) list" where
  "item_type_str =
     [(''file_mf'', SWICC_FS_ITEM_TYPE_FILE_MF),
      (''file_adf'', SWICC_FS_ITEM_TYPE_FILE_ADF),
      (''file_df'', SWICC_FS_ITEM_TYPE_FILE_DF),
      (''file_ef_transparent'', SWICC_FS_ITEM_TYPE_FILE_EF_TRANSPARENT),
      (''file_ef_linear-fixed'', SWICC_FS_ITEM_TYPE_FILE_EF_LINEARFIXED),
      (''file_ef_cyclic'', SWICC_FS_ITEM_TYPE_FILE_EF_CYCLIC),
      (''dato_ber-tlv'', SWICC_FS_ITEM_TYPE_DATO_BERTLV),
      (''hex'', SWICC_FS_ITEM_TYPE_HEX),
      (''ascii'', SWICC_FS_ITEM_TYPE_ASCII)]"

abbreviation DISK_SIZE_START :: nat where "DISK_SIZE_START \<equiv> 4096"
abbreviation DISK_SIZE_RESIZE :: u32 where "DISK_SIZE_RESIZE \<equiv> 4096"

text \<open>The length is the one cast to 16 bits; the return code is always a success.\<close>

definition jsitem_prs_type_str :: "bytes \<Rightarrow> u16 \<Rightarrow> swicc_fs_item_type" where
  "jsitem_prs_type_str type_str type_str_len =
     (case find (\<lambda>(s, t). unat type_str_len = length s \<and> take (length s) type_str = ascii s) item_type_str of
        None \<Rightarrow> SWICC_FS_ITEM_TYPE_INVALID
      | Some (s, t) \<Rightarrow> t)"

text \<open>
  A member that is a string of hex digits for exactly \<open>n\<close> bytes: \<open>Inl\<close> a failure, \<open>Inr\<close> the bytes, or
  nothing when there is no such member.  When the library has no string for a string value, the message
  about the wrong length computes the length of \<^verbatim>\<open>NULL\<close>.
\<close>

definition hex_member :: "'j cjson \<Rightarrow> 'j \<Rightarrow> string \<Rightarrow> nat \<Rightarrow> (unit + bytes option) option" where
  "hex_member J item key n = (case cj_item J item key of
     None \<Rightarrow> Some (Inr None)
   | Some obj \<Rightarrow>
       if cj_kind J obj = Js_String then do {
         s \<leftarrow> cj_string J obj;
         if length s = n * 2 then do {
           (ret, arr, len) \<leftarrow> swicc_hexstr_bytearr s (word_of_nat (n * 2)) (replicate n 0) (word_of_nat n);
           Some (if ret = SWICC_RET_SUCCESS \<and> unat len = n then Inr (Some arr) else Inl ()) }
         else Some (Inl ()) }
       else Some (Inr None))"

text \<open>The raw header of a file at the start of the buffer: cleared, then ID, short ID and offset.\<close>

definition jsitem_prs_file_raw :: "'j cjson \<Rightarrow> 'j \<Rightarrow> u32 \<Rightarrow> bytes \<Rightarrow> (swicc_ret \<times> bytes) option" where
  "jsitem_prs_file_raw J item offset_prel buf =
     (if cj_kind J item \<noteq> Js_Object then Some (SWICC_RET_ERROR, buf)
      else do {
        b0 \<leftarrow> wrn buf 0 (replicate file_raw_size 0);
        id \<leftarrow> hex_member J item ''id'' 2;
        (ret_id, b1) \<leftarrow> (case id of
            Inl _ \<Rightarrow> Some (SWICC_RET_ERROR, b0)
          | Inr None \<Rightarrow> do { b \<leftarrow> wrn b0 10 (le16_put SWICC_FS_ID_MISSING); Some (SWICC_RET_SUCCESS, b) }
          | Inr (Some arr) \<Rightarrow> do {
              id \<leftarrow> le16_get arr 0;
              b \<leftarrow> wrn b0 10 (le16_put (htobe16 id));
              Some (SWICC_RET_SUCCESS, b) });
        sid \<leftarrow> hex_member J item ''sid'' 1;
        (ret_sid, b2) \<leftarrow> (case sid of
            Inl _ \<Rightarrow> Some (SWICC_RET_ERROR, b1)
          | Inr None \<Rightarrow> do { b \<leftarrow> wrn b1 12 [SWICC_FS_SID_MISSING]; Some (SWICC_RET_SUCCESS, b) }
          | Inr (Some arr) \<Rightarrow> do { b \<leftarrow> wrn b1 12 (take 1 arr); Some (SWICC_RET_SUCCESS, b) });
        if ret_id = SWICC_RET_SUCCESS \<and> ret_sid = SWICC_RET_SUCCESS then do {
          b3 \<leftarrow> wrn b2 4 (le32_put offset_prel);
          Some (SWICC_RET_SUCCESS, b3) }
        else Some (SWICC_RET_ERROR, b2) })"

text \<open>The type, the life cycle status and the size of a file that has been parsed.\<close>

definition file_done :: "swicc_fs_item_type \<Rightarrow> u32 \<Rightarrow> bytes \<Rightarrow> prs_res" where
  "file_done t sz buf = do {
     b1 \<leftarrow> wrn buf 8 [item_type_raw t, 0];
     b2 \<leftarrow> wrn b1 0 (le32_put sz);
     Some (SWICC_RET_SUCCESS, b2, sz) }"

section \<open>Folders\<close>

text \<open>
  The return code of the last item is not initialised before the loop over the items; the guard on the
  offset is a 32-bit sum compared with \<^verbatim>\<open>UINT32_MAX\<close> and never true.
\<close>

fun folder_loop :: "'j jsitem_prs_ft \<Rightarrow> 'j list \<Rightarrow> u32 \<Rightarrow> u32 \<Rightarrow> u32 \<Rightarrow> swicc_ret option \<Rightarrow> bytes \<Rightarrow>
    (swicc_ret option \<times> bytes \<times> u32) option" where
  "folder_loop demux [] offset_prel buf_len items_len ret_item buf = Some (ret_item, buf, items_len)"
| "folder_loop demux (item # items) offset_prel buf_len items_len ret_item buf = do {
     (ret, b, item_size) \<leftarrow> in_sub (unat items_len)
       (\<lambda>b. demux item (offset_prel + items_len) b (buf_len - items_len)) buf;
     if ret \<noteq> SWICC_RET_SUCCESS then Some (Some ret, b, items_len)
     else folder_loop demux items offset_prel buf_len (items_len + item_size) (Some ret) b }"

definition jsitem_prs_file_folder :: "'j cjson \<Rightarrow> 'j jsitem_prs_ft \<Rightarrow> 'j jsitem_prs_ft" where
  "jsitem_prs_file_folder J demux item offset_prel buf buf_len =
     (if cj_kind J item \<noteq> Js_Object then Some (SWICC_RET_PARAM_BAD, buf, buf_len)
      else (case cj_item J item ''contents'' of
        None \<Rightarrow> Some (SWICC_RET_ERROR, buf, buf_len)
      | Some contents \<Rightarrow>
          if cj_kind J contents = Js_Null then Some (SWICC_RET_SUCCESS, buf, 0)
          else if cj_kind J contents = Js_Array then do {
            (ret_item, b, items_len) \<leftarrow> folder_loop demux (cj_elems J contents) offset_prel buf_len 0 None buf;
            ret_item \<leftarrow> ret_item;
            if ret_item = SWICC_RET_SUCCESS \<and> buf_len \<ge> items_len then Some (SWICC_RET_SUCCESS, b, items_len)
            else if buf_len < items_len \<and> ret_item \<noteq> SWICC_RET_BUFFER_TOO_SHORT then Some (SWICC_RET_ERROR, b, buf_len)
            else Some (ret_item, b, buf_len) }
          else Some (SWICC_RET_ERROR, buf, buf_len)))"

text \<open>The part that ADF and DF share: the header of the file, its contents and its type.\<close>

definition folder_rest :: "'j cjson \<Rightarrow> 'j jsitem_prs_ft \<Rightarrow> swicc_fs_item_type \<Rightarrow> 'j jsitem_prs_ft" where
  "folder_rest J demux t item offset_prel buf buf_len = do {
     (ret, b1) \<leftarrow> jsitem_prs_file_raw J item offset_prel buf;
     if ret \<noteq> SWICC_RET_SUCCESS then Some (ret, b1, buf_len)
     else do {
       let hdr_size = swicc_fs_item_hdr_raw_size t;
       (ret, b2, items_len) \<leftarrow> in_sub (unat hdr_size)
         (\<lambda>b. jsitem_prs_file_folder J demux item hdr_size b (buf_len - hdr_size)) b1;
       if ret \<noteq> SWICC_RET_SUCCESS then Some (ret, b2, buf_len)
       else file_done t (hdr_size + items_len) b2 } }"

definition jsitem_prs_file_adf :: "'j cjson \<Rightarrow> 'j jsitem_prs_ft \<Rightarrow> 'j jsitem_prs_ft" where
  "jsitem_prs_file_adf J demux item offset_prel buf buf_len =
     (if cj_kind J item \<noteq> Js_Object then Some (SWICC_RET_PARAM_BAD, buf, buf_len)
      else (case cj_item J item ''name'' of
        None \<Rightarrow> Some (SWICC_RET_ERROR, buf, buf_len)
      | Some aid_obj \<Rightarrow>
          if cj_kind J aid_obj \<noteq> Js_Object then Some (SWICC_RET_ERROR, buf, buf_len)
          else if buf_len < swicc_fs_item_hdr_raw_size SWICC_FS_ITEM_TYPE_FILE_ADF
          then Some (SWICC_RET_BUFFER_TOO_SHORT, buf, buf_len)
          else do {
            b0 \<leftarrow> wrn buf file_raw_size (replicate SWICC_FS_NAME_LEN 0);
            (ret, b1, aid_len) \<leftarrow> in_sub file_raw_size (\<lambda>b. demux aid_obj 0 b (word_of_nat SWICC_FS_NAME_LEN)) b0;
            if ret \<noteq> SWICC_RET_SUCCESS then Some (ret, b1, buf_len)
            else if unat aid_len < SWICC_FS_ADF_AID_RID_LEN then Some (SWICC_RET_ERROR, b1, buf_len)
            else folder_rest J demux SWICC_FS_ITEM_TYPE_FILE_ADF item offset_prel b1 buf_len }))"

definition jsitem_prs_file_df :: "'j cjson \<Rightarrow> 'j jsitem_prs_ft \<Rightarrow> 'j jsitem_prs_ft" where
  "jsitem_prs_file_df J demux item offset_prel buf buf_len =
     (if cj_kind J item \<noteq> Js_Object then Some (SWICC_RET_PARAM_BAD, buf, buf_len)
      else (case cj_item J item ''name'' of
        None \<Rightarrow> Some (SWICC_RET_ERROR, buf, buf_len)
      | Some name_obj \<Rightarrow>
          if cj_kind J name_obj \<noteq> Js_Object then Some (SWICC_RET_ERROR, buf, buf_len)
          else if buf_len < swicc_fs_item_hdr_raw_size SWICC_FS_ITEM_TYPE_FILE_DF
          then Some (SWICC_RET_BUFFER_TOO_SHORT, buf, buf_len)
          else do {
            b0 \<leftarrow> wrn buf file_raw_size (replicate SWICC_FS_NAME_LEN 0);
            (ret, b1, _) \<leftarrow> in_sub file_raw_size (\<lambda>b. demux name_obj 0 b (word_of_nat SWICC_FS_NAME_LEN)) b0;
            if ret \<noteq> SWICC_RET_SUCCESS then Some (ret, b1, buf_len)
            else folder_rest J demux SWICC_FS_ITEM_TYPE_FILE_DF item offset_prel b1 buf_len }))"

text \<open>A parser whose file gets another type in the end.\<close>

definition with_type :: "swicc_fs_item_type \<Rightarrow> prs_res \<Rightarrow> prs_res" where
  "with_type t res = do {
     (ret, b, len) \<leftarrow> res;
     if ret = SWICC_RET_SUCCESS then do { b' \<leftarrow> wrn b 8 [item_type_raw t]; Some (ret, b', len) }
     else Some (ret, b, len) }"

definition jsitem_prs_file_mf :: "'j cjson \<Rightarrow> 'j jsitem_prs_ft \<Rightarrow> 'j jsitem_prs_ft" where
  "jsitem_prs_file_mf J demux item offset_prel buf buf_len =
     (if cj_kind J item \<noteq> Js_Object then Some (SWICC_RET_PARAM_BAD, buf, buf_len)
      else with_type SWICC_FS_ITEM_TYPE_FILE_MF (jsitem_prs_file_df J demux item offset_prel buf buf_len))"

section \<open>Elementary files\<close>

definition jsitem_prs_file_ef_transparent :: "'j cjson \<Rightarrow> 'j jsitem_prs_ft \<Rightarrow> 'j jsitem_prs_ft" where
  "jsitem_prs_file_ef_transparent J demux item offset_prel buf buf_len =
     (let hdr_len = swicc_fs_item_hdr_raw_size SWICC_FS_ITEM_TYPE_FILE_EF_TRANSPARENT in
      if cj_kind J item \<noteq> Js_Object then Some (SWICC_RET_PARAM_BAD, buf, buf_len)
      else if buf_len < hdr_len then Some (SWICC_RET_BUFFER_TOO_SHORT, buf, buf_len)
      else do {
        (ret, b1) \<leftarrow> jsitem_prs_file_raw J item offset_prel buf;
        if ret \<noteq> SWICC_RET_SUCCESS then Some (ret, b1, buf_len)
        else do {
          (ret_data, b2, contents_len) \<leftarrow> (case cj_item J item ''contents'' of
              None \<Rightarrow> Some (SWICC_RET_ERROR, b1, buf_len - hdr_len)
            | Some contents \<Rightarrow>
                if cj_kind J contents = Js_Object
                then in_sub (unat hdr_len) (\<lambda>b. demux contents hdr_len b (buf_len - hdr_len)) b1
                else if cj_kind J contents = Js_Null then Some (SWICC_RET_SUCCESS, b1, 0)
                else Some (SWICC_RET_ERROR, b1, buf_len - hdr_len));
          if ret_data = SWICC_RET_SUCCESS
          then file_done SWICC_FS_ITEM_TYPE_FILE_EF_TRANSPARENT (hdr_len + contents_len) b2
          else Some (ret_data, b2, buf_len) } })"

text \<open>The loop over the records; an item that is longer than a record has been written already.\<close>

fun rcrd_loop :: "'j jsitem_prs_ft \<Rightarrow> 'j list \<Rightarrow> u32 \<Rightarrow> u8 \<Rightarrow> u32 \<Rightarrow> u32 \<Rightarrow> bytes \<Rightarrow> (swicc_ret \<times> bytes \<times> u32) option" where
  "rcrd_loop demux [] hdr_len rcrd_size buf_len contents_len buf = Some (SWICC_RET_SUCCESS, buf, contents_len)"
| "rcrd_loop demux (item # items) hdr_len rcrd_size buf_len contents_len buf =
     (let pos = hdr_len + contents_len in
      if pos + ucast rcrd_size > buf_len then Some (SWICC_RET_BUFFER_TOO_SHORT, buf, contents_len)
      else do {
        b1 \<leftarrow> wrn buf (unat pos) (replicate (unat rcrd_size) 0xFF);
        (ret, b2, item_size) \<leftarrow> in_sub (unat pos) (\<lambda>b. demux item pos b (buf_len - pos)) b1;
        if ret \<noteq> SWICC_RET_SUCCESS \<or> item_size > ucast rcrd_size then Some (SWICC_RET_ERROR, b2, contents_len)
        else rcrd_loop demux items hdr_len rcrd_size buf_len (contents_len + ucast rcrd_size) b2 })"

definition jsitem_prs_file_ef_linearfixed :: "'j cjson \<Rightarrow> 'j jsitem_prs_ft \<Rightarrow> 'j jsitem_prs_ft" where
  "jsitem_prs_file_ef_linearfixed J demux item offset_prel buf buf_len =
     (let hdr_len = swicc_fs_item_hdr_raw_size SWICC_FS_ITEM_TYPE_FILE_EF_LINEARFIXED in
      if cj_kind J item \<noteq> Js_Object then Some (SWICC_RET_PARAM_BAD, buf, buf_len)
      else if buf_len < hdr_len then Some (SWICC_RET_BUFFER_TOO_SHORT, buf, buf_len)
      else do {
        (ret, b1) \<leftarrow> jsitem_prs_file_raw J item offset_prel buf;
        if ret \<noteq> SWICC_RET_SUCCESS then Some (ret, b1, buf_len)
        else (case cj_item J item ''rcrd_size'' of
          None \<Rightarrow> Some (SWICC_RET_SUCCESS, b1, buf_len)
        | Some rcrd_size_obj \<Rightarrow>
            if cj_kind J rcrd_size_obj \<noteq> Js_Number then Some (SWICC_RET_SUCCESS, b1, buf_len)
            else do {
              rcrd_size \<leftarrow> js_uint 64 (cj_number J rcrd_size_obj);
              if rcrd_size > 255 then Some (SWICC_RET_ERROR, b1, buf_len)
              else do {
                b2 \<leftarrow> wrn b1 file_raw_size [word_of_nat rcrd_size];
                (ret_item, b3, contents_len) \<leftarrow> (case cj_item J item ''contents'' of
                    None \<Rightarrow> Some (SWICC_RET_ERROR, b2, 0)
                  | Some contents \<Rightarrow>
                      if cj_kind J contents = Js_Null then Some (SWICC_RET_SUCCESS, b2, 0)
                      else if cj_kind J contents = Js_Array then do {
                        (ret, b, contents_len) \<leftarrow> rcrd_loop demux (cj_elems J contents) hdr_len (word_of_nat rcrd_size) buf_len 0 b2;
                        Some (if hdr_len + contents_len > buf_len then SWICC_RET_BUFFER_TOO_SHORT else ret, b, contents_len) }
                      else Some (SWICC_RET_ERROR, b2, 0));
                if ret_item = SWICC_RET_SUCCESS
                then file_done SWICC_FS_ITEM_TYPE_FILE_EF_LINEARFIXED (hdr_len + contents_len) b3
                else Some (ret_item, b3, buf_len) } }) })"

definition jsitem_prs_file_ef_cyclic :: "'j cjson \<Rightarrow> 'j jsitem_prs_ft \<Rightarrow> 'j jsitem_prs_ft" where
  "jsitem_prs_file_ef_cyclic J demux item offset_prel buf buf_len =
     (if cj_kind J item \<noteq> Js_Object then Some (SWICC_RET_PARAM_BAD, buf, buf_len)
      else with_type SWICC_FS_ITEM_TYPE_FILE_EF_CYCLIC (jsitem_prs_file_ef_linearfixed J demux item offset_prel buf buf_len))"

section \<open>BER-TLV data objects\<close>

text \<open>
  The inner option is the failure that \<^verbatim>\<open>prs_bertlv\<close> reports as an error, the outer one an undefined
  result.  The elements of a constructed data object are encoded from the last to the first; an empty array
  of elements leaves the return code at its initial error.
\<close>

fun prs_bertlv_loop :: "('j \<Rightarrow> enc_mem \<Rightarrow> enc_mem option option) \<Rightarrow> 'j list \<Rightarrow> enc_mem \<Rightarrow> enc_mem option option" where
  "prs_bertlv_loop prs [] em = Some (Some em)"
| "prs_bertlv_loop prs (j # js) em = and_then (prs j em) (prs_bertlv_loop prs js)"

definition bertlv_cla :: "nat \<Rightarrow> swicc_dato_bertlv_tag_cla" where
  "bertlv_cla n =
     (if n = 0 then SWICC_DATO_BERTLV_TAG_CLA_UNIVERSAL
      else if n = 1 then SWICC_DATO_BERTLV_TAG_CLA_APPLICATION
      else if n = 2 then SWICC_DATO_BERTLV_TAG_CLA_CONTEXT_SPECIFIC
      else if n = 3 then SWICC_DATO_BERTLV_TAG_CLA_PRIVATE
      else SWICC_DATO_BERTLV_TAG_CLA_INVALID)"

definition bertlv_tag :: "'j cjson \<Rightarrow> 'j \<Rightarrow> bool \<Rightarrow> swicc_dato_bertlv_tag option option" where
  "bertlv_tag J tag_obj constr = (case (cj_item J tag_obj ''class'', cj_item J tag_obj ''number'') of
     (Some cla_obj, Some num_obj) \<Rightarrow>
       if cj_kind J cla_obj = Js_Number \<and> cj_kind J num_obj = Js_Number then
         if cj_number J cla_obj > 4294967295 \<or> cj_number J cla_obj < 0 then Some None
         else do {
           cla \<leftarrow> js_uint 32 (cj_number J cla_obj);
           num \<leftarrow> js_uint 32 (cj_number J num_obj);
           Some (Some \<lparr>tag_num = word_of_nat num, tag_cla = bertlv_cla cla, tag_pc = constr\<rparr>) }
       else Some None
   | _ \<Rightarrow> Some None)"

text \<open>The value of a primitive data object; the buffer for its bytes comes from the heap.\<close>

definition prs_bertlv_prim ::
    "allocator \<Rightarrow> 'j cjson \<Rightarrow> swicc_dato_bertlv_tag \<Rightarrow> 'j \<Rightarrow> enc_mem \<Rightarrow> enc_mem option option" where
  "prs_bertlv_prim A J tag val_obj em =
     (if cj_kind J val_obj = Js_String then do {
        val_str \<leftarrow> cj_string J val_obj;
        if length val_str > 4294967295 then Some None
        else (case mem_malloc A (length val_str div 2) of
            Alloc bytearr \<Rightarrow> do {
              (ret, arr, len) \<leftarrow> swicc_hexstr_bytearr val_str (word_of_nat (length val_str)) bytearr (word_of_nat (length val_str div 2));
              if ret \<noteq> SWICC_RET_SUCCESS then Some None
              else enc_do (take (unat len) arr) tag em }
          | _ \<Rightarrow> Some None) }
      else enc_hdr tag em)"

fun prs_bertlv :: "allocator \<Rightarrow> 'j cjson \<Rightarrow> nat \<Rightarrow> 'j \<Rightarrow> enc_mem \<Rightarrow> enc_mem option option" where
  "prs_bertlv A J 0 bertlv_json em = None"
| "prs_bertlv A J (Suc k) bertlv_json em =
     (if cj_kind J bertlv_json \<noteq> Js_Object then Some None
      else (case (cj_item J bertlv_json ''tag'', cj_item J bertlv_json ''val'') of
        (Some tag_obj, Some val_obj) \<Rightarrow>
          if cj_kind J tag_obj = Js_Object \<and>
             (cj_kind J val_obj = Js_String \<or> cj_kind J val_obj = Js_Null \<or> cj_kind J val_obj = Js_Array) then
            and_then (bertlv_tag J tag_obj (cj_kind J val_obj = Js_Array)) (\<lambda>tag.
              if cj_kind J val_obj = Js_Array then
                if cj_elems J val_obj = [] then Some None
                else enc_nested tag (prs_bertlv_loop (prs_bertlv A J k) (rev (cj_elems J val_obj))) em
              else prs_bertlv_prim A J tag val_obj em)
          else Some None
      | _ \<Rightarrow> Some None))"

text \<open>Two passes, the first one only for the length.\<close>

definition jsitem_prs_item_dato_bertlv :: "allocator \<Rightarrow> 'j cjson \<Rightarrow> nat \<Rightarrow> 'j jsitem_prs_ft" where
  "jsitem_prs_item_dato_bertlv A J k item offset_prel buf buf_len =
     (if cj_kind J item \<noteq> Js_Object then Some (SWICC_RET_PARAM_BAD, buf, buf_len)
      else (case cj_item J item ''contents'' of
        None \<Rightarrow> Some (SWICC_RET_ERROR, buf, buf_len)
      | Some contents \<Rightarrow>
          if cj_kind J contents = Js_Null then Some (SWICC_RET_SUCCESS, buf, 0)
          else if cj_kind J contents = Js_Object then do {
            dry \<leftarrow> prs_bertlv A J k contents (swicc_dato_bertlv_enc_init True 0, []);
            case dry of
              None \<Rightarrow> Some (SWICC_RET_ERROR, buf, buf_len)
            | Some (enc, _) \<Rightarrow>
                let len = enc_len enc in
                if len > buf_len then Some (SWICC_RET_BUFFER_TOO_SHORT, buf, buf_len)
                else do {
                  run \<leftarrow> prs_bertlv A J k contents (swicc_dato_bertlv_enc_init False len, buf);
                  case run of
                    None \<Rightarrow> Some (SWICC_RET_ERROR, buf, buf_len)
                  | Some (_, b) \<Rightarrow> Some (SWICC_RET_SUCCESS, b, len) } }
          else Some (SWICC_RET_ERROR, buf, buf_len)))"

section \<open>Bytes and text\<close>

definition jsitem_prs_item_hex :: "'j cjson \<Rightarrow> 'j jsitem_prs_ft" where
  "jsitem_prs_item_hex J item offset_prel buf buf_len =
     (if cj_kind J item \<noteq> Js_Object then Some (SWICC_RET_PARAM_BAD, buf, buf_len)
      else (case cj_item J item ''contents'' of
        None \<Rightarrow> Some (SWICC_RET_ERROR, buf, buf_len)
      | Some contents \<Rightarrow>
          if cj_kind J contents = Js_Null then Some (SWICC_RET_SUCCESS, buf, 0)
          else if cj_kind J contents = Js_String then
            (case cj_string J contents of
               None \<Rightarrow> Some (SWICC_RET_ERROR, buf, buf_len)
             | Some hexstr \<Rightarrow>
                 if length hexstr \<le> 4294967295 \<and> length hexstr mod 2 = 0 then do {
                   (ret, b, bytearr_len) \<leftarrow> swicc_hexstr_bytearr hexstr (word_of_nat (length hexstr)) buf buf_len;
                   if ret = SWICC_RET_SUCCESS then
                     if buf_len \<ge> bytearr_len then Some (ret, b, bytearr_len)
                     else Some (SWICC_RET_BUFFER_TOO_SHORT, b, buf_len)
                   else Some (ret, b, buf_len) }
                 else Some (SWICC_RET_ERROR, buf, buf_len))
          else Some (SWICC_RET_ERROR, buf, buf_len)))"

definition jsitem_prs_item_ascii :: "'j cjson \<Rightarrow> 'j jsitem_prs_ft" where
  "jsitem_prs_item_ascii J item offset_prel buf buf_len =
     (if cj_kind J item \<noteq> Js_Object then Some (SWICC_RET_PARAM_BAD, buf, buf_len)
      else (case cj_item J item ''contents'' of
        None \<Rightarrow> Some (SWICC_RET_ERROR, buf, buf_len)
      | Some contents \<Rightarrow>
          if cj_kind J contents = Js_Null then Some (SWICC_RET_SUCCESS, buf, 0)
          else if cj_kind J contents = Js_String then
            (case cj_string J contents of
               None \<Rightarrow> Some (SWICC_RET_ERROR, buf, buf_len)
             | Some txt \<Rightarrow>
                 if length txt > 4294967295 then Some (SWICC_RET_ERROR, buf, buf_len)
                 else if length txt \<le> unat buf_len then do {
                   b \<leftarrow> wrn buf 0 txt;
                   Some (SWICC_RET_SUCCESS, b, word_of_nat (length txt)) }
                 else Some (SWICC_RET_BUFFER_TOO_SHORT, buf, buf_len))
          else Some (SWICC_RET_ERROR, buf, buf_len)))"

section \<open>The choice of the parser\<close>

text \<open>The table of the parsers; the invalid type has no entry.\<close>

definition jsitem_prs :: "allocator \<Rightarrow> 'j cjson \<Rightarrow> nat \<Rightarrow> 'j jsitem_prs_ft \<Rightarrow> swicc_fs_item_type \<Rightarrow> 'j jsitem_prs_ft" where
  "jsitem_prs A J k demux t = (case t of
     SWICC_FS_ITEM_TYPE_INVALID \<Rightarrow> (\<lambda>_ _ _ _. None)
   | SWICC_FS_ITEM_TYPE_FILE_MF \<Rightarrow> jsitem_prs_file_mf J demux
   | SWICC_FS_ITEM_TYPE_FILE_ADF \<Rightarrow> jsitem_prs_file_adf J demux
   | SWICC_FS_ITEM_TYPE_FILE_DF \<Rightarrow> jsitem_prs_file_df J demux
   | SWICC_FS_ITEM_TYPE_FILE_EF_TRANSPARENT \<Rightarrow> jsitem_prs_file_ef_transparent J demux
   | SWICC_FS_ITEM_TYPE_FILE_EF_LINEARFIXED \<Rightarrow> jsitem_prs_file_ef_linearfixed J demux
   | SWICC_FS_ITEM_TYPE_FILE_EF_CYCLIC \<Rightarrow> jsitem_prs_file_ef_cyclic J demux
   | SWICC_FS_ITEM_TYPE_DATO_BERTLV \<Rightarrow> jsitem_prs_item_dato_bertlv A J k
   | SWICC_FS_ITEM_TYPE_HEX \<Rightarrow> jsitem_prs_item_hex J
   | SWICC_FS_ITEM_TYPE_ASCII \<Rightarrow> jsitem_prs_item_ascii J)"

text \<open>The type of an item; the inner \<^term>\<open>None\<close> is the path that ends in an error.\<close>

definition item_type_of :: "'j cjson \<Rightarrow> 'j \<Rightarrow> swicc_fs_item_type option" where
  "item_type_of J item = (case cj_item J item ''type'' of
     None \<Rightarrow> None
   | Some type_obj \<Rightarrow>
       if cj_kind J item = Js_Object \<and> cj_kind J type_obj = Js_String
       then map_option (\<lambda>s. jsitem_prs_type_str s (word_of_nat (length s))) (cj_string J type_obj)
       else None)"

text \<open>An unknown type is a success that leaves the announced length of the buffer as it is.\<close>

fun jsitem_prs_demux :: "allocator \<Rightarrow> 'j cjson \<Rightarrow> nat \<Rightarrow> 'j jsitem_prs_ft" where
  "jsitem_prs_demux A J 0 item offset_prel buf buf_len = None"
| "jsitem_prs_demux A J (Suc k) item offset_prel buf buf_len =
     (case item_type_of J item of
        None \<Rightarrow> Some (SWICC_RET_ERROR, buf, buf_len)
      | Some t \<Rightarrow>
          if t = SWICC_FS_ITEM_TYPE_INVALID then Some (SWICC_RET_SUCCESS, buf, buf_len)
          else jsitem_prs A J k (jsitem_prs_demux A J k) t item offset_prel buf buf_len)"

section \<open>The disk\<close>

text \<open>
  The buffer of a tree is enlarged until its item fits.  The size is a 32-bit sum, so that the check of
  the new size against \<^verbatim>\<open>UINT32_MAX\<close> is never true.
\<close>

partial_function (option) tree_grow ::
    "allocator \<Rightarrow> (bytes \<Rightarrow> u32 \<Rightarrow> prs_res) \<Rightarrow> bytes \<Rightarrow> u32 \<Rightarrow> (swicc_ret \<times> bytes \<times> u32 \<times> u32) option" where
  "tree_grow A prs buf sz = Option.bind (prs buf sz) (\<lambda>(ret, b, item_size).
     if ret = SWICC_RET_BUFFER_TOO_SHORT then
       Option.bind (mem_realloc A (Alloc b) (unat (sz + DISK_SIZE_RESIZE))) (\<lambda>m.
         case mem_bytes m of
           None \<Rightarrow> Some (SWICC_RET_ERROR, b, sz, item_size)
         | Some b' \<Rightarrow> tree_grow A prs b' (sz + DISK_SIZE_RESIZE))
     else Some (ret, b, sz, item_size))"

text \<open>One round of the loop over the trees; the tree is kept in the list also when the round fails.\<close>

definition disk_tree_prs ::
    "allocator \<Rightarrow> 'j cjson \<Rightarrow> nat \<Rightarrow> nat \<Rightarrow> 'j \<Rightarrow> (swicc_ret \<times> swicc_disk_tree list) option" where
  "disk_tree_prs A J k ti tree_obj =
     (if mem_malloc A tree_struct_size = Null then Some (SWICC_RET_ERROR, [])
      else (case mem_malloc A DISK_SIZE_START of
          Alloc buf0 \<Rightarrow> do {
            (ret, buf, sz, item_size) \<leftarrow> tree_grow A (jsitem_prs_demux A J k tree_obj 0) buf0 (word_of_nat DISK_SIZE_START);
            let tree = tree_zero\<lparr>t_buf := buf, t_size := sz\<rparr>;
            if ret \<noteq> SWICC_RET_SUCCESS then Some (ret, [tree])
            else do {
              (ret, tree') \<leftarrow> swicc_disk_lutsid_rebuild A ti (tree\<lparr>t_len := item_size\<rparr>);
              Some (ret, [tree']) } }
        | _ \<Rightarrow> Some (SWICC_RET_ERROR, [tree_zero])))"

fun disk_trees_prs ::
    "allocator \<Rightarrow> 'j cjson \<Rightarrow> nat \<Rightarrow> nat \<Rightarrow> 'j list \<Rightarrow> (swicc_ret \<times> swicc_disk_tree list) option" where
  "disk_trees_prs A J k ti [] = Some (SWICC_RET_SUCCESS, [])"
| "disk_trees_prs A J k ti (tree_obj # tree_objs) = do {
     (ret, tree) \<leftarrow> disk_tree_prs A J k ti tree_obj;
     if ret \<noteq> SWICC_RET_SUCCESS then Some (ret, tree)
     else do {
       (ret, trees) \<leftarrow> disk_trees_prs A J k (ti + 1) tree_objs;
       Some (ret, tree @ trees) } }"

definition disk_json_prs :: "allocator \<Rightarrow> 'j cjson \<Rightarrow> nat \<Rightarrow> swicc_disk \<Rightarrow> 'j \<Rightarrow> (swicc_ret \<times> swicc_disk) option" where
  "disk_json_prs A J k disk disk_json =
     (if cj_kind J disk_json \<noteq> Js_Object then Some (SWICC_RET_PARAM_BAD, disk)
      else if d_root disk \<noteq> [] then Some (SWICC_RET_ERROR, disk)
      else (case cj_item J disk_json ''disk'' of
        None \<Rightarrow> Some (SWICC_RET_ERROR, disk)
      | Some disk_obj \<Rightarrow>
          if cj_kind J disk_obj \<noteq> Js_Array then Some (SWICC_RET_ERROR, disk)
          else do {
            (ret, trees) \<leftarrow> disk_trees_prs A J k 0 (cj_elems J disk_obj);
            let d = disk\<lparr>d_root := trees\<rparr>;
            if ret \<noteq> SWICC_RET_SUCCESS then do {
              _ \<leftarrow> swicc_disk_root_empty d;
              Some (SWICC_RET_ERROR, disk_zero) }
            else do {
              (ret, d1) \<leftarrow> swicc_disk_lutid_rebuild A d;
              if ret \<noteq> SWICC_RET_SUCCESS then do { d2 \<leftarrow> swicc_disk_lutid_empty d1; Some (ret, d2) }
              else Some (ret, d1) } }))"

definition swicc_diskjs_disk_create ::
    "allocator \<Rightarrow> 'j cjson \<Rightarrow> nat \<Rightarrow> swicc_disk \<Rightarrow> host_file \<Rightarrow> (swicc_ret \<times> swicc_disk) option" where
  "swicc_diskjs_disk_create A J k disk io =
     (if d_root disk \<noteq> [] \<or> lut_buf1 (d_lutid disk) \<noteq> Null \<or> lut_buf2 (d_lutid disk) \<noteq> Null
      then Some (SWICC_RET_ERROR, disk)
      else (case io_content io of
        None \<Rightarrow> Some (SWICC_RET_ERROR, disk_zero)
      | Some content \<Rightarrow> do {
          (ret, d) \<leftarrow>
            (if io_seek io \<and> io_tell io \<and> length content \<le> 4294967295 \<and> io_rewind io \<and>
                mem_malloc A (length content) \<noteq> Null
             then (let raw = fread_bytes (io_read io) content 0 (length content) in
                   if length raw \<noteq> length content then Some (SWICC_RET_ERROR, disk_zero)
                   else (case cj_parse J raw of
                     None \<Rightarrow> Some (SWICC_RET_ERROR, disk_zero)
                   | Some doc \<Rightarrow> disk_json_prs A J k disk_zero doc))
             else Some (SWICC_RET_ERROR, disk_zero));
          Some (if io_close io then ret else SWICC_RET_ERROR, d) }))"

end
