(* ===== verification/Swicc_Diskjs_Spec.thy ===== *)
theory Swicc_Diskjs_Spec
  imports Swicc_Diskjs Swicc_Va_Path
begin

text \<open>
  What a JSON document describes, as an abstract tree of files, and that the parsers of \<^verbatim>\<open>src/fs/diskjs.c\<close>
  build exactly the buffer of that tree.
\<close>

section \<open>What an item describes\<close>

definition item_type_name :: "swicc_fs_item_type \<Rightarrow> string" where
  "item_type_name t = (case t of
     SWICC_FS_ITEM_TYPE_INVALID \<Rightarrow> ''''
   | SWICC_FS_ITEM_TYPE_FILE_MF \<Rightarrow> ''file_mf''
   | SWICC_FS_ITEM_TYPE_FILE_ADF \<Rightarrow> ''file_adf''
   | SWICC_FS_ITEM_TYPE_FILE_DF \<Rightarrow> ''file_df''
   | SWICC_FS_ITEM_TYPE_FILE_EF_TRANSPARENT \<Rightarrow> ''file_ef_transparent''
   | SWICC_FS_ITEM_TYPE_FILE_EF_LINEARFIXED \<Rightarrow> ''file_ef_linear-fixed''
   | SWICC_FS_ITEM_TYPE_FILE_EF_CYCLIC \<Rightarrow> ''file_ef_cyclic''
   | SWICC_FS_ITEM_TYPE_DATO_BERTLV \<Rightarrow> ''dato_ber-tlv''
   | SWICC_FS_ITEM_TYPE_HEX \<Rightarrow> ''hex''
   | SWICC_FS_ITEM_TYPE_ASCII \<Rightarrow> ''ascii'')"

text \<open>The member \<open>key\<close> of \<open>j\<close> exists and is as \<open>P\<close> says.\<close>

definition has_member :: "'j cjson \<Rightarrow> 'j \<Rightarrow> string \<Rightarrow> ('j \<Rightarrow> bool) \<Rightarrow> bool" where
  "has_member J j key P = (case cj_item J j key of None \<Rightarrow> False | Some v \<Rightarrow> P v)"

definition is_string :: "'j cjson \<Rightarrow> bytes \<Rightarrow> 'j \<Rightarrow> bool" where
  "is_string J s j \<longleftrightarrow> cj_kind J j = Js_String \<and> cj_string J j = Some s"

definition is_number :: "'j cjson \<Rightarrow> nat \<Rightarrow> 'j \<Rightarrow> bool" where
  "is_number J n j \<longleftrightarrow> cj_kind J j = Js_Number \<and> cj_number J j = of_nat n"

definition is_typed :: "'j cjson \<Rightarrow> 'j \<Rightarrow> swicc_fs_item_type \<Rightarrow> bool" where
  "is_typed J j t \<longleftrightarrow> cj_kind J j = Js_Object \<and> has_member J j ''type'' (is_string J (ascii (item_type_name t)))"

definition cla_number :: "swicc_dato_bertlv_tag_cla \<Rightarrow> nat" where
  "cla_number c = (case c of
     SWICC_DATO_BERTLV_TAG_CLA_INVALID \<Rightarrow> 4
   | SWICC_DATO_BERTLV_TAG_CLA_UNIVERSAL \<Rightarrow> 0
   | SWICC_DATO_BERTLV_TAG_CLA_APPLICATION \<Rightarrow> 1
   | SWICC_DATO_BERTLV_TAG_CLA_CONTEXT_SPECIFIC \<Rightarrow> 2
   | SWICC_DATO_BERTLV_TAG_CLA_PRIVATE \<Rightarrow> 3)"

definition tag_js :: "'j cjson \<Rightarrow> 'j \<Rightarrow> swicc_dato_bertlv_tag \<Rightarrow> bool" where
  "tag_js J j t \<longleftrightarrow> cj_kind J j = Js_Object \<and> tag_ok t \<and>
     has_member J j ''class'' (is_number J (cla_number (tag_cla t))) \<and>
     has_member J j ''number'' (is_number J (unat (tag_num t)))"

text \<open>A data object, primitive (a string of hex digits or nothing) or constructed (a list).\<close>

fun tlv_js :: "'j cjson \<Rightarrow> 'j \<Rightarrow> tlv \<Rightarrow> bool" and tlvs_js :: "'j cjson \<Rightarrow> 'j list \<Rightarrow> tlv list \<Rightarrow> bool" where
  "tlv_js J j (Prim t d) \<longleftrightarrow> cj_kind J j = Js_Object \<and> \<not> tag_pc t \<and> has_member J j ''tag'' (\<lambda>tg. tag_js J tg t) \<and>
     has_member J j ''val'' (\<lambda>v. is_string J (hex_of d) v \<and> 2 * length d < 2 ^ 32 \<or> cj_kind J v = Js_Null \<and> d = [])"
| "tlv_js J j (Constr t xs) \<longleftrightarrow> cj_kind J j = Js_Object \<and> tag_pc t \<and> has_member J j ''tag'' (\<lambda>tg. tag_js J tg t) \<and>
     has_member J j ''val'' (\<lambda>v. cj_kind J v = Js_Array \<and> xs \<noteq> [] \<and> tlvs_js J (cj_elems J v) xs)"
| "tlvs_js J js [] \<longleftrightarrow> js = []"
| "tlvs_js J js (x # xs) \<longleftrightarrow> (case js of [] \<Rightarrow> False | j # js' \<Rightarrow> tlv_js J j x \<and> tlvs_js J js' xs)"

text \<open>A value: hex digits, text, a data object, or nothing.\<close>

definition value_js :: "'j cjson \<Rightarrow> 'j \<Rightarrow> bytes \<Rightarrow> bool" where
  "value_js J j bs \<longleftrightarrow>
     (is_typed J j SWICC_FS_ITEM_TYPE_HEX \<and>
        has_member J j ''contents'' (\<lambda>c. is_string J (hex_of bs) c \<and> 2 * length bs < 2 ^ 32 \<or> cj_kind J c = Js_Null \<and> bs = [])) \<or>
     (is_typed J j SWICC_FS_ITEM_TYPE_ASCII \<and>
        has_member J j ''contents'' (\<lambda>c. is_string J bs c \<or> cj_kind J c = Js_Null \<and> bs = [])) \<or>
     (is_typed J j SWICC_FS_ITEM_TYPE_DATO_BERTLV \<and>
        has_member J j ''contents'' (\<lambda>c. cj_kind J c = Js_Object \<and> (\<exists>x. tlv_js J c x \<and> bs = ber_tlv x) \<or>
          cj_kind J c = Js_Null \<and> bs = []))"

definition id_js :: "'j cjson \<Rightarrow> 'j \<Rightarrow> string \<Rightarrow> bytes \<Rightarrow> bool \<Rightarrow> bool" where
  "id_js J j key bs none = (case cj_item J j key of
     None \<Rightarrow> none
   | Some v \<Rightarrow> is_string J (hex_of bs) v \<or> cj_kind J v \<noteq> Js_String \<and> none)"

definition hdr_js :: "'j cjson \<Rightarrow> 'j \<Rightarrow> node_hdr \<Rightarrow> bool" where
  "hdr_js J j h \<longleftrightarrow> is_typed J j (n_type h) \<and> n_lcs h = 0 \<and>
     id_js J j ''id'' (be16 (n_id h)) (n_id h = 0) \<and> id_js J j ''sid'' [n_sid h] (n_sid h = 0)"

definition name_js :: "'j cjson \<Rightarrow> node_hdr \<Rightarrow> 'j \<Rightarrow> bool" where
  "name_js J h j \<longleftrightarrow> cj_kind J j = Js_Object \<and> (\<exists>nm. value_js J j nm \<and> length nm \<le> SWICC_FS_NAME_LEN \<and>
     (n_type h = SWICC_FS_ITEM_TYPE_FILE_ADF \<longrightarrow> SWICC_FS_ADF_AID_RID_LEN \<le> length nm) \<and>
     n_spec h = nm @ replicate (SWICC_FS_NAME_LEN - length nm) 0)"

definition padded :: "nat \<Rightarrow> bytes \<Rightarrow> bytes" where
  "padded n bs = bs @ replicate (n - length bs) 0xFF"

definition records_js :: "'j cjson \<Rightarrow> nat \<Rightarrow> 'j list \<Rightarrow> bytes \<Rightarrow> bool" where
  "records_js J n js d \<longleftrightarrow> (\<exists>vs. list_all2 (value_js J) js vs \<and> list_all (\<lambda>v. length v \<le> n) vs \<and> d = concat (map (padded n) vs))"

fun node_js :: "'j cjson \<Rightarrow> 'j \<Rightarrow> fsnode \<Rightarrow> bool" and nodes_js :: "'j cjson \<Rightarrow> 'j list \<Rightarrow> fsnode list \<Rightarrow> bool" where
  "node_js J j (Folder h cs) \<longleftrightarrow> is_folder_type (n_type h) \<and> hdr_js J j h \<and> has_member J j ''name'' (name_js J h) \<and>
     has_member J j ''contents'' (\<lambda>c. cj_kind J c = Js_Null \<and> cs = [] \<or>
       cj_kind J c = Js_Array \<and> cs \<noteq> [] \<and> nodes_js J (cj_elems J c) cs)"
| "node_js J j (Ef h d) \<longleftrightarrow> hdr_js J j h \<and>
     (n_type h = SWICC_FS_ITEM_TYPE_FILE_EF_TRANSPARENT \<and> n_spec h = [] \<and>
        has_member J j ''contents'' (\<lambda>c. cj_kind J c = Js_Null \<and> d = [] \<or> cj_kind J c = Js_Object \<and> value_js J c d) \<or>
      is_rcrd_type (n_type h) \<and> length (n_spec h) = 1 \<and> n_spec h \<noteq> [0] \<and>
        has_member J j ''rcrd_size'' (is_number J (unat (hd (n_spec h)))) \<and>
        has_member J j ''contents'' (\<lambda>c. cj_kind J c = Js_Null \<and> d = [] \<or>
          cj_kind J c = Js_Array \<and> records_js J (unat (hd (n_spec h))) (cj_elems J c) d))"
| "nodes_js J js [] \<longleftrightarrow> js = []"
| "nodes_js J js (n # ns) \<longleftrightarrow> (case js of [] \<Rightarrow> False | j # js' \<Rightarrow> node_js J j n \<and> nodes_js J js' ns)"

section \<open>Parsers that produce a byte string\<close>

text \<open>Whenever the buffer has room the item is written to its start, and nothing else is changed.\<close>

definition yields :: "'j jsitem_prs_ft \<Rightarrow> 'j \<Rightarrow> (nat \<Rightarrow> bytes) \<Rightarrow> bool" where
  "yields prs j g \<longleftrightarrow> (\<forall>prel buf len. length (g (unat prel)) \<le> unat len \<longrightarrow> unat len \<le> length buf \<longrightarrow>
     prs j prel buf len = Some (SWICC_RET_SUCCESS, g (unat prel) @ drop (length (g (unat prel))) buf,
       word_of_nat (length (g (unat prel)))))"

lemma yieldsD: "yields prs j g \<Longrightarrow> length (g (unat prel)) \<le> unat len \<Longrightarrow> unat len \<le> length buf \<Longrightarrow>
    prs j prel buf len = Some (SWICC_RET_SUCCESS, g (unat prel) @ drop (length (g (unat prel))) buf,
      word_of_nat (length (g (unat prel))))"
  by (simp add: yields_def)

lemma item_type_str_name: "t \<noteq> SWICC_FS_ITEM_TYPE_INVALID \<Longrightarrow>
    jsitem_prs_type_str (ascii (item_type_name t)) (word_of_nat (length (ascii (item_type_name t)))) = t"
proof -
  have "\<forall>t \<in> set (map snd item_type_str).
      jsitem_prs_type_str (ascii (item_type_name t)) (word_of_nat (length (ascii (item_type_name t)))) = t"
    by code_simp
  moreover assume "t \<noteq> SWICC_FS_ITEM_TYPE_INVALID"
  then have "t \<in> set (map snd item_type_str)" by (cases t) (simp_all add: item_type_str_def)
  ultimately show ?thesis by blast
qed

lemma typed_item: "is_typed J j t \<Longrightarrow> t \<noteq> SWICC_FS_ITEM_TYPE_INVALID \<Longrightarrow> item_type_of J j = Some t"
  by (auto simp: is_typed_def has_member_def is_string_def item_type_of_def item_type_str_name split: option.splits)

text \<open>The parser that an item of a known type is handed to.\<close>

lemma demux_yields:
  assumes "is_typed J j t" and "t \<noteq> SWICC_FS_ITEM_TYPE_INVALID"
    and "eventually (\<lambda>k. yields (jsitem_prs A J k (jsitem_prs_demux A J k) t) j g) sequentially"
  shows "eventually (\<lambda>k. yields (jsitem_prs_demux A J k) j g) sequentially"
proof -
  have "yields (jsitem_prs_demux A J (Suc k)) j g" if "yields (jsitem_prs A J k (jsitem_prs_demux A J k) t) j g" for k
    using that typed_item [OF assms(1,2)] assms(2) by (simp add: yields_def)
  then have "eventually (\<lambda>k. yields (jsitem_prs_demux A J (Suc k)) j g) sequentially"
    by (rule eventually_mono [OF assms(3)])
  then show ?thesis by (subst eventually_sequentially_Suc [symmetric])
qed

subsection \<open>Data objects\<close>

lemma js_uint_nat: "n < 2 ^ w \<Longrightarrow> js_uint w (of_nat n) = Some n"
proof -
  assume "n < 2 ^ w"
  then have "(of_nat n :: rat) < of_nat (2 ^ w)" by (simp only: of_nat_less_iff)
  moreover have "(- 1 :: rat) < of_nat n" by (rule less_le_trans [of _ 0]) simp_all
  ultimately show ?thesis by (simp add: js_uint_def assert_ub_def)
qed

lemma cla_of_number: "c \<noteq> SWICC_DATO_BERTLV_TAG_CLA_INVALID \<Longrightarrow> bertlv_cla (cla_number c) = c" "cla_number c < 5"
  by (cases c; simp add: bertlv_cla_def cla_number_def)+

lemma bertlv_tag_ok: "tag_js J j t \<Longrightarrow> bertlv_tag J j (tag_pc t) = Some (Some t)"
proof -
  assume a: "tag_js J j t"
  have c: "tag_cla t \<noteq> SWICC_DATO_BERTLV_TAG_CLA_INVALID" using a by (simp add: tag_js_def tag_ok_def)
  have l: "cla_number (tag_cla t) < 5" by (rule cla_of_number)
  have "(of_nat (cla_number (tag_cla t)) :: rat) < of_nat 5" using l by (simp only: of_nat_less_iff)
  then have r: "\<not> (of_nat (cla_number (tag_cla t)) :: rat) > 4294967295" by simp
  have n: "unat (tag_num t) < 2 ^ 32" "cla_number (tag_cla t) < 2 ^ 32" using unat_u32_less [of "tag_num t"] l by simp_all
  show ?thesis
    using a r js_uint_nat [OF n(1)] js_uint_nat [OF n(2)] cla_of_number(1) [OF c]
    by (auto simp: tag_js_def has_member_def is_number_def bertlv_tag_def split: option.splits)
qed

lemma writes_hdr: "tag_ok t \<Longrightarrow> writes (enc_hdr t) (ber_tlv (Prim t []))"
  unfolding writes_def
proof (intro allI impI)
  fix e mem assume a: "tag_ok t" "enc_wf e mem" "enc_len_val e = 0" "length (ber_tlv (Prim t [])) \<le> enc_room e"
  then show "enc_hdr t (e, mem) = Some (Some (enc_grow e (length (ber_tlv (Prim t []))) 0, mem_grow e mem (ber_tlv (Prim t []))))"
    using enc_hdr_ok [OF a(2,1)] by (simp add: enc_hdr_def succ_def)
qed

lemma hex_of_length: "length (hex_of bs) = 2 * length bs"
  by (induction bs) simp_all

lemma writes_bertlv_prim:
  assumes "tag_ok t" and "grants A"
    and "is_string J (hex_of d) v \<and> 2 * length d < 2 ^ 32 \<or> cj_kind J v = Js_Null \<and> d = []"
  shows "writes (prs_bertlv_prim A J t v) (ber_tlv (Prim t d))"
proof (cases "cj_kind J v = Js_String")
  case True
  then have s: "cj_string J v = Some (hex_of d)" "2 * length d < 2 ^ 32" using assms(3) by (auto simp: is_string_def)
  obtain f where f: "A (length d) = Some f" using assms(2) by (auto simp: grants_def)
  have n: "unat (word_of_nat (length d) :: u32) = length d" by (rule unat_of_nat_u32) (use s(2) in simp)
  have "swicc_hexstr_bytearr (hex_of d) (word_of_nat (2 * length d)) (map f [0..<length d]) (word_of_nat (length d)) =
      Some (SWICC_RET_SUCCESS, d @ drop (length d) (map f [0..<length d]), word_of_nat (length d))"
    by (rule hexstr_of_run) (use s(2) n in simp_all)
  then have "prs_bertlv_prim A J t v = enc_do d t"
    using True s f n by (intro ext) (simp add: prs_bertlv_prim_def hex_of_length mem_malloc_def)
  then show ?thesis using writes_prim [OF assms(1)] by simp
next
  case False
  then have "d = []" "prs_bertlv_prim A J t v = enc_hdr t" using assms(3) by (auto simp: is_string_def prs_bertlv_prim_def)
  then show ?thesis using writes_hdr [OF assms(1)] by simp
qed

lemma bertlv_loop_append:
  "prs_bertlv_loop f (xs @ [j]) em = and_then (prs_bertlv_loop f xs em) (f j)"
  by (induction xs arbitrary: em)
     (simp_all add: and_then_assoc and_then_def fun_eq_iff split: option.splits)

lemma writes_loop:
  "list_all2 (\<lambda>j x. writes (f j) (ber_tlv x)) js xs \<Longrightarrow> writes (prs_bertlv_loop f (rev js)) (concat (map ber_tlv xs))"
proof (induction js xs rule: list_all2_induct)
  case Nil
  show ?case using writes_nothing by (simp add: fun_eq_iff [symmetric])
next
  case (Cons j js x xs)
  show ?case
    using writes_then [OF Cons(3,1)] by (simp add: bertlv_loop_append [abs_def])
qed

lemma tlvs_js_list: "tlvs_js J js xs \<longleftrightarrow> list_all2 (tlv_js J) js xs"
  by (induction xs arbitrary: js) (auto split: list.splits simp: list_all2_Cons2)

lemma all2_eventually:
  assumes "list_all2 (\<lambda>j x. eventually (\<lambda>k. P k j x) sequentially) js xs"
  shows "eventually (\<lambda>k. list_all2 (P k) js xs) sequentially"
  using assms by (induction js xs rule: list_all2_induct) (simp_all add: eventually_conj_iff)

lemma writes_bertlv:
  assumes g: "grants A" and "tlv_js J j x"
  shows "eventually (\<lambda>k. writes (prs_bertlv A J k j) (ber_tlv x)) sequentially"
  using assms(2)
proof (induction x arbitrary: j)
  case (Prim t d)
  obtain tg v where m: "cj_kind J j = Js_Object" "cj_item J j ''tag'' = Some tg" "cj_item J j ''val'' = Some v"
    "tag_js J tg t" "\<not> tag_pc t" and v: "is_string J (hex_of d) v \<and> 2 * length d < 2 ^ 32 \<or> cj_kind J v = Js_Null \<and> d = []"
    using Prim by (auto simp: has_member_def split: option.splits)
  have k: "cj_kind J v = Js_String \<or> cj_kind J v = Js_Null" "cj_kind J tg = Js_Object" "tag_ok t"
    using v m(4) by (auto simp: is_string_def tag_js_def)
  then have na: "(cj_kind J v = Js_Array) = tag_pc t" using m(5) by auto
  have "prs_bertlv A J (Suc k) j = prs_bertlv_prim A J t v" for k
    using m k bertlv_tag_ok [OF m(4)] na by (intro ext) (auto simp: and_then_simps)
  then have "writes (prs_bertlv A J (Suc k) j) (ber_tlv (Prim t d))" for k
    using writes_bertlv_prim [OF k(3) g v] by simp
  then show ?case by (subst eventually_sequentially_Suc [symmetric]) simp
next
  case (Constr t xs)
  obtain tg v where m: "cj_kind J j = Js_Object" "cj_item J j ''tag'' = Some tg" "cj_item J j ''val'' = Some v"
    "tag_js J tg t" "tag_pc t" and v: "cj_kind J v = Js_Array" "xs \<noteq> []" "list_all2 (tlv_js J) (cj_elems J v) xs"
    using Constr.prems by (auto simp: has_member_def tlvs_js_list split: option.splits)
  have k: "cj_kind J tg = Js_Object" "tag_ok t" using m(4) by (auto simp: tag_js_def)
  have ne: "cj_elems J v \<noteq> []" using v(2,3) by auto
  have "list_all2 (\<lambda>j x. eventually (\<lambda>k. writes (prs_bertlv A J k j) (ber_tlv x)) sequentially) (cj_elems J v) xs"
    using v(3) Constr.IH by (auto simp: list_all2_conv_all_nth)
  note ev = all2_eventually [OF this]
  have "writes (prs_bertlv A J (Suc k) j) (ber_tlv (Constr t xs))"
    if "list_all2 (\<lambda>j x. writes (prs_bertlv A J k j) (ber_tlv x)) (cj_elems J v) xs" for k
  proof -
    have "prs_bertlv A J (Suc k) j = enc_nested t (prs_bertlv_loop (prs_bertlv A J k) (rev (cj_elems J v)))"
      using m v(1) k ne bertlv_tag_ok [OF m(4)] by (intro ext) (simp add: and_then_simps)
    then show ?thesis using writes_nested [OF writes_loop [OF that] k(2)] by (simp add: Let_def)
  qed
  from eventually_mono [OF ev this] show ?case by (subst eventually_sequentially_Suc [symmetric]) simp
qed

subsection \<open>Values\<close>

lemma yields_hex:
  assumes "cj_kind J j = Js_Object"
    and "has_member J j ''contents'' (\<lambda>c. is_string J (hex_of bs) c \<and> 2 * length bs < 2 ^ 32 \<or> cj_kind J c = Js_Null \<and> bs = [])"
  shows "yields (jsitem_prs_item_hex J) j (\<lambda>_. bs)"
  unfolding yields_def
proof (intro allI impI)
  fix prel len :: u32 and buf :: bytes
  assume fit: "length bs \<le> unat len" "unat len \<le> length buf"
  obtain c where c: "cj_item J j ''contents'' = Some c"
    and v: "is_string J (hex_of bs) c \<and> 2 * length bs < 2 ^ 32 \<or> cj_kind J c = Js_Null \<and> bs = []"
    using assms(2) by (auto simp: has_member_def split: option.splits)
  from v show "jsitem_prs_item_hex J j prel buf len = Some (SWICC_RET_SUCCESS, bs @ drop (length bs) buf, word_of_nat (length bs))"
  proof
    assume s: "is_string J (hex_of bs) c \<and> 2 * length bs < 2 ^ 32"
    have run: "swicc_hexstr_bytearr (hex_of bs) (word_of_nat (2 * length bs)) buf len =
        Some (SWICC_RET_SUCCESS, bs @ drop (length bs) buf, word_of_nat (length bs))"
      by (rule hexstr_of_run) (use fit s in simp_all)
    have "word_of_nat (length bs) \<le> len" using fit(1) by (simp add: word_le_nat_alt unat_of_nat_u32 unat_u32_less order_le_less_trans)
    then show ?thesis
      using assms(1) c s run by (simp add: jsitem_prs_item_hex_def is_string_def hex_of_length)
  qed (use assms(1) c in \<open>simp add: jsitem_prs_item_hex_def\<close>)
qed

lemma yields_ascii:
  assumes "cj_kind J j = Js_Object"
    and "has_member J j ''contents'' (\<lambda>c. is_string J bs c \<or> cj_kind J c = Js_Null \<and> bs = [])"
  shows "yields (jsitem_prs_item_ascii J) j (\<lambda>_. bs)"
  unfolding yields_def
proof (intro allI impI)
  fix prel len :: u32 and buf :: bytes
  assume fit: "length bs \<le> unat len" "unat len \<le> length buf"
  obtain c where c: "cj_item J j ''contents'' = Some c" and v: "is_string J bs c \<or> cj_kind J c = Js_Null \<and> bs = []"
    using assms(2) by (auto simp: has_member_def split: option.splits)
  have "\<not> 4294967295 < length bs" using fit(1) unat_u32_less [of len] by linarith
  then show "jsitem_prs_item_ascii J j prel buf len = Some (SWICC_RET_SUCCESS, bs @ drop (length bs) buf, word_of_nat (length bs))"
    using v assms(1) c fit by (auto simp: jsitem_prs_item_ascii_def is_string_def wrn_def)
qed

lemma yields_bertlv:
  assumes "cj_kind J j = Js_Object" and "cj_item J j ''contents'' = Some c" and "cj_kind J c = Js_Object"
    and w: "writes (prs_bertlv A J k c) bs"
  shows "yields (jsitem_prs_item_dato_bertlv A J k) j (\<lambda>_. bs)"
  unfolding yields_def
proof (intro allI impI)
  fix prel len :: u32 and buf :: bytes
  assume fit: "length bs \<le> unat len" "unat len \<le> length buf"
  define n :: u32 where "n = word_of_nat (length bs)"
  have lt: "length bs < 4294967296" using fit(1) unat_u32_less [of len] by linarith
  have n: "unat n = length bs" unfolding n_def by (rule unat_of_nat_u32) (use lt in simp)
  let ?e1 = "swicc_dato_bertlv_enc_init True 0" and ?e2 = "swicc_dato_bertlv_enc_init False n"
  have r1: "prs_bertlv A J k c (?e1, []) = Some (Some (enc_grow ?e1 (length bs) 0, mem_grow ?e1 [] bs))"
    by (rule writesD [OF w]) (use lt in \<open>simp_all add: enc_init_wf\<close>)
  have r2: "prs_bertlv A J k c (?e2, buf) = Some (Some (enc_grow ?e2 (length bs) 0, mem_grow ?e2 buf bs))"
    by (rule writesD [OF w]) (use fit n in \<open>simp_all add: enc_init_wf\<close>)
  have "enc_len (enc_grow ?e1 (length bs) 0) = n"
    by (simp add: enc_grow_def swicc_dato_bertlv_enc_init_def n_def Let_def)
  moreover have "mem_grow ?e2 buf bs = bs @ drop (length bs) buf"
    by (simp add: mem_grow_def swicc_dato_bertlv_enc_init_def n Let_def)
  moreover have "\<not> len < n" using fit(1) n by (simp add: word_less_nat_alt)
  ultimately show "jsitem_prs_item_dato_bertlv A J k j prel buf len =
      Some (SWICC_RET_SUCCESS, bs @ drop (length bs) buf, word_of_nat (length bs))"
    using assms(1-3) r1 r2 by (simp add: jsitem_prs_item_dato_bertlv_def n_def [symmetric])
qed

lemma yields_value:
  assumes g: "grants A" and v: "value_js J j bs"
  shows "eventually (\<lambda>k. yields (jsitem_prs_demux A J k) j (\<lambda>_. bs)) sequentially"
proof -
  consider (hex) "is_typed J j SWICC_FS_ITEM_TYPE_HEX"
      "has_member J j ''contents'' (\<lambda>c. is_string J (hex_of bs) c \<and> 2 * length bs < 2 ^ 32 \<or> cj_kind J c = Js_Null \<and> bs = [])"
    | (asc) "is_typed J j SWICC_FS_ITEM_TYPE_ASCII"
      "has_member J j ''contents'' (\<lambda>c. is_string J bs c \<or> cj_kind J c = Js_Null \<and> bs = [])"
    | (ber) "is_typed J j SWICC_FS_ITEM_TYPE_DATO_BERTLV"
      "has_member J j ''contents'' (\<lambda>c. cj_kind J c = Js_Object \<and> (\<exists>x. tlv_js J c x \<and> bs = ber_tlv x) \<or> cj_kind J c = Js_Null \<and> bs = [])"
    using v unfolding value_js_def by blast
  then show ?thesis
  proof cases
    case hex
    then show ?thesis using yields_hex [of J j bs]
      by (intro demux_yields [OF hex(1)]) (simp_all add: jsitem_prs_def is_typed_def)
  next
    case asc
    then show ?thesis using yields_ascii [of J j bs]
      by (intro demux_yields [OF asc(1)]) (simp_all add: jsitem_prs_def is_typed_def)
  next
    case ber
    have o: "cj_kind J j = Js_Object" using ber(1) by (simp add: is_typed_def)
    obtain c where c: "cj_item J j ''contents'' = Some c"
      and k: "cj_kind J c = Js_Object \<and> (\<exists>x. tlv_js J c x \<and> bs = ber_tlv x) \<or> cj_kind J c = Js_Null \<and> bs = []"
      using ber(2) by (auto simp: has_member_def split: option.splits)
    have "eventually (\<lambda>k. yields (jsitem_prs_item_dato_bertlv A J k) j (\<lambda>_. bs)) sequentially"
    proof (cases "cj_kind J c = Js_Object")
      case True
      then obtain x where x: "tlv_js J c x" "bs = ber_tlv x" using k by auto
      show ?thesis
        unfolding x(2) by (rule eventually_mono [OF writes_bertlv [OF g x(1)]]) (rule yields_bertlv [OF o c True])
    next
      case False
      then have "cj_kind J c = Js_Null" "bs = []" using k by auto
      then show ?thesis using o c by (simp add: yields_def jsitem_prs_item_dato_bertlv_def)
    qed
    then show ?thesis by (intro demux_yields [OF ber(1)]) (simp_all add: jsitem_prs_def)
  qed
qed

subsection \<open>Headers\<close>

lemma hex_member_ok:
  assumes "id_js J j key bs none" and "length bs \<le> 2"
  shows "hex_member J j key (length bs) = Some (Inr (Some bs)) \<or> none \<and> hex_member J j key (length bs) = Some (Inr None)"
proof (cases "cj_item J j key")
  case None
  then show ?thesis using assms(1) by (simp add: id_js_def hex_member_def)
next
  case (Some v)
  have n: "unat (word_of_nat (length bs) :: u32) = length bs" by (rule unat_of_nat_u32) (use assms(2) in simp)
  have "swicc_hexstr_bytearr (hex_of bs) (word_of_nat (2 * length bs)) (replicate (length bs) 0) (word_of_nat (length bs)) =
      Some (SWICC_RET_SUCCESS, bs @ drop (length bs) (replicate (length bs) 0), word_of_nat (length bs))"
    by (rule hexstr_of_run) (use assms(2) n in simp_all)
  then show ?thesis using assms(1) Some n
    by (auto simp: id_js_def hex_member_def is_string_def hex_of_length mult.commute)
qed

definition raw_hdr :: "u32 \<Rightarrow> node_hdr \<Rightarrow> bytes" where
  "raw_hdr prel h = [0, 0, 0, 0] @ le32_put prel @ [0, 0] @ le16_put (n_id h) @ [n_sid h]"

lemma length_raw_hdr [simp]: "length (raw_hdr prel h) = file_raw_size"
  by (simp add: raw_hdr_def)

lemma replicate_13: "replicate 13 x = [x, x, x, x, x, x, x, x, x, x, x, x, x]"
  by (simp add: eval_nat_numeral)

lemma file_raw_ok:
  assumes h: "hdr_js J j h" and "file_raw_size \<le> length buf"
  shows "jsitem_prs_file_raw J j prel buf = Some (SWICC_RET_SUCCESS, raw_hdr prel h @ drop file_raw_size buf)"
proof -
  have o: "cj_kind J j = Js_Object" using h by (simp add: hdr_js_def is_typed_def)
  have l: "length (be16 (n_id h)) = 2" "length [n_sid h] = 1" by (simp_all add: be16_def)
  have id: "hex_member J j ''id'' 2 = Some (Inr (Some (be16 (n_id h)))) \<or> n_id h = 0 \<and> hex_member J j ''id'' 2 = Some (Inr None)"
    using hex_member_ok [of J j "''id''" "be16 (n_id h)"] h l by (simp add: hdr_js_def)
  have sid: "hex_member J j ''sid'' 1 = Some (Inr (Some [n_sid h])) \<or> n_sid h = 0 \<and> hex_member J j ''sid'' 1 = Some (Inr None)"
    using hex_member_ok [of J j "''sid''" "[n_sid h]"] h by (simp add: hdr_js_def)
  have get: "le16_get (be16 (n_id h)) 0 = Some (htobe16 (n_id h))"
    using le16_get_put [of "[]" "htobe16 (n_id h)" "[]"] by (simp add: be16_put)
  define rest where "rest = drop file_raw_size buf"
  have "wrn buf 0 (replicate file_raw_size 0) = Some (replicate file_raw_size 0 @ rest)"
    using assms(2) by (simp add: wrn_def rest_def)
  then show ?thesis
    unfolding rest_def [symmetric]
    using o id sid get
    by (auto simp: jsitem_prs_file_raw_def wrn_def [of "_ # _"] replicate_13 raw_hdr_def le16_put_def le32_put_def)
qed

lemma file_done_ok:
  "n_lcs h = 0 \<Longrightarrow> file_done t sz (raw_hdr prel h @ r) = Some (SWICC_RET_SUCCESS,
     le32_put sz @ le32_put prel @ [item_type_raw t, n_lcs h] @ le16_put (n_id h) @ n_sid h # r, sz)"
  by (simp add: file_done_def raw_hdr_def wrn_def le16_put_def le32_put_def)

lemma with_type_ok:
  "with_type t (Some (SWICC_RET_SUCCESS, le32_put sz @ le32_put prel @ [t', lcs] @ r, sz)) =
     Some (SWICC_RET_SUCCESS, le32_put sz @ le32_put prel @ [item_type_raw t, lcs] @ r, sz)"
  by (simp add: with_type_def wrn_def le32_put_def)

subsection \<open>Folders\<close>

lemma folder_loop_ok:
  assumes "list_all2 (\<lambda>j n. yields demux j (\<lambda>p. ser p n)) js ns"
    and "i + sum_list (map nsize ns) \<le> unat len" and "unat len \<le> length buf"
    and "unat prel + i + sum_list (map nsize ns) < 2 ^ 32"
  shows "folder_loop demux js prel len (word_of_nat i) r buf =
    Some (if js = [] then r else Some SWICC_RET_SUCCESS,
      take i buf @ sers (unat prel + i) ns @ drop (i + sum_list (map nsize ns)) buf, word_of_nat (i + sum_list (map nsize ns)))"
  using assms
proof (induction js ns arbitrary: i r buf rule: list_all2_induct)
  case Nil
  then show ?case by simp
next
  case (Cons j js n ns)
  let ?m = "nsize n" and ?S = "sum_list (map nsize ns)"
  have i: "unat (word_of_nat i :: u32) = i" by (rule unat_of_nat_u32) (use Cons.prems(3) in simp)
  have il: "word_of_nat i \<le> len" using Cons.prems(1) by (simp add: word_le_nat_alt i)
  have pl: "unat (prel + word_of_nat i) = unat prel + i"
    by (subst unat_add_u32) (use Cons.prems(3) i in simp_all)
  have ln: "unat (len - word_of_nat i) = unat len - i" using unat_sub [OF il] i by simp
  have step: "demux j (prel + word_of_nat i) (drop i buf) (len - word_of_nat i) =
      Some (SWICC_RET_SUCCESS, ser (unat prel + i) n @ drop ?m (drop i buf), word_of_nat ?m)"
    using yieldsD [OF Cons.hyps(1), of "prel + word_of_nat i" "len - word_of_nat i" "drop i buf"] Cons.prems(1,2)
    by (simp add: pl ln)
  let ?buf = "take i buf @ ser (unat prel + i) n @ drop (i + ?m) buf"
  have ti: "length (take i buf) = i" using Cons.prems(1,2) by simp
  have "folder_loop demux js prel len (word_of_nat (i + ?m)) (Some SWICC_RET_SUCCESS) ?buf =
      Some (if js = [] then Some SWICC_RET_SUCCESS else Some SWICC_RET_SUCCESS,
        take (i + ?m) ?buf @ sers (unat prel + (i + ?m)) ns @ drop (i + ?m + ?S) ?buf, word_of_nat (i + ?m + ?S))"
    by (rule Cons.IH) (use Cons.prems ti in \<open>simp_all add: add.assoc\<close>)
  moreover have "take (i + ?m) ?buf = take i buf @ ser (unat prel + i) n" using ti by simp
  moreover have "drop (i + ?m + ?S) ?buf = drop (i + (?m + ?S)) buf" using ti by (simp add: add.assoc add.commute)
  ultimately show ?case
    using step i Cons.prems(1,2) by (simp add: in_sub_def assert_ub_def ac_simps)
qed

lemma folder_contents_ok:
  assumes "cj_kind J j = Js_Object"
    and "has_member J j ''contents'' (\<lambda>c. cj_kind J c = Js_Null \<and> cs = [] \<or> cj_kind J c = Js_Array \<and> cs \<noteq> [] \<and>
      list_all2 (\<lambda>j n. yields demux j (\<lambda>p. ser p n)) (cj_elems J c) cs)"
    and "sum_list (map nsize cs) \<le> unat len" and "unat len \<le> length buf" and "unat prel + sum_list (map nsize cs) < 2 ^ 32"
  shows "jsitem_prs_file_folder J demux j prel buf len =
    Some (SWICC_RET_SUCCESS, sers (unat prel) cs @ drop (sum_list (map nsize cs)) buf, word_of_nat (sum_list (map nsize cs)))"
proof -
  obtain c where c: "cj_item J j ''contents'' = Some c"
    and k: "cj_kind J c = Js_Null \<and> cs = [] \<or> cj_kind J c = Js_Array \<and> cs \<noteq> [] \<and>
      list_all2 (\<lambda>j n. yields demux j (\<lambda>p. ser p n)) (cj_elems J c) cs"
    using assms(2) by (auto simp: has_member_def split: option.splits)
  have "unat (word_of_nat (sum_list (map nsize cs)) :: u32) = sum_list (map nsize cs)"
    by (rule unat_of_nat_u32) (use assms(5) in simp)
  then have "word_of_nat (sum_list (map nsize cs)) \<le> len" using assms(3) by (simp add: word_le_nat_alt)
  moreover have "folder_loop demux (cj_elems J c) prel len 0 None buf = Some (Some SWICC_RET_SUCCESS,
      sers (unat prel) cs @ drop (sum_list (map nsize cs)) buf, word_of_nat (sum_list (map nsize cs)))"
    if "cj_kind J c = Js_Array"
  proof -
    have y: "list_all2 (\<lambda>j n. yields demux j (\<lambda>p. ser p n)) (cj_elems J c) cs" "cs \<noteq> []" using k that by auto
    then show ?thesis using folder_loop_ok [OF y(1), of 0 len buf prel None] assms(3-5) by auto
  qed
  ultimately show ?thesis using assms(1) c k by (auto simp: jsitem_prs_file_folder_def)
qed

lemma size_word: "n \<le> unat (len :: u32) \<Longrightarrow> unat (word_of_nat n :: u32) = n"
  by (rule unat_of_nat_u32) (use unat_u32_less [of len] in linarith)

text \<open>The name, written behind the raw header and padded.\<close>

lemma name_ok:
  assumes "yields demux nj (\<lambda>_. nm)" and "length nm \<le> SWICC_FS_NAME_LEN" and "29 \<le> length buf"
  shows "\<exists>b0. wrn buf file_raw_size (replicate SWICC_FS_NAME_LEN 0) = Some b0 \<and>
    in_sub file_raw_size (\<lambda>b. demux nj 0 b (word_of_nat SWICC_FS_NAME_LEN)) b0 =
      Some (SWICC_RET_SUCCESS, take file_raw_size buf @ (nm @ replicate (SWICC_FS_NAME_LEN - length nm) 0) @ drop 29 buf, word_of_nat (length nm))"
proof -
  let ?b0 = "take file_raw_size buf @ replicate SWICC_FS_NAME_LEN 0 @ drop 29 buf"
  have w: "wrn buf file_raw_size (replicate SWICC_FS_NAME_LEN 0) = Some ?b0" using assms(3) by (simp add: wrn_def)
  have t: "length (take file_raw_size buf) = file_raw_size" using assms(3) by simp
  have "demux nj 0 (drop file_raw_size ?b0) (word_of_nat SWICC_FS_NAME_LEN) =
      Some (SWICC_RET_SUCCESS, nm @ drop (length nm) (drop file_raw_size ?b0), word_of_nat (length nm))"
    by (rule yieldsD [OF assms(1)]) (use assms(2) t in simp_all)
  moreover have "drop (length nm) (drop file_raw_size ?b0) = replicate (SWICC_FS_NAME_LEN - length nm) 0 @ drop 29 buf"
    using t assms(2) by simp
  ultimately show ?thesis using w t by (simp add: in_sub_def assert_ub_def)
qed

lemma folder_rest_ok:
  assumes h: "hdr_js J j h" and sp: "length (n_spec h) = SWICC_FS_NAME_LEN"
    and t: "t = SWICC_FS_ITEM_TYPE_FILE_ADF \<or> t = SWICC_FS_ITEM_TYPE_FILE_DF"
    and cs: "has_member J j ''contents'' (\<lambda>c. cj_kind J c = Js_Null \<and> cs = [] \<or> cj_kind J c = Js_Array \<and> cs \<noteq> [] \<and>
      list_all2 (\<lambda>j n. yields demux j (\<lambda>p. ser p n)) (cj_elems J c) cs)"
    and fit: "nsize (Folder h cs) \<le> unat len" "unat len \<le> length buf"
  shows "folder_rest J demux t j prel (take file_raw_size buf @ n_spec h @ drop 29 buf) len =
    Some (SWICC_RET_SUCCESS, le32_put (word_of_nat (nsize (Folder h cs))) @ le32_put prel @ [item_type_raw t, n_lcs h] @
      le16_put (n_id h) @ n_sid h # n_spec h @ sers 29 cs @ drop (nsize (Folder h cs)) buf, word_of_nat (nsize (Folder h cs)))"
proof -
  let ?S = "sum_list (map nsize cs)"
  let ?b = "take file_raw_size buf @ n_spec h @ drop 29 buf"
  have S: "nsize (Folder h cs) = 29 + ?S" using sp by simp
  have o: "cj_kind J j = Js_Object" using h by (simp add: hdr_js_def is_typed_def)
  have hs: "swicc_fs_item_hdr_raw_size t = 29" using t by (auto simp: swicc_fs_item_hdr_raw_size_def)
  have len: "29 \<le> length buf" using fit S by simp
  have raw: "jsitem_prs_file_raw J j prel ?b = Some (SWICC_RET_SUCCESS, raw_hdr prel h @ n_spec h @ drop 29 buf)"
    using file_raw_ok [OF h, of ?b prel] len by simp
  have "(29 :: u32) \<le> len" using fit(1) S by (simp add: word_le_nat_alt)
  then have ln: "unat (len - 29) = unat len - 29" using unat_sub by force
  have u29: "unat (29 :: u32) = 29" by simp
  have small: "29 + ?S < 4294967296" using fit(1) S unat_u32_less [of len] by linarith
  have "jsitem_prs_file_folder J demux j 29 (drop 29 buf) (len - 29) =
      Some (SWICC_RET_SUCCESS, sers 29 cs @ drop ?S (drop 29 buf), word_of_nat ?S)"
    by (rule folder_contents_ok [OF o cs, where prel = 29, unfolded u29]) (use fit S ln small in simp_all)
  then have sub: "in_sub 29 (\<lambda>b. jsitem_prs_file_folder J demux j 29 b (len - 29)) (raw_hdr prel h @ n_spec h @ drop 29 buf) =
      Some (SWICC_RET_SUCCESS, raw_hdr prel h @ n_spec h @ sers 29 cs @ drop (nsize (Folder h cs)) buf, word_of_nat ?S)"
    using sp by (simp add: in_sub_def assert_ub_def S add.commute)
  have "(29 :: u32) + word_of_nat ?S = word_of_nat (nsize (Folder h cs))" unfolding S by simp
  then show ?thesis
    using raw sub h file_done_ok [of h t "word_of_nat (nsize (Folder h cs))" prel "n_spec h @ sers 29 cs @ drop (nsize (Folder h cs)) buf"]
    by (simp add: folder_rest_def hs Let_def hdr_js_def del: nsize.simps)
qed

lemma yields_folder:
  assumes h: "hdr_js J j h" and ft: "is_folder_type (n_type h)"
    and nj: "cj_item J j ''name'' = Some nj" "cj_kind J nj = Js_Object" "yields demux nj (\<lambda>_. nm)"
    and nm: "length nm \<le> SWICC_FS_NAME_LEN" "n_spec h = nm @ replicate (SWICC_FS_NAME_LEN - length nm) 0"
      "n_type h = SWICC_FS_ITEM_TYPE_FILE_ADF \<Longrightarrow> SWICC_FS_ADF_AID_RID_LEN \<le> length nm"
    and cs: "has_member J j ''contents'' (\<lambda>c. cj_kind J c = Js_Null \<and> cs = [] \<or> cj_kind J c = Js_Array \<and> cs \<noteq> [] \<and>
      list_all2 (\<lambda>j n. yields demux j (\<lambda>p. ser p n)) (cj_elems J c) cs)"
  shows "yields (jsitem_prs A J k demux (n_type h)) j (\<lambda>p. ser p (Folder h cs))"
  unfolding yields_def
proof (intro allI impI)
  fix prel len :: u32 and buf :: bytes
  assume "length (ser (unat prel) (Folder h cs)) \<le> unat len" and fit2: "unat len \<le> length buf"
  then have fit1: "nsize (Folder h cs) \<le> unat len" by simp
  let ?n = "Folder h cs"
  have o: "cj_kind J j = Js_Object" using h by (simp add: hdr_js_def is_typed_def)
  have sp: "length (n_spec h) = SWICC_FS_NAME_LEN" using nm(1,2) by simp
  have len: "29 \<le> length buf" "\<not> len < 29" using fit1 fit2 sp by (simp_all add: word_less_nat_alt)
  obtain b0 where b0: "wrn buf file_raw_size (replicate SWICC_FS_NAME_LEN 0) = Some b0"
    "in_sub file_raw_size (\<lambda>b. demux nj 0 b (word_of_nat SWICC_FS_NAME_LEN)) b0 =
      Some (SWICC_RET_SUCCESS, take file_raw_size buf @ n_spec h @ drop 29 buf, word_of_nat (length nm))"
    using name_ok [OF nj(3) nm(1) len(1)] nm(2) by auto
  have an: "\<not> unat (word_of_nat (length nm) :: u32) < SWICC_FS_ADF_AID_RID_LEN" if "n_type h = SWICC_FS_ITEM_TYPE_FILE_ADF"
    using nm(1) nm(3) [OF that] by (simp add: unat_of_nat_u32)
  note rest = folder_rest_ok [OF h sp _ cs fit1 fit2, of _ prel]
  have ser: "le32_put (word_of_nat (nsize ?n)) @ le32_put prel @ [item_type_raw (n_type h), n_lcs h] @ le16_put (n_id h) @
      n_sid h # n_spec h @ sers 29 cs @ drop (nsize ?n) buf = ser (unat prel) ?n @ drop (nsize ?n) buf"
    using sp by (simp add: ser_hdr_def del: nsize.simps)
  have hs: "swicc_fs_item_hdr_raw_size SWICC_FS_ITEM_TYPE_FILE_ADF = 29" "swicc_fs_item_hdr_raw_size SWICC_FS_ITEM_TYPE_FILE_DF = 29"
    by (simp_all add: swicc_fs_item_hdr_raw_size_def)
  have df: "jsitem_prs_file_df J demux j prel buf len = folder_rest J demux SWICC_FS_ITEM_TYPE_FILE_DF j prel
      (take file_raw_size buf @ n_spec h @ drop 29 buf) len"
    using o nj(1,2) len(2) b0 by (simp add: jsitem_prs_file_df_def hs)
  consider (mf) "n_type h = SWICC_FS_ITEM_TYPE_FILE_MF" | (adf) "n_type h = SWICC_FS_ITEM_TYPE_FILE_ADF"
    | (df) "n_type h = SWICC_FS_ITEM_TYPE_FILE_DF" using ft by (auto simp: is_folder_type_def)
  then have "jsitem_prs A J k demux (n_type h) j prel buf len = Some (SWICC_RET_SUCCESS,
      le32_put (word_of_nat (nsize ?n)) @ le32_put prel @ [item_type_raw (n_type h), n_lcs h] @ le16_put (n_id h) @
      n_sid h # n_spec h @ sers 29 cs @ drop (nsize ?n) buf, word_of_nat (nsize ?n))"
  proof cases
    case mf
    then show ?thesis
      using o df rest [of SWICC_FS_ITEM_TYPE_FILE_DF] with_type_ok
      by (simp add: jsitem_prs_def jsitem_prs_file_mf_def del: nsize.simps append.simps append_Cons)
  next
    case adf
    then show ?thesis
      using o nj(1,2) len(2) b0 an rest [of SWICC_FS_ITEM_TYPE_FILE_ADF]
      by (simp add: jsitem_prs_def jsitem_prs_file_adf_def hs del: nsize.simps)
  next
    case df
    then show ?thesis using \<open>jsitem_prs_file_df J demux j prel buf len = _\<close> rest [of SWICC_FS_ITEM_TYPE_FILE_DF]
      by (simp add: jsitem_prs_def del: nsize.simps)
  qed
  then show "jsitem_prs A J k demux (n_type h) j prel buf len = Some (SWICC_RET_SUCCESS,
      ser (unat prel) ?n @ drop (length (ser (unat prel) ?n)) buf, word_of_nat (length (ser (unat prel) ?n)))"
    unfolding ser by simp
qed

subsection \<open>Elementary files\<close>

lemma length_padded: "length v \<le> n \<Longrightarrow> length (padded n v) = n"
  by (simp add: padded_def)

lemma length_records: "list_all (\<lambda>v. length v \<le> n) vs \<Longrightarrow> length (concat (map (padded n) vs)) = n * length vs"
  by (induction vs) (simp_all add: length_padded)

lemma rcrd_loop_ok:
  assumes "list_all2 (\<lambda>j v. yields demux j (\<lambda>_. v)) js vs" and "list_all (\<lambda>v. length v \<le> unat rs) vs"
    and "unat hdr + i + unat rs * length vs \<le> unat len" and "unat len \<le> length buf"
  shows "rcrd_loop demux js hdr rs len (word_of_nat i) buf =
    Some (SWICC_RET_SUCCESS, take (unat hdr + i) buf @ concat (map (padded (unat rs)) vs) @ drop (unat hdr + i + unat rs * length vs) buf,
      word_of_nat (i + unat rs * length vs))"
  using assms
proof (induction js vs arbitrary: i buf rule: list_all2_induct)
  case Nil
  then show ?case by simp
next
  case (Cons j js v vs)
  let ?r = "unat rs" and ?p = "unat hdr + i"
  have lt: "?p + ?r + ?r * length vs \<le> unat len" using Cons.prems(2) by simp
  have i: "unat (word_of_nat i :: u32) = i" by (rule size_word [of _ len]) (use lt in simp)
  have "?p + ?r \<le> unat len" using lt by simp
  then have b: "?p + ?r < 4294967296" using unat_u32_less [of len] by linarith
  have pos: "unat (hdr + word_of_nat i) = ?p"
    by (subst unat_add_u32) (use b i in simp_all)
  have sum: "unat (hdr + word_of_nat i + ucast rs) = ?p + ?r"
    by (subst unat_add_u32) (use b pos in simp_all)
  have "hdr + word_of_nat i \<le> len" using lt by (simp add: word_le_nat_alt pos)
  then have ln: "unat (len - (hdr + word_of_nat i)) = unat len - ?p" using unat_sub pos by metis
  have v: "length v \<le> ?r" "list_all (\<lambda>v. length v \<le> ?r) vs" using Cons.prems(1) by simp_all
  let ?b1 = "take ?p buf @ replicate ?r 0xFF @ drop (?p + ?r) buf"
  have tp: "length (take ?p buf) = ?p" using lt Cons.prems(3) by simp
  have w: "wrn buf ?p (replicate ?r 0xFF) = Some ?b1" using lt Cons.prems(3) by (simp add: wrn_def)
  have "demux j (hdr + word_of_nat i) (drop ?p ?b1) (len - (hdr + word_of_nat i)) =
      Some (SWICC_RET_SUCCESS, v @ drop (length v) (drop ?p ?b1), word_of_nat (length v))"
    by (rule yieldsD [OF Cons.hyps(1)]) (use v lt ln tp Cons.prems(3) in simp_all)
  moreover have "v @ drop (length v) (drop ?p ?b1) = padded ?r v @ drop (?p + ?r) buf"
    using tp v(1) by (simp add: padded_def)
  ultimately have sub: "in_sub ?p (\<lambda>b. demux j (hdr + word_of_nat i) b (len - (hdr + word_of_nat i))) ?b1 =
      Some (SWICC_RET_SUCCESS, take ?p buf @ padded ?r v @ drop (?p + ?r) buf, word_of_nat (length v))"
    using tp by (simp add: in_sub_def assert_ub_def)
  let ?buf = "take ?p buf @ padded ?r v @ drop (?p + ?r) buf"
  have lb: "length ?buf = length buf" using lt Cons.prems(3) length_padded [OF v(1)] by simp
  have IH: "rcrd_loop demux js hdr rs len (word_of_nat (i + ?r)) ?buf =
      Some (SWICC_RET_SUCCESS, take (unat hdr + (i + ?r)) ?buf @ concat (map (padded ?r) vs) @ drop (unat hdr + (i + ?r) + ?r * length vs) ?buf,
        word_of_nat (i + ?r + ?r * length vs))"
    by (rule Cons.IH [OF v(2)]) (use lt lb Cons.prems(3) in simp_all)
  have l: "length (padded ?r v) = ?r" by (rule length_padded [OF v(1)])
  define q where "q = ?r * length vs"
  have e: "?r * length (v # vs) = ?r + q" by (simp add: q_def)
  have "take (unat hdr + (i + ?r)) ?buf = take ?p buf @ padded ?r v" using tp l by simp
  moreover have "drop (unat hdr + (i + ?r) + q) ?buf = drop (?p + (?r + q)) buf" using tp l by (simp add: ac_simps)
  moreover have "(word_of_nat (i + ?r) :: u32) = word_of_nat i + ucast rs" by simp
  ultimately have IH': "rcrd_loop demux js hdr rs len (word_of_nat i + ucast rs) ?buf = Some (SWICC_RET_SUCCESS,
      (take ?p buf @ padded ?r v) @ concat (map (padded ?r) vs) @ drop (?p + (?r + q)) buf, word_of_nat (i + ?r + q))"
    using IH unfolding q_def [symmetric] by (simp only:)
  have "unat (word_of_nat (length v) :: u32) = length v" by (rule size_word [of _ len]) (use v(1) lt in simp)
  then have nv: "\<not> ucast rs < (word_of_nat (length v) :: u32)" using v(1) by (simp add: word_less_nat_alt)
  have fits: "\<not> len < hdr + word_of_nat i + ucast rs" using lt sum by (simp add: word_less_nat_alt)
  show ?case
    unfolding e using w sub IH' pos nv fits by (simp add: Let_def add.assoc)
qed

lemma hdr_sizes:
  "swicc_fs_item_hdr_raw_size SWICC_FS_ITEM_TYPE_FILE_EF_TRANSPARENT = 13"
  "swicc_fs_item_hdr_raw_size SWICC_FS_ITEM_TYPE_FILE_EF_LINEARFIXED = 14"
  by (simp_all add: swicc_fs_item_hdr_raw_size_def)

lemma yields_transparent:
  assumes h: "hdr_js J j h" and sp: "n_spec h = []" and t: "n_type h = SWICC_FS_ITEM_TYPE_FILE_EF_TRANSPARENT"
    and c: "cj_item J j ''contents'' = Some c"
    and d: "cj_kind J c = Js_Null \<and> d = [] \<or> cj_kind J c = Js_Object \<and> yields demux c (\<lambda>_. d)"
  shows "yields (jsitem_prs A J k demux (n_type h)) j (\<lambda>p. ser p (Ef h d))"
  unfolding yields_def
proof (intro allI impI)
  fix prel len :: u32 and buf :: bytes
  assume "length (ser (unat prel) (Ef h d)) \<le> unat len" and fit2: "unat len \<le> length buf"
  then have fit1: "13 + length d \<le> unat len" using sp by simp
  have o: "cj_kind J j = Js_Object" using h by (simp add: hdr_js_def is_typed_def)
  have l13: "(13 :: u32) \<le> len" using fit1 by (simp add: word_le_nat_alt)
  then have ln: "unat (len - 13) = unat len - 13" using unat_sub by force
  have raw: "jsitem_prs_file_raw J j prel buf = Some (SWICC_RET_SUCCESS, raw_hdr prel h @ drop 13 buf)"
    by (rule file_raw_ok [OF h]) (use fit1 fit2 in simp)
  have body: "in_sub 13 (\<lambda>b. demux c 13 b (len - 13)) (raw_hdr prel h @ drop 13 buf) =
      Some (SWICC_RET_SUCCESS, raw_hdr prel h @ d @ drop (13 + length d) buf, word_of_nat (length d))"
    if "cj_kind J c = Js_Object"
  proof -
    have "yields demux c (\<lambda>_. d)" using d that by auto
    from yieldsD [OF this, of "len - 13" "drop 13 buf" 13] show ?thesis
      using fit1 fit2 ln by (simp add: in_sub_def assert_ub_def add.commute)
  qed
  have sz: "(13 :: u32) + word_of_nat (length d) = word_of_nat (nsize (Ef h d))" using sp by simp
  have nl: "\<not> len < 13" using l13 by (simp add: not_less)
  have fd: "file_done (n_type h) (13 + word_of_nat (length d)) (raw_hdr prel h @ d @ drop (13 + length d) buf) =
      Some (SWICC_RET_SUCCESS, ser (unat prel) (Ef h d) @ drop (13 + length d) buf, word_of_nat (nsize (Ef h d)))"
    unfolding sz using h file_done_ok [of h "n_type h" "word_of_nat (nsize (Ef h d))" prel] sp
    by (simp add: hdr_js_def ser_hdr_def del: nsize.simps)
  have "jsitem_prs_file_ef_transparent J demux j prel buf len =
      Some (SWICC_RET_SUCCESS, ser (unat prel) (Ef h d) @ drop (13 + length d) buf, word_of_nat (nsize (Ef h d)))"
    using d
  proof
    assume n: "cj_kind J c = Js_Null \<and> d = []"
    then show ?thesis using o raw nl c fd t by (simp add: jsitem_prs_file_ef_transparent_def hdr_sizes Let_def del: nsize.simps)
  next
    assume n: "cj_kind J c = Js_Object \<and> yields demux c (\<lambda>_. d)"
    then show ?thesis using o raw nl c fd t body
      by (simp add: jsitem_prs_file_ef_transparent_def hdr_sizes Let_def del: nsize.simps)
  qed
  then show "jsitem_prs A J k demux (n_type h) j prel buf len = Some (SWICC_RET_SUCCESS,
      ser (unat prel) (Ef h d) @ drop (length (ser (unat prel) (Ef h d))) buf, word_of_nat (length (ser (unat prel) (Ef h d))))"
    using t sp by (simp add: jsitem_prs_def)
qed

lemma yields_records:
  assumes h: "hdr_js J j h" and sp: "n_spec h = [rs]" and t: "is_rcrd_type (n_type h)"
    and ro: "cj_item J j ''rcrd_size'' = Some ro" "is_number J (unat rs) ro" and c: "cj_item J j ''contents'' = Some c"
    and d: "cj_kind J c = Js_Null \<and> d = [] \<or> cj_kind J c = Js_Array \<and>
      list_all2 (\<lambda>j v. yields demux j (\<lambda>_. v)) (cj_elems J c) vs \<and> list_all (\<lambda>v. length v \<le> unat rs) vs \<and>
      d = concat (map (padded (unat rs)) vs)"
  shows "yields (jsitem_prs A J k demux (n_type h)) j (\<lambda>p. ser p (Ef h d))"
  unfolding yields_def
proof (intro allI impI)
  fix prel len :: u32 and buf :: bytes
  assume "length (ser (unat prel) (Ef h d)) \<le> unat len" and fit2: "unat len \<le> length buf"
  then have fit1: "14 + length d \<le> unat len" using sp by simp
  let ?b2 = "raw_hdr prel h @ rs # drop 14 buf" and ?t = SWICC_FS_ITEM_TYPE_FILE_EF_LINEARFIXED
  have o: "cj_kind J j = Js_Object" using h by (simp add: hdr_js_def is_typed_def)
  have l14: "\<not> len < 14" using fit1 by (simp add: word_less_nat_alt)
  have raw: "jsitem_prs_file_raw J j prel buf = Some (SWICC_RET_SUCCESS, raw_hdr prel h @ drop 13 buf)"
    by (rule file_raw_ok [OF h]) (use fit1 fit2 in simp)
  have r255: "\<not> 255 < unat rs" using unat_u8_less [of rs] by linarith
  have "unat rs < 2 ^ 64" by (rule less_trans [OF unat_u8_less]) simp
  then have num: "cj_kind J ro = Js_Number" "js_uint 64 (cj_number J ro) = Some (unat rs)"
    using ro(2) js_uint_nat [of "unat rs" 64] by (simp_all add: is_number_def)
  have b2: "wrn (raw_hdr prel h @ drop 13 buf) 13 [rs] = Some ?b2"
    using fit1 fit2 by (simp add: wrn_def)
  have u14: "unat (14 :: u32) = 14" by simp
  have t14: "take 14 ?b2 = raw_hdr prel h @ [rs]" by simp
  have loop: "rcrd_loop demux (cj_elems J c) 14 rs len 0 ?b2 =
      Some (SWICC_RET_SUCCESS, raw_hdr prel h @ rs # d @ drop (14 + length d) buf, word_of_nat (length d))"
    if "cj_kind J c = Js_Array"
  proof -
    have y: "list_all2 (\<lambda>j v. yields demux j (\<lambda>_. v)) (cj_elems J c) vs" "list_all (\<lambda>v. length v \<le> unat rs) vs"
      and dd: "d = concat (map (padded (unat rs)) vs)" using d that by auto
    have ld: "unat rs * length vs = length d" unfolding dd by (rule length_records [OF y(2), symmetric])
    have "rcrd_loop demux (cj_elems J c) 14 rs len (word_of_nat 0) ?b2 =
        Some (SWICC_RET_SUCCESS, take (unat (14 :: u32) + 0) ?b2 @ concat (map (padded (unat rs)) vs) @
          drop (unat (14 :: u32) + 0 + unat rs * length vs) ?b2, word_of_nat (0 + unat rs * length vs))"
      by (rule rcrd_loop_ok [OF y]) (use fit1 fit2 ld in \<open>simp_all only: u14, simp_all\<close>)
    then show ?thesis unfolding u14 ld by (simp add: dd [symmetric] t14 add.commute)
  qed
  have nf: "\<not> len < 14 + word_of_nat (length d)"
  proof -
    have "unat (word_of_nat (length d) :: u32) = length d" by (rule size_word [of _ len]) (use fit1 in simp)
    moreover have "14 + length d < 4294967296" using fit1 unat_u32_less [of len] by linarith
    ultimately have "unat (14 + word_of_nat (length d) :: u32) = 14 + length d"
      by (subst unat_add_u32) simp_all
    then show ?thesis using fit1 by (simp add: word_less_nat_alt)
  qed
  have sz: "(14 :: u32) + word_of_nat (length d) = word_of_nat (nsize (Ef h d))" using sp by simp
  have fd: "file_done ?t (14 + word_of_nat (length d)) (raw_hdr prel h @ rs # d @ drop (14 + length d) buf) =
      Some (SWICC_RET_SUCCESS, le32_put (word_of_nat (nsize (Ef h d))) @ le32_put prel @ [item_type_raw ?t, n_lcs h] @
        le16_put (n_id h) @ n_sid h # rs # d @ drop (14 + length d) buf, word_of_nat (nsize (Ef h d)))"
    unfolding sz by (rule file_done_ok) (use h in \<open>simp add: hdr_js_def\<close>)
  have lf: "jsitem_prs_file_ef_linearfixed J demux j prel buf len =
      Some (SWICC_RET_SUCCESS, le32_put (word_of_nat (nsize (Ef h d))) @ le32_put prel @ [item_type_raw ?t, n_lcs h] @
        le16_put (n_id h) @ n_sid h # rs # d @ drop (14 + length d) buf, word_of_nat (nsize (Ef h d)))"
    using d
  proof
    assume n: "cj_kind J c = Js_Null \<and> d = []"
    then show ?thesis using o raw l14 ro(1) num r255 c b2 fd
      by (simp add: jsitem_prs_file_ef_linearfixed_def hdr_sizes Let_def del: nsize.simps)
  next
    assume n: "cj_kind J c = Js_Array \<and> list_all2 (\<lambda>j v. yields demux j (\<lambda>_. v)) (cj_elems J c) vs \<and>
      list_all (\<lambda>v. length v \<le> unat rs) vs \<and> d = concat (map (padded (unat rs)) vs)"
    then have a: "cj_kind J c = Js_Array" by simp
    show ?thesis using o raw l14 ro(1) num r255 c b2 fd loop [OF a] a nf
      by (simp add: jsitem_prs_file_ef_linearfixed_def hdr_sizes Let_def del: nsize.simps)
  qed
  have ser: "le32_put (word_of_nat (nsize (Ef h d))) @ le32_put prel @ [item_type_raw (n_type h), n_lcs h] @
      le16_put (n_id h) @ n_sid h # rs # d @ drop (14 + length d) buf = ser (unat prel) (Ef h d) @ drop (14 + length d) buf"
    using sp by (simp add: ser_hdr_def del: nsize.simps)
  have "jsitem_prs A J k demux (n_type h) j prel buf len = Some (SWICC_RET_SUCCESS,
      le32_put (word_of_nat (nsize (Ef h d))) @ le32_put prel @ [item_type_raw (n_type h), n_lcs h] @
      le16_put (n_id h) @ n_sid h # rs # d @ drop (14 + length d) buf, word_of_nat (nsize (Ef h d)))"
  proof (cases "n_type h = ?t")
    case True
    then show ?thesis using lf by (simp add: jsitem_prs_def del: nsize.simps)
  next
    case False
    then have "n_type h = SWICC_FS_ITEM_TYPE_FILE_EF_CYCLIC" using t by (simp add: is_rcrd_type_def)
    then show ?thesis using lf o with_type_ok
      by (simp add: jsitem_prs_def jsitem_prs_file_ef_cyclic_def del: nsize.simps append.simps append_Cons)
  qed
  then show "jsitem_prs A J k demux (n_type h) j prel buf len = Some (SWICC_RET_SUCCESS,
      ser (unat prel) (Ef h d) @ drop (length (ser (unat prel) (Ef h d))) buf, word_of_nat (length (ser (unat prel) (Ef h d))))"
    unfolding ser using sp by simp
qed

subsection \<open>Whole trees\<close>

lemma nodes_js_list: "nodes_js J js ns \<longleftrightarrow> list_all2 (node_js J) js ns"
  by (induction ns arbitrary: js) (auto split: list.splits simp: list_all2_Cons2)

lemma hdr_js_typed: "hdr_js J j h \<Longrightarrow> is_typed J j (n_type h)"
  by (simp add: hdr_js_def)

text \<open>Every parser builds the layout of the described file in its buffer.\<close>

lemma yields_node:
  assumes g: "grants A" and "node_js J j n"
  shows "eventually (\<lambda>k. yields (jsitem_prs_demux A J k) j (\<lambda>p. ser p n)) sequentially"
  using assms(2)
proof (induction n arbitrary: j)
  case (Folder h cs)
  have ft: "is_folder_type (n_type h)" and h: "hdr_js J j h" using Folder.prems by simp_all
  obtain nj nm where nj: "cj_item J j ''name'' = Some nj" "cj_kind J nj = Js_Object" "value_js J nj nm"
    and nm: "length nm \<le> SWICC_FS_NAME_LEN" "n_spec h = nm @ replicate (SWICC_FS_NAME_LEN - length nm) 0"
      "n_type h = SWICC_FS_ITEM_TYPE_FILE_ADF \<Longrightarrow> SWICC_FS_ADF_AID_RID_LEN \<le> length nm"
    using Folder.prems by (auto simp: has_member_def name_js_def split: option.splits)
  obtain c where c: "cj_item J j ''contents'' = Some c"
    and k: "cj_kind J c = Js_Null \<and> cs = [] \<or> cj_kind J c = Js_Array \<and> cs \<noteq> [] \<and> list_all2 (node_js J) (cj_elems J c) cs"
    using Folder.prems by (auto simp: has_member_def nodes_js_list split: option.splits)
  have e1: "eventually (\<lambda>k. yields (jsitem_prs_demux A J k) nj (\<lambda>_. nm)) sequentially" by (rule yields_value [OF g nj(3)])
  have e2: "eventually (\<lambda>k. cj_kind J c = Js_Array \<longrightarrow>
      list_all2 (\<lambda>j n. yields (jsitem_prs_demux A J k) j (\<lambda>p. ser p n)) (cj_elems J c) cs) sequentially"
  proof (cases "cj_kind J c = Js_Array")
    case True
    then have "list_all2 (node_js J) (cj_elems J c) cs" using k by auto
    then have "list_all2 (\<lambda>j n. eventually (\<lambda>k. yields (jsitem_prs_demux A J k) j (\<lambda>p. ser p n)) sequentially) (cj_elems J c) cs"
      using Folder.IH by (auto simp: list_all2_conv_all_nth)
    from all2_eventually [OF this] show ?thesis by (rule eventually_mono) simp
  qed simp
  have "eventually (\<lambda>k. yields (jsitem_prs A J k (jsitem_prs_demux A J k) (n_type h)) j (\<lambda>p. ser p (Folder h cs))) sequentially"
    by (rule eventually_mono [OF eventually_conj [OF e1 e2]], rule yields_folder [OF h ft nj(1,2) _ nm])
       (use c k in \<open>auto simp: has_member_def\<close>)
  then show ?case
    by (intro demux_yields [OF hdr_js_typed [OF h]]) (use ft in \<open>auto simp: is_folder_type_def\<close>)
next
  case (Ef h d)
  have h: "hdr_js J j h" using Ef by simp
  obtain c where c: "cj_item J j ''contents'' = Some c" using Ef by (auto simp: has_member_def split: option.splits)
  consider (tr) "n_type h = SWICC_FS_ITEM_TYPE_FILE_EF_TRANSPARENT" "n_spec h = []"
      "cj_kind J c = Js_Null \<and> d = [] \<or> cj_kind J c = Js_Object \<and> value_js J c d"
    | (rc) rs where "is_rcrd_type (n_type h)" "n_spec h = [rs]" "has_member J j ''rcrd_size'' (is_number J (unat rs))"
      "cj_kind J c = Js_Null \<and> d = [] \<or> cj_kind J c = Js_Array \<and> records_js J (unat rs) (cj_elems J c) d"
  proof (cases "n_type h = SWICC_FS_ITEM_TYPE_FILE_EF_TRANSPARENT")
    case True
    then show ?thesis using Ef c tr by (auto simp: has_member_def is_rcrd_type_def)
  next
    case False
    then obtain rs where "n_spec h = [rs]" using Ef by (auto simp: length_Suc_conv)
    then show ?thesis using Ef c False rc [of rs] by (auto simp: has_member_def)
  qed
  then show ?case
  proof cases
    case tr
    have "eventually (\<lambda>k. cj_kind J c = Js_Object \<longrightarrow> yields (jsitem_prs_demux A J k) c (\<lambda>_. d)) sequentially"
    proof (cases "cj_kind J c = Js_Object")
      case True
      then have "value_js J c d" using tr(3) by auto
      then show ?thesis by (rule eventually_mono [OF yields_value [OF g]]) simp
    qed simp
    then have "eventually (\<lambda>k. yields (jsitem_prs A J k (jsitem_prs_demux A J k) (n_type h)) j (\<lambda>p. ser p (Ef h d))) sequentially"
      by (rule eventually_mono) (rule yields_transparent [OF h tr(2,1) c], use tr(3) in auto)
    then show ?thesis by (intro demux_yields [OF hdr_js_typed [OF h]]) (use tr(1) in auto)
  next
    case rc
    obtain ro where ro: "cj_item J j ''rcrd_size'' = Some ro" "is_number J (unat rs) ro"
      using rc(3) by (auto simp: has_member_def split: option.splits)
    have "\<exists>vs. eventually (\<lambda>k. cj_kind J c = Js_Null \<and> d = [] \<or> cj_kind J c = Js_Array \<and>
      list_all2 (\<lambda>j v. yields (jsitem_prs_demux A J k) j (\<lambda>_. v)) (cj_elems J c) vs \<and> list_all (\<lambda>v. length v \<le> unat rs) vs \<and>
      d = concat (map (padded (unat rs)) vs)) sequentially"
    proof (cases "cj_kind J c = Js_Array")
      case True
      then obtain vs where vs: "list_all2 (value_js J) (cj_elems J c) vs" "list_all (\<lambda>v. length v \<le> unat rs) vs"
        "d = concat (map (padded (unat rs)) vs)" using rc(4) by (auto simp: records_js_def)
      have "list_all2 (\<lambda>j v. eventually (\<lambda>k. yields (jsitem_prs_demux A J k) j (\<lambda>_. v)) sequentially) (cj_elems J c) vs"
        by (rule list_all2_mono [OF vs(1)]) (rule yields_value [OF g])
      from all2_eventually [OF this] have "eventually (\<lambda>k. cj_kind J c = Js_Null \<and> d = [] \<or> cj_kind J c = Js_Array \<and>
        list_all2 (\<lambda>j v. yields (jsitem_prs_demux A J k) j (\<lambda>_. v)) (cj_elems J c) vs \<and> list_all (\<lambda>v. length v \<le> unat rs) vs \<and>
        d = concat (map (padded (unat rs)) vs)) sequentially"
        by (rule eventually_mono) (use vs(2,3) True in simp)
      then show ?thesis by (rule exI)
    next
      case False
      then show ?thesis using rc(4) by simp
    qed
    then obtain vs where ev: "eventually (\<lambda>k. cj_kind J c = Js_Null \<and> d = [] \<or> cj_kind J c = Js_Array \<and>
      list_all2 (\<lambda>j v. yields (jsitem_prs_demux A J k) j (\<lambda>_. v)) (cj_elems J c) vs \<and> list_all (\<lambda>v. length v \<le> unat rs) vs \<and>
      d = concat (map (padded (unat rs)) vs)) sequentially" ..
    then have "eventually (\<lambda>k. yields (jsitem_prs A J k (jsitem_prs_demux A J k) (n_type h)) j (\<lambda>p. ser p (Ef h d))) sequentially"
      by (rule eventually_mono) (rule yields_records [OF h rc(2,1) ro c])
    then show ?thesis by (intro demux_yields [OF hdr_js_typed [OF h]]) (use rc(1) in \<open>auto simp: is_rcrd_type_def\<close>)
  qed
qed

section \<open>The whole disk\<close>

lemma node_js_ok: "node_js J j n \<Longrightarrow> node_ok n" "nodes_js J js ns \<Longrightarrow> list_all node_ok ns"
  by (induction J j n and J js ns rule: node_js_nodes_js.induct)
     (auto simp: name_js_def has_member_def split: option.splits list.splits)

text \<open>There are few files compared to the size of a tree.\<close>

lemma few_visits:
  "6 * length (visits_sub ti base off ns) \<le> sum_list (map nsize ns)"
  "6 * length (visit_node ti pos prel n) \<le> nsize n"
proof (induction ti base off ns and ti pos prel n rule: visits_sub_visit_node.induct)
  case (2 ti base off n ns)
  then show ?case by simp
qed simp_all

lemma visits_few: "6 * length (visits ti n) \<le> nsize n"
proof (cases n)
  case (Folder h cs)
  then show ?thesis using few_visits(1) [of ti 0 "file_raw_size + length (n_spec h)" cs] by (simp add: visits_def)
qed (simp add: visits_def)

lemma forest_few: "list_all (\<lambda>n. nsize n \<le> 4096) ns \<Longrightarrow> 6 * length (forest_kvs ti ns) \<le> 4096 * length ns"
proof (induction ns arbitrary: ti)
  case (Cons n ns)
  have "length (id_kvs (word_of_nat ti) (visits ti n)) \<le> length (visits ti n)" by (simp add: id_kvs_def)
  then show ?case using Cons.IH [of "ti + 1"] Cons.prems visits_few [of ti n] by simp
qed simp

text \<open>A described root file that fits into the first buffer of a tree.\<close>

definition root_js :: "'j cjson \<Rightarrow> 'j \<Rightarrow> fsnode \<Rightarrow> bool" where
  "root_js J j n \<longleftrightarrow> node_js J j n \<and> nsize n \<le> DISK_SIZE_START \<and>
     (n_type (n_hdr n) = SWICC_FS_ITEM_TYPE_FILE_MF \<or> n_type (n_hdr n) = SWICC_FS_ITEM_TYPE_FILE_ADF)"

lemma tree_prs_ok:
  assumes g: "grants A" and r: "root_js J j n" and y: "yields (jsitem_prs_demux A J k) j (\<lambda>p. ser p n)"
  shows "\<exists>t. disk_tree_prs A J k ti j = Some (SWICC_RET_SUCCESS, [t]) \<and> tree_repr t n \<and> sids_resolve ti t n"
proof -
  obtain f1 f2 where a: "A tree_struct_size = Some f1" "A DISK_SIZE_START = Some f2"
    using g unfolding grants_def by (metis not_None_eq)
  define b0 where "b0 = map f2 [0..<DISK_SIZE_START]"
  have lb: "length b0 = DISK_SIZE_START" by (simp add: b0_def)
  let ?sz = "word_of_nat DISK_SIZE_START :: u32" and ?b = "ser 0 n @ drop (nsize n) b0"
  have n: "nsize n \<le> DISK_SIZE_START" "node_ok n" using r node_js_ok(1) by (auto simp: root_js_def)
  have prs: "jsitem_prs_demux A J k j 0 b0 ?sz = Some (SWICC_RET_SUCCESS, ?b, word_of_nat (nsize n))"
    using yieldsD [OF y, of 0 ?sz b0] n(1) lb by simp
  have grow: "tree_grow A (jsitem_prs_demux A J k j 0) b0 ?sz = Some (SWICC_RET_SUCCESS, ?b, ?sz, word_of_nat (nsize n))"
    using prs by (subst tree_grow.simps) simp
  let ?t = "tree_zero\<lparr>t_buf := ?b, t_size := ?sz, t_len := word_of_nat (nsize n)\<rparr>"
  have u: "unat (word_of_nat (nsize n) :: u32) = nsize n" by (rule unat_of_nat_u32) (use n(1) in simp)
  have rep: "tree_repr ?t n"
    using n u r lb by (simp add: tree_repr_def root_ok_def root_js_def)
  have "length (sid_kvs (visits ti n)) \<le> length (visits ti n)" by (simp add: sid_kvs_def)
  then have few: "length (sid_kvs (visits ti n)) \<le> lut_cap" using visits_few [of ti n] n(1) by (simp add: lut_cap_def)
  have free: "lut_freeable (t_lutsid ?t)" by (simp add: tree_zero_def lut_freeable_def lut_zero_def)
  obtain l where l: "swicc_disk_lutsid_rebuild A ti ?t = Some (SWICC_RET_SUCCESS, ?t\<lparr>t_lutsid := l\<rparr>)"
    "sids_resolve ti (?t\<lparr>t_lutsid := l\<rparr>) n"
    using lutsid_rebuild_resolves [OF rep g free few] by blast
  have "tree_repr (?t\<lparr>t_lutsid := l\<rparr>) n" using rep by (simp add: tree_repr_def)
  then show ?thesis
    using grow l by (simp add: disk_tree_prs_def mem_malloc_def a b0_def [symmetric])
qed

lemma trees_prs_ok:
  assumes g: "grants A" and "list_all2 (root_js J) js ns"
    and "list_all2 (\<lambda>j n. yields (jsitem_prs_demux A J k) j (\<lambda>p. ser p n)) js ns"
  shows "\<exists>ts. disk_trees_prs A J k ti js = Some (SWICC_RET_SUCCESS, ts) \<and> list_all2 tree_repr ts ns \<and>
    (\<forall>i < length ns. sids_resolve (ti + i) (ts ! i) (ns ! i))"
  using assms(2,3)
proof (induction js ns arbitrary: ti rule: list_all2_induct)
  case (Cons j js n ns)
  obtain t where t: "disk_tree_prs A J k ti j = Some (SWICC_RET_SUCCESS, [t])" "tree_repr t n" "sids_resolve ti t n"
    using tree_prs_ok [OF g Cons(1)] Cons.prems by auto
  obtain ts where ts: "disk_trees_prs A J k (ti + 1) js = Some (SWICC_RET_SUCCESS, ts)" "list_all2 tree_repr ts ns"
    "\<forall>i < length ns. sids_resolve (ti + 1 + i) (ts ! i) (ns ! i)"
    using Cons.IH [of "ti + 1"] Cons.prems by auto
  have "sids_resolve (ti + i) ((t # ts) ! i) ((n # ns) ! i)" if "i < length (n # ns)" for i
    using that t(3) ts(3) by (cases i) auto
  then show ?case using t ts by simp
qed simp

text \<open>A document that describes the forest \<open>ns\<close>.\<close>

definition disk_js :: "'j cjson \<Rightarrow> 'j \<Rightarrow> fsnode list \<Rightarrow> bool" where
  "disk_js J doc ns \<longleftrightarrow> cj_kind J doc = Js_Object \<and> ns \<noteq> [] \<and> length ns \<le> 256 \<and>
     has_member J doc ''disk'' (\<lambda>l. cj_kind J l = Js_Array \<and> list_all2 (root_js J) (cj_elems J l) ns)"

lemma disk_prs_ok:
  assumes g: "grants A" and "disk_js J doc ns"
  shows "eventually (\<lambda>k. \<exists>d. disk_json_prs A J k disk_zero doc = Some (SWICC_RET_SUCCESS, d) \<and>
    fs_ok ns \<lparr>fs_va = va_zero, fs_disk = d\<rparr>) sequentially"
proof -
  obtain l where l: "cj_item J doc ''disk'' = Some l" "cj_kind J l = Js_Array" and r: "list_all2 (root_js J) (cj_elems J l) ns"
    and doc: "cj_kind J doc = Js_Object" "ns \<noteq> []" "length ns \<le> 256"
    using assms(2) by (auto simp: disk_js_def has_member_def split: option.splits)
  have "list_all2 (\<lambda>j n. eventually (\<lambda>k. yields (jsitem_prs_demux A J k) j (\<lambda>p. ser p n)) sequentially) (cj_elems J l) ns"
    by (rule list_all2_mono [OF r]) (rule yields_node [OF g], simp add: root_js_def)
  note ev = all2_eventually [OF this]
  show ?thesis
  proof (rule eventually_mono [OF ev])
    fix k assume "list_all2 (\<lambda>j n. yields (jsitem_prs_demux A J k) j (\<lambda>p. ser p n)) (cj_elems J l) ns"
    from trees_prs_ok [OF g r this, of 0] obtain ts where ts: "disk_trees_prs A J k 0 (cj_elems J l) = Some (SWICC_RET_SUCCESS, ts)"
      "list_all2 tree_repr ts ns" "\<forall>i < length ns. sids_resolve i (ts ! i) (ns ! i)" by auto
    let ?d = "disk_zero\<lparr>d_root := ts\<rparr>"
    have rep: "forest_repr ?d ns" using ts(2) doc(2,3) by (simp add: forest_repr_def)
    have "list_all (\<lambda>n. nsize n \<le> 4096) ns"
      using r by (auto simp: list_all_length list_all2_conv_all_nth root_js_def)
    from forest_few [OF this, of 0] doc(3) have few: "length (forest_kvs 0 ns) \<le> lut_cap" by (simp add: lut_cap_def)
    have free: "lut_freeable (d_lutid ?d)" by (simp add: disk_zero_def lut_freeable_def lut_zero_def)
    obtain m where m: "swicc_disk_lutid_rebuild A ?d = Some (SWICC_RET_SUCCESS, ?d\<lparr>d_lutid := m\<rparr>)" "ids_resolve (?d\<lparr>d_lutid := m\<rparr>) ns"
      using lutid_rebuild_resolves [OF rep g free few] by blast
    have "forest_repr (?d\<lparr>d_lutid := m\<rparr>) ns" using rep by (simp add: forest_repr_def)
    then have "fs_ok ns \<lparr>fs_va = va_zero, fs_disk = ?d\<lparr>d_lutid := m\<rparr>\<rparr>"
      using m(2) ts(3) va_zero_ok by (simp add: fs_ok_def)
    moreover have "disk_json_prs A J k disk_zero doc = Some (SWICC_RET_SUCCESS, ?d\<lparr>d_lutid := m\<rparr>)"
      using doc(1) l ts(1) m(1) by (simp add: disk_json_prs_def disk_zero_def)
    ultimately show "\<exists>d. disk_json_prs A J k disk_zero doc = Some (SWICC_RET_SUCCESS, d) \<and> fs_ok ns \<lparr>fs_va = va_zero, fs_disk = d\<rparr>"
      by blast
  qed
qed

text \<open>
  C6.  Creating a disk from a JSON file: when the document describes a forest of files, each tree of at most
  4096 bytes, the call succeeds and the disk is that forest, laid out as the file system expects it, with
  complete lookup tables; enough fuel is always found.
\<close>

theorem diskjs_creates_described:
  assumes "grants A" and "disk_js J doc ns"
    and "io_content io = Some content" and "cj_parse J content = Some doc" and "length content \<le> 4294967295"
    and "io_read io 0 = None" and "io_seek io" and "io_tell io" and "io_rewind io" and "io_close io"
    and "d_root d = []" and "lut_buf1 (d_lutid d) = Null" and "lut_buf2 (d_lutid d) = Null"
  shows "\<exists>k0. \<forall>k \<ge> k0. \<exists>d'. swicc_diskjs_disk_create A J k d io = Some (SWICC_RET_SUCCESS, d') \<and>
    fs_ok ns \<lparr>fs_va = va_zero, fs_disk = d'\<rparr>"
proof -
  have m: "mem_malloc A (length content) \<noteq> Null" using assms(1) by (auto simp: grants_def mem_malloc_def split: option.splits)
  obtain k0 where k0: "\<And>k. k0 \<le> k \<Longrightarrow> \<exists>d. disk_json_prs A J k disk_zero doc = Some (SWICC_RET_SUCCESS, d) \<and>
      fs_ok ns \<lparr>fs_va = va_zero, fs_disk = d\<rparr>"
    using disk_prs_ok [OF assms(1,2)] unfolding eventually_sequentially by blast
  have "\<exists>d'. swicc_diskjs_disk_create A J k d io = Some (SWICC_RET_SUCCESS, d') \<and> fs_ok ns \<lparr>fs_va = va_zero, fs_disk = d'\<rparr>"
    if "k0 \<le> k" for k
    using k0 [OF that] assms m by (auto simp: swicc_diskjs_disk_create_def fread_bytes_def)
  then show ?thesis by blast
qed

text \<open>A document, with values as a parser of JSON text gives them.\<close>

datatype js = JNull | JNum nat | JStr string | JArr "js list" | JObj "(string \<times> js) list"

definition js_lib :: "js \<Rightarrow> js cjson" where
  "js_lib doc =
     \<lparr>cj_kind = (\<lambda>j. case j of JNull \<Rightarrow> Js_Null | JNum n \<Rightarrow> Js_Number | JStr s \<Rightarrow> Js_String | JArr js \<Rightarrow> Js_Array | JObj ms \<Rightarrow> Js_Object),
      cj_item = (\<lambda>j key. case j of JObj ms \<Rightarrow> map_of ms key | _ \<Rightarrow> None),
      cj_elems = (\<lambda>j. case j of JArr js \<Rightarrow> js | _ \<Rightarrow> []),
      cj_string = (\<lambda>j. case j of JStr s \<Rightarrow> Some (ascii s) | _ \<Rightarrow> None),
      cj_number = (\<lambda>j. case j of JNum n \<Rightarrow> of_nat n | _ \<Rightarrow> 0),
      cj_parse = (\<lambda>txt. Some doc)\<rparr>"

definition demo_name :: js where
  "demo_name = JObj [(''type'', JStr ''ascii''), (''contents'', JStr ''MF'')]"

definition demo_hex :: js where
  "demo_hex = JObj [(''type'', JStr ''hex''), (''contents'', JStr ''98A0'')]"

definition demo_dato :: js where
  "demo_dato = JObj [(''type'', JStr ''dato_ber-tlv''), (''contents'',
     JObj [(''tag'', JObj [(''class'', JNum 1), (''number'', JNum 2)]),
           (''val'', JArr [JObj [(''tag'', JObj [(''class'', JNum 2), (''number'', JNum 3)]), (''val'', JStr ''3F00'')]])])]"

definition demo_doc :: js where
  "demo_doc = JObj [(''disk'', JArr [JObj [(''type'', JStr ''file_mf''), (''name'', demo_name), (''id'', JStr ''3F00''),
     (''contents'', JArr
       [JObj [(''type'', JStr ''file_ef_transparent''), (''id'', JStr ''2FE2''), (''sid'', JStr ''02''), (''contents'', demo_hex)],
        JObj [(''type'', JStr ''file_ef_cyclic''), (''id'', JStr ''6F01''), (''rcrd_size'', JNum 7),
              (''contents'', JArr [demo_dato, demo_hex])]])]])]"

definition demo_forest :: "fsnode list" where
  "demo_forest = [Folder \<lparr>n_type = SWICC_FS_ITEM_TYPE_FILE_MF, n_lcs = 0, n_id = 0x3F00, n_sid = 0,
       n_spec = [0x4D, 0x46, 0, 0, 0, 0, 0, 0, 0, 0, 0, 0, 0, 0, 0, 0]\<rparr>
     [Ef \<lparr>n_type = SWICC_FS_ITEM_TYPE_FILE_EF_TRANSPARENT, n_lcs = 0, n_id = 0x2FE2, n_sid = 2, n_spec = []\<rparr> [0x98, 0xA0],
      Ef \<lparr>n_type = SWICC_FS_ITEM_TYPE_FILE_EF_CYCLIC, n_lcs = 0, n_id = 0x6F01, n_sid = 0, n_spec = [7]\<rparr>
        [0x62, 4, 0x83, 2, 0x3F, 0, 0xFF, 0x98, 0xA0, 0xFF, 0xFF, 0xFF, 0xFF, 0xFF]]]"

lemma js_lib_simps [simp]:
  "cj_kind (js_lib doc) JNull = Js_Null" "cj_kind (js_lib doc) (JNum n) = Js_Number" "cj_kind (js_lib doc) (JStr s) = Js_String"
  "cj_kind (js_lib doc) (JArr xs) = Js_Array" "cj_kind (js_lib doc) (JObj ms) = Js_Object"
  "cj_item (js_lib doc) (JObj ms) key = map_of ms key" "cj_elems (js_lib doc) (JArr xs) = xs"
  "cj_string (js_lib doc) (JStr s) = Some (ascii s)" "cj_number (js_lib doc) (JNum n) = of_nat n"
  "cj_parse (js_lib doc) txt = Some doc"
  by (simp_all add: js_lib_def)

lemmas demo_eval = is_typed_def has_member_def is_string_def item_type_name_def is_number_def

lemma demo_hexs:
  "hex_of (be16 0x3F00) = ascii ''3F00''" "hex_of (be16 0x2FE2) = ascii ''2FE2''" "hex_of (be16 0x6F01) = ascii ''6F01''"
  "hex_of [2] = ascii ''02''" "hex_of [0x98, 0xA0] = ascii ''98A0''" "hex_of [0x3F, 0] = ascii ''3F00''"
  by code_simp+

lemma demo_values:
  "value_js (js_lib doc) demo_name [0x4D, 0x46]" "value_js (js_lib doc) demo_hex [0x98, 0xA0]"
  "value_js (js_lib doc) demo_dato [0x62, 4, 0x83, 2, 0x3F, 0]"
proof -
  show "value_js (js_lib doc) demo_name [0x4D, 0x46]"
    unfolding value_js_def
    by (rule disjI2, rule disjI1) (simp add: demo_name_def demo_eval ascii_def)
  show "value_js (js_lib doc) demo_hex [0x98, 0xA0]"
    unfolding value_js_def demo_hexs
    by (rule disjI1) (simp add: demo_hex_def demo_eval)
  let ?tlv = "Constr \<lparr>tag_num = 2, tag_cla = SWICC_DATO_BERTLV_TAG_CLA_APPLICATION, tag_pc = True\<rparr>
    [Prim \<lparr>tag_num = 3, tag_cla = SWICC_DATO_BERTLV_TAG_CLA_CONTEXT_SPECIFIC, tag_pc = False\<rparr> [0x3F, 0]]"
  have b: "ber_tlv ?tlv = [0x62, 4, 0x83, 2, 0x3F, 0]" by code_simp
  have t: "has_member (js_lib doc) demo_dato ''contents'' (\<lambda>c. cj_kind (js_lib doc) c = Js_Object \<and> tlv_js (js_lib doc) c ?tlv)"
    by (simp add: demo_dato_def demo_eval tag_js_def tag_ok_def cla_number_def demo_hexs del: hex_of_simps)
  have k: "is_typed (js_lib doc) demo_dato SWICC_FS_ITEM_TYPE_DATO_BERTLV"
    by (simp add: demo_dato_def demo_eval)
  show "value_js (js_lib doc) demo_dato [0x62, 4, 0x83, 2, 0x3F, 0]"
    unfolding value_js_def b [symmetric] using t k
    by (auto simp: has_member_def simp del: tlv_js.simps ber_tlv.simps split: option.splits)
qed

lemma demo_described: "disk_js (js_lib doc) demo_doc demo_forest"
proof -
  have r: "records_js (js_lib doc) 7 [demo_dato, demo_hex] [0x62, 4, 0x83, 2, 0x3F, 0, 0xFF, 0x98, 0xA0, 0xFF, 0xFF, 0xFF, 0xFF, 0xFF]"
    unfolding records_js_def
    by (rule exI [of _ "[[0x62, 4, 0x83, 2, 0x3F, 0], [0x98, 0xA0]]"])
       (simp add: demo_values padded_def eval_nat_numeral)
  have nm: "name_js (js_lib doc) h demo_name"
    if "n_type h = SWICC_FS_ITEM_TYPE_FILE_MF" "n_spec h = [0x4D, 0x46, 0, 0, 0, 0, 0, 0, 0, 0, 0, 0, 0, 0, 0, 0]" for h
    unfolding name_js_def
    using that demo_values(1) by (intro conjI exI [of _ "[0x4D, 0x46]"]) (simp_all add: demo_name_def eval_nat_numeral)
  have k: "cj_kind (js_lib doc) demo_hex = Js_Object" by (simp add: demo_hex_def)
  show ?thesis
    by (simp add: demo_doc_def demo_forest_def disk_js_def root_js_def demo_eval is_folder_type_def is_rcrd_type_def hdr_js_def
      id_js_def demo_hexs r nm k demo_values del: hex_of_simps)
qed

theorem diskjs_creates_described_witness:
  "\<exists>k0. \<forall>k \<ge> k0. \<exists>d'. swicc_diskjs_disk_create (\<lambda>n. Some (\<lambda>i. 0)) (js_lib demo_doc) k disk_zero
      \<lparr>io_content = Some [], io_read = (\<lambda>_. None), io_seek = True, io_tell = True, io_rewind = True, io_write = (\<lambda>_. True), io_close = True\<rparr> =
        Some (SWICC_RET_SUCCESS, d') \<and> fs_ok demo_forest \<lparr>fs_va = va_zero, fs_disk = d'\<rparr>"
  by (rule diskjs_creates_described [where content = "[]", OF _ demo_described])
     (simp_all add: grants_def disk_zero_def lut_zero_def)

end
