(* ===== verification/Swicc_Disk_File.thy ===== *)
theory Swicc_Disk_File
  imports Swicc_Va_Path
begin

text \<open>
  Saving a disk to a file and loading it again (\<^verbatim>\<open>swicc_disk_save\<close> and \<^verbatim>\<open>swicc_disk_load\<close> of \<^verbatim>\<open>src/fs/disk.c\<close>).
\<close>

section \<open>The file\<close>

definition disk_file :: "fsnode list \<Rightarrow> bytes" where
  "disk_file ns = SWICC_DISK_MAGIC @ concat (map (ser 0) ns)"

text \<open>A host file system on which everything works.\<close>

definition io_ok :: "bytes \<Rightarrow> host_file \<Rightarrow> bool" where
  "io_ok content io \<longleftrightarrow> io_content io = Some content \<and> (\<forall>pos. io_read io pos = None) \<and> io_seek io \<and> io_tell io \<and> io_rewind io \<and>
     (\<forall>k. io_write io k) \<and> io_close io"

lemma save_loop_ok:
  assumes "list_all2 tree_repr ts ns" and "\<And>k. io_write io k"
  shows "save_loop io k ts r out = Some (if ts = [] then r else SWICC_RET_SUCCESS, out @ concat (map (ser 0) ns))"
  using assms(1)
proof (induction ts ns arbitrary: k r out rule: list_all2_induct)
  case (Cons t ts n ns)
  have tk: "take (nsize n) (t_buf t) = ser 0 n" "unat (t_len t) = nsize n" using Cons(1) by (simp_all add: tree_repr_def)
  have "min (length (t_buf t)) (nsize n) = nsize n" using arg_cong [OF tk(1), of length] by simp
  then have "nsize n \<le> length (t_buf t)" by linarith
  then have "rdn (t_buf t) 0 (unat (t_len t)) = Some (ser 0 n)" using tk by (simp add: rdn_def)
  moreover have "t_len t \<noteq> 0" using Cons(1) nsize_pos [of n] by (auto simp: tree_repr_def)
  ultimately show ?case using Cons.IH assms(2) by simp
qed simp

lemma save_run:
  assumes "forest_repr d ns" and "io_ok old io"
  shows "swicc_disk_save d io = Some (SWICC_RET_SUCCESS, Some (disk_file ns))"
proof -
  have "list_all2 tree_repr (d_root d) ns" "d_root d \<noteq> []" using assms(1) by (auto simp: forest_repr_def)
  then show ?thesis
    using save_loop_ok [of "d_root d" ns io 1 SWICC_RET_ERROR SWICC_DISK_MAGIC] assms(2)
    by (simp add: swicc_disk_save_def io_ok_def disk_file_def)
qed

section \<open>Loading it\<close>

lemma fread1_ok:
  assumes "drop pos content = xs @ rest" and "xs \<noteq> []" and "off + length xs \<le> length b" and "dev pos = None"
  shows "fread1 dev content pos (length xs) b off = Some (True, take off b @ xs @ drop (off + length xs) b)"
  using assms by (simp add: fread1_def fread_bytes_def wrn_def)

text \<open>The kinds of the roots: first the master file, then applications.\<close>

definition kinds_ok :: "nat \<Rightarrow> fsnode list \<Rightarrow> bool" where
  "kinds_ok i ns \<longleftrightarrow> (\<forall>k < length ns. n_type (n_hdr (ns ! k)) =
     (if i + k = 0 then SWICC_FS_ITEM_TYPE_FILE_MF else SWICC_FS_ITEM_TYPE_FILE_ADF))"

lemma load_tree_ok:
  assumes g: "grants A" and dev: "\<And>pos. dev pos = None" and ok: "root_ok n" and at: "drop pos content = ser 0 n @ rest" and i: "i < 256"
    and ty: "n_type (n_hdr n) = (if i = 0 then SWICC_FS_ITEM_TYPE_FILE_MF else SWICC_FS_ITEM_TYPE_FILE_ADF)"
  shows "\<exists>t. load_tree A dev content pos (word_of_nat i) = Some (SWICC_RET_SUCCESS, t) \<and> tree_repr t n \<and> t_lutsid t = lut_zero"
proof -
  let ?h = "n_hdr n"
  have no: "node_ok n" and small: "nsize n < 2 ^ 32 - 64" using ok by (simp_all add: root_ok_def)
  have u: "unat (word_of_nat (nsize n) :: u32) = nsize n" by (rule unat_of_nat_u32) (use small in simp)
  obtain body where body: "ser 0 n = ser_hdr (nsize n) 0 ?h @ body" using ser_split by blast
  define raw where "raw = le32_put (word_of_nat (nsize n)) @ le32_put 0 @ [item_type_raw (n_type ?h), n_lcs ?h]"
  define more where "more = le16_put (n_id ?h) @ [n_sid ?h] @ n_spec ?h @ body"
  have s: "ser 0 n = raw @ more" by (simp add: body raw_def more_def ser_hdr_def)
  have lr: "length raw = item_hdr_raw_size" by (simp add: raw_def)
  have ls: "length more = nsize n - item_hdr_raw_size" and big: "13 \<le> nsize n"
    using arg_cong [OF s, of length] lr by (simp_all add: more_def)
  have d1: "drop pos content = raw @ (more @ rest)" using at s by simp
  have d2: "drop (pos + item_hdr_raw_size) content = more @ rest" using drop_more [OF d1] lr by simp
  have f1: "fread1 dev content pos item_hdr_raw_size (replicate item_hdr_raw_size 0) 0 = Some (True, raw)"
    using fread1_ok [OF d1, of 0 "replicate item_hdr_raw_size 0" dev] lr dev by (simp add: raw_def)
  have get: "item_hdr_raw_get raw 0 = Some \<lparr>ihr_size = word_of_nat (nsize n), ihr_offset_prel = 0,
      ihr_type = item_type_raw (n_type ?h), ihr_lcs = n_lcs ?h\<rparr>"
  proof -
    have "drop 0 raw = le32_put (word_of_nat (nsize n)) @ le32_put 0 @ [item_type_raw (n_type ?h), n_lcs ?h]" by (simp add: raw_def)
    note d0 = this
    note d4 = drop_more [OF d0, simplified]
    have d8: "drop 8 raw = item_type_raw (n_type ?h) # [n_lcs ?h]" using drop_more [OF d4] by simp
    have d9: "drop 9 raw = n_lcs ?h # []" using drop_more_Cons [OF d8] by (simp add: eval_nat_numeral)
    show ?thesis
      using le32_get_drop [OF d0] le32_get_drop [OF d4] rd_drop [OF d8] rd_drop [OF d9]
      by (simp add: item_hdr_raw_get_def eval_nat_numeral)
  qed
  have nt: "n_type ?h \<noteq> SWICC_FS_ITEM_TYPE_INVALID" using ty by (simp split: if_splits)
  have t9: "item_type_raw (n_type ?h) \<le> 9" by (cases "n_type ?h") (simp_all add: item_type_raw_def)
  have z: "(word_of_nat i :: u8) = 0 \<longleftrightarrow> i = 0"
    using i by (auto simp: word_unat_eq_iff unat_of_nat_u8)
  obtain f where f: "A (nsize n) = Some f" using g by (auto simp: grants_def)
  let ?buf = "map f [0..<nsize n]"
  have n64: "nat ((int (nsize n) - 10) mod 18446744073709551616) = nsize n - item_hdr_raw_size"
    using big small by (simp add: nat_diff_distrib)
  have "more \<noteq> []" by (simp add: more_def)
  then have f2: "fread1 dev content (pos + item_hdr_raw_size) (nsize n - item_hdr_raw_size) ?buf item_hdr_raw_size =
      Some (True, take item_hdr_raw_size ?buf @ more)"
    using fread1_ok [OF d2, of item_hdr_raw_size ?buf dev] dev ls big by simp
  have w: "wrn (take item_hdr_raw_size ?buf @ more) 0 raw = Some (raw @ more)"
    using lr big by (simp add: wrn_def)
  define t where "t = tree_zero\<lparr>t_buf := raw @ more, t_size := word_of_nat (nsize n), t_len := word_of_nat (nsize n)\<rparr>"
  have "load_tree A dev content pos (word_of_nat i) = Some (SWICC_RET_SUCCESS, t)"
    using f1 get t9 nt z ty f f2 w
    by (cases "i = 0") (simp_all add: load_tree_def swicc_fs_item_hdr_prs_def item_type_prs_raw assert_ub_def mem_malloc_def u n64 t_def Let_def)
  moreover have "tree_repr t n" using ok small u by (simp add: tree_repr_def t_def s [symmetric])
  ultimately show ?thesis by (auto simp: t_def tree_zero_def)
qed

lemma load_loop_ok:
  assumes g: "grants A" and dev: "\<And>pos. dev pos = None" and "list_all root_ok ns" and "kinds_ok i ns" and "i + length ns \<le> 256"
    and "drop pos content = concat (map (ser 0) ns)" and "pos \<le> length content" and "length content < 2 ^ 32"
  shows "\<exists>ts. load_loop A dev content (word_of_nat pos) pos (word_of_nat i) acc = Some (SWICC_RET_SUCCESS, acc @ ts) \<and>
    list_all2 tree_repr ts ns \<and> (\<forall>t \<in> set ts. t_lutsid t = lut_zero)"
  using assms(3-7)
proof (induction ns arbitrary: i pos acc)
  case Nil
  have "unat (word_of_nat pos :: u32) = pos" by (rule unat_of_nat_u32) (use Nil assms(8) in simp)
  moreover have "length content \<le> pos" using Nil.prems(4) by simp
  ultimately show ?case by (subst load_loop.simps) simp
next
  case (Cons n ns)
  have u: "unat (word_of_nat pos :: u32) = pos" by (rule unat_of_nat_u32) (use Cons.prems(5) assms(8) in simp)
  have at: "drop pos content = ser 0 n @ concat (map (ser 0) ns)" using Cons.prems(4) by simp
  have lt: "pos + nsize n \<le> length content" using arg_cong [OF at, of length] Cons.prems(5) by simp
  have ty: "n_type (n_hdr n) = (if i = 0 then SWICC_FS_ITEM_TYPE_FILE_MF else SWICC_FS_ITEM_TYPE_FILE_ADF)"
    using Cons.prems(2) by (force simp: kinds_ok_def)
  obtain t where t: "load_tree A dev content pos (word_of_nat i) = Some (SWICC_RET_SUCCESS, t)" "tree_repr t n" "t_lutsid t = lut_zero"
    using load_tree_ok [where dev = dev, OF g dev _ at _ ty] Cons.prems(1,3) by auto
  have tl: "unat (t_len t) = nsize n" using t(2) by (simp add: tree_repr_def)
  have "t_len t = word_of_nat (nsize n)" by (simp flip: tl)
  note tl = tl this
  have k: "kinds_ok (i + 1) ns" using Cons.prems(2) by (auto simp: kinds_ok_def)
  have dr: "drop (pos + nsize n) content = concat (map (ser 0) ns)" using drop_more [OF at] by simp
  obtain ts where ts: "load_loop A dev content (word_of_nat (pos + nsize n)) (pos + nsize n) (word_of_nat (i + 1)) (acc @ [t]) =
      Some (SWICC_RET_SUCCESS, (acc @ [t]) @ ts)" "list_all2 tree_repr ts ns" "\<forall>t \<in> set ts. t_lutsid t = lut_zero"
    using Cons.IH [OF _ k _ dr lt, of "acc @ [t]"] Cons.prems(1,3) by auto
  have m: "mem_malloc A tree_struct_size \<noteq> Null" using g by (auto simp: grants_def mem_malloc_def split: option.splits)
  have "pos < length content" using lt nsize_pos [of n] by linarith
  then have "load_loop A dev content (word_of_nat pos) pos (word_of_nat i) acc = Some (SWICC_RET_SUCCESS, acc @ t # ts)"
    using u t(1) ts(1) m tl by (subst load_loop.simps) (simp add: add.commute)
  then show ?case using t ts by (intro exI [of _ "t # ts"]) simp
qed

lemma load_lutsids_ok:
  assumes g: "grants A" and "list_all2 tree_repr ts ns" and "\<forall>t \<in> set ts. t_lutsid t = lut_zero"
    and "\<And>i. i < length ns \<Longrightarrow> length (sid_kvs (visits (ti + i) (ns ! i))) \<le> lut_cap"
  shows "\<exists>ts'. load_lutsids A ti ts = Some (SWICC_RET_SUCCESS, ts') \<and> list_all2 tree_repr ts' ns \<and>
    (\<forall>i < length ns. sids_resolve (ti + i) (ts' ! i) (ns ! i))"
  using assms(2-4)
proof (induction ts ns arbitrary: ti rule: list_all2_induct)
  case (Cons t ts n ns)
  have free: "lut_freeable (t_lutsid t)" using Cons.prems(1) by (simp add: lut_freeable_def lut_zero_def)
  obtain l where l: "swicc_disk_lutsid_rebuild A ti t = Some (SWICC_RET_SUCCESS, t\<lparr>t_lutsid := l\<rparr>)" "sids_resolve ti (t\<lparr>t_lutsid := l\<rparr>) n"
    using lutsid_rebuild_resolves [OF Cons(1) g free, of ti] Cons.prems(2) [of 0] by auto
  have few: "length (sid_kvs (visits (ti + 1 + i) (ns ! i))) \<le> lut_cap" if "i < length ns" for i
    using Cons.prems(2) [of "i + 1"] that by simp
  obtain ts' where ts': "load_lutsids A (ti + 1) ts = Some (SWICC_RET_SUCCESS, ts')" "list_all2 tree_repr ts' ns"
    "\<forall>i < length ns. sids_resolve (ti + 1 + i) (ts' ! i) (ns ! i)"
    using Cons.IH [of "ti + 1"] Cons.prems(1) few by auto
  have "sids_resolve (ti + i) ((t\<lparr>t_lutsid := l\<rparr> # ts') ! i) ((n # ns) ! i)" if "i < length (n # ns)" for i
    using that l(2) ts'(3) by (cases i) auto
  moreover have "tree_repr (t\<lparr>t_lutsid := l\<rparr>) n" using Cons(1) by (simp add: tree_repr_def)
  ultimately show ?case using l(1) ts' by simp
qed simp

text \<open>
  C9.  A disk that was saved can be loaded again into an empty disk: the loaded disk holds the same forest,
  file by file, with complete lookup tables.
\<close>

theorem save_load_roundtrip:
  assumes "forest_repr d ns" and "kinds_ok 0 ns" and "io_ok old io" and "length (disk_file ns) < 2 ^ 32"
    and "grants A" and "d_root d0 = []"
    and "length (forest_kvs 0 ns) \<le> lut_cap" and "\<And>i. i < length ns \<Longrightarrow> length (sid_kvs (visits i (ns ! i))) \<le> lut_cap"
  shows "\<exists>content d'. swicc_disk_save d io = Some (SWICC_RET_SUCCESS, Some content) \<and>
    swicc_disk_load A d0 (io\<lparr>io_content := Some content\<rparr>) = Some (SWICC_RET_SUCCESS, d') \<and>
    fs_ok ns \<lparr>fs_va = va_zero, fs_disk = d'\<rparr>"
proof -
  let ?c = "disk_file ns" and ?io = "io\<lparr>io_content := Some (disk_file ns)\<rparr>"
  have ns: "list_all root_ok ns" "ns \<noteq> []" "length ns \<le> 256"
    using assms(1) by (auto simp: forest_repr_def list_all_length list_all2_conv_all_nth tree_repr_def)
  have io: "io_seek io" "io_tell io" "io_rewind io" "io_close io" and dev: "\<And>pos. io_read io pos = None" using assms(3) by (simp_all add: io_ok_def)
  have lm: "length SWICC_DISK_MAGIC = SWICC_DISK_MAGIC_LEN" "SWICC_DISK_MAGIC \<noteq> []" by (simp_all add: SWICC_DISK_MAGIC_def)
  have magic: "fread1 (io_read io) ?c 0 SWICC_DISK_MAGIC_LEN (replicate SWICC_DISK_MAGIC_LEN 0) 0 = Some (True, SWICC_DISK_MAGIC)"
    using fread1_ok [of 0 ?c SWICC_DISK_MAGIC "concat (map (ser 0) ns)" 0 "replicate SWICC_DISK_MAGIC_LEN 0" "io_read io"] lm dev
    by (simp add: disk_file_def)
  obtain ts where ts: "load_loop A (io_read io) ?c (word_of_nat SWICC_DISK_MAGIC_LEN) SWICC_DISK_MAGIC_LEN (word_of_nat 0) [] = Some (SWICC_RET_SUCCESS, [] @ ts)"
    "list_all2 tree_repr ts ns" "\<forall>t \<in> set ts. t_lutsid t = lut_zero"
    using load_loop_ok [where dev = "io_read io" and acc = "[]" and pos = SWICC_DISK_MAGIC_LEN, OF assms(5) dev ns(1) assms(2), of ?c] ns(3) assms(4) lm by (auto simp: disk_file_def)
  have lf: "load_file A ?io = Some (SWICC_RET_SUCCESS, ts)"
    using magic ts(1) io assms(4) by (simp add: load_file_def)
  obtain ts' where ts': "load_lutsids A 0 ts = Some (SWICC_RET_SUCCESS, ts')" "list_all2 tree_repr ts' ns"
    "\<forall>i < length ns. sids_resolve i (ts' ! i) (ns ! i)"
    using load_lutsids_ok [OF assms(5) ts(2,3), of 0] assms(8) by auto
  let ?d = "disk_zero\<lparr>d_root := ts'\<rparr>"
  have rep: "forest_repr ?d ns" using ts'(2) ns by (simp add: forest_repr_def)
  have free: "lut_freeable (d_lutid ?d)" by (simp add: disk_zero_def lut_freeable_def lut_zero_def)
  obtain m where m: "swicc_disk_lutid_rebuild A ?d = Some (SWICC_RET_SUCCESS, ?d\<lparr>d_lutid := m\<rparr>)" "ids_resolve (?d\<lparr>d_lutid := m\<rparr>) ns"
    using lutid_rebuild_resolves [OF rep assms(5) free assms(7)] by blast
  have "ts \<noteq> []" using ts(2) ns(2) by auto
  then have "swicc_disk_load A d0 ?io = Some (SWICC_RET_SUCCESS, ?d\<lparr>d_lutid := m\<rparr>)"
    using assms(6) lf ts'(1) m(1) by (simp add: swicc_disk_load_def)
  moreover have "fs_ok ns \<lparr>fs_va = va_zero, fs_disk = ?d\<lparr>d_lutid := m\<rparr>\<rparr>"
    using rep m(2) ts'(3) va_zero_ok by (simp add: fs_ok_def forest_repr_def)
  ultimately show ?thesis using save_run [OF assms(1,3)] by blast
qed

text \<open>The example disk.\<close>

definition demo_io :: host_file where
  "demo_io = \<lparr>io_content = Some [], io_read = (\<lambda>_. None), io_seek = True, io_tell = True, io_rewind = True, io_write = (\<lambda>_. True), io_close = True\<rparr>"

theorem save_load_roundtrip_witness:
  "\<exists>content d'. swicc_disk_save demo_disk demo_io = Some (SWICC_RET_SUCCESS, Some content) \<and>
     swicc_disk_load (\<lambda>n. Some (\<lambda>i. 0)) disk_zero (demo_io\<lparr>io_content := Some content\<rparr>) = Some (SWICC_RET_SUCCESS, d') \<and>
     fs_ok [demo_mf] \<lparr>fs_va = va_zero, fs_disk = d'\<rparr>"
proof (rule save_load_roundtrip [where old = "[]"])
  have t: "n_type (n_hdr demo_mf) = SWICC_FS_ITEM_TYPE_FILE_MF" by (simp add: demo_mf_def demo_hdr_def)
  then show "forest_repr demo_disk [demo_mf]"
    by (simp add: forest_repr_def demo_disk_def tree_repr_def root_ok_def demo_mf_ok)
  show "kinds_ok 0 [demo_mf]" using t by (simp add: kinds_ok_def)
  show "length (disk_file [demo_mf]) < 2 ^ 32" by (simp add: disk_file_def SWICC_DISK_MAGIC_def demo_mf_ok)
  have v: "length (visits 0 demo_mf) = 5" by (simp add: visits_def demo_mf_def demo_files_def)
  have "length (id_kvs 0 (visits 0 demo_mf)) \<le> length (visits 0 demo_mf)" by (simp add: id_kvs_def)
  then show "length (forest_kvs 0 [demo_mf]) \<le> lut_cap" using v by (simp add: lut_cap_def)
  have "length (sid_kvs (visits 0 demo_mf)) \<le> length (visits 0 demo_mf)" by (simp add: sid_kvs_def)
  then show "length (sid_kvs (visits i ([demo_mf] ! i))) \<le> lut_cap" if "i < length [demo_mf]" for i
    using that v by (simp add: lut_cap_def)
qed (simp_all add: grants_def disk_zero_def io_ok_def demo_io_def)

end
