(* ===== verification/Swicc_Net.thy ===== *)
theory Swicc_Net
  imports Swicc_Mock
begin

text \<open>
  \<^verbatim>\<open>src/net.c\<close>: the messages between a card and a server, the client that serves a card over a socket,
  and the sockets of the server.

  The sockets belong to the host.  A connected socket is the record \<open>net_sock\<close>: what the calls of
  \<^verbatim>\<open>recv\<close> find, the outcomes of the calls of \<^verbatim>\<open>send\<close> and the bytes the peer has got.  The outcomes of
  the other calls of the host are parameters.  The messages of the logger are left out.
\<close>

section \<open>Messages\<close>

abbreviation SWICC_NET_CLIENT_COUNT_MAX :: nat where "SWICC_NET_CLIENT_COUNT_MAX \<equiv> 8"

abbreviation SWICC_NET_MSG_CTRL_NONE :: u8 where "SWICC_NET_MSG_CTRL_NONE \<equiv> 0"
abbreviation SWICC_NET_MSG_CTRL_KEEPALIVE :: u8 where "SWICC_NET_MSG_CTRL_KEEPALIVE \<equiv> 1"
abbreviation SWICC_NET_MSG_CTRL_MOCK_RESET_COLD_PPS_Y :: u8 where "SWICC_NET_MSG_CTRL_MOCK_RESET_COLD_PPS_Y \<equiv> 2"
abbreviation SWICC_NET_MSG_CTRL_MOCK_RESET_WARM_PPS_Y :: u8 where "SWICC_NET_MSG_CTRL_MOCK_RESET_WARM_PPS_Y \<equiv> 3"
abbreviation SWICC_NET_MSG_CTRL_MOCK_RESET_COLD_PPS_N :: u8 where "SWICC_NET_MSG_CTRL_MOCK_RESET_COLD_PPS_N \<equiv> 4"
abbreviation SWICC_NET_MSG_CTRL_MOCK_RESET_WARM_PPS_N :: u8 where "SWICC_NET_MSG_CTRL_MOCK_RESET_WARM_PPS_N \<equiv> 5"
abbreviation SWICC_NET_MSG_CTRL_SUCCESS :: u8 where "SWICC_NET_MSG_CTRL_SUCCESS \<equiv> 0xF0"
abbreviation SWICC_NET_MSG_CTRL_FAILURE :: u8 where "SWICC_NET_MSG_CTRL_FAILURE \<equiv> 0x0F"

text \<open>
  The header is the size of the data; the data are the state of the contacts, the number of bytes that
  are expected, the control byte and the buffer.
\<close>

record swicc_net_msg =
  msg_size :: u32
  msg_cont_state :: u32
  msg_buf_len_exp :: u32
  msg_ctrl :: u8
  msg_buf :: bytes

abbreviation NET_BUF_LEN :: nat where "NET_BUF_LEN \<equiv> SWICC_DATA_MAX + 2"
abbreviation NET_HDR_LEN :: nat where "NET_HDR_LEN \<equiv> 4"
abbreviation NET_BUF_OFFSET :: nat where "NET_BUF_OFFSET \<equiv> 9"

text \<open>The packed structure in memory.\<close>

definition net_msg_raw :: "swicc_net_msg \<Rightarrow> bytes" where
  "net_msg_raw m = le32_put (msg_size m) @ le32_put (msg_cont_state m) @ le32_put (msg_buf_len_exp m) @ msg_ctrl m # msg_buf m"

definition net_msg_of :: "bytes \<Rightarrow> swicc_net_msg option" where
  "net_msg_of b = do {
     size \<leftarrow> le32_get b 0; cont_state \<leftarrow> le32_get b 4; buf_len_exp \<leftarrow> le32_get b 8; ctrl \<leftarrow> rd b 12;
     Some \<lparr>msg_size = size, msg_cont_state = cont_state, msg_buf_len_exp = buf_len_exp, msg_ctrl = ctrl, msg_buf = drop 13 b\<rparr> }"

definition net_data_len :: "swicc_net_msg \<Rightarrow> nat" where
  "net_data_len m = NET_BUF_OFFSET + length (msg_buf m)"

section \<open>The socket of the host\<close>

text \<open>
  What a call of \<^verbatim>\<open>recv\<close> finds: a failure or a segment of the stream, of which it takes as much as
  it has room for; after the last one the peer has closed the connection.  A call of \<^verbatim>\<open>send\<close> fails or
  takes at most the given number of bytes; after the outcomes that are given it takes all.
\<close>

datatype net_recv_res = Recv_Fails | Recv bytes

record net_sock =
  sk_in :: "net_recv_res list"
  sk_send :: "nat option list"
  sk_out :: bytes

definition sock_recv :: "nat \<Rightarrow> net_sock \<Rightarrow> bytes option \<times> net_sock" where
  "sock_recv n sk = (case sk_in sk of
     [] \<Rightarrow> (Some [], sk)
   | Recv_Fails # rs \<Rightarrow> (None, sk\<lparr>sk_in := rs\<rparr>)
   | Recv bs # rs \<Rightarrow> (Some (take n bs), sk\<lparr>sk_in := (if n < length bs then Recv (drop n bs) # rs else rs)\<rparr>))"

definition sock_send :: "bytes \<Rightarrow> net_sock \<Rightarrow> nat option \<times> net_sock" where
  "sock_send bs sk = (case sk_send sk of
     [] \<Rightarrow> (Some (length bs), sk\<lparr>sk_out := sk_out sk @ bs\<rparr>)
   | None # rs \<Rightarrow> (None, sk\<lparr>sk_send := rs\<rparr>)
   | Some k # rs \<Rightarrow> (Some (min k (length bs)), sk\<lparr>sk_send := rs, sk_out := sk_out sk @ take k bs\<rparr>))"

section \<open>Sending and receiving\<close>

definition msg_send :: "int \<Rightarrow> swicc_net_msg \<Rightarrow> net_sock \<Rightarrow> (swicc_ret \<times> net_sock) option" where
  "msg_send sock msg sk =
     (if sock < 0 then Some (SWICC_RET_PARAM_BAD, sk)
      else if unat (msg_size msg) > net_data_len msg then Some (SWICC_RET_PARAM_BAD, sk)
      else do {
        bs \<leftarrow> rdn (net_msg_raw msg) 0 (NET_HDR_LEN + unat (msg_size msg));
        let (sent_bytes, sk1) = sock_send bs sk;
        Some (if sent_bytes = Some (length bs) then SWICC_RET_SUCCESS else SWICC_RET_ERROR, sk1) })"

text \<open>The header and the data are each taken with one call; less than that is a failure.\<close>

definition msg_recv :: "int \<Rightarrow> swicc_net_msg \<Rightarrow> net_sock \<Rightarrow> (swicc_ret \<times> swicc_net_msg \<times> net_sock) option" where
  "msg_recv sock msg sk =
     (if sock < 0 then Some (SWICC_RET_PARAM_BAD, msg, sk)
      else (case sock_recv NET_HDR_LEN sk of
        (None, sk1) \<Rightarrow> Some (SWICC_RET_ERROR, msg, sk1)
      | (Some hdr, sk1) \<Rightarrow> do {
          raw1 \<leftarrow> wrn (net_msg_raw msg) 0 hdr;
          msg1 \<leftarrow> net_msg_of raw1;
          if length hdr \<noteq> NET_HDR_LEN then Some (SWICC_RET_ERROR, msg1, sk1)
          else if unat (msg_size msg1) > net_data_len msg1 \<or> unat (msg_size msg1) < NET_BUF_OFFSET
          then Some (SWICC_RET_ERROR, msg1, sk1)
          else (case sock_recv (unat (msg_size msg1)) sk1 of
            (None, sk2) \<Rightarrow> Some (SWICC_RET_ERROR, msg1, sk2)
          | (Some data, sk2) \<Rightarrow> do {
              raw2 \<leftarrow> wrn raw1 NET_HDR_LEN data;
              msg2 \<leftarrow> net_msg_of raw2;
              Some (if length data = unat (msg_size msg1) then SWICC_RET_SUCCESS else SWICC_RET_ERROR, msg2, sk2) }) }))"

definition swicc_net_recv :: "int \<Rightarrow> swicc_net_msg \<Rightarrow> net_sock \<Rightarrow> (swicc_ret \<times> swicc_net_msg \<times> net_sock) option" where
  "swicc_net_recv sock msg sk =
     (if sock < 0 then Some (SWICC_RET_PARAM_BAD, msg, sk)
      else do {
        (ret, msg1, sk1) \<leftarrow> msg_recv sock msg sk;
        Some (if ret = SWICC_RET_SUCCESS then SWICC_RET_SUCCESS else SWICC_RET_ERROR, msg1, sk1) })"

definition swicc_net_send :: "int \<Rightarrow> swicc_net_msg \<Rightarrow> net_sock \<Rightarrow> (swicc_ret \<times> net_sock) option" where
  "swicc_net_send sock msg sk =
     (if sock < 0 then Some (SWICC_RET_PARAM_BAD, sk)
      else do {
        (ret, sk1) \<leftarrow> msg_send sock msg sk;
        Some (if ret = SWICC_RET_SUCCESS then SWICC_RET_SUCCESS else SWICC_RET_ERROR, sk1) })"

section \<open>The client\<close>

record swicc_net_client_st =
  cl_sock :: int

text \<open>
  The buffers of the two messages are the buffers of the card, so that their contents are kept in its
  state only.  The answer to a control request: success or failure, and the answer to reset after a
  successful reset.
\<close>

definition is_reset_ctrl :: "u8 \<Rightarrow> bool" where
  "is_reset_ctrl ctrl \<longleftrightarrow>
     ctrl = SWICC_NET_MSG_CTRL_MOCK_RESET_WARM_PPS_Y \<or> ctrl = SWICC_NET_MSG_CTRL_MOCK_RESET_WARM_PPS_N \<or>
     ctrl = SWICC_NET_MSG_CTRL_MOCK_RESET_COLD_PPS_Y \<or> ctrl = SWICC_NET_MSG_CTRL_MOCK_RESET_COLD_PPS_N"

definition net_tx :: "nat \<Rightarrow> u8 \<Rightarrow> swicc_st \<Rightarrow> swicc_net_msg" where
  "net_tx n ctrl st = \<lparr>msg_size = word_of_nat (NET_BUF_OFFSET + n), msg_cont_state = st_cont_tx st,
     msg_buf_len_exp = ucast (st_buf_rx_len st), msg_ctrl = ctrl, msg_buf = st_buf_tx st\<rparr>"

definition net_client_ctrl ::
    "(nat \<Rightarrow> handler) \<Rightarrow> swicc_apdu_res \<Rightarrow> u8 \<Rightarrow> swicc_st \<Rightarrow> (swicc_net_msg \<times> swicc_st) option" where
  "net_client_ctrl H res0 ctrl st =
     (if ctrl = SWICC_NET_MSG_CTRL_KEEPALIVE then Some (net_tx 0 SWICC_NET_MSG_CTRL_SUCCESS st, st)
      else if is_reset_ctrl ctrl then do {
        (ret, st1) \<leftarrow> swicc_mock_reset_cold H res0
          (ctrl = SWICC_NET_MSG_CTRL_MOCK_RESET_WARM_PPS_Y \<or> ctrl = SWICC_NET_MSG_CTRL_MOCK_RESET_COLD_PPS_Y) st;
        if ret = SWICC_RET_SUCCESS then do {
          b \<leftarrow> wrn (st_buf_tx st1) 0 swicc_atr;
          let st2 = st1\<lparr>st_buf_tx := b\<rparr>;
          Some (net_tx (length swicc_atr) SWICC_NET_MSG_CTRL_SUCCESS st2, st2) }
        else Some (net_tx 0 SWICC_NET_MSG_CTRL_FAILURE st1, st1) }
      else Some (net_tx 0 SWICC_NET_MSG_CTRL_FAILURE st, st))"

text \<open>
  Data go to the card.  The copy of the sent bytes from the TX buffer of the card into the message is a
  copy of the buffer onto itself.
\<close>

definition net_client_data ::
    "(nat \<Rightarrow> handler) \<Rightarrow> swicc_apdu_res \<Rightarrow> u16 \<Rightarrow> swicc_st \<Rightarrow> (swicc_net_msg \<times> swicc_st) option" where
  "net_client_data H res0 rx_len st = do {
     st1 \<leftarrow> swicc_io H res0 (st\<lparr>st_buf_rx_len := rx_len, st_buf_tx_len := word_of_nat NET_BUF_LEN\<rparr>);
     _ \<leftarrow> rdn (st_buf_tx st1) 0 (unat (st_buf_tx_len st1));
     Some (net_tx (unat (st_buf_tx_len st1)) SWICC_NET_MSG_CTRL_SUCCESS st1, st1) }"

definition net_client_answer ::
    "(nat \<Rightarrow> handler) \<Rightarrow> swicc_apdu_res \<Rightarrow> swicc_net_msg \<Rightarrow> swicc_st \<Rightarrow> (swicc_net_msg \<times> swicc_st) option" where
  "net_client_answer H res0 msg_rx st =
     (if msg_ctrl msg_rx \<noteq> 0 then net_client_ctrl H res0 (msg_ctrl msg_rx) st
      else net_client_data H res0 (ucast (msg_size msg_rx - word_of_nat NET_BUF_OFFSET)) st)"

text \<open>
  The loop; it is left when the card is shut down, when no message can be received and when an answer
  cannot be sent.
\<close>

partial_function (option) net_client_loop ::
    "(nat \<Rightarrow> handler) \<Rightarrow> swicc_apdu_res \<Rightarrow> int \<Rightarrow> bool \<Rightarrow> swicc_net_msg \<Rightarrow> swicc_st \<Rightarrow> net_sock \<Rightarrow>
     (bool \<times> swicc_st \<times> net_sock) option" where
  "net_client_loop H res0 sock msg_received msg_rx st sk =
     (if st_shutdown st then Some (msg_received, st, sk)
      else Option.bind (swicc_net_recv sock (msg_rx\<lparr>msg_buf := st_buf_rx st\<rparr>) sk) (\<lambda>(ret, msg1, sk1).
        if ret \<noteq> SWICC_RET_SUCCESS then Some (msg_received, st\<lparr>st_buf_rx := msg_buf msg1\<rparr>, sk1)
        else if msg_size msg1 - word_of_nat NET_BUF_OFFSET \<le> 65535 then
          Option.bind (net_client_answer H res0 msg1 (st\<lparr>st_buf_rx := msg_buf msg1\<rparr>)) (\<lambda>(msg_tx, st1).
            Option.bind (swicc_net_send sock msg_tx sk1) (\<lambda>(ret, sk2).
              if ret \<noteq> SWICC_RET_SUCCESS then Some (msg_received, st1, sk2)
              else net_client_loop H res0 sock True msg1 st1 sk2))
        else net_client_loop H res0 sock msg_received msg1 (st\<lparr>st_buf_rx := msg_buf msg1\<rparr>) sk1))"

text \<open>The two messages are local variables that are not initialised: their contents are parameters.\<close>

definition swicc_net_client ::
    "(nat \<Rightarrow> handler) \<Rightarrow> swicc_apdu_res \<Rightarrow> swicc_net_msg \<Rightarrow> swicc_net_msg \<Rightarrow> swicc_st \<Rightarrow> swicc_net_client_st \<Rightarrow> net_sock \<Rightarrow>
     (swicc_ret \<times> swicc_st \<times> net_sock) option" where
  "swicc_net_client H res0 msg_rx msg_tx st client_ctx sk = do {
     (msg_received, st1, sk1) \<leftarrow> net_client_loop H res0 (cl_sock client_ctx) False msg_rx
       (st\<lparr>st_buf_rx := msg_buf msg_rx, st_buf_rx_len := 0, st_buf_tx := msg_buf msg_tx, st_buf_tx_len := word_of_nat NET_BUF_LEN\<rparr>) sk;
     Some (if st_shutdown st1 then SWICC_RET_SUCCESS
           else if msg_received then SWICC_RET_NET_DISCONNECTED
           else SWICC_RET_ERROR, st1, sk1) }"

end
