(* ===== verification/Swicc_Net_Server.thy ===== *)
theory Swicc_Net_Server
  imports Swicc_Net
begin

text \<open>
  \<^verbatim>\<open>src/net.c\<close>: the sockets of the server and of the client, and the signal handlers.

  The host is the list of the descriptors that are open.  What its calls return is a parameter of each
  operation; a number that \<^verbatim>\<open>strtol\<close> reads is given as this number.
\<close>

section \<open>Descriptors\<close>

type_synonym fds = "int list"

text \<open>Closing a socket: \<open>ok\<close> tells for which descriptors \<^verbatim>\<open>close\<close> succeeds; \<^verbatim>\<open>shutdown\<close> has no effect here.\<close>

definition swicc_net_sock_close :: "(int \<Rightarrow> bool) \<Rightarrow> int \<Rightarrow> fds \<Rightarrow> fds" where
  "swicc_net_sock_close ok sock fds =
     (if sock < 0 then fds else if ok sock then filter (\<lambda>s. s \<noteq> sock) fds else fds)"

text \<open>What \<^verbatim>\<open>socket\<close> or \<^verbatim>\<open>accept\<close> opens.\<close>

definition fd_open :: "int \<Rightarrow> fds \<Rightarrow> fds" where
  "fd_open sock fds = (if sock < 0 then fds else sock # fds)"

section \<open>The server\<close>

record swicc_net_server =
  srv_sock :: int
  srv_clients :: "int list"

record create_calls =
  cc_socket :: int
  cc_bind :: bool
  cc_listen :: bool
  cc_fcntl :: bool
  cc_close :: bool

definition swicc_net_server_create ::
    "int \<Rightarrow> create_calls \<Rightarrow> swicc_net_server \<Rightarrow> fds \<Rightarrow> swicc_ret \<times> swicc_net_server \<times> fds" where
  "swicc_net_server_create port_num c server_ctx fds =
     (let port = (word_of_int port_num :: u16); sock = cc_socket c; fds1 = fd_open sock fds in
      if port = 0 then (SWICC_RET_PARAM_BAD, server_ctx, fds)
      else if sock = -1 then (SWICC_RET_ERROR, server_ctx, fds1)
      else if cc_bind c \<and> cc_listen c \<and> cc_fcntl c then (SWICC_RET_SUCCESS, server_ctx\<lparr>srv_sock := sock\<rparr>, fds1)
      else (SWICC_RET_ERROR, server_ctx, if cc_close c then filter (\<lambda>s. s \<noteq> sock) fds1 else fds1))"

fun close_clients :: "(int \<Rightarrow> bool) \<Rightarrow> int list \<Rightarrow> fds \<Rightarrow> fds" where
  "close_clients ok [] fds = fds"
| "close_clients ok (s # ss) fds = close_clients ok ss (if s \<ge> 0 then swicc_net_sock_close ok s fds else fds)"

definition swicc_net_server_destroy :: "(int \<Rightarrow> bool) \<Rightarrow> swicc_net_server \<Rightarrow> fds \<Rightarrow> swicc_net_server \<times> fds" where
  "swicc_net_server_destroy ok server_ctx fds =
     (server_ctx\<lparr>srv_sock := -1, srv_clients := map (\<lambda>_. -1) (srv_clients server_ctx)\<rparr>,
      close_clients ok (srv_clients server_ctx) (swicc_net_sock_close ok (srv_sock server_ctx) fds))"

datatype accept_errno = EAGAIN | EWOULDBLOCK | ECONNABORTED | EPERM | EPROTO | ENO_OTHER

text \<open>
  The slot is compared with the number of slots, so that the slot behind the last one passes the check and
  the access to the array is out of bounds.  The keep-alive of a client socket is compiled out.
\<close>

definition swicc_net_server_client_connect ::
    "int \<Rightarrow> accept_errno \<Rightarrow> swicc_net_server \<Rightarrow> u16 \<Rightarrow> fds \<Rightarrow> (swicc_ret \<times> swicc_net_server \<times> fds) option" where
  "swicc_net_server_client_connect sock errno server_ctx slot fds =
     (if unat slot > SWICC_NET_CLIENT_COUNT_MAX then Some (SWICC_RET_PARAM_BAD, server_ctx, fds)
      else do {
        cur \<leftarrow> rd (srv_clients server_ctx) (unat slot);
        if cur \<noteq> -1 then Some (SWICC_RET_PARAM_BAD, server_ctx, fds)
        else if sock \<ge> 0 then
          Some (SWICC_RET_SUCCESS, server_ctx\<lparr>srv_clients := (srv_clients server_ctx)[unat slot := sock]\<rparr>, fd_open sock fds)
        else if errno = EAGAIN \<or> errno = EWOULDBLOCK then Some (SWICC_RET_NET_CONN_QUEUE_EMPTY, server_ctx, fds)
        else Some (SWICC_RET_ERROR, server_ctx, fds) })"

definition swicc_net_server_client_disconnect ::
    "(int \<Rightarrow> bool) \<Rightarrow> swicc_net_server \<Rightarrow> u16 \<Rightarrow> fds \<Rightarrow> (swicc_net_server \<times> fds) option" where
  "swicc_net_server_client_disconnect ok server_ctx slot fds =
     (if unat slot > SWICC_NET_CLIENT_COUNT_MAX then Some (server_ctx, fds)
      else do {
        cur \<leftarrow> rd (srv_clients server_ctx) (unat slot);
        if cur < 0 then Some (server_ctx, fds)
        else Some (server_ctx\<lparr>srv_clients := (srv_clients server_ctx)[unat slot := -1]\<rparr>, swicc_net_sock_close ok cur fds) })"

section \<open>The client\<close>

text \<open>The socket is not closed when the connection fails.\<close>

definition swicc_net_client_create ::
    "bool \<Rightarrow> int \<Rightarrow> int \<Rightarrow> bool \<Rightarrow> swicc_net_client_st \<Rightarrow> fds \<Rightarrow> swicc_ret \<times> swicc_net_client_st \<times> fds" where
  "swicc_net_client_create hostname_ok port_num sock connected client_ctx fds =
     (if \<not> hostname_ok then (SWICC_RET_PARAM_BAD, client_ctx, fds)
      else if (word_of_int port_num :: u16) = 0 then (SWICC_RET_PARAM_BAD, client_ctx, fds)
      else if sock \<noteq> -1 \<and> connected then (SWICC_RET_SUCCESS, client_ctx\<lparr>cl_sock := sock\<rparr>, fd_open sock fds)
      else (SWICC_RET_ERROR, client_ctx, fd_open sock fds))"

definition swicc_net_client_destroy :: "(int \<Rightarrow> bool) \<Rightarrow> swicc_net_client_st \<Rightarrow> fds \<Rightarrow> swicc_net_client_st \<times> fds" where
  "swicc_net_client_destroy ok client_ctx fds =
     (client_ctx\<lparr>cl_sock := -1\<rparr>, if cl_sock client_ctx \<ge> 0 then swicc_net_sock_close ok (cl_sock client_ctx) fds else fds)"

section \<open>Signals\<close>

datatype signo = SIGINT | SIGHUP | SIGTERM

datatype sig_disp = SIG_DFL | SIG_IGN | Sig_Handler nat

text \<open>
  For each signal the old action is read and then the new one set, each with an outcome; after a failure
  the default handlers are installed, which is asserted to succeed.
\<close>

definition swicc_net_client_sig_default :: "(signo \<Rightarrow> bool) \<Rightarrow> (signo \<Rightarrow> sig_disp) option" where
  "swicc_net_client_sig_default signal_ok = do {
     assert_ub (signal_ok SIGINT); assert_ub (signal_ok SIGHUP); assert_ub (signal_ok SIGTERM);
     Some (\<lambda>_. SIG_DFL) }"

fun sig_install :: "(signo \<Rightarrow> bool) \<Rightarrow> (signo \<Rightarrow> bool) \<Rightarrow> nat \<Rightarrow> signo list \<Rightarrow> (signo \<Rightarrow> sig_disp) \<Rightarrow> (signo \<Rightarrow> sig_disp) option" where
  "sig_install get_ok set_ok h [] disp = Some disp"
| "sig_install get_ok set_ok h (s # ss) disp =
     (if get_ok s \<and> set_ok s then sig_install get_ok set_ok h ss (disp(s := Sig_Handler h)) else None)"

definition swicc_net_client_sig_register ::
    "bool \<Rightarrow> (signo \<Rightarrow> bool) \<Rightarrow> (signo \<Rightarrow> bool) \<Rightarrow> (signo \<Rightarrow> bool) \<Rightarrow> nat \<Rightarrow> (signo \<Rightarrow> sig_disp) \<Rightarrow>
     (swicc_ret \<times> (signo \<Rightarrow> sig_disp)) option" where
  "swicc_net_client_sig_register sigemptyset_ok get_ok set_ok signal_ok h disp =
     (if \<not> sigemptyset_ok then Some (SWICC_RET_ERROR, disp)
      else (case sig_install get_ok set_ok h [SIGINT, SIGHUP, SIGTERM] disp of
        Some disp1 \<Rightarrow> Some (SWICC_RET_SUCCESS, disp1)
      | None \<Rightarrow> do { disp1 \<leftarrow> swicc_net_client_sig_default signal_ok; Some (SWICC_RET_ERROR, disp1) }))"

lemma sig_register_all_or_none:
  assumes "\<And>s. signal_ok s"
  shows "\<exists>ret disp'. swicc_net_client_sig_register True get_ok set_ok signal_ok h disp = Some (ret, disp') \<and>
    (if (\<forall>s. get_ok s \<and> set_ok s) then ret = SWICC_RET_SUCCESS \<and> disp' = (\<lambda>_. Sig_Handler h)
     else ret = SWICC_RET_ERROR \<and> disp' = (\<lambda>_. SIG_DFL))"
proof -
  have all: "(\<forall>s. get_ok s \<and> set_ok s) \<longleftrightarrow> (get_ok SIGINT \<and> set_ok SIGINT) \<and> (get_ok SIGHUP \<and> set_ok SIGHUP) \<and> get_ok SIGTERM \<and> set_ok SIGTERM"
    by (metis signo.exhaust)
  have "disp(SIGINT := x, SIGHUP := x, SIGTERM := x) = (\<lambda>_. x)" for x
  proof
    show "(disp(SIGINT := x, SIGHUP := x, SIGTERM := x)) s = x" for s by (cases s) simp_all
  qed
  then show ?thesis
    unfolding all using assms
    by (simp add: swicc_net_client_sig_register_def swicc_net_client_sig_default_def assert_ub_def)
qed

section \<open>No descriptor is lost\<close>

text \<open>The descriptors that the server knows.\<close>

definition srv_fds :: "swicc_net_server \<Rightarrow> int set" where
  "srv_fds s = {fd \<in> insert (srv_sock s) (set (srv_clients s)). 0 \<le> fd}"

text \<open>
  The operations on a server with what the host returns, in any order and with any outcome.  The number of
  descriptors that \<^verbatim>\<open>socket\<close> or \<^verbatim>\<open>accept\<close> returns is \<open>-1\<close> or one that is not open.
\<close>

datatype srv_op =
    Srv_create int create_calls
  | Srv_connect int accept_errno u16
  | Srv_disconnect "int \<Rightarrow> bool" u16
  | Srv_destroy "int \<Rightarrow> bool"

fun srv_do :: "srv_op \<Rightarrow> swicc_net_server \<Rightarrow> fds \<Rightarrow> (swicc_net_server \<times> fds) option" where
  "srv_do (Srv_create port c) s fds = (case swicc_net_server_create port c s fds of (ret, s', fds') \<Rightarrow> Some (s', fds'))"
| "srv_do (Srv_connect sock e slot) s fds = do {
     (ret, s', fds') \<leftarrow> swicc_net_server_client_connect sock e s slot fds;
     Some (s', fds') }"
| "srv_do (Srv_disconnect ok slot) s fds = swicc_net_server_client_disconnect ok s slot fds"
| "srv_do (Srv_destroy ok) s fds = Some (swicc_net_server_destroy ok s fds)"

fun srv_fresh :: "srv_op \<Rightarrow> fds \<Rightarrow> bool" where
  "srv_fresh (Srv_create port c) fds \<longleftrightarrow> cc_socket c \<ge> -1 \<and> cc_socket c \<notin> set fds"
| "srv_fresh (Srv_connect sock e slot) fds \<longleftrightarrow> sock \<notin> set fds"
| "srv_fresh op fds \<longleftrightarrow> True"

text \<open>
  The descriptors that an operation loses: they stay open and the server forgets them.  These are the
  ones whose \<^verbatim>\<open>close\<close> fails, and the listening socket of a server that is created once more.
\<close>

fun srv_lost :: "srv_op \<Rightarrow> swicc_net_server \<Rightarrow> int set" where
  "srv_lost (Srv_create port c) s =
     (if (word_of_int port :: u16) = 0 \<or> cc_socket c = -1 then {}
      else if cc_bind c \<and> cc_listen c \<and> cc_fcntl c then (if 0 \<le> srv_sock s then {srv_sock s} else {})
      else if cc_close c then {} else {cc_socket c})"
| "srv_lost (Srv_connect sock e slot) s = {}"
| "srv_lost (Srv_disconnect ok slot) s =
     (if unat slot < length (srv_clients s) \<and> 0 \<le> srv_clients s ! unat slot \<and> \<not> ok (srv_clients s ! unat slot)
      then {srv_clients s ! unat slot} else {})"
| "srv_lost (Srv_destroy ok) s = {fd \<in> srv_fds s. \<not> ok fd}"

text \<open>A sequence of operations, with the descriptors lost so far, and the contract of the host along it.\<close>

fun srv_run :: "srv_op list \<Rightarrow> swicc_net_server \<Rightarrow> fds \<Rightarrow> int set \<Rightarrow> (swicc_net_server \<times> fds \<times> int set) option" where
  "srv_run [] s fds lost = Some (s, fds, lost)"
| "srv_run (op # ops) s fds lost = do { (s', fds') \<leftarrow> srv_do op s fds; srv_run ops s' fds' (lost \<union> srv_lost op s) }"

fun srv_host_ok :: "srv_op list \<Rightarrow> swicc_net_server \<Rightarrow> fds \<Rightarrow> bool" where
  "srv_host_ok [] s fds \<longleftrightarrow> True"
| "srv_host_ok (op # ops) s fds \<longleftrightarrow> srv_fresh op fds \<and>
     (case srv_do op s fds of None \<Rightarrow> True | Some (s', fds') \<Rightarrow> srv_host_ok ops s' fds')"

text \<open>The slot behind the last one passes the check of the slot.\<close>

fun srv_slot_over :: "srv_op \<Rightarrow> bool" where
  "srv_slot_over (Srv_connect sock e slot) \<longleftrightarrow> unat slot = SWICC_NET_CLIENT_COUNT_MAX"
| "srv_slot_over (Srv_disconnect ok slot) \<longleftrightarrow> unat slot = SWICC_NET_CLIENT_COUNT_MAX"
| "srv_slot_over op \<longleftrightarrow> False"

text \<open>
  Every slot has at most one descriptor, no descriptor is in two places, and the open ones are the ones of
  the server and the lost ones, which the server does not hold.
\<close>

definition srv_inv :: "swicc_net_server \<Rightarrow> fds \<Rightarrow> int set \<Rightarrow> bool" where
  "srv_inv s fds lost \<longleftrightarrow> length (srv_clients s) = SWICC_NET_CLIENT_COUNT_MAX \<and>
     distinct (filter (\<lambda>fd. 0 \<le> fd) (srv_sock s # srv_clients s)) \<and> set fds = srv_fds s \<union> lost \<and> srv_fds s \<inter> lost = {}"

lemma set_nth_split: "i < length xs \<Longrightarrow> set xs = set (take i xs) \<union> insert (xs ! i) (set (drop (Suc i) xs))"
  by (metis id_take_nth_drop list.simps(15) set_append)

lemma set_update_split: "i < length xs \<Longrightarrow> set (xs[i := y]) = set (take i xs) \<union> insert y (set (drop (Suc i) xs))"
  by (simp add: upd_conv_take_nth_drop)

lemma distinct_slot:
  assumes "distinct (filter P xs)" "i < length xs" "P y \<Longrightarrow> y \<notin> set xs"
  shows "distinct (filter P (xs[i := y]))"
proof -
  have "distinct (filter P (take i xs @ xs ! i # drop (Suc i) xs))" using assms(1) id_take_nth_drop [OF assms(2)] by metis
  then show ?thesis
    using assms(3) set_nth_split [OF assms(2)] unfolding upd_conv_take_nth_drop [OF assms(2)] by (auto split: if_split_asm)
qed

lemma slot_put:
  assumes "i < length xs" "xs ! i = -1"
  shows "{fd \<in> insert k (set (xs[i := y])). 0 \<le> fd} = (if 0 \<le> (y :: int) then {y} else {}) \<union> {fd \<in> insert k (set xs). 0 \<le> fd}"
  unfolding set_update_split [OF assms(1)] set_nth_split [OF assms(1)] assms(2) by auto

lemma slot_clear:
  assumes "distinct (filter (\<lambda>fd. 0 \<le> fd) (k # xs))" "i < length xs" "0 \<le> xs ! i"
  shows "{fd \<in> insert k (set (xs[i := -1])). 0 \<le> fd} = {fd \<in> insert k (set xs). 0 \<le> fd} - {xs ! i :: int}"
proof -
  have "distinct (filter (\<lambda>fd. 0 \<le> fd) (k # take i xs @ xs ! i # drop (Suc i) xs))"
    using assms(1) id_take_nth_drop [OF assms(2)] by metis
  then have n: "xs ! i \<notin> set (take i xs)" "xs ! i \<notin> set (drop (Suc i) xs)" "k \<noteq> xs ! i"
    using assms(3) by (simp_all split: if_split_asm)
  obtain A B where "set xs = A \<union> insert (xs ! i) B" "set (xs[i := -1]) = A \<union> insert (-1) B" "xs ! i \<notin> A" "xs ! i \<notin> B"
    using set_nth_split [OF assms(2)] set_update_split [OF assms(2)] n(1,2) by blast
  then show ?thesis using n(3) by auto
qed

lemma set_sock_close: "set (swicc_net_sock_close ok sock fds) = {fd \<in> set fds. fd < 0 \<or> fd \<noteq> sock \<or> \<not> ok fd}"
  by (auto simp: swicc_net_sock_close_def)

lemma set_close_clients:
  "set (close_clients ok ss fds) = {fd \<in> set fds. fd < 0 \<or> fd \<notin> set ss \<or> \<not> ok fd}"
  by (induction ss arbitrary: fds) (auto simp: set_sock_close)

lemma create_inv:
  assumes inv: "srv_inv s fds lost" and new: "cc_socket c \<ge> -1" "cc_socket c \<notin> set fds"
    and run: "swicc_net_server_create port c s fds = (ret, s', fds')"
  shows "srv_inv s' fds' (lost \<union> srv_lost (Srv_create port c) s)"
proof -
  let ?k = "cc_socket c"
  have f: "set fds = srv_fds s \<union> lost" "srv_fds s \<inter> lost = {}" and l: "length (srv_clients s) = 8"
    and d: "distinct (filter (\<lambda>fd. 0 \<le> fd) (srv_clients s))" "0 \<le> srv_sock s \<Longrightarrow> srv_sock s \<notin> set (srv_clients s)"
    using inv by (auto simp: srv_inv_def split: if_split_asm)
  have flt: "filter (\<lambda>s. s \<noteq> ?k) fds = fds" using new(2) by (induction fds) auto
  consider (nothing) "s' = s" "fds' = fds" "srv_lost (Srv_create port c) s = {}"
    | (leak) "s' = s" "0 \<le> ?k" "fds' = ?k # fds" "srv_lost (Srv_create port c) s = {?k}"
    | (ok) "0 \<le> ?k" "s' = s\<lparr>srv_sock := ?k\<rparr>" "fds' = ?k # fds"
        "srv_lost (Srv_create port c) s = (if 0 \<le> srv_sock s then {srv_sock s} else {})"
    using new(1) run flt by (auto simp: swicc_net_server_create_def Let_def fd_open_def split: if_split_asm)
  then show ?thesis
  proof cases
    case nothing
    then show ?thesis using inv by simp
  next
    case leak
    then show ?thesis using inv f new(2) unfolding leak(4) by (auto simp: srv_inv_def)
  next
    case ok
    have held: "srv_fds s = {fd \<in> set (srv_clients s). 0 \<le> fd} \<union> (if 0 \<le> srv_sock s then {srv_sock s} else {})"
      by (auto simp: srv_fds_def)
    have held': "srv_fds s' = insert ?k {fd \<in> set (srv_clients s). 0 \<le> fd}" using ok(1,2) by (auto simp: srv_fds_def)
    have n: "?k \<notin> set (srv_clients s)" using new(2) ok(1) by (simp add: f srv_fds_def)
    have "set fds' = srv_fds s' \<union> (lost \<union> srv_lost (Srv_create port c) s)"
      unfolding ok(3,4) held' using f(1) held by auto
    moreover have "srv_fds s' \<inter> (lost \<union> srv_lost (Srv_create port c) s) = {}"
      unfolding ok(4) held' using f new(2) d(2) held by auto
    ultimately show ?thesis using d(1) n l ok(1,2) by (simp add: srv_inv_def)
  qed
qed

lemma connect_inv:
  assumes inv: "srv_inv s fds lost" and new: "sock \<notin> set fds"
    and run: "swicc_net_server_client_connect sock e s slot fds = Some (ret, s', fds')"
  shows "srv_inv s' fds' lost"
proof (cases "s' = s \<and> fds' = fds")
  case True
  then show ?thesis using inv by simp
next
  case False
  let ?i = "unat slot" and ?xs = "srv_clients s"
  have i: "?i < length ?xs" "?xs ! ?i = -1" "0 \<le> sock" and s': "s' = s\<lparr>srv_clients := ?xs[?i := sock]\<rparr>" "fds' = fd_open sock fds"
    using run False by (auto simp: swicc_net_server_client_connect_def bind_Some_iff rd_Some split: if_split_asm)
  have n: "sock \<notin> set ?xs" "sock \<noteq> srv_sock s" "sock \<notin> lost" using inv new i(3) by (auto simp: srv_inv_def srv_fds_def)
  have d: "distinct (filter (\<lambda>fd. 0 \<le> fd) ((srv_sock s # ?xs)[Suc ?i := sock]))"
    by (rule distinct_slot) (use inv n i in \<open>auto simp: srv_inv_def\<close>)
  have "srv_fds s' = insert sock (srv_fds s)"
    using s' i(3) slot_put [OF i(1,2), of "srv_sock s" sock] by (simp add: srv_fds_def)
  then show ?thesis using inv d n(3) s' i(3) by (simp add: srv_inv_def fd_open_def)
qed

lemma disconnect_inv:
  assumes inv: "srv_inv s fds lost" and run: "swicc_net_server_client_disconnect ok s slot fds = Some (s', fds')"
  shows "srv_inv s' fds' (lost \<union> srv_lost (Srv_disconnect ok slot) s)"
proof -
  let ?i = "unat slot" and ?xs = "srv_clients s"
  have l: "length ?xs = 8" using inv by (simp add: srv_inv_def)
  show ?thesis
  proof (cases "?i < length ?xs \<and> 0 \<le> ?xs ! ?i")
    case False
    then have "s' = s" "fds' = fds" "srv_lost (Srv_disconnect ok slot) s = {}"
      using run l by (auto simp: swicc_net_server_client_disconnect_def bind_Some_iff rd_Some split: if_split_asm)
    then show ?thesis using inv by simp
  next
    case True
    let ?k = "?xs ! ?i"
    have s': "s' = s\<lparr>srv_clients := ?xs[?i := -1]\<rparr>" and f': "set fds' = (if ok ?k then set fds - {?k} else set fds)"
      using run True l
      by (auto simp: swicc_net_server_client_disconnect_def swicc_net_sock_close_def bind_Some_iff rd_Some split: if_split_asm)
    have d: "distinct (filter (\<lambda>fd. 0 \<le> fd) (srv_sock s # ?xs))" using inv by (simp add: srv_inv_def)
    have d': "distinct (filter (\<lambda>fd. 0 \<le> fd) ((srv_sock s # ?xs)[Suc ?i := -1]))"
      by (rule distinct_slot [OF d]) (use True in auto)
    have held: "?k \<in> srv_fds s" using True by (simp add: srv_fds_def)
    have "srv_fds s' = srv_fds s - {?k}"
      using slot_clear [OF d conjunct1 [OF True] conjunct2 [OF True]] s' by (simp add: srv_fds_def)
    then show ?thesis using inv d' s' f' held True by (auto simp: srv_inv_def)
  qed
qed

lemma destroy_inv:
  assumes inv: "srv_inv s fds lost" and run: "swicc_net_server_destroy ok s fds = (s', fds')"
  shows "srv_inv s' fds' (lost \<union> {fd \<in> srv_fds s. \<not> ok fd})" and "set fds' = lost \<union> {fd \<in> srv_fds s. \<not> ok fd}"
proof -
  have "set fds' = {fd \<in> {fd \<in> set fds. fd < 0 \<or> fd \<noteq> srv_sock s \<or> \<not> ok fd}. fd < 0 \<or> fd \<notin> set (srv_clients s) \<or> \<not> ok fd}"
    using run unfolding swicc_net_server_destroy_def prod.inject by (metis set_close_clients set_sock_close)
  also have "\<dots> = {fd \<in> set fds. fd \<notin> srv_fds s \<or> \<not> ok fd}" by (auto simp: srv_fds_def)
  also have "\<dots> = lost \<union> {fd \<in> srv_fds s. \<not> ok fd}" using inv by (auto simp: srv_inv_def)
  finally show f: "set fds' = lost \<union> {fd \<in> srv_fds s. \<not> ok fd}" .
  have z: "filter (\<lambda>fd. 0 \<le> (fd :: int)) (map (\<lambda>_. -1) xs) = []" for xs :: "int list" by (induction xs) simp_all
  have s': "s' = s\<lparr>srv_sock := -1, srv_clients := map (\<lambda>_. -1) (srv_clients s)\<rparr>"
    using run by (simp add: swicc_net_server_destroy_def)
  then have "srv_fds s' = {}" by (auto simp: srv_fds_def)
  moreover have "length (srv_clients s) = 8" using inv by (simp add: srv_inv_def)
  ultimately show "srv_inv s' fds' (lost \<union> {fd \<in> srv_fds s. \<not> ok fd})" using f z s' by (simp add: srv_inv_def)
qed

lemma srv_do_inv:
  assumes "srv_inv s fds lost" and "srv_fresh op fds" and "srv_do op s fds = Some (s', fds')"
  shows "srv_inv s' fds' (lost \<union> srv_lost op s)"
proof (cases op)
  case (Srv_create port c)
  then show ?thesis using assms create_inv [of s fds lost c port _ s' fds'] by (auto split: prod.splits)
next
  case (Srv_connect sock e slot)
  then show ?thesis using assms connect_inv [of s fds lost sock e slot _ s' fds'] by (auto simp: bind_Some_iff)
next
  case (Srv_disconnect ok slot)
  then show ?thesis using assms disconnect_inv [of s fds lost ok slot s' fds'] by simp
next
  case (Srv_destroy ok)
  then show ?thesis using assms destroy_inv(1) [of s fds lost ok s' fds'] by simp
qed

lemma srv_do_defined:
  assumes "length (srv_clients s) = SWICC_NET_CLIENT_COUNT_MAX"
  shows "srv_do op s fds = None \<longleftrightarrow> srv_slot_over op"
  using assms
  by (cases op) (auto simp: swicc_net_server_client_connect_def swicc_net_server_client_disconnect_def rd_def split: prod.splits)

lemma srv_run_inv:
  assumes "srv_inv s fds lost" and "srv_host_ok ops s fds"
  shows "case srv_run ops s fds lost of
      None \<Rightarrow> \<exists>op \<in> set ops. srv_slot_over op
    | Some (s', fds', lost') \<Rightarrow> (\<forall>op \<in> set ops. \<not> srv_slot_over op) \<and> srv_inv s' fds' lost'"
  using assms
proof (induction ops arbitrary: s fds lost)
  case (Cons op ops)
  have def: "srv_do op s fds = None \<longleftrightarrow> srv_slot_over op"
    by (rule srv_do_defined) (use Cons.prems(1) in \<open>simp add: srv_inv_def\<close>)
  show ?case
  proof (cases "srv_do op s fds")
    case None
    then show ?thesis using def by simp
  next
    case (Some x)
    obtain s1 fds1 where x: "srv_do op s fds = Some (s1, fds1)" using Some by (cases x) simp
    have "srv_inv s1 fds1 (lost \<union> srv_lost op s)" "srv_host_ok ops s1 fds1"
      using srv_do_inv [OF Cons.prems(1) _ x] Cons.prems(2) x by simp_all
    from Cons.IH [OF this] x def show ?thesis by (auto split: option.splits)
  qed
qed simp

text \<open>
  C25.  Any sequence of creations, connections, disconnections and destructions, with any outcome of the
  calls of the host (failed ones and failed \<^verbatim>\<open>close\<close> included), from a server without sockets on a host without
  open descriptors.  It is undefined exactly when an operation uses the slot behind the last one, which the
  check of the slot lets through.  Otherwise every open descriptor is either held by the server, in one place
  only, or was lost before (its \<^verbatim>\<open>close\<close> failed, or the server was created again over its listening socket) and
  is not held any more, so that no descriptor is closed twice; and a destruction that closes everything leaves
  exactly the lost ones open.
\<close>

theorem server_keeps_descriptors:
  assumes "srv_sock s0 = -1" and "srv_clients s0 = replicate SWICC_NET_CLIENT_COUNT_MAX (-1)" and "srv_host_ok ops s0 []"
  shows "case srv_run ops s0 [] {} of
      None \<Rightarrow> \<exists>op \<in> set ops. srv_slot_over op
    | Some (s, fds, lost) \<Rightarrow> (\<forall>op \<in> set ops. \<not> srv_slot_over op) \<and>
        distinct (filter (\<lambda>fd. 0 \<le> fd) (srv_sock s # srv_clients s)) \<and>
        set fds = srv_fds s \<union> lost \<and> srv_fds s \<inter> lost = {} \<and>
        set (snd (swicc_net_server_destroy (\<lambda>_. True) s fds)) = lost"
proof -
  have "srv_inv s0 [] {}" using assms(1,2) by (simp add: srv_inv_def srv_fds_def)
  note run = srv_run_inv [OF this assms(3)]
  show ?thesis
  proof (cases "srv_run ops s0 [] {}")
    case None
    then show ?thesis using run by simp
  next
    case (Some x)
    obtain s fds lost where x: "x = (s, fds, lost)" by (cases x)
    have ok: "\<forall>op \<in> set ops. \<not> srv_slot_over op" and inv: "srv_inv s fds lost" using run Some x by simp_all
    have "set (snd (swicc_net_server_destroy (\<lambda>_. True) s fds)) = lost"
      using destroy_inv(2) [OF inv, of "\<lambda>_. True"] by (cases "swicc_net_server_destroy (\<lambda>_. True) s fds") simp
    then show ?thesis using Some x ok inv by (simp add: srv_inv_def)
  qed
qed

text \<open>
  A server that is created, gets a card in slot 2, loses it because \<^verbatim>\<open>close\<close> fails, and is created again.
\<close>

theorem server_keeps_descriptors_witness:
  "\<exists>s fds. srv_run
      [Srv_create 37324 \<lparr>cc_socket = 3, cc_bind = True, cc_listen = True, cc_fcntl = True, cc_close = True\<rparr>,
       Srv_connect 4 EAGAIN 2, Srv_connect (-1) EPERM 1, Srv_disconnect (\<lambda>_. False) 2, Srv_connect 5 EAGAIN 2,
       Srv_create 37324 \<lparr>cc_socket = 6, cc_bind = True, cc_listen = True, cc_fcntl = True, cc_close = True\<rparr>]
      \<lparr>srv_sock = -1, srv_clients = replicate 8 (-1)\<rparr> [] {} = Some (s, fds, {3, 4}) \<and>
     srv_fds s = {5, 6} \<and> set fds = {3, 4, 5, 6} \<and> set (snd (swicc_net_server_destroy (\<lambda>_. True) s fds)) = {3, 4}"
proof -
  let ?ops = "[Srv_create 37324 \<lparr>cc_socket = 3, cc_bind = True, cc_listen = True, cc_fcntl = True, cc_close = True\<rparr>,
       Srv_connect 4 EAGAIN 2, Srv_connect (-1) EPERM 1, Srv_disconnect (\<lambda>_. False) 2, Srv_connect 5 EAGAIN 2,
       Srv_create 37324 \<lparr>cc_socket = 6, cc_bind = True, cc_listen = True, cc_fcntl = True, cc_close = True\<rparr>]"
  let ?init = "\<lparr>srv_sock = -1, srv_clients = replicate 8 (-1)\<rparr>" and ?fin = "\<lparr>srv_sock = 6, srv_clients = (replicate 8 (-1))[2 := 5]\<rparr>"
  note ops = swicc_net_server_create_def fd_open_def swicc_net_server_client_connect_def swicc_net_server_client_disconnect_def
    swicc_net_sock_close_def rd_def
  have run: "srv_run ?ops ?init [] {} = Some (?fin, [6, 5, 4, 3], {3, 4})" by (simp add: ops insert_commute)
  have host: "srv_host_ok ?ops ?init []" by (simp add: ops)
  have held: "srv_fds ?fin = {5, 6}" by (auto simp: srv_fds_def eval_nat_numeral)
  have "set (snd (swicc_net_server_destroy (\<lambda>_. True) ?fin [6, 5, 4, 3])) = {3, 4}"
    using server_keeps_descriptors [of ?init ?ops] host by (simp add: run del: srv_run.simps)
  then show ?thesis using run held by (intro exI [of _ ?fin] exI [of _ "[6, 5, 4, 3]"]) auto
qed

text \<open>What the check of the slot lets through, and the socket that a failed connection leaves open.\<close>

lemma slot_check_off_by_one:
  assumes "length (srv_clients s) = SWICC_NET_CLIENT_COUNT_MAX"
  shows "swicc_net_server_client_connect sock e s 8 fds = None"
  using assms by (simp add: swicc_net_server_client_connect_def rd_def)

lemma client_create_leaks:
  assumes "(word_of_int port :: u16) \<noteq> 0" "0 \<le> sock"
  shows "swicc_net_client_create True port sock False c fds = (SWICC_RET_ERROR, c, sock # fds)"
  using assms by (simp add: swicc_net_client_create_def fd_open_def)

end
