(* ===== verification/Swicc_Net_Spec.thy ===== *)
theory Swicc_Net_Spec
  imports Swicc_Net Swicc_Select
begin

text \<open>
  What the network client does, as a function on messages: the bytes on the socket are the wire forms of
  the messages, and every message is answered by what the card makes of it.  On top of it a whole session
  is followed from the bytes of the requests to the bytes of the answers.
\<close>

section \<open>Messages and their wire form\<close>

datatype net_pdu = Pdu (pdu_cont: u32) (pdu_exp: u32) (pdu_ctrl: u8) (pdu_data: bytes)

definition pdu_bytes :: "net_pdu \<Rightarrow> bytes" where
  "pdu_bytes p = le32_put (word_of_nat (NET_BUF_OFFSET + length (pdu_data p))) @ le32_put (pdu_cont p) @
     le32_put (pdu_exp p) @ pdu_ctrl p # pdu_data p"

definition pdu_ok :: "net_pdu \<Rightarrow> bool" where
  "pdu_ok p \<longleftrightarrow> length (pdu_data p) \<le> NET_BUF_LEN"

lemma net_msg_of_raw [simp]: "net_msg_of (net_msg_raw m) = Some m"
proof -
  let ?a = "le32_put (msg_size m)" and ?b = "le32_put (msg_cont_state m)" and ?c = "le32_put (msg_buf_len_exp m)"
  let ?r = "msg_ctrl m # msg_buf m"
  have "le32_get (net_msg_raw m) 0 = Some (msg_size m)" "le32_get (net_msg_raw m) 4 = Some (msg_cont_state m)"
    "le32_get (net_msg_raw m) 8 = Some (msg_buf_len_exp m)"
    using le32_get_put [of "[]" "msg_size m" "?b @ ?c @ ?r"] le32_get_put [of ?a "msg_cont_state m" "?c @ ?r"]
      le32_get_put [of "?a @ ?b" "msg_buf_len_exp m" ?r]
    by (simp_all add: net_msg_raw_def)
  then show ?thesis by (simp add: net_msg_of_def net_msg_raw_def rd_def nth_append)
qed

lemma length_net_msg_raw [simp]: "length (net_msg_raw m) = 13 + length (msg_buf m)"
  by (simp add: net_msg_raw_def)

lemma length_pdu_bytes [simp]: "length (pdu_bytes p) = 13 + length (pdu_data p)"
  by (simp add: pdu_bytes_def)

lemma pdu_size: "pdu_ok p \<Longrightarrow> unat (word_of_nat (NET_BUF_OFFSET + length (pdu_data p)) :: u32) = NET_BUF_OFFSET + length (pdu_data p)"
  by (rule unat_of_nat_u32) (simp add: pdu_ok_def)

text \<open>A message with the fields of \<open>p\<close> and its data at the start of the buffer.\<close>

definition pdu_msg :: "net_pdu \<Rightarrow> bytes \<Rightarrow> swicc_net_msg" where
  "pdu_msg p buf = \<lparr>msg_size = word_of_nat (NET_BUF_OFFSET + length (pdu_data p)), msg_cont_state = pdu_cont p,
     msg_buf_len_exp = pdu_exp p, msg_ctrl = pdu_ctrl p, msg_buf = pdu_data p @ drop (length (pdu_data p)) buf\<rparr>"

lemma pdu_msg_raw: "net_msg_raw (pdu_msg p buf) = pdu_bytes p @ drop (length (pdu_data p)) buf"
  by (simp add: net_msg_raw_def pdu_msg_def pdu_bytes_def)

section \<open>Receiving and sending a message\<close>

definition after_pdu :: "bytes \<Rightarrow> net_recv_res list \<Rightarrow> net_recv_res list" where
  "after_pdu rest rs = (if rest = [] then rs else Recv rest # rs)"

lemma recv_pdu:
  assumes s: "0 \<le> sock" and l: "length (msg_buf m) = NET_BUF_LEN" and ok: "pdu_ok p"
    and i: "sk_in sk = Recv (pdu_bytes p @ rest) # rs"
  shows "swicc_net_recv sock m sk = Some (SWICC_RET_SUCCESS, pdu_msg p (msg_buf m), sk\<lparr>sk_in := after_pdu rest rs\<rparr>)"
proof -
  let ?n = "NET_BUF_OFFSET + length (pdu_data p)"
  define hdr where "hdr = le32_put (word_of_nat ?n :: u32)"
  define data where "data = le32_put (pdu_cont p) @ le32_put (pdu_exp p) @ pdu_ctrl p # pdu_data p"
  have b: "pdu_bytes p = hdr @ data" and lh: "length hdr = 4" and ld: "length data = ?n"
    by (simp_all add: pdu_bytes_def hdr_def data_def)
  define sk1 where "sk1 = sk\<lparr>sk_in := Recv (data @ rest) # rs\<rparr>"
  have r1: "sock_recv NET_HDR_LEN sk = (Some hdr, sk1)"
    using i ld by (simp add: sock_recv_def b lh sk1_def)
  have r2: "sock_recv ?n sk1 = (Some data, sk\<lparr>sk_in := after_pdu rest rs\<rparr>)"
    by (simp add: sock_recv_def sk1_def ld [symmetric] after_pdu_def del: length_greater_0_conv)
  define m1 where "m1 = m\<lparr>msg_size := word_of_nat ?n\<rparr>"
  have w1: "wrn (net_msg_raw m) 0 hdr = Some (net_msg_raw m1)"
    by (simp add: wrn_def net_msg_raw_def m1_def hdr_def)
  have m1: "unat (msg_size m1) = ?n" "net_data_len m1 = NET_BUF_OFFSET + NET_BUF_LEN"
    using pdu_size [OF ok] l by (simp_all add: m1_def net_data_len_def)
  have w2: "wrn (net_msg_raw m1) NET_HDR_LEN data = Some (net_msg_raw (pdu_msg p (msg_buf m)))"
  proof -
    have "net_msg_raw m1 = hdr @ drop 4 (net_msg_raw m1)" by (simp add: net_msg_raw_def m1_def hdr_def)
    moreover have "drop (4 + length data) (net_msg_raw m1) = drop (length (pdu_data p)) (msg_buf m)"
      by (simp add: net_msg_raw_def m1_def ld)
    moreover have "4 + length data \<le> length (net_msg_raw m1)" using ok l by (simp add: ld m1_def pdu_ok_def)
    moreover have "take 4 (net_msg_raw m1) = hdr" by (simp add: net_msg_raw_def m1_def hdr_def)
    ultimately show ?thesis by (simp add: wrn_def pdu_msg_raw b)
  qed
  have sz: "\<not> ?n > NET_BUF_OFFSET + NET_BUF_LEN" using ok by (simp add: pdu_ok_def)
  have "msg_recv sock m sk = Some (SWICC_RET_SUCCESS, pdu_msg p (msg_buf m), sk\<lparr>sk_in := after_pdu rest rs\<rparr>)"
    using s sz by (simp add: msg_recv_def r1 w1 lh m1 r2 w2 ld)
  then show ?thesis using s by (simp add: swicc_net_recv_def)
qed

lemma send_net_tx:
  assumes "0 \<le> sock" "n \<le> length (st_buf_tx st)" "length (st_buf_tx st) = NET_BUF_LEN" "sk_send sk = []"
  shows "swicc_net_send sock (net_tx n ctrl st) sk = Some (SWICC_RET_SUCCESS,
    sk\<lparr>sk_out := sk_out sk @ pdu_bytes (Pdu (st_cont_tx st) (ucast (st_buf_rx_len st)) ctrl (take n (st_buf_tx st)))\<rparr>)"
proof -
  let ?p = "Pdu (st_cont_tx st) (ucast (st_buf_rx_len st)) ctrl (take n (st_buf_tx st))"
  have l: "length (pdu_data ?p) = n" using assms(2) by simp
  have "net_tx n ctrl st = pdu_msg ?p (st_buf_tx st)" using l by (simp add: net_tx_def pdu_msg_def)
  moreover have "pdu_ok ?p" using assms(2,3) by (simp add: pdu_ok_def)
  then have "unat (msg_size (pdu_msg ?p (st_buf_tx st))) = NET_BUF_OFFSET + n" using pdu_size [of ?p] l by (simp add: pdu_msg_def)
  moreover have "rdn (net_msg_raw (pdu_msg ?p (st_buf_tx st))) 0 (NET_HDR_LEN + (NET_BUF_OFFSET + n)) = Some (pdu_bytes ?p)"
    using l by (simp add: rdn_def pdu_msg_raw)
  moreover have "net_data_len (pdu_msg ?p (st_buf_tx st)) = NET_BUF_OFFSET + NET_BUF_LEN"
    using assms(2,3) by (simp add: net_data_len_def pdu_msg_def)
  ultimately show ?thesis
    using assms by (simp add: swicc_net_send_def msg_send_def sock_send_def)
qed

section \<open>A card behind the messages\<close>

text \<open>
  The answer to one message and the answers to a list of them.  The data of the message are at the start
  of the RX buffer, whatever kind of message it is.
\<close>

definition net_reply :: "u8 \<Rightarrow> bytes \<Rightarrow> swicc_st \<Rightarrow> net_pdu" where
  "net_reply ctrl data st = Pdu (st_cont_tx st) (ucast (st_buf_rx_len st)) ctrl data"

definition net_answer :: "(nat \<Rightarrow> handler) \<Rightarrow> swicc_apdu_res \<Rightarrow> net_pdu \<Rightarrow> swicc_st \<Rightarrow> (net_pdu \<times> swicc_st) option" where
  "net_answer H res0 p st =
     (let st1 = st\<lparr>st_buf_rx := rx_fill (pdu_data p) st\<rparr> in
      if pdu_ctrl p = SWICC_NET_MSG_CTRL_NONE then do {
        st2 \<leftarrow> swicc_io H res0 (st1\<lparr>st_buf_rx_len := word_of_nat (length (pdu_data p)), st_buf_tx_len := word_of_nat NET_BUF_LEN\<rparr>);
        Some (net_reply SWICC_NET_MSG_CTRL_SUCCESS (sent st2) st2, st2) }
      else if pdu_ctrl p = SWICC_NET_MSG_CTRL_KEEPALIVE then Some (net_reply SWICC_NET_MSG_CTRL_SUCCESS [] st1, st1)
      else if is_reset_ctrl (pdu_ctrl p) then do {
        (ret, st2) \<leftarrow> swicc_mock_reset_cold H res0
          (pdu_ctrl p = SWICC_NET_MSG_CTRL_MOCK_RESET_WARM_PPS_Y \<or> pdu_ctrl p = SWICC_NET_MSG_CTRL_MOCK_RESET_COLD_PPS_Y) st1;
        if ret = SWICC_RET_SUCCESS then do {
          b \<leftarrow> wrn (st_buf_tx st2) 0 swicc_atr;
          Some (net_reply SWICC_NET_MSG_CTRL_SUCCESS swicc_atr st2, st2\<lparr>st_buf_tx := b\<rparr>) }
        else Some (net_reply SWICC_NET_MSG_CTRL_FAILURE [] st2, st2) }
      else Some (net_reply SWICC_NET_MSG_CTRL_FAILURE [] st1, st1))"

fun net_serve :: "(nat \<Rightarrow> handler) \<Rightarrow> swicc_apdu_res \<Rightarrow> net_pdu list \<Rightarrow> swicc_st \<Rightarrow> (net_pdu list \<times> swicc_st) option" where
  "net_serve H res0 [] st = Some ([], st)"
| "net_serve H res0 (p # ps) st =
     (if st_shutdown st then Some ([], st)
      else do {
        (a, st1) \<leftarrow> net_answer H res0 p st;
        (as, st2) \<leftarrow> net_serve H res0 ps st1;
        Some (a # as, st2) })"

section \<open>The card stays well-formed\<close>

definition net_ok :: "swicc_st \<Rightarrow> bool" where
  "net_ok st \<longleftrightarrow> card_wf st \<and> length (st_buf_rx st) = NET_BUF_LEN \<and> length (st_buf_tx st) = NET_BUF_LEN"

lemma net_ok_io: "net_ok st \<Longrightarrow> swicc_io H res0 st = Some st' \<Longrightarrow> net_ok st'"
  using step_wf io_keeps by (fastforce simp: net_ok_def io_same_def)

lemma net_ok_bufs:
  "net_ok st \<Longrightarrow> length b = NET_BUF_LEN \<Longrightarrow> net_ok (st\<lparr>st_buf_rx := b\<rparr>)"
  "net_ok st \<Longrightarrow> length b = NET_BUF_LEN \<Longrightarrow> net_ok (st\<lparr>st_buf_tx := b\<rparr>)"
  "net_ok st \<Longrightarrow> net_ok (st\<lparr>st_buf_rx_len := n\<rparr>)"
  "net_ok st \<Longrightarrow> unat m \<le> NET_BUF_LEN \<Longrightarrow> net_ok (st\<lparr>st_buf_tx_len := m\<rparr>)"
  "net_ok st \<Longrightarrow> net_ok (st\<lparr>st_cont_rx := c\<rparr>)"
  by (simp_all add: net_ok_def card_wf_def no_ext_def)

lemma net_ok_setup:
  assumes "net_ok st" "mock_setup step st = Some st'"
  shows "net_ok st'"
proof -
  have "net_ok st''" if "mock_rx bs s = Some st''" "net_ok s" for bs s st''
    using that by (auto simp: mock_rx_def bind_Some_iff net_ok_def card_wf_def no_ext_def dest: length_wrn)
  then show ?thesis
    using assms net_ok_bufs(5) [OF assms(1)] by (auto simp: mock_setup_def mock_cont_def split: if_split_asm)
qed

lemma net_ok_mock_loop: "mock_loop H res0 pps steps st = Some (ret, st') \<Longrightarrow> net_ok st \<Longrightarrow> net_ok st'"
proof (induction steps arbitrary: st)
  case (Cons step steps)
  obtain st1 st2 where run: "mock_setup step st = Some st1" "swicc_io H res0 st1 = Some st2"
    using Cons.prems(1) by (auto simp: bind_Some_iff)
  then have "net_ok st2" using net_ok_setup [OF Cons.prems(2)] net_ok_io by blast
  then show ?case using Cons.prems(1) Cons.IH run by (auto split: if_split_asm)
qed simp

lemma net_ok_reset: "swicc_reset st = Some (ret, st') \<Longrightarrow> net_ok st \<Longrightarrow> net_ok st'"
  by (cases "ret = SWICC_RET_SUCCESS")
     (auto simp: swicc_reset_def Let_def bind_Some_iff net_ok_def card_wf_def no_ext_def internal_wf_def internal_zero_def
        tpdu_zero_def data_zero_def data_ok_def dest: length_wrn split: if_split_asm prod.split_asm)

lemma net_ok_mock: "swicc_mock_reset_cold H res0 pps st = Some (ret, st') \<Longrightarrow> net_ok st \<Longrightarrow> net_ok st'"
  by (auto simp: swicc_mock_reset_cold_def bind_Some_iff net_ok_bufs
      dest!: net_ok_reset dest: net_ok_mock_loop split: if_split_asm)

lemma net_ok_fill: "net_ok st \<Longrightarrow> pdu_ok p \<Longrightarrow> net_ok (st\<lparr>st_buf_rx := rx_fill (pdu_data p) st\<rparr>)"
  by (rule net_ok_bufs) (simp_all add: rx_fill_def net_ok_def pdu_ok_def)

lemma net_ok_data:
  assumes "net_ok st" "swicc_io H res0 (st\<lparr>st_buf_rx_len := n, st_buf_tx_len := word_of_nat NET_BUF_LEN\<rparr>) = Some st'"
  shows "net_ok st'"
proof -
  have "net_ok (st\<lparr>st_buf_rx_len := n, st_buf_tx_len := word_of_nat NET_BUF_LEN\<rparr>)"
    by (intro net_ok_bufs) (simp_all add: assms(1))
  then show ?thesis using assms(2) net_ok_io by blast
qed

lemma net_ok_tx: "net_ok st \<Longrightarrow> wrn (st_buf_tx st) 0 bs = Some b \<Longrightarrow> net_ok (st\<lparr>st_buf_tx := b\<rparr>)"
  by (rule net_ok_bufs) (auto simp: net_ok_def dest: length_wrn)

lemma net_ok_answer:
  assumes run: "net_answer H res0 p st = Some (a, st')" and ok: "net_ok st" "pdu_ok p"
  shows "net_ok st'"
proof -
  define st1 where "st1 = st\<lparr>st_buf_rx := rx_fill (pdu_data p) st\<rparr>"
  have "net_ok st1" unfolding st1_def by (rule net_ok_fill [OF ok])
  then show ?thesis
    using run unfolding net_answer_def st1_def [symmetric] Let_def
    by (auto simp: bind_Some_iff dest: net_ok_data net_ok_mock net_ok_tx split: if_split_asm)
qed

section \<open>The loop serves the messages\<close>

lemma pdu_rx_len:
  "word_of_nat (NET_BUF_OFFSET + n) - word_of_nat NET_BUF_OFFSET = (word_of_nat n :: u32)"
  "n \<le> NET_BUF_LEN \<Longrightarrow> ucast (word_of_nat n :: u32) = (word_of_nat n :: u16)"
  "n \<le> NET_BUF_LEN \<Longrightarrow> (word_of_nat n :: u32) \<le> 65535"
proof -
  show "word_of_nat (NET_BUF_OFFSET + n) - word_of_nat NET_BUF_OFFSET = (word_of_nat n :: u32)" by simp
  assume n: "n \<le> NET_BUF_LEN"
  then have u: "unat (word_of_nat n :: u32) = n" by (intro unat_of_nat_u32) simp
  show "(word_of_nat n :: u32) \<le> 65535" using n u by (simp add: word_le_nat_alt)
  have "unat (ucast (word_of_nat n :: u32) :: u16) = n"
    using n u by (simp add: unsigned_ucast_eq take_bit_nat_eq_self)
  then show "ucast (word_of_nat n :: u32) = (word_of_nat n :: u16)" using n by (simp add: word_unat_eq_iff unat_of_nat_u16)
qed

lemma client_answer:
  assumes run: "net_answer H res0 p st = Some (a, st')" and ok: "net_ok st" "pdu_ok p"
  defines "m \<equiv> pdu_msg p (st_buf_rx st)"
  shows "\<exists>n ctrl. net_client_answer H res0 m (st\<lparr>st_buf_rx := msg_buf m\<rparr>) = Some (net_tx n ctrl st', st') \<and>
    n \<le> length (st_buf_tx st') \<and> a = Pdu (st_cont_tx st') (ucast (st_buf_rx_len st')) ctrl (take n (st_buf_tx st'))"
proof -
  have m: "msg_buf m = rx_fill (pdu_data p) st" "msg_ctrl m = pdu_ctrl p"
    "ucast (msg_size m - word_of_nat NET_BUF_OFFSET) = (word_of_nat (length (pdu_data p)) :: u16)"
    using pdu_rx_len(2) [of "length (pdu_data p)"] ok(2)
    by (simp_all add: m_def pdu_msg_def rx_fill_def pdu_ok_def)
  define st1 where "st1 = st\<lparr>st_buf_rx := rx_fill (pdu_data p) st\<rparr>"
  have st1: "net_ok st1" unfolding st1_def by (rule net_ok_fill [OF ok])
  have ok': "net_ok st'" by (rule net_ok_answer [OF run ok])
  consider (data) "pdu_ctrl p = 0" | (alive) "pdu_ctrl p = SWICC_NET_MSG_CTRL_KEEPALIVE"
    | (reset) "pdu_ctrl p \<noteq> 0" "pdu_ctrl p \<noteq> SWICC_NET_MSG_CTRL_KEEPALIVE" "is_reset_ctrl (pdu_ctrl p)"
    | (other) "pdu_ctrl p \<noteq> 0" "pdu_ctrl p \<noteq> SWICC_NET_MSG_CTRL_KEEPALIVE" "\<not> is_reset_ctrl (pdu_ctrl p)" by blast
  then show ?thesis
  proof cases
    case data
    have r: "swicc_io H res0 (st1\<lparr>st_buf_rx_len := word_of_nat (length (pdu_data p)), st_buf_tx_len := word_of_nat NET_BUF_LEN\<rparr>) = Some st'"
      "a = net_reply SWICC_NET_MSG_CTRL_SUCCESS (sent st') st'"
      using run data unfolding net_answer_def st1_def [symmetric] Let_def by (auto simp: bind_Some_iff)
    have l: "unat (st_buf_tx_len st') \<le> length (st_buf_tx st')" using ok' by (simp add: net_ok_def card_wf_def)
    then have "net_client_data H res0 (word_of_nat (length (pdu_data p))) st1 =
        Some (net_tx (unat (st_buf_tx_len st')) SWICC_NET_MSG_CTRL_SUCCESS st', st')"
      using r(1) unfolding net_client_data_def by (simp add: rdn_def)
    then show ?thesis
      using l r(2) data m unfolding net_client_answer_def st1_def
      by (intro exI [of _ "unat (st_buf_tx_len st')"] exI [of _ SWICC_NET_MSG_CTRL_SUCCESS]) (simp add: net_reply_def sent_def)
  next
    case alive
    then have "st' = st1" "a = net_reply SWICC_NET_MSG_CTRL_SUCCESS [] st1"
      using run unfolding net_answer_def st1_def [symmetric] Let_def by auto
    then show ?thesis
      using alive m unfolding net_client_answer_def net_client_ctrl_def st1_def
      by (intro exI [of _ 0] exI [of _ SWICC_NET_MSG_CTRL_SUCCESS]) (simp add: net_reply_def)
  next
    case reset
    let ?pps = "pdu_ctrl p = SWICC_NET_MSG_CTRL_MOCK_RESET_WARM_PPS_Y \<or> pdu_ctrl p = SWICC_NET_MSG_CTRL_MOCK_RESET_COLD_PPS_Y"
    obtain ret st2 where r: "swicc_mock_reset_cold H res0 ?pps st1 = Some (ret, st2)"
      using run reset unfolding net_answer_def st1_def [symmetric] Let_def by (auto simp: bind_Some_iff)
    show ?thesis
    proof (cases "ret = SWICC_RET_SUCCESS")
      case True
      obtain b where b: "wrn (st_buf_tx st2) 0 swicc_atr = Some b" "st' = st2\<lparr>st_buf_tx := b\<rparr>"
        "a = net_reply SWICC_NET_MSG_CTRL_SUCCESS swicc_atr st2"
        using run reset r True unfolding net_answer_def st1_def [symmetric] Let_def by (auto simp: bind_Some_iff)
      have "take (length swicc_atr) b = swicc_atr" "length swicc_atr \<le> length b" using b(1) by (auto simp: wrn_Some)
      then show ?thesis
        using reset r b m True unfolding net_client_answer_def net_client_ctrl_def st1_def
        by (intro exI [of _ "length swicc_atr"] exI [of _ SWICC_NET_MSG_CTRL_SUCCESS]) (simp add: net_reply_def Let_def)
    next
      case False
      then have "st' = st2" "a = net_reply SWICC_NET_MSG_CTRL_FAILURE [] st2"
        using run reset r unfolding net_answer_def st1_def [symmetric] Let_def by auto
      then show ?thesis
        using reset r m False unfolding net_client_answer_def net_client_ctrl_def st1_def
        by (intro exI [of _ 0] exI [of _ SWICC_NET_MSG_CTRL_FAILURE]) (simp add: net_reply_def)
    qed
  next
    case other
    then have "st' = st1" "a = net_reply SWICC_NET_MSG_CTRL_FAILURE [] st1"
      using run unfolding net_answer_def st1_def [symmetric] Let_def by auto
    then show ?thesis
      using other m unfolding net_client_answer_def net_client_ctrl_def st1_def
      by (intro exI [of _ 0] exI [of _ SWICC_NET_MSG_CTRL_FAILURE]) (simp add: net_reply_def)
  qed
qed

text \<open>The stream of the requests comes in segments, each of them a number of whole messages.\<close>

definition segments :: "net_pdu list list \<Rightarrow> net_recv_res list" where
  "segments pss = map (\<lambda>ps. Recv (concat (map pdu_bytes ps))) pss"

lemma recv_end:
  "0 \<le> sock \<Longrightarrow> sk_in sk = [] \<Longrightarrow> swicc_net_recv sock m sk = Some (SWICC_RET_ERROR, m, sk)"
  by (simp add: swicc_net_recv_def msg_recv_def sock_recv_def wrn_def)

lemma loop_serves:
  assumes "concat pss = ps" "\<forall>qs \<in> set pss. qs \<noteq> []" "\<forall>p \<in> set ps. pdu_ok p"
    and "net_ok st" "0 \<le> sock" "sk_in sk = segments pss" "sk_send sk = []"
    and "net_serve H res0 ps st = Some (as, st')"
  shows "\<exists>sk'. net_client_loop H res0 sock r m st sk = Some (r \<or> as \<noteq> [], st', sk') \<and>
    sk_out sk' = sk_out sk @ concat (map pdu_bytes as)"
  using assms
proof (induction ps arbitrary: pss st sk as r m)
  case Nil
  then have "pss = []" by (cases pss) auto
  then have i: "sk_in sk = []" using Nil.prems(6) by (simp add: segments_def)
  then show ?case
    using Nil.prems(5,8) recv_end [OF Nil.prems(5) i]
    by (cases "st_shutdown st") (simp_all add: net_client_loop.simps)
next
  case (Cons p ps)
  show ?case
  proof (cases "st_shutdown st")
    case True
    then show ?thesis using Cons.prems(8) by (simp add: net_client_loop.simps)
  next
    case False
    obtain a st1 as' where a: "net_answer H res0 p st = Some (a, st1)" "net_serve H res0 ps st1 = Some (as', st')" "as = a # as'"
      using Cons.prems(8) False by (auto simp: bind_Some_iff)
    obtain qs rest where pss: "pss = (p # qs) # rest" "ps = qs @ concat rest"
      using Cons.prems(1,2) by (cases pss; cases "hd pss") auto
    define pss' where "pss' = (if qs = [] then rest else qs # rest)"
    have ok: "pdu_ok p" using Cons.prems(3) by simp
    let ?m = "m\<lparr>msg_buf := st_buf_rx st\<rparr>" and ?m1 = "pdu_msg p (st_buf_rx st)"
    have "sk_in sk = Recv (pdu_bytes p @ concat (map pdu_bytes qs)) # segments rest"
      using Cons.prems(6) pss(1) by (simp add: segments_def)
    from recv_pdu [OF Cons.prems(5) _ ok this, of ?m] Cons.prems(4)
    have rc: "swicc_net_recv sock ?m sk = Some (SWICC_RET_SUCCESS, ?m1, sk\<lparr>sk_in := after_pdu (concat (map pdu_bytes qs)) (segments rest)\<rparr>)"
      by (simp add: net_ok_def)
    have seg: "after_pdu (concat (map pdu_bytes qs)) (segments rest) = segments pss'"
    proof (cases qs)
      case (Cons q qs')
      have "pdu_bytes q \<noteq> []" by (simp add: pdu_bytes_def)
      then show ?thesis by (simp add: after_pdu_def pss'_def segments_def Cons)
    qed (simp add: after_pdu_def pss'_def)
    obtain n ctrl where ans: "net_client_answer H res0 ?m1 (st\<lparr>st_buf_rx := msg_buf ?m1\<rparr>) = Some (net_tx n ctrl st1, st1)"
      "n \<le> length (st_buf_tx st1)" "a = Pdu (st_cont_tx st1) (ucast (st_buf_rx_len st1)) ctrl (take n (st_buf_tx st1))"
      using client_answer [OF a(1) Cons.prems(4) ok] by blast
    have ok1: "net_ok st1" by (rule net_ok_answer [OF a(1) Cons.prems(4) ok])
    define sk1 where "sk1 = sk\<lparr>sk_in := segments pss', sk_out := sk_out sk @ pdu_bytes a\<rparr>"
    have snd: "swicc_net_send sock (net_tx n ctrl st1) (sk\<lparr>sk_in := segments pss'\<rparr>) = Some (SWICC_RET_SUCCESS, sk1)"
      using send_net_tx [OF Cons.prems(5) ans(2), of "sk\<lparr>sk_in := segments pss'\<rparr>"] ok1 Cons.prems(7) ans(3)
      by (simp add: net_ok_def sk1_def)
    have small: "msg_size ?m1 - word_of_nat NET_BUF_OFFSET \<le> 65535"
      using pdu_rx_len(1,3) [of "length (pdu_data p)"] ok by (simp add: pdu_msg_def pdu_ok_def)
    have step: "net_client_loop H res0 sock r m st sk = net_client_loop H res0 sock True ?m1 st1 sk1"
      using False small by (subst net_client_loop.simps) (simp add: rc seg ans(1) snd)
    have "concat pss' = ps" "\<forall>qs \<in> set pss'. qs \<noteq> []" "\<forall>p \<in> set ps. pdu_ok p"
      using Cons.prems(2,3) pss by (auto simp: pss'_def)
    from Cons.IH [OF this ok1 Cons.prems(5) _ _ a(2), of sk1 True ?m1] Cons.prems(7)
    show ?thesis by (auto simp: step a(3) sk1_def)
  qed
qed

text \<open>The state in which the client begins: with the buffers of the two messages.\<close>

definition net_start :: "swicc_net_msg \<Rightarrow> swicc_net_msg \<Rightarrow> swicc_st \<Rightarrow> swicc_st" where
  "net_start msg_rx msg_tx st = st\<lparr>st_buf_rx := msg_buf msg_rx, st_buf_rx_len := 0, st_buf_tx := msg_buf msg_tx,
     st_buf_tx_len := word_of_nat NET_BUF_LEN\<rparr>"

definition net_ready :: "swicc_net_msg \<Rightarrow> swicc_net_msg \<Rightarrow> swicc_st \<Rightarrow> bool" where
  "net_ready msg_rx msg_tx st \<longleftrightarrow> no_ext st \<and> internal_wf (st_in st) \<and> in_fsm_state (st_in st) \<noteq> SWICC_FSM_STATE_RESET_WARM \<and>
     length (msg_buf msg_rx) = NET_BUF_LEN \<and> length (msg_buf msg_tx) = NET_BUF_LEN"

lemma net_start_ok: "net_ready msg_rx msg_tx st \<Longrightarrow> net_ok (net_start msg_rx msg_tx st)"
  by (simp add: net_ready_def net_ok_def net_start_def card_wf_def no_ext_def)

lemma net_start_wf: "net_ready msg_rx msg_tx st \<Longrightarrow> st_wf ns st \<Longrightarrow> st_wf ns (net_start msg_rx msg_tx st)"
  by (simp add: st_wf_def bufs_wf_def net_start_def net_ready_def)

lemma client_serves:
  assumes "net_ready msg_rx msg_tx st" and "0 \<le> cl_sock c"
    and "sk_in sk = segments pss" "\<forall>qs \<in> set pss. qs \<noteq> []" "\<forall>p \<in> set (concat pss). pdu_ok p" "sk_send sk = []"
    and "net_serve H res0 (concat pss) (net_start msg_rx msg_tx st) = Some (as, st')"
  shows "\<exists>sk'. swicc_net_client H res0 msg_rx msg_tx st c sk = Some
      (if st_shutdown st' then SWICC_RET_SUCCESS else if as = [] then SWICC_RET_ERROR else SWICC_RET_NET_DISCONNECTED, st', sk') \<and>
    sk_out sk' = sk_out sk @ concat (map pdu_bytes as)"
  using loop_serves [OF refl assms(4,5) net_start_ok [OF assms(1)] assms(2,3,6,7), of False msg_rx]
  by (auto simp: swicc_net_client_def net_start_def)

text \<open>
  C8.  The network client implements a card behind messages: when the stream of requests arrives in segments of
  whole messages and the peer takes the answers, the bytes sent are the wire forms of the answers to the
  messages, one for each, in their order, and the card ends in the state after them; when the peer has
  closed the connection the client returns and says so, and it stops without a further answer when the
  card is shut down.
\<close>

theorem net_client_serves:
  assumes "net_ready msg_rx msg_tx st" and "0 \<le> cl_sock c"
    and "sk_in sk = segments pss" and "\<forall>qs \<in> set pss. qs \<noteq> []" and "\<forall>p \<in> set (concat pss). pdu_ok p" and "sk_send sk = []"
    and "net_serve H res0 (concat pss) (net_start msg_rx msg_tx st) = Some (as, st')"
  shows "\<exists>sk'. swicc_net_client H res0 msg_rx msg_tx st c sk = Some
      (if st_shutdown st' then SWICC_RET_SUCCESS else if as = [] then SWICC_RET_ERROR else SWICC_RET_NET_DISCONNECTED, st', sk') \<and>
    sk_out sk' = sk_out sk @ concat (map pdu_bytes as)"
  by (rule client_serves) (fact assms)+

definition demo_msg :: swicc_net_msg where
  "demo_msg = \<lparr>msg_size = 0, msg_cont_state = 0, msg_buf_len_exp = 0, msg_ctrl = 0, msg_buf = replicate NET_BUF_LEN 0\<rparr>"

lemma demo_net_ready: "net_ready demo_msg demo_msg demo_card"
  using init_wf [OF demo_card_init] by (simp add: net_ready_def demo_msg_def card_wf_def)

theorem net_client_serves_witness:
  "\<exists>st' sk'. swicc_net_client (\<lambda>_. apduh_unk) demo_res demo_msg demo_msg demo_card \<lparr>cl_sock = 3\<rparr>
      \<lparr>sk_in = [Recv (pdu_bytes (Pdu 0 0 1 [])), Recv (pdu_bytes (Pdu 0 0 9 [7]) @ pdu_bytes (Pdu 0 0 1 []))], sk_send = [], sk_out = []\<rparr> =
      Some (SWICC_RET_NET_DISCONNECTED, st', sk') \<and>
     sk_out sk' = pdu_bytes (Pdu 0 0 0xF0 []) @ pdu_bytes (Pdu 0 0 0x0F []) @ pdu_bytes (Pdu 0 0 0xF0 [])"
proof -
  let ?pss = "[[Pdu 0 0 1 []], [Pdu 0 0 9 [7], Pdu 0 0 1 []]]"
  have run: "\<exists>st'. net_serve (\<lambda>_. apduh_unk) demo_res (concat ?pss) (net_start demo_msg demo_msg demo_card) =
      Some ([Pdu 0 0 0xF0 [], Pdu 0 0 0x0F [], Pdu 0 0 0xF0 []], st') \<and> \<not> st_shutdown st'"
    by (simp add: net_answer_def is_reset_ctrl_def net_reply_def net_start_def demo_card_def Let_def)
  then show ?thesis
    using net_client_serves [OF demo_net_ready, of "\<lparr>cl_sock = 3\<rparr>"
        "\<lparr>sk_in = [Recv (pdu_bytes (Pdu 0 0 1 [])), Recv (pdu_bytes (Pdu 0 0 9 [7]) @ pdu_bytes (Pdu 0 0 1 []))], sk_send = [], sk_out = []\<rparr>"
        ?pss "\<lambda>_. apduh_unk" demo_res]
    by (fastforce simp: segments_def pdu_ok_def)
qed

section \<open>A whole session\<close>

lemma mock_keeps_shutdown:
  assumes "mock_loop H res0 pps steps st = Some (ret, st')" "net_ok st"
  shows "st_shutdown st' = st_shutdown st"
  using assms
proof (induction steps arbitrary: st)
  case (Cons step steps)
  obtain st1 st2 where run: "mock_setup step st = Some st1" "swicc_io H res0 st1 = Some st2"
    using Cons.prems(1) by (auto simp: bind_Some_iff)
  have ok: "net_ok st1" "net_ok st2" using net_ok_setup [OF Cons.prems(2)] run net_ok_io by blast+
  have "st_shutdown st1 = st_shutdown st"
    using run(1) by (auto simp: mock_setup_def mock_cont_def mock_rx_def bind_Some_iff split: if_split_asm)
  moreover have "st_shutdown st2 = st_shutdown st1" using io_keeps run(2) ok(1) by (simp add: net_ok_def io_same_def)
  ultimately show ?case using Cons.prems(1) Cons.IH run ok(2) by (auto split: if_split_asm)
qed simp

text \<open>The card is served, awake, in the operating condition and with its I/O contact up.\<close>

definition net_up :: "swicc_st \<Rightarrow> bool" where
  "net_up st \<longleftrightarrow> net_ok st \<and> \<not> st_shutdown st \<and> st_cont_rx st = FSM_STATE_CONT_READY \<and> st_cont_tx st = 0x6000"

lemma reset_up:
  assumes ok: "net_ok st" and wf: "st_wf ns st" and mf: "last_with_id 0x3F00 (forest_files 0 ns) \<noteq> None"
  shows "\<exists>st'. net_answer H res0 (Pdu x y SWICC_NET_MSG_CTRL_MOCK_RESET_COLD_PPS_Y []) st =
      Some (net_reply SWICC_NET_MSG_CTRL_SUCCESS swicc_atr st', st') \<and>
    net_up st' \<and> pending [] st' \<and> fs_ok ns (st_fs st') \<and> st_buf_rx_len st' = 0"
proof -
  have st1: "st\<lparr>st_buf_rx := rx_fill [] st\<rparr> = st" by simp
  have l: "2 \<le> length (st_buf_rx st)" "SWICC_DATA_MAX \<le> length (st_buf_tx st)" "no_ext st"
    using ok by (simp_all add: net_ok_def card_wf_def)
  obtain st2 where st2: "swicc_mock_reset_cold H res0 True st = Some (SWICC_RET_SUCCESS, st2)"
    "fs_ok ns (st_fs st2)" "st_cont_rx st2 = FSM_STATE_CONT_READY" "pending [] st2" "st_cont_tx st2 = 0x6000" "st_buf_rx_len st2 = 0"
    using mock_reset_run [OF wf l(3,1,2), of H res0 True] mf by auto
  have ok2: "net_ok st2" by (rule net_ok_mock [OF st2(1) ok])
  obtain st0 where st0: "swicc_reset (st\<lparr>st_cont_rx := SWICC_IO_CONT_VALID_ALL\<rparr>) = Some (SWICC_RET_SUCCESS, st0)"
    "mock_loop H res0 True [0..<10] st0 = Some (SWICC_RET_SUCCESS, st2)"
    using st2(1) by (auto simp: swicc_mock_reset_cold_def bind_Some_iff split: if_split_asm)
  have wf': "st_wf ns (st\<lparr>st_cont_rx := SWICC_IO_CONT_VALID_ALL\<rparr>)" using wf by (simp add: st_wf_def bufs_wf_def)
  have "\<not> st_shutdown st0" using reset_run [OF wf'] st0(1) by auto
  moreover have "net_ok st0" using net_ok_reset [OF st0(1)] net_ok_bufs(5) [OF ok] by blast
  ultimately have sd: "\<not> st_shutdown st2" using mock_keeps_shutdown [OF st0(2)] by simp
  have la: "length swicc_atr \<le> length (st_buf_tx st2)" using ok2 by (simp add: net_ok_def swicc_atr_def)
  obtain b where b: "wrn (st_buf_tx st2) 0 swicc_atr = Some b" using wrn_ex [of 0 swicc_atr "st_buf_tx st2"] la by auto
  have ok3: "net_ok (st2\<lparr>st_buf_tx := b\<rparr>)" by (rule net_ok_tx [OF ok2 b])
  have "pending [] (st2\<lparr>st_buf_tx := b\<rparr>)" using st2(4) ok3 by (simp add: pending_def net_ok_def)
  moreover have "net_answer H res0 (Pdu x y SWICC_NET_MSG_CTRL_MOCK_RESET_COLD_PPS_Y []) st =
      Some (net_reply SWICC_NET_MSG_CTRL_SUCCESS swicc_atr (st2\<lparr>st_buf_tx := b\<rparr>), st2\<lparr>st_buf_tx := b\<rparr>)"
    using st2(1) b by (simp add: net_answer_def is_reset_ctrl_def net_reply_def)
  ultimately show ?thesis using ok3 st2 sd by (intro exI [of _ "st2\<lparr>st_buf_tx := b\<rparr>"]) (simp add: net_up_def)
qed

abbreviation NET_TX_LEN :: u16 where "NET_TX_LEN \<equiv> word_of_nat NET_BUF_LEN"

lemma deliver_up:
  assumes up: "net_up st" and run: "deliver H res0 NET_TX_LEN c st = Some st'" and c: "length c \<le> NET_BUF_LEN"
  shows "net_answer H res0 (Pdu x y SWICC_NET_MSG_CTRL_NONE c) st = Some (net_reply SWICC_NET_MSG_CTRL_SUCCESS (sent st') st', st')"
    "net_up st'"
proof -
  have i: "iface FSM_STATE_CONT_READY (rx_fill c st) (word_of_nat (length c)) NET_TX_LEN st =
      st\<lparr>st_buf_rx := rx_fill c st, st_buf_rx_len := word_of_nat (length c), st_buf_tx_len := NET_TX_LEN\<rparr>"
    using up by (simp add: iface_def net_up_def)
  then show a: "net_answer H res0 (Pdu x y SWICC_NET_MSG_CTRL_NONE c) st = Some (net_reply SWICC_NET_MSG_CTRL_SUCCESS (sent st') st', st')"
    using run unfolding deliver_def by (simp add: net_answer_def)
  let ?s = "iface FSM_STATE_CONT_READY (rx_fill c st) (word_of_nat (length c)) NET_TX_LEN st"
  have ok: "net_ok ?s"
    unfolding i by (intro net_ok_bufs) (use up c in \<open>simp_all add: net_up_def net_ok_def rx_fill_def\<close>)
  have "io_same ?s st'" using io_keeps [of ?s] ok run by (simp add: deliver_def net_ok_def)
  moreover have "net_ok st'" using net_ok_io [OF ok] run by (simp add: deliver_def)
  ultimately show "net_up st'" using up unfolding i by (simp add: net_up_def io_same_def)
qed

lemma net_serve_step:
  "net_answer H res0 p st = Some (a, st1) \<Longrightarrow> \<not> st_shutdown st \<Longrightarrow>
     net_serve H res0 (p # ps) st = map_option (map_prod ((#) a) id) (net_serve H res0 ps st1)"
  by (cases "net_serve H res0 ps st1") auto

lemma exchange_up:
  assumes up: "net_up st" and run: "exchange H res0 NET_TX_LEN hdr data st = Some (ack, resp, st')"
    and l: "length hdr \<le> NET_BUF_LEN" "length data \<le> NET_BUF_LEN"
  shows "\<exists>as. (\<forall>ps. net_serve H res0 (Pdu x y 0 hdr # Pdu x y 0 [] # Pdu x y 0 data # Pdu x y 0 [] # ps) st =
      map_option (map_prod ((@) as) id) (net_serve H res0 ps st')) \<and>
    map pdu_data as = [[], ack, [], resp] \<and> map pdu_exp as = [0, word_of_nat (length data), 0, 5] \<and>
    (\<forall>a \<in> set as. pdu_ctrl a = SWICC_NET_MSG_CTRL_SUCCESS \<and> pdu_cont a = 0x6000) \<and> net_up st'"
proof -
  obtain s1 s2 s3 where d: "deliver H res0 NET_TX_LEN hdr st = Some s1" "sent s1 = []" "deliver H res0 NET_TX_LEN [] s1 = Some s2"
    "deliver H res0 NET_TX_LEN data s2 = Some s3" "sent s3 = []" "deliver H res0 NET_TX_LEN [] s3 = Some st'"
    "ack = sent s2" "resp = sent st'" "st_buf_rx_len s1 = 0" "st_buf_rx_len s2 = word_of_nat (length data)"
    "st_buf_rx_len s3 = 0" "st_buf_rx_len st' = 5"
    using run unfolding exchange_def by (auto simp: bind_Some_iff assert_ub_def split: if_split_asm)
  note u1 = deliver_up [OF up d(1) l(1)]
  note u2 = deliver_up [OF u1(2) d(3), simplified]
  note u3 = deliver_up [OF u2(2) d(4) l(2)]
  note u4 = deliver_up [OF u3(2) d(6), simplified]
  let ?r = "net_reply SWICC_NET_MSG_CTRL_SUCCESS"
  let ?as = "[?r (sent s1) s1, ?r (sent s2) s2, ?r (sent s3) s3, ?r (sent st') st']"
  have a: "net_answer H res0 (Pdu x y 0 hdr) st = Some (?r (sent s1) s1, s1)" "net_answer H res0 (Pdu x y 0 []) s1 = Some (?r (sent s2) s2, s2)"
    "net_answer H res0 (Pdu x y 0 data) s2 = Some (?r (sent s3) s3, s3)" "net_answer H res0 (Pdu x y 0 []) s3 = Some (?r (sent st') st', st')"
    using u1(1) u2(1) u3(1) u4(1) by simp_all
  have awake: "\<not> st_shutdown st" "\<not> st_shutdown s1" "\<not> st_shutdown s2" "\<not> st_shutdown s3"
    using up u1(2) u2(2) u3(2) by (simp_all add: net_up_def)
  have "net_serve H res0 (Pdu x y 0 hdr # Pdu x y 0 [] # Pdu x y 0 data # Pdu x y 0 [] # ps) st =
      map_option (map_prod ((@) ?as) id) (net_serve H res0 ps st')" for ps
    unfolding net_serve_step [OF a(1) awake(1)] net_serve_step [OF a(2) awake(2)] net_serve_step [OF a(3) awake(3)]
      net_serve_step [OF a(4) awake(4)]
    by (cases "net_serve H res0 ps st'") auto
  moreover have "map pdu_data ?as = [[], ack, [], resp]" by (simp add: net_reply_def d)
  moreover have "map pdu_exp ?as = [0, word_of_nat (length data), 0, 5]"
    using l(2) by (simp add: net_reply_def d word_unat_eq_iff unsigned_ucast_eq unat_of_nat_u16 unat_of_nat_u32 take_bit_nat_eq_self)
  moreover have "\<forall>a \<in> set ?as. pdu_ctrl a = SWICC_NET_MSG_CTRL_SUCCESS \<and> pdu_cont a = 0x6000"
    using u1(2) u2(2) u3(2) u4(2) by (simp add: net_reply_def net_up_def)
  ultimately show ?thesis using u4(2) by (intro exI [of _ ?as] conjI allI) simp_all
qed

text \<open>
  C2.  A session from bytes to bytes: a card with a master file is reset over the network, a file is selected by
  its ID, and its description is fetched with the length that the status word told.  The requests may
  come in any segments of whole messages; the answers are all successes, and their data are the answer to
  reset, the acknowledgement and the status of SELECT, the acknowledgement of GET RESPONSE and the
  description of the file with the status word 9000.
\<close>

theorem net_select_session:
  assumes "net_ready msg_rx msg_tx st" and "st_wf ns st" and "\<not> st_shutdown st" and "0 \<le> cl_sock c" and "sk_send sk = []" and "data_ok (res_data res0)"
    and "cla_type (swicc_apdu_cmd_cla_parse cla) = SWICC_APDU_CLA_TYPE_INTERINDUSTRY"
    and "p2 AND 0xF0 = 0" and "select_p2 METH_MF_ADF_DF_EF p2 = data_req" and "data_req \<noteq> DATA_REQ_ABSENT"
    and "last_with_id 0x3F00 (forest_files 0 ns) \<noteq> None"
    and "last_with_id fid (forest_files 0 ns) = Some (ti, f)" and "file_info data_req f = Some info"
    and "sk_in sk = segments pss" and "\<forall>qs \<in> set pss. qs \<noteq> []"
    and "concat pss = Pdu x y SWICC_NET_MSG_CTRL_MOCK_RESET_COLD_PPS_Y [] # map (Pdu x y SWICC_NET_MSG_CTRL_NONE)
      [select_hdr cla p2, [], be16 fid, [], [cla, 0xC0, 0, 0, word_of_nat (length info)], [], [], []]"
  shows "\<exists>as st' sk'. swicc_net_client H res0 msg_rx msg_tx st c sk = Some (SWICC_RET_NET_DISCONNECTED, st', sk') \<and>
    sk_out sk' = sk_out sk @ concat (map pdu_bytes as) \<and> (\<forall>a \<in> set as. pdu_ctrl a = SWICC_NET_MSG_CTRL_SUCCESS) \<and>
    map pdu_data as = [swicc_atr, [], [0xA4], [], [0x61, word_of_nat (length info)], [], [0xC0], [], info @ [0x90, 0x00]] \<and>
    va_cur_file (st_va st') = f"
proof -
  let ?st0 = "net_start msg_rx msg_tx st"
  have ok0: "net_ok ?st0" by (rule net_start_ok [OF assms(1)])
  have wf0: "st_wf ns ?st0" by (rule net_start_wf [OF assms(1,2)])
  obtain st1 where st1: "net_answer H res0 (Pdu x y SWICC_NET_MSG_CTRL_MOCK_RESET_COLD_PPS_Y []) ?st0 =
      Some (net_reply SWICC_NET_MSG_CTRL_SUCCESS swicc_atr st1, st1)" "net_up st1" "pending [] st1" "fs_ok ns (st_fs st1)"
    using reset_up [OF ok0 wf0 assms(11)] by blast
  have tx: "unat NET_TX_LEN \<le> length (st_buf_tx st1)" "128 \<le> unat NET_TX_LEN" using st1(2) by (simp_all add: net_up_def net_ok_def)
  obtain st2 st3 where e: "exchange H res0 NET_TX_LEN (select_hdr cla p2) (be16 fid) st1 = Some ([0xA4], [0x61, word_of_nat (length info)], st2)"
    "exchange H res0 NET_TX_LEN [cla, 0xC0, 0, 0, word_of_nat (length info)] [] st2 = Some ([0xC0], info @ [0x90, 0x00], st3)"
    "va_cur_file (st_va st3) = f"
    using select_then_get_run [OF st1(3) tx(1) assms(6,7) tx(2) assms(8-10) st1(4) assms(12,13), of H] by blast
  obtain as2 where as2: "\<And>ps. net_serve H res0 (Pdu x y 0 (select_hdr cla p2) # Pdu x y 0 [] # Pdu x y 0 (be16 fid) # Pdu x y 0 [] # ps) st1 =
      map_option (map_prod ((@) as2) id) (net_serve H res0 ps st2)"
    "map pdu_data as2 = [[], [0xA4], [], [0x61, word_of_nat (length info)]]" "\<forall>a \<in> set as2. pdu_ctrl a = SWICC_NET_MSG_CTRL_SUCCESS" "net_up st2"
    using exchange_up [OF st1(2) e(1), of x y] by (auto simp: select_hdr_def be16_def)
  obtain as3 where as3: "\<And>ps. net_serve H res0 (Pdu x y 0 [cla, 0xC0, 0, 0, word_of_nat (length info)] # Pdu x y 0 [] # Pdu x y 0 [] # Pdu x y 0 [] # ps) st2 =
      map_option (map_prod ((@) as3) id) (net_serve H res0 ps st3)"
    "map pdu_data as3 = [[], [0xC0], [], info @ [0x90, 0x00]]" "\<forall>a \<in> set as3. pdu_ctrl a = SWICC_NET_MSG_CTRL_SUCCESS" "net_up st3"
    using exchange_up [OF as2(4) e(2), of x y] by auto
  let ?as = "net_reply SWICC_NET_MSG_CTRL_SUCCESS swicc_atr st1 # as2 @ as3"
  have serve: "net_serve H res0 (concat pss) ?st0 = Some (?as, st3)"
    using net_serve_step [OF st1(1), of "[]"] assms(3) as2(1) as3(1) net_serve_step [OF st1(1)]
    by (simp add: assms(16) net_start_def del: net_serve.simps(2))
  have ok: "\<forall>p \<in> set (concat pss). pdu_ok p" by (simp add: assms(16) pdu_ok_def select_hdr_def be16_def)
  have "\<not> st_shutdown st3" using as3(4) by (simp add: net_up_def)
  then obtain sk' where "swicc_net_client H res0 msg_rx msg_tx st c sk = Some (SWICC_RET_NET_DISCONNECTED, st3, sk')"
    "sk_out sk' = sk_out sk @ concat (map pdu_bytes ?as)"
    using client_serves [OF assms(1,4,14,15) ok assms(5) serve] by auto
  moreover have "\<forall>a \<in> set ?as. pdu_ctrl a = SWICC_NET_MSG_CTRL_SUCCESS" using as2(3) as3(3) by (auto simp: net_reply_def)
  moreover have "map pdu_data ?as = [swicc_atr, [], [0xA4], [], [0x61, word_of_nat (length info)], [], [0xC0], [], info @ [0x90, 0x00]]"
    using as2(2) as3(2) by (simp add: net_reply_def)
  ultimately show ?thesis using e(3) by (intro exI [of _ ?as] exI [of _ st3] exI [of _ sk'] conjI)
qed

text \<open>The small disk; the whole session arrives in two segments.\<close>

definition demo_net_st :: "swicc_disk \<Rightarrow> swicc_st" where
  "demo_net_st d = (demo_st d)\<lparr>st_in := internal_zero\<rparr>"

lemma demo_net_st_ok:
  assumes "fs_ok [demo_mf] (demo_fs d)"
  shows "st_wf [demo_mf] (demo_net_st d)" "net_ready demo_msg demo_msg (demo_net_st d)" "\<not> st_shutdown (demo_net_st d)"
proof -
  show "st_wf [demo_mf] (demo_net_st d)"
    using demo_st_wf [OF assms] internal_zero_wf [of None None]
    by (simp add: st_wf_def bufs_wf_def demo_net_st_def) (simp add: internal_zero_def)
  show "net_ready demo_msg demo_msg (demo_net_st d)" "\<not> st_shutdown (demo_net_st d)"
    using internal_zero_wf [of None None]
    by (simp_all add: net_ready_def no_ext_def demo_net_st_def demo_st_def demo_msg_def) (simp_all add: internal_zero_def)
qed

definition demo_session :: "net_pdu list list" where
  "demo_session = [[Pdu 0 0 SWICC_NET_MSG_CTRL_MOCK_RESET_COLD_PPS_Y []],
     map (Pdu 0 0 SWICC_NET_MSG_CTRL_NONE) [select_hdr 0 4, [], be16 0x6F01, [], [0, 0xC0, 0, 0, 25], [], [], []]]"

theorem net_select_session_witness:
  "\<exists>d as st' sk'. swicc_net_client (\<lambda>_. apduh_unk) demo_res demo_msg demo_msg (demo_net_st d) \<lparr>cl_sock = 3\<rparr>
      \<lparr>sk_in = segments demo_session, sk_send = [], sk_out = []\<rparr> = Some (SWICC_RET_NET_DISCONNECTED, st', sk') \<and>
     sk_out sk' = concat (map pdu_bytes as) \<and>
     map pdu_data as = [swicc_atr, [], [0xA4], [], [0x61, 25], [], [0xC0], [], demo_fcp @ [0x90, 0x00]]"
proof -
  obtain d where d: "fs_ok [demo_mf] (demo_fs d)" using demo_fs_ok by blast
  let ?st = "demo_net_st d" and ?sk = "\<lparr>sk_in = segments demo_session, sk_send = [], sk_out = []\<rparr>"
  note wf = demo_net_st_ok(1) [OF d] and ready = demo_net_st_ok(2,3) [OF d]
  have l: "(word_of_nat (length demo_fcp) :: u8) = 25" by (simp add: demo_fcp_def)
  have pss: "concat demo_session = Pdu 0 0 SWICC_NET_MSG_CTRL_MOCK_RESET_COLD_PPS_Y [] # map (Pdu 0 0 SWICC_NET_MSG_CTRL_NONE)
      [select_hdr 0 4, [], be16 0x6F01, [], [0, 0xC0, 0, 0, word_of_nat (length demo_fcp)], [], [], []]"
    "\<forall>qs \<in> set demo_session. qs \<noteq> []"
    unfolding l by (simp_all add: demo_session_def)
  have c: "0 \<le> cl_sock \<lparr>cl_sock = 3\<rparr>" "sk_send ?sk = []" "sk_in ?sk = segments demo_session" "DATA_REQ_FCP \<noteq> DATA_REQ_ABSENT"
    by simp_all
  note run = net_select_session [OF ready(1) wf ready(2) c(1,2) demo_bin_facts(5) cla_00 demo_p2(2,1) c(4) demo_mf_last demo_last
      demo_info c(3) pss(2,1), of "\<lambda>_. apduh_unk", unfolded l]
  obtain as st' sk' where r: "swicc_net_client (\<lambda>_. apduh_unk) demo_res demo_msg demo_msg ?st \<lparr>cl_sock = 3\<rparr> ?sk =
      Some (SWICC_RET_NET_DISCONNECTED, st', sk')" "sk_out sk' = sk_out ?sk @ concat (map pdu_bytes as)"
    "map pdu_data as = [swicc_atr, [], [0xA4], [], [0x61, 25], [], [0xC0], [], demo_fcp @ [0x90, 0x00]]"
    using run by (elim exE conjE) (rule that)
  have "sk_out sk' = concat (map pdu_bytes as)" unfolding r(2) by simp
  with r(1,3) show ?thesis by (intro exI conjI)
qed

section \<open>Any peer\<close>

lemma net_msg_of_length: "13 \<le> length b \<Longrightarrow> \<exists>m. net_msg_of b = Some m \<and> length (msg_buf m) = length b - 13"
  using le32_get_defined [of 0 b] le32_get_defined [of 4 b] le32_get_defined [of 8 b] by (auto simp: net_msg_of_def rd_def)

lemma sock_recv_length: "sock_recv n sk = (Some bs, sk') \<Longrightarrow> length bs \<le> n"
  by (auto simp: sock_recv_def split: list.split_asm net_recv_res.split_asm)

lemma net_recv_any:
  assumes l: "length (msg_buf m) = NET_BUF_LEN"
  shows "\<exists>ret m' sk'. swicc_net_recv sock m sk = Some (ret, m', sk') \<and> length (msg_buf m') = NET_BUF_LEN"
proof (cases "sock < 0")
  case False
  have put: "\<exists>raw m'. wrn b off bs = Some raw \<and> net_msg_of raw = Some m' \<and> length raw = 13 + NET_BUF_LEN \<and> length (msg_buf m') = NET_BUF_LEN"
    if b: "length b = 13 + NET_BUF_LEN" "off + length bs \<le> 13 + NET_BUF_LEN" for b off bs
  proof -
    have "off + length bs \<le> length b" using b by simp
    then obtain raw where raw: "wrn b off bs = Some raw" using wrn_ex by blast
    then have "length raw = 13 + NET_BUF_LEN" using length_wrn b(1) by metis
    then show ?thesis using raw net_msg_of_length [of raw] by auto
  qed
  have "\<exists>ret m' sk'. msg_recv sock m sk = Some (ret, m', sk') \<and> length (msg_buf m') = NET_BUF_LEN"
  proof (cases "sock_recv NET_HDR_LEN sk")
    case (Pair h sk1)
    show ?thesis
    proof (cases h)
      case (Some hdr)
      have lh: "length hdr \<le> NET_HDR_LEN" using Pair Some sock_recv_length by blast
      obtain raw1 m1 where w1: "wrn (net_msg_raw m) 0 hdr = Some raw1" "net_msg_of raw1 = Some m1"
        "length raw1 = 13 + NET_BUF_LEN" "length (msg_buf m1) = NET_BUF_LEN"
        using put [of "net_msg_raw m" 0 hdr] l lh by auto
      show ?thesis
      proof (cases "length hdr \<noteq> NET_HDR_LEN \<or> unat (msg_size m1) > net_data_len m1 \<or> unat (msg_size m1) < NET_BUF_OFFSET")
        case True
        then show ?thesis using False Pair Some w1 by (auto simp: msg_recv_def)
      next
        case fit: False
        show ?thesis
        proof (cases "sock_recv (unat (msg_size m1)) sk1")
          case second: (Pair d sk2)
          show ?thesis
          proof (cases d)
            case None
            then show ?thesis using False fit Pair Some second w1 by (simp add: msg_recv_def)
          next
            case data: (Some data)
            have "length data \<le> unat (msg_size m1)" using second data sock_recv_length by blast
            then have "NET_HDR_LEN + length data \<le> 13 + NET_BUF_LEN" using fit w1(4) by (simp add: net_data_len_def)
            from put [OF w1(3) this] obtain raw2 m2 where "wrn raw1 NET_HDR_LEN data = Some raw2" "net_msg_of raw2 = Some m2"
              "length (msg_buf m2) = NET_BUF_LEN" by auto
            then show ?thesis using False fit Pair Some second data w1 by (simp add: msg_recv_def)
          qed
        qed
      qed
    qed (use False Pair l in \<open>simp add: msg_recv_def\<close>)
  qed
  then show ?thesis using False by (auto simp: swicc_net_recv_def)
qed (simp add: swicc_net_recv_def l)

lemma net_ok_client:
  assumes run: "net_client_answer H res0 m st = Some (tx, st')" and ok: "net_ok st"
  shows "net_ok st'"
  using run ok
  by (auto simp: net_client_answer_def net_client_ctrl_def net_client_data_def bind_Some_iff Let_def
      dest: net_ok_data net_ok_mock net_ok_tx split: if_split_asm)

lemma loop_keeps:
  assumes run: "net_client_loop H res0 sock r m st sk = Some (r', st', sk')" and ok: "net_ok st"
  shows "net_ok st'"
proof -
  let ?P = "\<lambda>H res0 (sock :: int) (r :: bool) (m :: swicc_net_msg) st (sk :: net_sock) (x :: bool \<times> swicc_st \<times> net_sock). net_ok st \<longrightarrow> net_ok (fst (snd x))"
  have "?P H res0 sock r m st sk (r', st', sk')"
  proof (rule net_client_loop.raw_induct [where P = ?P, OF _ run])
    fix f H res0 sock r m st sk x
    assume IH: "\<And>H res0 sock r m st sk x. f H res0 sock r m st sk = Some x \<Longrightarrow> net_ok st \<longrightarrow> net_ok (fst (snd x))"
      and eq: "(if st_shutdown st then Some (r, st, sk)
        else Option.bind (swicc_net_recv sock (m\<lparr>msg_buf := st_buf_rx st\<rparr>) sk) (\<lambda>(ret, msg1, sk1).
          if ret \<noteq> SWICC_RET_SUCCESS then Some (r, st\<lparr>st_buf_rx := msg_buf msg1\<rparr>, sk1)
          else if msg_size msg1 - word_of_nat NET_BUF_OFFSET \<le> 65535 then
            Option.bind (net_client_answer H res0 msg1 (st\<lparr>st_buf_rx := msg_buf msg1\<rparr>)) (\<lambda>(msg_tx, st1).
              Option.bind (swicc_net_send sock msg_tx sk1) (\<lambda>(ret, sk2).
                if ret \<noteq> SWICC_RET_SUCCESS then Some (r, st1, sk2) else f H res0 sock True msg1 st1 sk2))
          else f H res0 sock r msg1 (st\<lparr>st_buf_rx := msg_buf msg1\<rparr>) sk1)) = Some x"
    show "net_ok st \<longrightarrow> net_ok (fst (snd x))"
    proof
      assume ok: "net_ok st"
      obtain ret m1 sk1 where rc: "swicc_net_recv sock (m\<lparr>msg_buf := st_buf_rx st\<rparr>) sk = Some (ret, m1, sk1)"
        "length (msg_buf m1) = NET_BUF_LEN"
        using net_recv_any [of "m\<lparr>msg_buf := st_buf_rx st\<rparr>" sock sk] ok by (auto simp: net_ok_def)
      have ok1: "net_ok (st\<lparr>st_buf_rx := msg_buf m1\<rparr>)" by (rule net_ok_bufs(1) [OF ok rc(2)])
      show "net_ok (fst (snd x))"
        using eq rc(1) ok ok1
        by (auto simp: bind_Some_iff dest!: IH dest: net_ok_client split: if_split_asm)
    qed
  qed
  then show ?thesis using ok by simp
qed

text \<open>
  C24.  Whatever the peer sends, in whatever pieces, and however the socket fails: receiving a message never
  leaves the memory of the message, and when the client returns, the card is still well-formed, with
  buffers of the size they had.
\<close>

theorem net_client_keeps_types:
  assumes "net_ready msg_rx msg_tx st"
  shows "(\<exists>ret m sk1. swicc_net_recv (cl_sock c) msg_rx sk = Some (ret, m, sk1) \<and> length (msg_buf m) = NET_BUF_LEN) \<and>
    (\<forall>ret st' sk'. swicc_net_client H res0 msg_rx msg_tx st c sk = Some (ret, st', sk') \<longrightarrow>
      card_wf st' \<and> length (st_buf_rx st') = NET_BUF_LEN \<and> length (st_buf_tx st') = NET_BUF_LEN)"
proof -
  have "net_ok st'" if "swicc_net_client H res0 msg_rx msg_tx st c sk = Some (ret, st', sk')" for ret st' sk'
    using that loop_keeps [OF _ net_start_ok [OF assms]]
    by (auto simp: swicc_net_client_def net_start_def bind_Some_iff)
  then show ?thesis using net_recv_any [of msg_rx "cl_sock c" sk] assms by (auto simp: net_ready_def net_ok_def)
qed

text \<open>A connection that breaks at once.\<close>

theorem net_client_keeps_types_witness:
  "\<exists>st' sk'. swicc_net_client (\<lambda>_. apduh_unk) demo_res demo_msg demo_msg demo_card \<lparr>cl_sock = 3\<rparr>
      \<lparr>sk_in = [Recv_Fails], sk_send = [], sk_out = []\<rparr> = Some (SWICC_RET_ERROR, st', sk') \<and>
     card_wf st' \<and> length (st_buf_rx st') = 258"
proof -
  have "\<exists>st' sk'. swicc_net_client (\<lambda>_. apduh_unk) demo_res demo_msg demo_msg demo_card \<lparr>cl_sock = 3\<rparr>
      \<lparr>sk_in = [Recv_Fails], sk_send = [], sk_out = []\<rparr> = Some (SWICC_RET_ERROR, st', sk')"
    by (simp add: swicc_net_client_def net_client_loop.simps swicc_net_recv_def msg_recv_def sock_recv_def demo_card_def)
  then show ?thesis
    using net_client_keeps_types [OF demo_net_ready, of "\<lparr>cl_sock = 3\<rparr>" "\<lparr>sk_in = [Recv_Fails], sk_send = [], sk_out = []\<rparr>"
        "\<lambda>_. apduh_unk" demo_res] by fastforce
qed

end
