(* ===== verification/Swicc_Text.thy ===== *)
theory Swicc_Text
  imports Swicc_Common
begin

text \<open>
  The conversions of \<^verbatim>\<open>printf\<close> that the program uses, as functions into strings: decimal and hexadecimal
  numbers, and bytes as pairs of hexadecimal digits.
\<close>

definition digit_char :: "nat \<Rightarrow> char" where
  "digit_char n = ''0123456789ABCDEF'' ! n"

text \<open>\<^verbatim>\<open>%u\<close>.\<close>

fun fmt_u :: "nat \<Rightarrow> string" where
  "fmt_u n = (if n < 10 then [digit_char n] else fmt_u (n div 10) @ [digit_char (n mod 10)])"

declare fmt_u.simps [simp del]

text \<open>\<^verbatim>\<open>%X\<close> with leading zeros up to a width.\<close>

fun fmt_hex :: "nat \<Rightarrow> string" where
  "fmt_hex n = (if n < 16 then [digit_char n] else fmt_hex (n div 16) @ [digit_char (n mod 16)])"

declare fmt_hex.simps [simp del]

definition fmt_X :: "nat \<Rightarrow> nat \<Rightarrow> string" where
  "fmt_X w n = replicate (w - length (fmt_hex n)) (CHR ''0'') @ fmt_hex n"

text \<open>A byte is written with \<^verbatim>\<open>%02X\<close> as its two digits.\<close>

definition hex_byte :: "u8 \<Rightarrow> string" where
  "hex_byte b = [digit_char (unat b div 16), digit_char (unat b mod 16)]"

lemma digit_char_0: "digit_char 0 = CHR ''0''"
  by (simp add: digit_char_def)

lemma fmt_X_byte: "fmt_X 2 (unat b) = hex_byte (b :: u8)"
proof (cases "unat b < 16")
  case True
  then show ?thesis by (simp add: fmt_X_def fmt_hex.simps hex_byte_def digit_char_0)
next
  case False
  moreover have "unat b div 16 < 16" by (rule less_mult_imp_div_less) (use unat_u8_less [of b] in simp)
  ultimately show ?thesis by (simp add: fmt_X_def fmt_hex.simps hex_byte_def)
qed

definition hex_text :: "bytes \<Rightarrow> string" where
  "hex_text bs = concat (map (\<lambda>b. fmt_X 2 (unat b)) bs)"

lemma hex_text_simps [simp]:
  "hex_text [] = []" "hex_text (b # bs) = hex_byte b @ hex_text bs" "hex_text (bs @ cs) = hex_text bs @ hex_text cs"
  by (simp_all add: hex_text_def fmt_X_byte)

lemma length_hex_text: "length (hex_text bs) = 2 * length bs"
  by (induction bs) (simp_all add: hex_byte_def)

end
