(* ===== verification/Swicc_Server_Dummy.thy ===== *)
theory Swicc_Server_Dummy
  imports Swicc_Net_Server Swicc_Text
begin

text \<open>
  \<^verbatim>\<open>tool/server-dummy/src/main.c\<close>: a server that sends the commands of a text file to every card that
  connects, and prints the responses.

  The messages to the standard error are left out; the standard output is a string.  A file is its contents, or
  nothing when it cannot be opened.
\<close>

section \<open>Reading the file\<close>

text \<open>The value of a hexadecimal digit of either case, as the code computes it.\<close>

definition nibble_val :: "char \<Rightarrow> u8 option" where
  "nibble_val nibble_char =
     (let c = (of_char nibble_char :: u8) in
      if 0x30 \<le> c \<and> c \<le> 0x39 then Some (0 + (c - 0x30))
      else if 0x41 \<le> c \<and> c \<le> 0x46 then Some (0x0A + (c - 0x41))
      else if 0x61 \<le> c \<and> c \<le> 0x66 then Some (0x0A + (c - 0x61))
      else None)"

text \<open>Spaces are skipped and any other character ends the data.  \<open>nibbles\<close> are those waiting for their byte.\<close>

fun parse_data_loop :: "string \<Rightarrow> u32 list \<Rightarrow> bytes \<Rightarrow> nat \<Rightarrow> nat \<Rightarrow> (bytes \<times> nat) option" where
  "parse_data_loop [] nibbles data_out data_out_len data_out_len_max = Some (data_out, data_out_len)"
| "parse_data_loop (c # cs) nibbles data_out data_out_len data_out_len_max =
     (if c = CHR '' '' then parse_data_loop cs nibbles data_out data_out_len data_out_len_max
      else (case nibble_val c of
        None \<Rightarrow> Some (data_out, data_out_len)
      | Some v \<Rightarrow>
          (let nibbles1 = nibbles @ [ucast v] in
           if length nibbles1 = 2 then
             (if data_out_len + 1 > data_out_len_max then Some (data_out, data_out_len)
              else do {
                data_out1 \<leftarrow> wrn data_out data_out_len [ucast (push_bit 4 (nibbles1 ! 0) OR nibbles1 ! 1)];
                parse_data_loop cs [] data_out1 (data_out_len + 1) data_out_len_max })
           else parse_data_loop cs nibbles1 data_out data_out_len data_out_len_max)))"

definition parse_file_data :: "string \<Rightarrow> bytes \<Rightarrow> nat \<Rightarrow> nat \<Rightarrow> (bytes \<times> nat) option" where
  "parse_file_data data_in data_out data_in_len data_out_len_max = do {
     cs \<leftarrow> rdn data_in 0 data_in_len;
     parse_data_loop cs [] data_out 0 data_out_len_max }"

text \<open>\<^verbatim>\<open>fgets\<close> takes at most \<open>n\<close> characters, up to the end of the line; the rest of the file remains.\<close>

abbreviation NEWLINE :: char where "NEWLINE \<equiv> CHR 0x0A"

fun fgets_take :: "nat \<Rightarrow> string \<Rightarrow> string \<times> string" where
  "fgets_take 0 s = ([], s)"
| "fgets_take (Suc n) [] = ([], [])"
| "fgets_take (Suc n) (c # s) =
     (if c = NEWLINE then ([c], s) else (let (line, rest) = fgets_take n s in (c # line, rest)))"

abbreviation FILE_LINE_MAX :: nat where "FILE_LINE_MAX \<equiv> 1022"

text \<open>The end of the file is noticed when it keeps a line short.\<close>

definition fgets_eof :: "string \<Rightarrow> string \<Rightarrow> bool" where
  "fgets_eof line rest \<longleftrightarrow> rest = [] \<and> length line < FILE_LINE_MAX \<and> (line = [] \<or> last line \<noteq> NEWLINE)"

section \<open>A message and its answer\<close>

definition message_io ::
    "int \<Rightarrow> swicc_net_msg \<Rightarrow> u32 \<Rightarrow> u32 \<Rightarrow> net_sock \<Rightarrow> (nat \<times> swicc_net_msg \<times> net_sock) option" where
  "message_io sock msg response_lenexp_expected response_length_expected_max sk = do {
     (ret, sk1) \<leftarrow> swicc_net_send sock msg sk;
     if ret \<noteq> SWICC_RET_SUCCESS then Some (1, msg, sk1)
     else do {
       (ret, msg1, sk2) \<leftarrow> swicc_net_recv sock msg sk1;
       if ret \<noteq> SWICC_RET_SUCCESS then Some (2, msg1, sk2)
       else if msg_size msg1 < word_of_nat NET_BUF_OFFSET then Some (3, msg1, sk2)
       else do {
         _ \<leftarrow> rdn (msg_buf msg1) 0 (unat (msg_size msg1 - word_of_nat NET_BUF_OFFSET));
         Some (if msg_size msg1 > word_of_nat NET_BUF_OFFSET + response_length_expected_max then 4
               else if msg_cont_state msg1 \<noteq> 0x6000 then 5
               else if msg_ctrl msg1 \<noteq> SWICC_NET_MSG_CTRL_SUCCESS then 6
               else if msg_buf_len_exp msg1 \<noteq> response_lenexp_expected then 7
               else 0, msg1, sk2) } } }"

section \<open>A command\<close>

text \<open>The fields of the messages that carry \<open>n\<close> bytes of the buffer to the card.\<close>

definition dummy_msg :: "nat \<Rightarrow> u32 \<Rightarrow> swicc_net_msg \<Rightarrow> swicc_net_msg" where
  "dummy_msg n len_exp msg = msg\<lparr>msg_size := word_of_nat (NET_BUF_OFFSET + n), msg_ctrl := SWICC_NET_MSG_CTRL_NONE,
     msg_cont_state := 0x707E, msg_buf_len_exp := len_exp\<rparr>"

text \<open>An error ends the loop over the file: the first component of a result tells whether it goes on.\<close>

type_synonym dummy_res = "(bool \<times> net_sock \<times> string) option"

definition dummy_io ::
    "int \<Rightarrow> swicc_net_msg \<Rightarrow> u32 \<Rightarrow> u32 \<Rightarrow> net_sock \<Rightarrow> string \<Rightarrow> (swicc_net_msg \<Rightarrow> net_sock \<Rightarrow> dummy_res) \<Rightarrow> dummy_res" where
  "dummy_io sock msg lenexp len_max sk out next = do {
     (message_io_error, msg1, sk1) \<leftarrow> message_io sock msg lenexp len_max sk;
     if message_io_error \<noteq> 0 then Some (False, sk1, out) else next msg1 sk1 }"

text \<open>The response is fetched and printed.\<close>

definition dummy_response :: "int \<Rightarrow> swicc_net_msg \<Rightarrow> net_sock \<Rightarrow> string \<Rightarrow> dummy_res" where
  "dummy_response sock msg sk out =
     dummy_io sock (dummy_msg 0 0 msg) 5 (word_of_nat SWICC_DATA_MAX) sk out (\<lambda>msg1 sk1. do {
       let response_data_length = unat (msg_size msg1 - word_of_nat NET_BUF_OFFSET);
       data \<leftarrow> rdn (msg_buf msg1) 0 response_data_length;
       Some (True, sk1, out @ ''Response: length='' @ fmt_u response_data_length @ '' '' @ [CHR 0x27] @ hex_text data @ [CHR 0x27] @ ''.'' @ [NEWLINE]) })"

text \<open>The data behind the header are moved to the start of the buffer and sent.\<close>

definition dummy_data :: "int \<Rightarrow> nat \<Rightarrow> swicc_net_msg \<Rightarrow> net_sock \<Rightarrow> string \<Rightarrow> dummy_res" where
  "dummy_data sock msg_data_len msg sk out =
     (if msg_data_len > 5 then do {
        data \<leftarrow> rdn (msg_buf msg) 5 (msg_data_len - 5);
        buf \<leftarrow> wrn (msg_buf msg) 0 data;
        dummy_io sock (dummy_msg (msg_data_len - 5) 0 (msg\<lparr>msg_buf := buf\<rparr>)) 0 0 sk out (\<lambda>msg1 sk1. dummy_response sock msg1 sk1 out) }
      else dummy_response sock msg sk out)"

text \<open>
  An answer whose expected length is 0 where another one was expected is that of a command that gets data:
  another message lets the card go on.
\<close>

definition dummy_procedure :: "int \<Rightarrow> nat \<Rightarrow> u8 \<Rightarrow> swicc_net_msg \<Rightarrow> net_sock \<Rightarrow> string \<Rightarrow> dummy_res" where
  "dummy_procedure sock msg_data_len command_p3 msg sk out = do {
     (message_io_error, msg1, sk1) \<leftarrow> message_io sock (dummy_msg 0 0 msg)
        (if msg_data_len > 5 then word_of_nat (msg_data_len - 5) else 5) 1 sk;
     if message_io_error \<noteq> 0 then
       if message_io_error = 7 \<and> msg_buf_len_exp msg1 = 0
       then dummy_io sock (dummy_msg 0 (ucast command_p3) msg1) 0 (ucast command_p3) sk1 out
         (\<lambda>msg2 sk2. dummy_data sock msg_data_len msg2 sk2 out)
       else Some (False, sk1, out)
     else dummy_data sock msg_data_len msg1 sk1 out }"

definition msg_zero :: swicc_net_msg where
  "msg_zero = \<lparr>msg_size = 0, msg_cont_state = 0, msg_buf_len_exp = 0, msg_ctrl = 0, msg_buf = replicate NET_BUF_LEN 0\<rparr>"

definition dummy_command :: "int \<Rightarrow> string \<Rightarrow> net_sock \<Rightarrow> string \<Rightarrow> dummy_res" where
  "dummy_command sock file_line sk out = do {
     (buf, msg_data_len) \<leftarrow> parse_file_data file_line (msg_buf msg_zero) (length file_line) NET_BUF_LEN;
     if msg_data_len < 5 then Some (False, sk, out)
     else do {
       command_p3 \<leftarrow> rd buf 4;
       let out1 = out @ ''Command: length='' @ fmt_u 5 @ '' '' @ [CHR 0x27] @ file_line @ [CHR 0x27] @ ''.'' @ [NEWLINE];
       dummy_io sock (dummy_msg 5 0 (msg_zero\<lparr>msg_buf := buf\<rparr>)) 0 0 sk out1
         (\<lambda>msg1 sk1. dummy_procedure sock msg_data_len command_p3 msg1 sk1 out1) } }"

section \<open>The file and the card\<close>

lemma fgets_rest: "fgets_take n s = (line, rest) \<Longrightarrow> 0 < n \<Longrightarrow> s \<noteq> [] \<Longrightarrow> length rest < length s"
proof (induction n s arbitrary: line rule: fgets_take.induct)
  case (3 n c s)
  show ?case
  proof (cases "n = 0 \<or> s = []")
    case True
    then show ?thesis using 3(2) by (cases n) (auto split: if_split_asm)
  next
    case False
    then show ?thesis using 3 by (auto split: if_split_asm prod.split_asm)
  qed
qed simp_all

text \<open>
  The length of a line is that up to its first null byte.  A line that starts with one makes the code read
  in front of the line.  An empty line ends the commands.
\<close>

function dummy_lines :: "int \<Rightarrow> string \<Rightarrow> net_sock \<Rightarrow> string \<Rightarrow> (net_sock \<times> string) option" where
  "dummy_lines sock fdata sk out =
     (if fdata = [] then Some (sk, out)
      else case fgets_take FILE_LINE_MAX fdata of (line, rest) \<Rightarrow>
        (let len_raw = length (takeWhile (\<lambda>c. c \<noteq> CHR 0x00) line) in
         if len_raw = 0 then None
         else
           (let file_line_len = (if line ! (len_raw - 1) = NEWLINE then len_raw - 1 else len_raw) in
            Option.bind (if file_line_len > 0 then dummy_command sock (take file_line_len line) sk out else Some (True, sk, out))
              (\<lambda>(go, sk1, out1).
                if \<not> go \<or> file_line_len = 0 \<or> fgets_eof line rest then Some (sk1, out1)
                else dummy_lines sock rest sk1 out1))))"
  by pat_completeness auto

termination
  by (relation "measure (\<lambda>(sock, fdata, sk, out). length fdata)") (auto dest: fgets_rest [OF sym])

declare dummy_lines.simps [simp del]

text \<open>
  What is done for one card: it is reset, and the file is sent line by line.  A file that cannot be opened
  is nevertheless closed.
\<close>

definition dummy_client :: "int \<Rightarrow> string option \<Rightarrow> net_sock \<Rightarrow> string \<Rightarrow> (net_sock \<times> string) option" where
  "dummy_client sock file_data sk out = do {
     (message_io_error, _, sk1) \<leftarrow> message_io sock
       (msg_zero\<lparr>msg_size := word_of_nat NET_BUF_OFFSET, msg_ctrl := SWICC_NET_MSG_CTRL_MOCK_RESET_COLD_PPS_Y\<rparr>)
       0 (word_of_nat SWICC_DATA_MAX) sk;
     (sk2, out2) \<leftarrow> (case file_data of
         Some fdata \<Rightarrow> if message_io_error = 0 then dummy_lines sock fdata sk1 out else Some (sk1, out)
       | None \<Rightarrow> Some (sk1, out));
     assert_ub (file_data \<noteq> None);
     Some (sk2, out2) }"

section \<open>The program\<close>

text \<open>
  The host: the arguments, what its calls return, and whether a signal arrives between the installation of the
  handlers and the creation of the server.
\<close>

record dummy_host =
  dh_argc :: nat
  dh_sigemptyset :: bool
  dh_get :: "signo \<Rightarrow> bool"
  dh_set :: "signo \<Rightarrow> bool"
  dh_signal :: "signo \<Rightarrow> bool"
  dh_early :: bool
  dh_port :: int
  dh_create :: create_calls
  dh_close :: "int \<Rightarrow> bool"

text \<open>What the program finds each time it asks for a connection, and the file as it is then.\<close>

record dummy_accept =
  da_sock :: int
  da_errno :: accept_errno
  da_stream :: net_sock
  da_file :: "string option"

text \<open>
  What happens to the program while it waits: a round of its loop, a signal between two rounds, or a signal
  after a connection was asked for and before the card was disconnected.
\<close>

datatype dummy_event = Ev_accept dummy_accept | Ev_signal | Ev_signal_serving dummy_accept

text \<open>The handler of a signal takes the server down and exits with 0.\<close>

definition sig_exit_handler :: "(int \<Rightarrow> bool) \<Rightarrow> swicc_net_server \<Rightarrow> fds \<Rightarrow> int \<times> swicc_net_server \<times> fds" where
  "sig_exit_handler ok server_ctx fds = (0, swicc_net_server_destroy ok server_ctx fds)"

text \<open>
  The loop over the connections; after the last event that is given the program goes on waiting.  The result: the
  exit code once there is one, the server, the descriptors, the streams of the cards that were served to the end
  and the output (without the part for a card whose service a signal interrupts).
\<close>

fun dummy_serve ::
    "(int \<Rightarrow> bool) \<Rightarrow> dummy_event list \<Rightarrow> swicc_net_server \<Rightarrow> fds \<Rightarrow> net_sock list \<Rightarrow> string \<Rightarrow>
     (int option \<times> swicc_net_server \<times> fds \<times> net_sock list \<times> string) option" where
  "dummy_serve ok [] server_ctx fds served out = Some (None, server_ctx, fds, served, out)"
| "dummy_serve ok (Ev_accept a # evs) server_ctx fds served out = do {
     (ret_accept, ctx1, fds1) \<leftarrow> swicc_net_server_client_connect (da_sock a) (da_errno a) server_ctx 0 fds;
     if ret_accept = SWICC_RET_SUCCESS then do {
       sock \<leftarrow> rd (srv_clients ctx1) 0;
       (sk, out1) \<leftarrow> dummy_client sock (da_file a) (da_stream a) out;
       (ctx2, fds2) \<leftarrow> swicc_net_server_client_disconnect ok ctx1 0 fds1;
       dummy_serve ok evs ctx2 fds2 (served @ [sk]) out1 }
     else if ret_accept = SWICC_RET_ERROR then
       (let (ctx2, fds2) = swicc_net_server_destroy ok ctx1 fds1 in Some (Some (-1), ctx2, fds2, served, out))
     else dummy_serve ok evs ctx1 fds1 served out }"
| "dummy_serve ok (Ev_signal # evs) server_ctx fds served out =
     (let (code, ctx2, fds2) = sig_exit_handler ok server_ctx fds in Some (Some code, ctx2, fds2, served, out))"
| "dummy_serve ok (Ev_signal_serving a # evs) server_ctx fds served out = do {
     (ret_accept, ctx1, fds1) \<leftarrow> swicc_net_server_client_connect (da_sock a) (da_errno a) server_ctx 0 fds;
     let (code, ctx2, fds2) = sig_exit_handler ok ctx1 fds1;
     Some (Some code, ctx2, fds2, served, out) }"

text \<open>The server is a global variable, which is zero before it is prepared.\<close>

definition server_main ::
    "dummy_host \<Rightarrow> dummy_event list \<Rightarrow> fds \<Rightarrow> (signo \<Rightarrow> sig_disp) \<Rightarrow>
     (int option \<times> swicc_net_server \<times> fds \<times> net_sock list \<times> string) option" where
  "server_main h evs fds disp =
     (if dh_argc h \<noteq> 3 then
        (if dh_argc h = 0 then None
         else Some (Some (-1), \<lparr>srv_sock = 0, srv_clients = replicate SWICC_NET_CLIENT_COUNT_MAX 0\<rparr>, fds, [], []))
      else do {
        let server_ctx = \<lparr>srv_sock = -1, srv_clients = replicate SWICC_NET_CLIENT_COUNT_MAX (-1)\<rparr>;
        (ret, _) \<leftarrow> swicc_net_client_sig_register (dh_sigemptyset h) (dh_get h) (dh_set h) (dh_signal h) 0 disp;
        if ret \<noteq> SWICC_RET_SUCCESS then Some (Some (-1), server_ctx, fds, [], [])
        else if dh_early h then
          (let (code, ctx1, fds1) = sig_exit_handler (dh_close h) server_ctx fds in Some (Some code, ctx1, fds1, [], []))
        else
          (let (ret, ctx1, fds1) = swicc_net_server_create (dh_port h) (dh_create h) server_ctx fds in
           if ret \<noteq> SWICC_RET_SUCCESS then
             (let (ctx2, fds2) = swicc_net_server_destroy (dh_close h) ctx1 fds1 in Some (Some (-1), ctx2, fds2, [], []))
           else dummy_serve (dh_close h) evs ctx1 fds1 [] []) })"

end
