(* ===== verification/Swicc_Server_Dummy_Spec.thy ===== *)
theory Swicc_Server_Dummy_Spec
  imports Swicc_Server_Dummy Swicc_Net_Spec
begin

text \<open>
  The example server and a card: the text of the commands is read as the bytes it writes, and the messages of
  the server and those of the client of \<^verbatim>\<open>src/net.c\<close> fit together, from the file with the commands to the
  printed responses.
\<close>

section \<open>Commands as text\<close>

text \<open>A digit of either case, and a text that writes some bytes with spaces anywhere.\<close>

definition writes_digit :: "nat \<Rightarrow> char \<Rightarrow> bool" where
  "writes_digit v c \<longleftrightarrow> c = ''0123456789ABCDEF'' ! v \<or> c = ''0123456789abcdef'' ! v"

fun nibbles_of :: "bytes \<Rightarrow> nat list" where
  "nibbles_of [] = []"
| "nibbles_of (b # bs) = unat b div 16 # unat b mod 16 # nibbles_of bs"

definition writes_bytes :: "bytes \<Rightarrow> string \<Rightarrow> bool" where
  "writes_bytes bs line \<longleftrightarrow> list_all2 writes_digit (nibbles_of bs) (filter (\<lambda>c. c \<noteq> CHR '' '') line)"

lemma nibbles_small: "v \<in> set (nibbles_of bs) \<Longrightarrow> v < 16"
  by (induction bs) (auto intro: less_mult_imp_div_less simp: unat_u8_less)

lemma nibble_digit: "v < 16 \<Longrightarrow> writes_digit v c \<Longrightarrow> nibble_val c = Some (word_of_nat v) \<and> c \<noteq> CHR '' ''"
proof -
  have "\<forall>v \<in> set [0..<16]. nibble_val (''0123456789ABCDEF'' ! v) = Some (word_of_nat v) \<and> ''0123456789ABCDEF'' ! v \<noteq> CHR '' '' \<and>
      nibble_val (''0123456789abcdef'' ! v) = Some (word_of_nat v) \<and> ''0123456789abcdef'' ! v \<noteq> CHR '' ''"
    by code_simp
  moreover assume "v < 16" "writes_digit v c"
  ultimately show ?thesis by (auto simp: writes_digit_def)
qed

lemma nibbles_join:
  "ucast (push_bit 4 (ucast (word_of_nat (unat b div 16) :: u8) :: u32) OR ucast (word_of_nat (unat b mod 16) :: u8)) = (b :: u8)"
proof -
  have "\<forall>b :: u8. ucast (push_bit 4 (ucast (word_of_nat (unat b div 16) :: u8) :: u32) OR ucast (word_of_nat (unat b mod 16) :: u8)) = b"
    unfolding forall_u8 by code_simp
  then show ?thesis by blast
qed

lemma parse_bytes:
  assumes "writes_bytes bs line" "n + length bs \<le> cap" "cap \<le> length out"
  shows "parse_data_loop line [] out n cap = Some (take n out @ bs @ drop (n + length bs) out, n + length bs)"
proof -
  let ?nib = "\<lambda>v. ucast (word_of_nat v :: u8) :: u32"
  have "parse_data_loop line (map ?nib ns) out n cap = Some (take n out @ bs @ drop (n + length bs) out, n + length bs)"
    if "list_all2 writes_digit ds (filter (\<lambda>c. c \<noteq> CHR '' '') line)" "ns @ ds = nibbles_of bs" "length ns < 2"
      "n + length bs \<le> cap" "cap \<le> length out" for ds ns
    using that
  proof (induction line arbitrary: ds ns bs out n)
    case Nil
    then have "ds = []" by simp
    then show ?case using Nil.prems by (cases bs) auto
  next
    case (Cons c line)
    show ?case
    proof (cases "c = CHR '' ''")
      case True
      then show ?thesis using Cons.IH [of ds ns bs n out] Cons.prems by simp
    next
      case False
      then obtain d ds' where ds: "ds = d # ds'" "writes_digit d c" "list_all2 writes_digit ds' (filter (\<lambda>c. c \<noteq> CHR '' '') line)"
        using Cons.prems(1) by (auto simp: list_all2_Cons2)
      have "d < 16" using nibbles_small [of d bs] Cons.prems(2) ds(1) by (metis in_set_conv_decomp)
      then have v: "nibble_val c = Some (word_of_nat d)" using nibble_digit ds(2) by blast
      show ?thesis
      proof (cases ns)
        case Nil
        then show ?thesis using Cons.IH [of ds' "[d]" bs n out] Cons.prems(2,4,5) False v ds by simp
      next
        case (Cons h ns')
        then have ns: "ns = [h]" using Cons.prems(3) by (cases ns') simp_all
        obtain b bs' where b: "bs = b # bs'" "h = unat b div 16" "d = unat b mod 16" "ds' = nibbles_of bs'"
          using Cons.prems(2) ns ds(1) by (cases bs) auto
        have "n < length out" using Cons.prems(4,5) b(1) by simp
        then have w: "wrn out n [b] = Some (take n out @ b # drop (Suc n) out)" by (simp add: wrn_def)
        show ?thesis
          using Cons.IH [of ds' "[]" bs' "Suc n" "take n out @ b # drop (Suc n) out"] Cons.prems(4,5) ns ds(3) b(1,4) False v w
            nibbles_join [of b, folded b(2,3)] \<open>n < length out\<close>
          by (simp add: min_def add.commute)
      qed
    qed
  qed
  from this [of "nibbles_of bs" "[]"] assms show ?thesis by (simp add: writes_bytes_def)
qed

lemma parse_file_bytes:
  assumes "writes_bytes bs line" "length bs \<le> cap" "cap \<le> length out"
  shows "parse_file_data line out (length line) cap = Some (bs @ drop (length bs) out, length bs)"
  using parse_bytes [of bs line 0 cap out] assms by (simp add: parse_file_data_def rdn_def)

lemma writes_hex_text: "writes_bytes bs (hex_text bs)"
proof -
  have "writes_digit v (digit_char v) \<and> digit_char v \<noteq> CHR '' ''" if "v < 16" for v
    using nibble_digit [OF that, of "digit_char v"] by (simp add: writes_digit_def digit_char_def)
  moreover have "unat b div 16 < 16" for b :: u8 by (rule less_mult_imp_div_less) (use unat_u8_less [of b] in simp)
  ultimately have "list_all2 writes_digit (nibbles_of bs) (hex_text bs) \<and> filter (\<lambda>c. c \<noteq> CHR '' '') (hex_text bs) = hex_text bs"
    by (induction bs) (simp_all add: hex_byte_def)
  then show ?thesis by (simp add: writes_bytes_def)
qed

text \<open>
  C37.  The server reads a line of hexadecimal digits of either case, with spaces anywhere, as the bytes it
  writes; in particular it reads back what it prints for a response.
\<close>

theorem parse_file_data_reads:
  assumes "writes_bytes bs line" and "length bs \<le> cap" and "cap \<le> length out"
  shows "parse_file_data line out (length line) cap = Some (bs @ drop (length bs) out, length bs) \<and>
    parse_file_data (hex_text bs) out (2 * length bs) cap = Some (bs @ drop (length bs) out, length bs)"
  using parse_file_bytes [OF assms] parse_file_bytes [OF writes_hex_text assms(2,3)] by (simp add: length_hex_text)

theorem parse_file_data_reads_witness:
  "parse_file_data ''00 a40004 02'' [9, 9, 9, 9, 9, 9, 9] 12 6 = Some ([0x00, 0xA4, 0x00, 0x04, 0x02, 9, 9], 5)"
proof -
  have "writes_bytes [0x00, 0xA4, 0x00, 0x04, 0x02] ''00 a40004 02''"
    by (simp add: writes_bytes_def writes_digit_def)
  from parse_file_data_reads [OF this, of 6 "[9, 9, 9, 9, 9, 9, 9]", THEN conjunct1] show ?thesis by (simp add: eval_nat_numeral)
qed

section \<open>A message and its answer\<close>

lemma send_pdu:
  assumes "0 \<le> sock" "pdu_ok p" "length buf = NET_BUF_LEN" "sk_send sk = []"
  shows "swicc_net_send sock (pdu_msg p buf) sk = Some (SWICC_RET_SUCCESS, sk\<lparr>sk_out := sk_out sk @ pdu_bytes p\<rparr>)"
proof -
  let ?n = "length (pdu_data p)"
  have n: "?n \<le> NET_BUF_LEN" using assms(2) by (simp add: pdu_ok_def)
  have "unat (msg_size (pdu_msg p buf)) = NET_BUF_OFFSET + ?n" using pdu_size [OF assms(2)] by (simp add: pdu_msg_def)
  moreover have "rdn (net_msg_raw (pdu_msg p buf)) 0 (NET_HDR_LEN + (NET_BUF_OFFSET + ?n)) = Some (pdu_bytes p)"
    by (simp add: rdn_def pdu_msg_raw)
  moreover have "net_data_len (pdu_msg p buf) = NET_BUF_OFFSET + NET_BUF_LEN"
    using assms(3) n by (simp add: net_data_len_def pdu_msg_def)
  ultimately show ?thesis using assms(1,4) n by (simp add: swicc_net_send_def msg_send_def sock_send_def)
qed

definition pdu_stream :: "net_pdu list \<Rightarrow> net_recv_res list" where
  "pdu_stream as = map (\<lambda>a. Recv (pdu_bytes a)) as"

lemma pdu_stream_segments: "pdu_stream as = segments (map (\<lambda>a. [a]) as)"
  by (simp add: pdu_stream_def segments_def)

text \<open>An answer as the server wants it, and the code that the server gives to an answer.\<close>

definition answer_code :: "u32 \<Rightarrow> u32 \<Rightarrow> net_pdu \<Rightarrow> nat" where
  "answer_code lenexp len_max a =
     (if length (pdu_data a) > unat len_max then 4 else if pdu_cont a \<noteq> 0x6000 then 5
      else if pdu_ctrl a \<noteq> SWICC_NET_MSG_CTRL_SUCCESS then 6 else if pdu_exp a \<noteq> lenexp then 7 else 0)"

lemma message_io_run:
  assumes "0 \<le> sock" "pdu_ok p" "length buf = NET_BUF_LEN" "sk_send sk = []"
    and i: "sk_in sk = Recv (pdu_bytes a) # rs" and a: "pdu_ok a" and mx: "unat len_max \<le> SWICC_DATA_MAX"
  shows "message_io sock (pdu_msg p buf) lenexp len_max sk =
    Some (answer_code lenexp len_max a, pdu_msg a (msg_buf (pdu_msg p buf)), sk\<lparr>sk_in := rs, sk_out := sk_out sk @ pdu_bytes p\<rparr>)"
proof -
  let ?m = "pdu_msg p buf" and ?sk = "sk\<lparr>sk_out := sk_out sk @ pdu_bytes p\<rparr>"
  have l: "length (msg_buf ?m) = NET_BUF_LEN" using assms(2,3) by (simp add: pdu_msg_def pdu_ok_def)
  have r: "swicc_net_recv sock ?m ?sk = Some (SWICC_RET_SUCCESS, pdu_msg a (msg_buf ?m), sk\<lparr>sk_in := rs, sk_out := sk_out sk @ pdu_bytes p\<rparr>)"
    using recv_pdu [OF assms(1) l a, of ?sk "[]" rs] i by (simp add: after_pdu_def)
  let ?n = "length (pdu_data a)"
  have n: "?n \<le> NET_BUF_LEN" using a by (simp add: pdu_ok_def)
  have u: "unat (word_of_nat (NET_BUF_OFFSET + ?n) :: u32) = NET_BUF_OFFSET + ?n" by (rule pdu_size [OF a])
  have w: "word_of_nat (NET_BUF_OFFSET + ?n) - 9 = (word_of_nat ?n :: u32)" by simp
  have un: "unat (word_of_nat ?n :: u32) = ?n" by (rule unat_of_nat_u32) (use n in simp)
  have "unat (9 + len_max) = NET_BUF_OFFSET + unat len_max"
    using mx by (simp add: unat_word_ariths)
  then have g: "word_of_nat (NET_BUF_OFFSET + ?n) > 9 + len_max \<longleftrightarrow> ?n > unat len_max"
    by (simp add: word_less_nat_alt u del: of_nat_add)
  have s: "\<not> word_of_nat (NET_BUF_OFFSET + ?n) < (9 :: u32)"
    by (simp add: word_less_nat_alt u del: of_nat_add)
  have f: "msg_size (pdu_msg a b) = word_of_nat (NET_BUF_OFFSET + ?n)" "msg_cont_state (pdu_msg a b) = pdu_cont a"
    "msg_ctrl (pdu_msg a b) = pdu_ctrl a" "msg_buf_len_exp (pdu_msg a b) = pdu_exp a" "?n \<le> length (msg_buf (pdu_msg a b))" for b
    by (simp_all add: pdu_msg_def del: of_nat_add)
  show ?thesis
    unfolding message_io_def send_pdu [OF assms(1-4)]
    by (simp add: r f g s w un rdn_def answer_code_def del: of_nat_add)
qed

text \<open>The messages the server makes.\<close>

lemma dummy_msg_pdu:
  "n \<le> length (msg_buf m) \<Longrightarrow> dummy_msg n e m = pdu_msg (Pdu 0x707E e SWICC_NET_MSG_CTRL_NONE (take n (msg_buf m))) (msg_buf m)"
  by (simp add: dummy_msg_def pdu_msg_def)

lemma dummy_message:
  assumes "0 \<le> sock" "length (msg_buf m) = NET_BUF_LEN" "n \<le> NET_BUF_LEN" "sk_send sk = []"
    and "sk_in sk = Recv (pdu_bytes a) # rs" "pdu_ok a" "unat len_max \<le> SWICC_DATA_MAX"
  shows "message_io sock (dummy_msg n e m) lenexp len_max sk =
    Some (answer_code lenexp len_max a, pdu_msg a (msg_buf m),
      sk\<lparr>sk_in := rs, sk_out := sk_out sk @ pdu_bytes (Pdu 0x707E e SWICC_NET_MSG_CTRL_NONE (take n (msg_buf m)))\<rparr>)"
proof -
  let ?p = "Pdu 0x707E e SWICC_NET_MSG_CTRL_NONE (take n (msg_buf m))"
  have d: "dummy_msg n e m = pdu_msg ?p (msg_buf m)" using assms(2,3) by (simp add: dummy_msg_pdu)
  have b: "msg_buf (pdu_msg ?p (msg_buf m)) = msg_buf m" unfolding d [symmetric] by (simp add: dummy_msg_def)
  have "pdu_ok ?p" using assms(3) by (simp add: pdu_ok_def)
  from message_io_run [OF assms(1) this assms(2,4,5-7)] show ?thesis unfolding d b .
qed

section \<open>A command of the server\<close>

text \<open>The messages of a command, the answers that take it to its end, and what is printed.\<close>

definition command_pdus :: "bytes \<Rightarrow> bytes \<Rightarrow> net_pdu list" where
  "command_pdus hdr data = [Pdu 0x707E 0 SWICC_NET_MSG_CTRL_NONE hdr, Pdu 0x707E 0 SWICC_NET_MSG_CTRL_NONE [],
     Pdu 0x707E (if data = [] then ucast (hdr ! 4) else 0) SWICC_NET_MSG_CTRL_NONE data, Pdu 0x707E 0 SWICC_NET_MSG_CTRL_NONE []]"

definition command_answered :: "bytes \<Rightarrow> bytes \<Rightarrow> bytes \<Rightarrow> net_pdu list \<Rightarrow> bool" where
  "command_answered data ack resp as \<longleftrightarrow> map pdu_data as = [[], ack, [], resp] \<and>
     map pdu_exp as = [0, word_of_nat (length data), 0, 5] \<and> (\<forall>a \<in> set as. pdu_ctrl a = SWICC_NET_MSG_CTRL_SUCCESS \<and> pdu_cont a = 0x6000)"

definition command_text :: "string \<Rightarrow> bytes \<Rightarrow> string" where
  "command_text line resp =
     ''Command: length=5 '' @ [CHR 0x27] @ line @ [CHR 0x27] @ ''.'' @ [NEWLINE] @
     ''Response: length='' @ fmt_u (length resp) @ '' '' @ [CHR 0x27] @ hex_text resp @ [CHR 0x27] @ ''.'' @ [NEWLINE]"

lemma dummy_response_run:
  assumes "0 \<le> sock" "length (msg_buf m) = NET_BUF_LEN" "sk_send sk = []" "sk_in sk = Recv (pdu_bytes a) # rs"
    and a: "a = Pdu 0x6000 5 SWICC_NET_MSG_CTRL_SUCCESS resp" "length resp \<le> SWICC_DATA_MAX"
  shows "dummy_response sock m sk out = Some (True,
    sk\<lparr>sk_in := rs, sk_out := sk_out sk @ pdu_bytes (Pdu 0x707E 0 SWICC_NET_MSG_CTRL_NONE [])\<rparr>,
    out @ ''Response: length='' @ fmt_u (length resp) @ '' '' @ [CHR 0x27] @ hex_text resp @ [CHR 0x27] @ ''.'' @ [NEWLINE])"
proof -
  have ok: "pdu_ok a" using a by (simp add: pdu_ok_def)
  have c: "answer_code 5 (word_of_nat SWICC_DATA_MAX) a = 0" using a by (simp add: answer_code_def)
  have "unat (msg_size (pdu_msg a (msg_buf m)) - word_of_nat NET_BUF_OFFSET) = length resp"
    using a(2) unat_of_nat_u32 [of "length resp"] by (simp add: pdu_msg_def a(1))
  moreover have "rdn (msg_buf (pdu_msg a (msg_buf m))) 0 (length resp) = Some resp" by (simp add: pdu_msg_def a(1) rdn_def)
  moreover have "unat (word_of_nat SWICC_DATA_MAX :: u32) \<le> SWICC_DATA_MAX" by simp
  ultimately show ?thesis
    using dummy_message [OF assms(1,2) _ assms(3,4) ok, of 0 "word_of_nat SWICC_DATA_MAX" 0 5] c
    by (simp add: dummy_response_def dummy_io_def Let_def)
qed

lemma answered_split:
  assumes "command_answered data ack resp as"
  shows "as = [Pdu 0x6000 0 SWICC_NET_MSG_CTRL_SUCCESS [], Pdu 0x6000 (word_of_nat (length data)) SWICC_NET_MSG_CTRL_SUCCESS ack,
    Pdu 0x6000 0 SWICC_NET_MSG_CTRL_SUCCESS [], Pdu 0x6000 5 SWICC_NET_MSG_CTRL_SUCCESS resp]"
proof -
  obtain a b c d where "as = [a, b, c, d]"
    using assms by (auto simp: command_answered_def map_eq_Cons_conv)
  then show ?thesis using assms by (cases a; cases b; cases c; cases d) (simp add: command_answered_def)
qed

lemma dummy_command_run:
  assumes line: "writes_bytes (hdr @ data) line" and hdr: "length hdr = 5" and data: "length data \<le> NET_BUF_LEN - 5"
    and sock: "0 \<le> sock" "sk_send sk = []" and i: "sk_in sk = pdu_stream as @ rs"
    and as: "command_answered data ack resp as" "length ack \<le> 1" "length resp \<le> SWICC_DATA_MAX"
  shows "dummy_command sock line sk out = Some (True,
    sk\<lparr>sk_in := rs, sk_out := sk_out sk @ concat (map pdu_bytes (command_pdus hdr data))\<rparr>, out @ command_text line resp)"
proof -
  let ?p = "Pdu 0x707E" and ?z = "SWICC_NET_MSG_CTRL_NONE"
  let ?a = "Pdu 0x6000"  and ?s = "SWICC_NET_MSG_CTRL_SUCCESS"
  define n where "n = 5 + length data"
  define a1 where "a1 = ?a 0 ?s []"
  define a2 where "a2 = ?a (word_of_nat (length data)) ?s ack"
  define a4 where "a4 = ?a 5 ?s resp"
  have ok: "pdu_ok a1" "pdu_ok a2" "pdu_ok a4" using as(2,3) by (simp_all add: a1_def a2_def a4_def pdu_ok_def)
  have as': "as = [a1, a2, a1, a4]" using answered_split [OF as(1)] by (simp add: a1_def a2_def a4_def)
  define buf where "buf = (hdr @ data) @ drop n (msg_buf msg_zero)"
  have lb: "length buf = NET_BUF_LEN" using data hdr by (simp add: buf_def n_def msg_zero_def)
  have parse: "parse_file_data line (msg_buf msg_zero) (length line) NET_BUF_LEN = Some (buf, n)"
    using parse_file_bytes [OF line, of NET_BUF_LEN "msg_buf msg_zero"] hdr data by (simp add: buf_def n_def msg_zero_def)
  have p3: "rd buf 4 = Some (hdr ! 4)" and th: "take 5 buf = hdr" using hdr lb by (simp_all add: buf_def rd_def nth_append)
  define out1 where "out1 = out @ ''Command: length='' @ fmt_u 5 @ '' '' @ [CHR 0x27] @ line @ [CHR 0x27] @ ''.'' @ [NEWLINE]"
  define sk1 where "sk1 = sk\<lparr>sk_in := pdu_stream [a2, a1, a4] @ rs, sk_out := sk_out sk @ pdu_bytes (?p 0 ?z hdr)\<rparr>"
  define m1 where "m1 = pdu_msg a1 buf"
  have mb1: "msg_buf m1 = buf" by (simp add: m1_def a1_def pdu_msg_def)
  have e1: "message_io sock (dummy_msg 5 0 (msg_zero\<lparr>msg_buf := buf\<rparr>)) 0 0 sk = Some (0, m1, sk1)"
    using dummy_message [OF sock(1) _ _ sock(2) _ ok(1), of "msg_zero\<lparr>msg_buf := buf\<rparr>" 5 "pdu_stream [a2, a1, a4] @ rs" 0 0 0] lb th i as'
    by (simp add: pdu_stream_def m1_def sk1_def answer_code_def a1_def)
  have first: "dummy_command sock line sk out = dummy_procedure sock n (hdr ! 4) m1 sk1 out1"
    using parse p3 e1 by (simp add: dummy_command_def dummy_io_def n_def out1_def)
  define buf2 where "buf2 = ack @ drop (length ack) buf"
  have lb2: "length buf2 = NET_BUF_LEN" using lb as(2) by (simp add: buf2_def)
  have d5: "drop 5 buf2 = drop 5 buf" using as(2) by (simp add: buf2_def)
  define sk2 where "sk2 = sk1\<lparr>sk_in := pdu_stream [a1, a4] @ rs, sk_out := sk_out sk1 @ pdu_bytes (?p 0 ?z [])\<rparr>"
  define m2 where "m2 = pdu_msg a2 buf"
  have mb2: "msg_buf m2 = buf2" by (simp add: m2_def a2_def pdu_msg_def buf2_def)
  have e2: "message_io sock (dummy_msg 0 0 m1) lenexp 1 sk1 = Some (answer_code lenexp 1 a2, m2, sk2)" for lenexp
    using dummy_message [OF sock(1) _ _ _ _ ok(2), of m1 0 sk1 "pdu_stream [a1, a4] @ rs" 1 0 lenexp] mb1 lb sock(2)
    by (simp add: pdu_stream_def m2_def sk1_def sk2_def)
  have c2: "answer_code lenexp 1 a2 = (if word_of_nat (length data) \<noteq> lenexp then 7 else 0)" for lenexp
    using as(2) by (simp add: answer_code_def a2_def)
  have rest: "dummy_response sock m (sk2\<lparr>sk_in := pdu_stream [a4] @ rs, sk_out := sk_out sk2 @ b\<rparr>) out1 =
      Some (True, sk\<lparr>sk_in := rs, sk_out := sk_out sk @ pdu_bytes (?p 0 ?z hdr) @ pdu_bytes (?p 0 ?z []) @ b @ pdu_bytes (?p 0 ?z [])\<rparr>,
        out @ command_text line resp)" if "length (msg_buf m) = NET_BUF_LEN" for m b
    using dummy_response_run [OF sock(1) that _ _ a4_def as(3), of "sk2\<lparr>sk_in := pdu_stream [a4] @ rs, sk_out := sk_out sk2 @ b\<rparr>" rs out1] sock(2)
    by (simp add: pdu_stream_def sk2_def sk1_def out1_def command_text_def fmt_u.simps digit_char_def)
  show ?thesis
  proof (cases "data = []")
    case True
    have e3: "message_io sock (dummy_msg 0 (ucast (hdr ! 4)) m2) 0 (ucast (hdr ! 4)) sk2 =
        Some (0, pdu_msg a1 buf2, sk2\<lparr>sk_in := pdu_stream [a4] @ rs, sk_out := sk_out sk2 @ pdu_bytes (?p (ucast (hdr ! 4)) ?z [])\<rparr>)"
      using dummy_message [OF sock(1) _ _ _ _ ok(1), of m2 0 sk2 "pdu_stream [a4] @ rs" "ucast (hdr ! 4)" "ucast (hdr ! 4)" 0] mb2 lb2 sock(2)
      by (simp add: pdu_stream_def sk2_def sk1_def answer_code_def a1_def unsigned_ucast_eq take_bit_nat_eq_self)
    have "length (msg_buf (pdu_msg a1 buf2)) = NET_BUF_LEN" using lb2 by (simp add: pdu_msg_def a1_def)
    moreover have "msg_buf_len_exp m2 = 0" using True by (simp add: m2_def pdu_msg_def a2_def)
    ultimately show ?thesis
      using first e2 [of 5] c2 [of 5] e3 rest True
      by (simp add: dummy_procedure_def n_def dummy_io_def dummy_data_def command_pdus_def)
  next
    case False
    then have n5: "5 < n" by (simp add: n_def)
    define buf3 where "buf3 = data @ drop (length data) buf2"
    have r: "rdn buf2 5 (length data) = Some data" using d5 lb2 hdr data by (simp add: rdn_def buf_def)
    have w: "wrn buf2 0 data = Some buf3" using lb2 data by (simp add: wrn_def buf3_def)
    have lb3: "length buf3 = NET_BUF_LEN" using lb2 data by (simp add: buf3_def)
    have e3: "message_io sock (dummy_msg (length data) 0 (m2\<lparr>msg_buf := buf3\<rparr>)) 0 0 sk2 =
        Some (0, pdu_msg a1 buf3, sk2\<lparr>sk_in := pdu_stream [a4] @ rs, sk_out := sk_out sk2 @ pdu_bytes (?p 0 ?z data)\<rparr>)"
      using dummy_message [OF sock(1) _ _ _ _ ok(1), of "m2\<lparr>msg_buf := buf3\<rparr>" "length data" sk2 "pdu_stream [a4] @ rs" 0 0 0] lb3 sock(2) data
      by (simp add: pdu_stream_def sk2_def sk1_def answer_code_def a1_def buf3_def)
    have "length (msg_buf (pdu_msg a1 buf3)) = NET_BUF_LEN" using lb3 by (simp add: pdu_msg_def a1_def)
    then show ?thesis
      using first e2 [of "word_of_nat (length data)"] c2 [of "word_of_nat (length data)"] e3 rest False r w mb2 n5
      by (simp add: dummy_procedure_def n_def dummy_io_def dummy_data_def command_pdus_def)
  qed
qed

section \<open>The lines of the file\<close>

definition file_text :: "string list \<Rightarrow> string" where
  "file_text lines = concat (map (\<lambda>l. l @ [NEWLINE]) lines)"

lemma fgets_line: "length l < n \<Longrightarrow> NEWLINE \<notin> set l \<Longrightarrow> fgets_take n (l @ NEWLINE # s) = (l @ [NEWLINE], s)"
proof (induction l arbitrary: n)
  case Nil
  then show ?case by (cases n) simp_all
next
  case (Cons c l)
  then show ?case by (cases n) auto
qed

lemma writes_chars:
  assumes "writes_bytes bs line" "c \<in> set line"
  shows "c \<noteq> NEWLINE \<and> c \<noteq> CHR 0x00"
proof (cases "c = CHR '' ''")
  case False
  then have "c \<in> set (filter (\<lambda>c. c \<noteq> CHR '' '') line)" using assms(2) by simp
  then obtain v where v: "v \<in> set (nibbles_of bs)" "writes_digit v c"
    using assms(1) unfolding writes_bytes_def by (metis in_set_conv_nth list_all2_conv_all_nth)
  then have "nibble_val c \<noteq> None" using nibble_digit [OF nibbles_small] by force
  then show ?thesis by (auto simp: nibble_val_def)
qed simp

text \<open>A command and the line that writes it.\<close>

definition line_writes :: "bytes \<times> bytes \<Rightarrow> string \<Rightarrow> bool" where
  "line_writes cmd line \<longleftrightarrow> length (fst cmd) = 5 \<and> length (snd cmd) \<le> NET_BUF_LEN - 5 \<and>
     writes_bytes (fst cmd @ snd cmd) line \<and> length line < FILE_LINE_MAX"

text \<open>The answers of a whole session, each command with its procedure byte and its response.\<close>

fun session_answered :: "(bytes \<times> bytes) list \<Rightarrow> (bytes \<times> bytes) list \<Rightarrow> net_pdu list \<Rightarrow> bool" where
  "session_answered [] [] as \<longleftrightarrow> as = []"
| "session_answered (c # cs) (r # rs) as \<longleftrightarrow> (\<exists>as1 as2. as = as1 @ as2 \<and> command_answered (snd c) (fst r) (snd r) as1 \<and>
     length (fst r) \<le> 1 \<and> length (snd r) \<le> SWICC_DATA_MAX \<and> session_answered cs rs as2)"
| "session_answered _ _ _ \<longleftrightarrow> False"

definition session_pdus :: "(bytes \<times> bytes) list \<Rightarrow> net_pdu list" where
  "session_pdus cmds = concat (map (\<lambda>c. command_pdus (fst c) (snd c)) cmds)"

definition session_text :: "string list \<Rightarrow> (bytes \<times> bytes) list \<Rightarrow> string" where
  "session_text lines rs = concat (map2 (\<lambda>l r. command_text l (snd r)) lines rs)"

lemma dummy_lines_run:
  assumes "session_answered cmds rs as" "list_all2 line_writes cmds lines"
    and "0 \<le> sock" "sk_send sk = []" "sk_in sk = pdu_stream as"
  shows "dummy_lines sock (file_text lines) sk out = Some (sk\<lparr>sk_in := [],
    sk_out := sk_out sk @ concat (map pdu_bytes (session_pdus cmds))\<rparr>, out @ session_text lines rs)"
  using assms
proof (induction cmds rs as arbitrary: lines sk out rule: session_answered.induct)
  case (1 as)
  then have "sk\<lparr>sk_in := []\<rparr> = sk" by (simp add: pdu_stream_def)
  then show ?case using 1 by (simp add: file_text_def dummy_lines.simps session_pdus_def session_text_def)
next
  case (2 c cs r rs as)
  obtain l ls where ls: "lines = l # ls" "line_writes c l" "list_all2 line_writes cs ls"
    using 2(3) by (auto simp: list_all2_Cons1)
  obtain as1 as2 where as: "as = as1 @ as2" "command_answered (snd c) (fst r) (snd r) as1" "length (fst r) \<le> 1"
    "length (snd r) \<le> SWICC_DATA_MAX" "session_answered cs rs as2"
    using 2(2) by auto
  have w: "length (fst c) = 5" "length (snd c) \<le> NET_BUF_LEN - 5" "writes_bytes (fst c @ snd c) l" "length l < FILE_LINE_MAX"
    using ls(2) by (simp_all add: line_writes_def)
  have chars: "NEWLINE \<notin> set l" "CHR 0x00 \<notin> set l" using writes_chars [OF w(3)] by blast+
  have "l \<noteq> []" using w(1,3) by (cases "fst c") (auto simp: writes_bytes_def)
  then have l: "0 < length l" by simp
  have tw: "takeWhile (\<lambda>c. c \<noteq> CHR 0x00) (l @ [NEWLINE]) = l @ [NEWLINE]"
    using chars(2) by (subst takeWhile_eq_all_conv) auto
  have ft: "file_text lines = l @ NEWLINE # file_text ls" by (simp add: ls(1) file_text_def)
  have fg: "fgets_take FILE_LINE_MAX (file_text lines) = (l @ [NEWLINE], file_text ls)"
    unfolding ft by (rule fgets_line [OF w(4) chars(1)])
  define sk1 where "sk1 = sk\<lparr>sk_in := pdu_stream as2, sk_out := sk_out sk @ concat (map pdu_bytes (command_pdus (fst c) (snd c)))\<rparr>"
  have cmd: "dummy_command sock l sk out = Some (True, sk1, out @ command_text l (snd r))"
    using dummy_command_run [OF w(3,1,2) 2(4,5) _ as(2-4), of "pdu_stream as2"] 2(6) as(1) by (simp add: sk1_def pdu_stream_def)
  have rest: "dummy_lines sock (file_text ls) sk1 (out @ command_text l (snd r)) = Some (sk1\<lparr>sk_in := [],
      sk_out := sk_out sk1 @ concat (map pdu_bytes (session_pdus cs))\<rparr>, (out @ command_text l (snd r)) @ session_text ls rs)"
    by (rule 2(1) [OF as(5) ls(3) 2(4)]) (simp_all add: sk1_def 2(5))
  have "file_text lines \<noteq> []" by (simp add: ft)
  moreover have "\<not> fgets_eof (l @ [NEWLINE]) (file_text ls)" by (simp add: fgets_eof_def)
  ultimately have "dummy_lines sock (file_text lines) sk out = dummy_lines sock (file_text ls) sk1 (out @ command_text l (snd r))"
    by (subst dummy_lines.simps) (simp add: fg tw Let_def cmd l nth_append \<open>l \<noteq> []\<close>)
  then show ?case using rest by (simp add: sk1_def session_pdus_def session_text_def ls(1))
qed simp_all

section \<open>The card\<close>

text \<open>The commands of a session as exchanges with a card: the procedure bytes and the responses.\<close>

fun card_session ::
    "(nat \<Rightarrow> handler) \<Rightarrow> swicc_apdu_res \<Rightarrow> (bytes \<times> bytes) list \<Rightarrow> swicc_st \<Rightarrow> ((bytes \<times> bytes) list \<times> swicc_st) option" where
  "card_session H res0 [] st = Some ([], st)"
| "card_session H res0 (c # cs) st = do {
     (ack, resp, st1) \<leftarrow> exchange H res0 NET_TX_LEN (fst c) (snd c) st;
     (rs, st2) \<leftarrow> card_session H res0 cs st1;
     Some ((ack, resp) # rs, st2) }"

lemma session_pdus_ok: "list_all2 line_writes cmds lines \<Longrightarrow> \<forall>p \<in> set (session_pdus cmds). pdu_ok p"
  by (induction rule: list_all2_induct) (auto simp: session_pdus_def command_pdus_def pdu_ok_def line_writes_def)

lemma net_serve_same:
  "map (\<lambda>p. (pdu_ctrl p, pdu_data p)) ps = map (\<lambda>p. (pdu_ctrl p, pdu_data p)) qs \<Longrightarrow> net_serve H res0 ps st = net_serve H res0 qs st"
proof (induction ps arbitrary: qs st)
  case (Cons p ps)
  then obtain q qs' where q: "qs = q # qs'" "pdu_ctrl p = pdu_ctrl q" "pdu_data p = pdu_data q"
    "map (\<lambda>p. (pdu_ctrl p, pdu_data p)) ps = map (\<lambda>p. (pdu_ctrl p, pdu_data p)) qs'" by (cases qs) auto
  have "net_answer H res0 p st = net_answer H res0 q st" by (simp only: net_answer_def q(2,3))
  then show ?case using Cons.IH [OF q(4)] q(1) by simp
qed simp

lemma session_up:
  assumes "net_up st" "card_session H res0 cmds st = Some (rs, st')" "list_all2 line_writes cmds lines"
    and "\<forall>r \<in> set rs. length (fst r) \<le> 1 \<and> length (snd r) \<le> SWICC_DATA_MAX"
  shows "\<exists>as. net_serve H res0 (session_pdus cmds) st = Some (as, st') \<and> session_answered cmds rs as \<and> net_up st'"
  using assms
proof (induction cmds arbitrary: st rs lines)
  case Nil
  then show ?case by (simp add: session_pdus_def)
next
  case (Cons c cs)
  obtain ack resp st1 rs' where r: "exchange H res0 NET_TX_LEN (fst c) (snd c) st = Some (ack, resp, st1)"
    "card_session H res0 cs st1 = Some (rs', st')" "rs = (ack, resp) # rs'"
    using Cons.prems(2) by (auto simp: bind_Some_iff)
  obtain l ls where ls: "line_writes c l" "list_all2 line_writes cs ls"
    using Cons.prems(3) by (auto simp: list_all2_Cons1)
  have len: "length (fst c) \<le> NET_BUF_LEN" "length (snd c) \<le> NET_BUF_LEN" using ls(1) by (simp_all add: line_writes_def)
  obtain as1 where as1: "\<And>ps. net_serve H res0 (Pdu 0 0 0 (fst c) # Pdu 0 0 0 [] # Pdu 0 0 0 (snd c) # Pdu 0 0 0 [] # ps) st =
      map_option (map_prod ((@) as1) id) (net_serve H res0 ps st1)" "command_answered (snd c) ack resp as1" "net_up st1"
    using exchange_up [OF Cons.prems(1) r(1) len, of 0 0] by (auto simp: command_answered_def)
  obtain as2 where as2: "net_serve H res0 (session_pdus cs) st1 = Some (as2, st')" "session_answered cs rs' as2" "net_up st'"
    using Cons.IH [OF as1(3) r(2) ls(2)] Cons.prems(4) r(3) by auto
  have "net_serve H res0 (session_pdus (c # cs)) st =
      net_serve H res0 (Pdu 0 0 0 (fst c) # Pdu 0 0 0 [] # Pdu 0 0 0 (snd c) # Pdu 0 0 0 [] # session_pdus cs) st"
    by (rule net_serve_same) (simp add: session_pdus_def command_pdus_def)
  then have "net_serve H res0 (session_pdus (c # cs)) st = Some (as1 @ as2, st')" using as1(1) as2(1) by simp
  moreover have "session_answered (c # cs) rs (as1 @ as2)" using as1(2) as2(2) Cons.prems(4) r(3) by auto
  ultimately show ?case using as2(3) by blast
qed

section \<open>The server and the card\<close>

lemma reset_message:
  "msg_zero\<lparr>msg_size := word_of_nat NET_BUF_OFFSET, msg_ctrl := SWICC_NET_MSG_CTRL_MOCK_RESET_COLD_PPS_Y\<rparr> =
     pdu_msg (Pdu 0 0 SWICC_NET_MSG_CTRL_MOCK_RESET_COLD_PPS_Y []) (replicate NET_BUF_LEN 0)"
  by (simp add: pdu_msg_def msg_zero_def)

lemma dummy_client_run:
  assumes "session_answered cmds rs as" "list_all2 line_writes cmds lines" "0 \<le> sock" "sk_send sk = []"
    and a: "a = Pdu 0x6000 0 SWICC_NET_MSG_CTRL_SUCCESS atr" "length atr \<le> SWICC_DATA_MAX" and i: "sk_in sk = pdu_stream (a # as)"
  shows "dummy_client sock (Some (file_text lines)) sk out = Some (sk\<lparr>sk_in := [],
    sk_out := sk_out sk @ concat (map pdu_bytes (Pdu 0 0 SWICC_NET_MSG_CTRL_MOCK_RESET_COLD_PPS_Y [] # session_pdus cmds))\<rparr>,
    out @ session_text lines rs)"
proof -
  let ?p = "Pdu 0 0 SWICC_NET_MSG_CTRL_MOCK_RESET_COLD_PPS_Y []"
  have ok: "pdu_ok ?p" "pdu_ok a" using a by (simp_all add: pdu_ok_def)
  have c: "answer_code 0 (word_of_nat SWICC_DATA_MAX) a = 0" using a by (simp add: answer_code_def)
  have i': "sk_in sk = Recv (pdu_bytes a) # pdu_stream as" using i by (simp add: pdu_stream_def)
  define sk1 where "sk1 = sk\<lparr>sk_in := pdu_stream as, sk_out := sk_out sk @ pdu_bytes ?p\<rparr>"
  have e: "message_io sock (msg_zero\<lparr>msg_size := word_of_nat NET_BUF_OFFSET, msg_ctrl := SWICC_NET_MSG_CTRL_MOCK_RESET_COLD_PPS_Y\<rparr>)
      0 (word_of_nat SWICC_DATA_MAX) sk = Some (0, pdu_msg a (msg_buf (pdu_msg ?p (replicate NET_BUF_LEN 0))), sk1)"
    unfolding reset_message sk1_def
    by (subst message_io_run [OF assms(3) ok(1) _ assms(4) i' ok(2)]) (simp_all add: c [simplified])
  have "dummy_lines sock (file_text lines) sk1 out = Some (sk1\<lparr>sk_in := [],
      sk_out := sk_out sk1 @ concat (map pdu_bytes (session_pdus cmds))\<rparr>, out @ session_text lines rs)"
    by (rule dummy_lines_run [OF assms(1-3)]) (simp_all add: sk1_def assms(4))
  then show ?thesis unfolding dummy_client_def e by (simp add: sk1_def assert_ub_def)
qed

lemma swicc_atr_short: "length swicc_atr \<le> SWICC_DATA_MAX"
  by (simp add: swicc_atr_def)

text \<open>
  C1.  A whole session of the example server and a card with the network client: the file holds commands, one on a
  line, that the card can exchange after its reset.  There are messages such that the server, when the card's
  messages arrive, sends its own and prints every command with the response of the card, and the card, when the
  server's messages arrive, sends its own; the client ends disconnected, with the card in the state after the last command.
\<close>

theorem dummy_server_session:
  assumes "net_ready msg_rx msg_tx st" and "st_wf ns st" and "\<not> st_shutdown st" and "0 \<le> cl_sock c" and "0 \<le> sock"
    and "last_with_id 0x3F00 (forest_files 0 ns) \<noteq> None"
    and "net_answer H res0 (Pdu 0 0 SWICC_NET_MSG_CTRL_MOCK_RESET_COLD_PPS_Y []) (net_start msg_rx msg_tx st) = Some (a, st1)"
    and "card_session H res0 cmds st1 = Some (rs, st2)" and "list_all2 line_writes cmds lines"
    and "\<forall>r \<in> set rs. length (fst r) \<le> 1 \<and> length (snd r) \<le> SWICC_DATA_MAX"
    and "sk_send sk = []" and "sk_send sk_card = []"
  shows "\<exists>ps as sk' sk_card'.
    dummy_client sock (Some (file_text lines)) (sk\<lparr>sk_in := pdu_stream as\<rparr>) out = Some (sk', out @ session_text lines rs) \<and>
    sk_out sk' = sk_out sk @ concat (map pdu_bytes ps) \<and>
    swicc_net_client H res0 msg_rx msg_tx st c (sk_card\<lparr>sk_in := pdu_stream ps\<rparr>) = Some (SWICC_RET_NET_DISCONNECTED, st2, sk_card') \<and>
    sk_out sk_card' = sk_out sk_card @ concat (map pdu_bytes as)"
proof -
  let ?st0 = "net_start msg_rx msg_tx st" and ?r = "Pdu 0 0 SWICC_NET_MSG_CTRL_MOCK_RESET_COLD_PPS_Y []"
  have ok0: "net_ok ?st0" by (rule net_start_ok [OF assms(1)])
  have wf0: "st_wf ns ?st0" by (rule net_start_wf [OF assms(1,2)])
  have up: "a = net_reply SWICC_NET_MSG_CTRL_SUCCESS swicc_atr st1" "net_up st1" "st_buf_rx_len st1 = 0"
    using reset_up [OF ok0 wf0 assms(6), of H res0 0 0] assms(7) by auto
  have a: "a = Pdu 0x6000 0 SWICC_NET_MSG_CTRL_SUCCESS swicc_atr" using up by (simp add: net_reply_def net_up_def)
  obtain as where as: "net_serve H res0 (session_pdus cmds) st1 = Some (as, st2)" "session_answered cmds rs as" "net_up st2"
    using session_up [OF up(2) assms(8-10)] by blast
  let ?ps = "?r # session_pdus cmds"
  have "\<not> st_shutdown ?st0" using assms(3) by (simp add: net_start_def)
  then have serve: "net_serve H res0 ?ps ?st0 = Some (a # as, st2)"
    using net_serve_step [OF assms(7), of "session_pdus cmds"] as(1) by simp
  have ok: "\<forall>p \<in> set ?ps. pdu_ok p"
    using session_pdus_ok [OF assms(9)] by (auto simp: pdu_ok_def)
  have ps: "concat (map (\<lambda>p. [p]) ?ps) = ?ps" "\<forall>qs \<in> set (map (\<lambda>p. [p]) ?ps). qs \<noteq> []" by auto
  obtain sk_card' where card: "swicc_net_client H res0 msg_rx msg_tx st c (sk_card\<lparr>sk_in := pdu_stream ?ps\<rparr>) =
      Some (SWICC_RET_NET_DISCONNECTED, st2, sk_card')" "sk_out sk_card' = sk_out sk_card @ concat (map pdu_bytes (a # as))"
    using client_serves [OF assms(1,4) _ ps(2), unfolded ps(1), of "sk_card\<lparr>sk_in := pdu_stream ?ps\<rparr>" H res0 "a # as" st2]
      ok serve as(3) assms(12) by (auto simp: pdu_stream_segments net_up_def)
  have "dummy_client sock (Some (file_text lines)) (sk\<lparr>sk_in := pdu_stream (a # as)\<rparr>) out =
      Some (sk\<lparr>sk_in := [], sk_out := sk_out sk @ concat (map pdu_bytes ?ps)\<rparr>, out @ session_text lines rs)"
    using dummy_client_run [OF as(2) assms(9,5) _ a swicc_atr_short, of "sk\<lparr>sk_in := pdu_stream (a # as)\<rparr>" out] assms(11) by simp
  with card show ?thesis
    by (intro exI [of _ ?ps] exI [of _ "a # as"] exI [of _ "sk\<lparr>sk_in := [], sk_out := sk_out sk @ concat (map pdu_bytes ?ps)\<rparr>"]
        exI [of _ sk_card'] conjI) simp_all
qed

text \<open>The small disk: a file is selected and its description fetched.\<close>

definition demo_lines :: "string list" where
  "demo_lines = [''00A40004026F01'', ''00 c0 00 00 19'']"

theorem dummy_server_session_witness:
  "\<exists>d ps as st2 sk' sk_card'.
     dummy_client 4 (Some (file_text demo_lines)) \<lparr>sk_in = pdu_stream as, sk_send = [], sk_out = []\<rparr> [] =
       Some (sk', session_text demo_lines [([0xA4], [0x61, 25]), ([0xC0], demo_fcp @ [0x90, 0x00])]) \<and>
     sk_out sk' = concat (map pdu_bytes ps) \<and>
     swicc_net_client (\<lambda>_. apduh_unk) demo_res demo_msg demo_msg (demo_net_st d) \<lparr>cl_sock = 3\<rparr>
       \<lparr>sk_in = pdu_stream ps, sk_send = [], sk_out = []\<rparr> = Some (SWICC_RET_NET_DISCONNECTED, st2, sk_card') \<and>
     sk_out sk_card' = concat (map pdu_bytes as)"
proof -
  obtain d where d: "fs_ok [demo_mf] (demo_fs d)" using demo_fs_ok by blast
  let ?st = "demo_net_st d" and ?sk = "\<lparr>sk_in = [], sk_send = [], sk_out = []\<rparr>" and ?H = "\<lambda>_ :: nat. apduh_unk"
  let ?start = "net_start demo_msg demo_msg ?st" and ?cmds = "[(select_hdr 0 4, be16 0x6F01), ([0, 0xC0, 0, 0, 25], [])]"
  let ?rs = "[([0xA4], [0x61, 25]), ([0xC0], demo_fcp @ [0x90, 0x00])]"
  note wf = demo_net_st_ok(1) [OF d] and ready = demo_net_st_ok(2,3) [OF d]
  have ok0: "net_ok ?start" by (rule net_start_ok [OF ready(1)])
  have wf0: "st_wf [demo_mf] ?start" by (rule net_start_wf [OF ready(1) wf])
  obtain st1 where st1: "net_answer ?H demo_res (Pdu 0 0 SWICC_NET_MSG_CTRL_MOCK_RESET_COLD_PPS_Y []) ?start =
      Some (net_reply SWICC_NET_MSG_CTRL_SUCCESS swicc_atr st1, st1)" "net_up st1" "pending [] st1" "fs_ok [demo_mf] (st_fs st1)"
    using reset_up [OF ok0 wf0 demo_mf_last] by blast
  have l: "(word_of_nat (length demo_fcp) :: u8) = 25" by (simp add: demo_fcp_def)
  have tx: "unat NET_TX_LEN \<le> length (st_buf_tx st1)" "128 \<le> unat NET_TX_LEN" using st1(2) by (simp_all add: net_up_def net_ok_def)
  obtain s2 st2 where e: "exchange ?H demo_res NET_TX_LEN (select_hdr 0 4) (be16 0x6F01) st1 = Some ([0xA4], [0x61, 25], s2)"
    "exchange ?H demo_res NET_TX_LEN [0, 0xC0, 0, 0, 25] [] s2 = Some ([0xC0], demo_fcp @ [0x90, 0x00], st2)"
    using select_then_get_run [OF st1(3) tx(1) demo_bin_facts(5) cla_00 tx(2) demo_p2(2,1) _ st1(4) demo_last demo_info, of ?H, unfolded l]
    by auto
  have run: "card_session ?H demo_res ?cmds st1 = Some (?rs, st2)" using e by simp
  have lines: "list_all2 line_writes ?cmds demo_lines"
    by (simp add: demo_lines_def line_writes_def writes_bytes_def writes_digit_def select_hdr_def be16_def)
  have small: "\<forall>r \<in> set ?rs. length (fst r) \<le> 1 \<and> length (snd r) \<le> SWICC_DATA_MAX" by (simp add: demo_fcp_def)
  have z: "0 \<le> cl_sock \<lparr>cl_sock = 3\<rparr>" "(0 :: int) \<le> 4" "sk_send ?sk = []" by simp_all
  note s = dummy_server_session [OF ready(1) wf ready(2) z(1,2) demo_mf_last st1(1) run lines small z(3,3), of "[]"]
  obtain ps as sk' sk_card' where "dummy_client 4 (Some (file_text demo_lines)) (?sk\<lparr>sk_in := pdu_stream as\<rparr>) [] = Some (sk', [] @ session_text demo_lines ?rs)"
    "sk_out sk' = sk_out ?sk @ concat (map pdu_bytes ps)"
    "swicc_net_client ?H demo_res demo_msg demo_msg ?st \<lparr>cl_sock = 3\<rparr> (?sk\<lparr>sk_in := pdu_stream ps\<rparr>) = Some (SWICC_RET_NET_DISCONNECTED, st2, sk_card')"
    "sk_out sk_card' = sk_out ?sk @ concat (map pdu_bytes as)"
    using s by (elim exE conjE) (rule that)
  then show ?thesis
    by (intro exI [of _ d] exI [of _ ps] exI [of _ as] exI [of _ st2] exI [of _ sk'] exI [of _ sk_card'] conjI) simp_all
qed

section \<open>The program\<close>

















end
