(* ===== verification/Swicc_Dbg.thy ===== *)
theory Swicc_Dbg
  imports Swicc_Apdu Swicc_Io Swicc_State Swicc_Text
begin

text \<open>
  \<^verbatim>\<open>src/dbg\<close>: the strings for the log.  This theory holds the build options, \<^verbatim>\<open>snprintf\<close>, the tables of
  names and the strings that one call of \<^verbatim>\<open>snprintf\<close> makes.

  Strings are lists of characters; a buffer of characters is a list, written inside its bounds only.  The
  library is built with or without the debug strings, and with or without colours.
\<close>

section \<open>Building blocks\<close>

record dbg_build =
  db_debug :: bool
  db_clr :: bool

definition esc :: "dbg_build \<Rightarrow> string \<Rightarrow> string" where
  "esc bd code = (if db_clr bd then CHR 0x1B # CHR ''['' # code else [])"

abbreviation CLR_DEF :: "dbg_build \<Rightarrow> string" where "CLR_DEF bd \<equiv> esc bd ''0m''"

definition CLR_VAL :: "dbg_build \<Rightarrow> string \<Rightarrow> string" where
  "CLR_VAL bd s = esc bd ''36m'' @ s @ CLR_DEF bd"

definition CLR_KND :: "dbg_build \<Rightarrow> string \<Rightarrow> string" where
  "CLR_KND bd s = esc bd ''32m'' @ s @ CLR_DEF bd"

abbreviation NUL :: char where "NUL \<equiv> CHR 0x00"
abbreviation NL :: string where "NL \<equiv> [CHR 0x0A]"

definition quoted :: "string \<Rightarrow> string" where
  "quoted s = CHR 0x27 # s @ [CHR 0x27]"

text \<open>An item with a name and a value in parentheses.\<close>

definition knd_val :: "dbg_build \<Rightarrow> string \<Rightarrow> string \<Rightarrow> string" where
  "knd_val bd k v = ''('' @ CLR_KND bd k @ '' '' @ CLR_VAL bd v @ '')''"

text \<open>
  \<^verbatim>\<open>snprintf\<close> at a position of a buffer, with \<open>room\<close> characters: the text, or as much of it as there
  is room for, and a null byte; the result is the length of the whole text.
\<close>

definition c_snprintf :: "string \<Rightarrow> nat \<Rightarrow> nat \<Rightarrow> string \<Rightarrow> (nat \<times> string) option" where
  "c_snprintf buf off room s =
     (if room = 0 then Some (length s, buf)
      else do { buf1 \<leftarrow> wrn buf off (take (room - 1) s @ [NUL]); Some (length s, buf1) })"

text \<open>A piece of text that fits is behind what was there before, with a null byte if there is room for it.\<close>

lemma snprintf_run:
  assumes "length buf = room" "off \<le> room"
  shows "\<exists>b. c_snprintf buf off (room - off) s = Some (length s, b) \<and> length b = room \<and>
    (off + length s < room \<longrightarrow> take (off + length s) b = take off buf @ s)"
proof (cases "off = room")
  case False
  then have "off + length (take (room - off - 1) s @ [NUL]) \<le> length buf" using assms by simp
  then obtain b where b: "wrn buf off (take (room - off - 1) s @ [NUL]) = Some b"
    by (auto simp: wrn_def)
  have "take (off + length s) b = take off buf @ s" if "off + length s < room"
  proof -
    have "take (room - off - 1) s = s" using that by simp
    then show ?thesis using b that assms(1) by (auto simp: wrn_Some)
  qed
  then show ?thesis using b False assms length_wrn [OF b] by (simp add: c_snprintf_def)
qed (use assms in \<open>simp add: c_snprintf_def\<close>)

text \<open>
  The functions that print once.  The length they report is that of the whole text, also when the buffer was
  too short for it: \<^verbatim>\<open>snprintf\<close> is never negative here.
\<close>

definition dbg_print :: "dbg_build \<Rightarrow> string \<Rightarrow> u16 \<Rightarrow> string \<Rightarrow> (swicc_ret \<times> string \<times> u16) option" where
  "dbg_print bd buf_str buf_str_len s =
     (if db_debug bd then do {
        (bytes_written, buf1) \<leftarrow> c_snprintf buf_str 0 (unat buf_str_len) s;
        Some (SWICC_RET_SUCCESS, buf1, word_of_nat bytes_written) }
      else Some (SWICC_RET_SUCCESS, buf_str, 0))"

section \<open>Tables\<close>

definition swicc_dbg_ret_str :: "dbg_build \<Rightarrow> swicc_ret \<Rightarrow> string option" where
  "swicc_dbg_ret_str bd ret = (if db_debug bd then Some (case ret of
     SWICC_RET_UNKNOWN \<Rightarrow> ''unknown''
   | SWICC_RET_SUCCESS \<Rightarrow> ''success''
   | SWICC_RET_ERROR \<Rightarrow> ''error''
   | SWICC_RET_PARAM_BAD \<Rightarrow> ''bad parameter''
   | SWICC_RET_APDU_HDR_TOO_SHORT \<Rightarrow> ''APDU header is too short''
   | SWICC_RET_APDU_UNHANDLED \<Rightarrow> ''APDU unhandled''
   | SWICC_RET_APDU_RES_INVALID \<Rightarrow> ''APDU response invalid''
   | SWICC_RET_TPDU_HDR_TOO_SHORT \<Rightarrow> ''TPDU header is too short''
   | SWICC_RET_BUFFER_TOO_SHORT \<Rightarrow> ''provided buffer is too short''
   | SWICC_RET_PPS_INVALID \<Rightarrow> ''invalid PPS''
   | SWICC_RET_PPS_FAILED \<Rightarrow> ''PPS is valid but the parameters are not accepted''
   | SWICC_RET_ATR_INVALID \<Rightarrow> ''invalid ATR''
   | SWICC_RET_FS_NOT_FOUND \<Rightarrow> ''not found in FS''
   | SWICC_RET_DATO_END \<Rightarrow> ''DO end of data''
   | SWICC_RET_NET_CONN_QUEUE_EMPTY \<Rightarrow> ''connection queue is empty''
   | SWICC_RET_NET_DISCONNECTED \<Rightarrow> ''client got disconnected'') else None)"

definition swicc_dbg_fsm_state_str :: "dbg_build \<Rightarrow> swicc_fsm_state \<Rightarrow> string option" where
  "swicc_dbg_fsm_state_str bd fsm_state = (if db_debug bd then Some (case fsm_state of
     SWICC_FSM_STATE_OFF \<Rightarrow> ''off''
   | SWICC_FSM_STATE_ACTIVATION \<Rightarrow> ''activation''
   | SWICC_FSM_STATE_RESET_COLD \<Rightarrow> ''cold reset''
   | SWICC_FSM_STATE_ATR_REQ \<Rightarrow> ''ATR requested''
   | SWICC_FSM_STATE_ATR_RES \<Rightarrow> ''ATR sent''
   | SWICC_FSM_STATE_RESET_WARM \<Rightarrow> ''warm reset''
   | SWICC_FSM_STATE_PPS_REQ \<Rightarrow> ''PPS request coming in''
   | SWICC_FSM_STATE_CMD_WAIT \<Rightarrow> ''waiting for command''
   | SWICC_FSM_STATE_CMD_PROCEDURE \<Rightarrow> ''handling APDU and sending procedure''
   | SWICC_FSM_STATE_CMD_DATA \<Rightarrow> ''waiting for data'') else None)"

text \<open>The names of the instructions; the bytes that are not in the list are all called \<^verbatim>\<open>RFU\<close>.\<close>

definition ins_names :: "(u8 \<times> string) list" where
  "ins_names =
    [(0x04, ''file > deactivate''), (0x06, ''record > deactivate''), (0x08, ''record > activate''),
     (0x0C, ''record > erase''), (0x0E, ''binary > erase (0)''), (0x0F, ''binary > erase (1)''),
     (0x10, ''op > SCQL''), (0x12, ''op > transaction''), (0x14, ''op > user''), (0x16, ''dev > mgmt (0)''),
     (0x17, ''dev > mgmt (1)''), (0x20, ''refdata > verify (0)''), (0x21, ''refdata > verify (1)''),
     (0x22, ''secenv > mgmt''), (0x24, ''refdata > change (0)''), (0x25, ''refdata > change (1)''),
     (0x26, ''refdata > disable''), (0x28, ''refdata > enable''), (0x2A, ''op > security (0)''),
     (0x2B, ''op > security (1)''), (0x2C, ''refdata > counter > reset (0)''),
     (0x2D, ''refdata > counter > reset (1)''), (0x2E, ''op > biometric (0)''), (0x2F, ''op > biometric (1)''),
     (0x33, ''compare''), (0x34, ''attrib > get (0)''), (0x35, ''attrib > get (1)''), (0x40, ''app > mgmt (0)''),
     (0x41, ''app > mgmt (1)''), (0x44, ''file > activate''), (0x46, ''crypto > asym > gen key pair (0)''),
     (0x47, ''crypto > asym > gen key pair (1)''), (0x48, ''crypto > import > secret''), (0x70, ''ch > mgmt''),
     (0x82, ''auth > external''), (0x84, ''challenge > get''), (0x86, ''auth > general (0)''),
     (0x87, ''auth > general (1)''), (0x88, ''auth > internal''), (0xA0, ''binary > search (0)''),
     (0xA1, ''binary > search (1)''), (0xA2, ''record > search''), (0xA4, ''file > select''),
     (0xA5, ''data > select''), (0xB0, ''binary > read (0)''), (0xB1, ''binary > read (1)''),
     (0xB2, ''record > read (0)''), (0xB3, ''record > read (1)''), (0xC0, ''res > get''), (0xC2, ''envelope (0)''),
     (0xC3, ''envelope (1)''), (0xCA, ''data > get/next (0)''), (0xCB, ''data > get/next (1)''),
     (0xCC, ''data > get/next (2)''), (0xCD, ''data > get/next (3)''), (0xCF, ''data > mgmt''),
     (0xD0, ''binary > write (0)''), (0xD1, ''binary > write (1)''), (0xD2, ''record > write''),
     (0xD6, ''binary > update (0)''), (0xD7, ''binary > update (1)''), (0xD8, ''data > put next (0)''),
     (0xD9, ''data > put next (1)''), (0xDA, ''data > put (0)''), (0xDB, ''data > put (1)''),
     (0xDC, ''record > update (0)''), (0xDD, ''record > update (1)''), (0xDE, ''data > update (0)''),
     (0xDF, ''data > update (1)''), (0xE0, ''file > create''), (0xE1, ''create''), (0xE2, ''record > append''),
     (0xE4, ''file > delete''), (0xE6, ''file > df > terminate''), (0xE8, ''file > ef > terminate''),
     (0xEA, ''app > load (0)''), (0xEB, ''app > load (1)''), (0xEC, ''app > remove (0)''),
     (0xED, ''app > remove (1)''), (0xEE, ''data > delete''), (0xFE, ''card > terminate'')]"

definition swicc_dbg_apdu_ins_str :: "dbg_build \<Rightarrow> u8 \<Rightarrow> string option" where
  "swicc_dbg_apdu_ins_str bd ins =
     (if db_debug bd then Some (case map_of ins_names ins of Some s \<Rightarrow> s | None \<Rightarrow> ''RFU'') else None)"

definition swicc_dbg_apdu_cla_ccc_str :: "dbg_build \<Rightarrow> swicc_apdu_cla \<Rightarrow> string option" where
  "swicc_dbg_apdu_cla_ccc_str bd cla = (if db_debug bd then Some (case cla_ccc cla of
     SWICC_APDU_CLA_CCC_INVALID \<Rightarrow> ''???''
   | SWICC_APDU_CLA_CCC_LAST \<Rightarrow> ''last''
   | SWICC_APDU_CLA_CCC_MORE \<Rightarrow> ''more'') else None)"

definition swicc_dbg_apdu_cla_sm_str :: "dbg_build \<Rightarrow> swicc_apdu_cla \<Rightarrow> string option" where
  "swicc_dbg_apdu_cla_sm_str bd cla = (if db_debug bd then Some (case cla_sm cla of
     SWICC_APDU_CLA_SM_INVALID \<Rightarrow> ''???''
   | SWICC_APDU_CLA_SM_NO \<Rightarrow> ''not indicated''
   | SWICC_APDU_CLA_SM_PROPRIETARY \<Rightarrow> ''SM is proprietary''
   | SWICC_APDU_CLA_SM_CMD_HDR_SKIP \<Rightarrow> ''standard but command header is not processed''
   | SWICC_APDU_CLA_SM_CMD_HDR_AUTH \<Rightarrow> ''standard and command header is authenticated'') else None)"

definition swicc_dbg_apdu_cla_type_str :: "dbg_build \<Rightarrow> swicc_apdu_cla \<Rightarrow> string option" where
  "swicc_dbg_apdu_cla_type_str bd cla = (if db_debug bd then Some (case cla_type cla of
     SWICC_APDU_CLA_TYPE_INVALID \<Rightarrow> ''???''
   | SWICC_APDU_CLA_TYPE_INTERINDUSTRY \<Rightarrow> ''interindustry''
   | SWICC_APDU_CLA_TYPE_PROPRIETARY \<Rightarrow> ''proprietary''
   | SWICC_APDU_CLA_TYPE_RFU \<Rightarrow> ''reserved for future use'') else None)"

section \<open>Commands\<close>

text \<open>What the strings of an APDU and of a TPDU begin with; the strings of the tables are not null in a debug build.\<close>

definition cmd_hdr_text :: "dbg_build \<Rightarrow> string \<Rightarrow> swicc_apdu_cmd_hdr \<Rightarrow> string" where
  "cmd_hdr_text bd kind hdr =
     (let cla = hdr_cla hdr in
      ''('' @ CLR_KND bd kind @
      NL @ ''  ('' @ CLR_KND bd ''CLA'' @ '' '' @ knd_val bd ''Chain'' (quoted (the (swicc_dbg_apdu_cla_ccc_str bd cla))) @
        '' '' @ knd_val bd ''SM'' (quoted (the (swicc_dbg_apdu_cla_sm_str bd cla))) @
        '' '' @ knd_val bd ''Info'' (quoted (the (swicc_dbg_apdu_cla_type_str bd cla))) @
        '' '' @ knd_val bd ''Logical Channel'' (fmt_u (unat (cla_lchan cla))) @ '')'' @
      NL @ ''  ('' @ CLR_KND bd ''INS'' @ '' '' @ CLR_VAL bd (''0x'' @ fmt_X 2 (unat (hdr_ins hdr))) @ '' = '' @
        CLR_VAL bd (quoted (if cla_type cla = SWICC_APDU_CLA_TYPE_INTERINDUSTRY
          then the (swicc_dbg_apdu_ins_str bd (hdr_ins hdr)) else ''???'')) @ '')'' @
      NL @ ''  '' @ knd_val bd ''P1'' (''0x'' @ fmt_X 2 (unat (hdr_p1 hdr))) @
      NL @ ''  '' @ knd_val bd ''P2'' (''0x'' @ fmt_X 2 (unat (hdr_p2 hdr))))"

definition swicc_dbg_apdu_cmd_str :: "dbg_build \<Rightarrow> string \<Rightarrow> u16 \<Rightarrow> swicc_apdu_cmd \<Rightarrow> (swicc_ret \<times> string \<times> u16) option" where
  "swicc_dbg_apdu_cmd_str bd buf_str buf_str_len apdu_cmd =
     dbg_print bd buf_str buf_str_len (cmd_hdr_text bd ''APDU'' (cmd_hdr apdu_cmd) @ '')'')"

definition swicc_dbg_apdu_res_str :: "dbg_build \<Rightarrow> swicc_ret" where
  "swicc_dbg_apdu_res_str bd = (if db_debug bd then SWICC_RET_UNKNOWN else SWICC_RET_SUCCESS)"

definition swicc_dbg_tpdu_cmd_str :: "dbg_build \<Rightarrow> string \<Rightarrow> u16 \<Rightarrow> swicc_tpdu_cmd \<Rightarrow> (swicc_ret \<times> string \<times> u16) option" where
  "swicc_dbg_tpdu_cmd_str bd buf_str buf_str_len tpdu_cmd =
     dbg_print bd buf_str buf_str_len (cmd_hdr_text bd ''TPDU'' (cmd_hdr tpdu_cmd) @
       NL @ ''  '' @ knd_val bd ''P3'' (''0x'' @ fmt_X 2 (unat (cmd_p3 tpdu_cmd))) @ '')'' @
       NL @ ''  '' @ knd_val bd ''Data Len'' (fmt_u (unat (data_len (cmd_data tpdu_cmd)))) @ '')'')"

section \<open>Parameters and contacts\<close>

text \<open>
  The second byte is read whatever the length is.  A PPS1 byte has Fi in its high and Di in its low half here, the
  other way round than where a request is parsed.
\<close>

definition swicc_dbg_pps_str :: "dbg_build \<Rightarrow> string \<Rightarrow> u16 \<Rightarrow> bytes \<Rightarrow> u16 \<Rightarrow> (swicc_ret \<times> string \<times> u16) option" where
  "swicc_dbg_pps_str bd buf_str buf_str_len buf_pps buf_pps_len =
     (if db_debug bd then do {
        pps0 \<leftarrow> rd buf_pps 1;
        let pps1_present = (pps0 AND 0x10 \<noteq> 0);
        let pps2_present = (pps0 AND 0x20 \<noteq> 0);
        (di, fi) \<leftarrow> (if pps1_present \<and> 2 < buf_pps_len then do {
            b \<leftarrow> rd buf_pps 2;
            di \<leftarrow> rd swicc_io_di (unat (b AND 0x0F));
            fi \<leftarrow> rd swicc_io_fi (unat (drop_bit 4 (b AND 0xF0)));
            Some (ucast di, fi) }
          else Some (0 :: u16, 0));
        let next = (if pps1_present then 3 else 2 :: u8);
        spu \<leftarrow> (if pps2_present \<and> ucast next < buf_pps_len then do { b \<leftarrow> rd buf_pps (unat next); Some (ucast b) }
          else Some (0 :: u16));
        dbg_print bd buf_str buf_str_len (''('' @ CLR_KND bd ''PPS'' @
          NL @ ''  '' @ knd_val bd ''T'' (fmt_u (unat (pps0 AND 0x0F))) @
          NL @ ''  '' @ knd_val bd ''Fi'' (fmt_u (unat fi)) @ '' '' @ knd_val bd ''Di'' (fmt_u (unat di)) @
          NL @ ''  '' @ knd_val bd ''SPU'' (fmt_u (unat spu)) @ '')'') }
      else Some (SWICC_RET_SUCCESS, buf_str, 0))"

text \<open>A valid contact that is set is shown as \<open>L\<close>, one that is not set as \<open>H\<close>; one that is not valid floats.\<close>

definition cont_text :: "u32 \<Rightarrow> u32 \<Rightarrow> u32 \<Rightarrow> string" where
  "cont_text cont_state valid cont =
     (if cont_state AND valid \<noteq> 0 then (if cont_state AND cont > 0 then ''L'' else ''H'') else ''F'')"

definition cont_line :: "dbg_build \<Rightarrow> string \<Rightarrow> u32 \<Rightarrow> string" where
  "cont_line bd name c =
     NL @ ''  ('' @ CLR_KND bd name @
     '' '' @ knd_val bd ''C1'' (quoted (cont_text c SWICC_IO_CONT_VALID_VCC SWICC_IO_CONT_VCC)) @
     '' '' @ knd_val bd ''C2'' (quoted (cont_text c SWICC_IO_CONT_VALID_RST SWICC_IO_CONT_RST)) @
     '' '' @ knd_val bd ''C3'' (quoted (cont_text c SWICC_IO_CONT_VALID_CLK SWICC_IO_CONT_CLK)) @
     '' '' @ knd_val bd ''C6'' (quoted (cont_text c SWICC_IO_CONT_VALID_SPU SWICC_IO_CONT_SPU)) @
     '' '' @ knd_val bd ''C7'' (quoted (cont_text c SWICC_IO_CONT_VALID_IO SWICC_IO_CONT_IO)) @ '')''"

definition swicc_dbg_io_cont_str :: "dbg_build \<Rightarrow> string \<Rightarrow> u16 \<Rightarrow> u32 \<Rightarrow> u32 \<Rightarrow> (swicc_ret \<times> string \<times> u16) option" where
  "swicc_dbg_io_cont_str bd buf_str buf_str_len cont_state_rx cont_state_tx =
     dbg_print bd buf_str buf_str_len (''('' @ CLR_KND bd ''Cont'' @
       cont_line bd ''RX'' cont_state_rx @ cont_line bd ''TX'' cont_state_tx @ '')'')"

end
