(* ===== verification/Swicc_Dbg_Net.thy ===== *)
theory Swicc_Dbg_Net
  imports Swicc_Dbg Swicc_Net
begin

text \<open>
  \<^verbatim>\<open>src/dbg/net.c\<close>: the string of a message.  It is put together in pieces behind each other, with a check of the room
  after every piece; the last one copies one character more than was checked.
\<close>

section \<open>The string\<close>

definition net_msg_head :: "dbg_build \<Rightarrow> string \<Rightarrow> swicc_net_msg \<Rightarrow> string" where
  "net_msg_head bd prestr msg = prestr @ ''('' @ CLR_KND bd ''Message'' @
     NL @ ''    ('' @ CLR_KND bd ''Header'' @ '' '' @ knd_val bd ''Size'' (fmt_u (unat (msg_size msg))) @ '')'' @
     NL @ ''    ('' @ CLR_KND bd ''Data'' @
     NL @ ''        '' @ knd_val bd ''Control'' (''0x'' @ fmt_X 2 (unat (msg_ctrl msg))) @
     NL @ ''        '' @ knd_val bd ''Cont'' (''0x'' @ fmt_X 8 (unat (msg_cont_state msg))) @
     NL @ ''        '' @ knd_val bd ''BufLenExp'' (fmt_u (unat (msg_buf_len_exp msg))) @
     NL @ ''        ('' @ CLR_KND bd ''Buf'' @ '' [ ''"

definition byte_text :: "dbg_build \<Rightarrow> u8 \<Rightarrow> string" where
  "byte_text bd d = CLR_VAL bd (fmt_X 2 (unat d) @ '' '')"

fun net_buf_loop :: "dbg_build \<Rightarrow> bytes \<Rightarrow> string \<Rightarrow> nat \<Rightarrow> nat \<Rightarrow> (swicc_ret \<times> string \<times> nat) option" where
  "net_buf_loop bd [] buf_str len room = Some (SWICC_RET_SUCCESS, buf_str, len)"
| "net_buf_loop bd (d # ds) buf_str len room = do {
     (len_extra, b1) \<leftarrow> c_snprintf buf_str len (room - len) (byte_text bd d);
     if len + len_extra > room then Some (SWICC_RET_BUFFER_TOO_SHORT, b1, len)
     else net_buf_loop bd ds b1 (len + len_extra) room }"

text \<open>A message whose size cannot be right is shown as such.\<close>

definition net_msg_sane :: "swicc_net_msg \<Rightarrow> bool" where
  "net_msg_sane msg \<longleftrightarrow> \<not> (unat (msg_size msg) > net_data_len msg \<or> unat (msg_size msg) < NET_BUF_OFFSET)"

definition net_msg_body :: "dbg_build \<Rightarrow> swicc_net_msg \<Rightarrow> string \<Rightarrow> nat \<Rightarrow> nat \<Rightarrow> (swicc_ret \<times> string \<times> nat) option" where
  "net_msg_body bd msg buf_str len room =
     (if \<not> net_msg_sane msg then
        (let str_inv = CLR_VAL bd ''invalid '' in
         if len + length str_inv > room then Some (SWICC_RET_BUFFER_TOO_SHORT, buf_str, len)
         else do { b \<leftarrow> wrn buf_str len str_inv; Some (SWICC_RET_SUCCESS, b, len + length str_inv) })
      else do {
        data \<leftarrow> rdn (msg_buf msg) 0 (unat (msg_size msg) - NET_BUF_OFFSET);
        net_buf_loop bd data buf_str len room })"

abbreviation net_msg_end :: string where "net_msg_end \<equiv> ''])))''"

definition swicc_dbg_net_msg_str ::
    "dbg_build \<Rightarrow> string \<Rightarrow> u16 \<Rightarrow> string \<Rightarrow> swicc_net_msg \<Rightarrow> (swicc_ret \<times> string \<times> u16) option" where
  "swicc_dbg_net_msg_str bd buf_str buf_str_len prestr msg =
     (if \<not> db_debug bd then Some (SWICC_RET_SUCCESS, buf_str, 0)
      else do {
        let room = unat buf_str_len;
        (len_base, b1) \<leftarrow> c_snprintf buf_str 0 room (net_msg_head bd prestr msg);
        if len_base > room \<or> len_base \<ge> 65535 then Some (SWICC_RET_BUFFER_TOO_SHORT, b1, buf_str_len)
        else do {
          (ret, b2, len) \<leftarrow> net_msg_body bd msg b1 len_base room;
          if ret \<noteq> SWICC_RET_SUCCESS then Some (ret, b2, buf_str_len)
          else if len + length net_msg_end > room then Some (SWICC_RET_BUFFER_TOO_SHORT, b2, buf_str_len)
          else do {
            b3 \<leftarrow> wrn b2 len (net_msg_end @ [NUL]);
            Some (SWICC_RET_SUCCESS, b3, word_of_nat (len + length (net_msg_end @ [NUL]))) } } })"

section \<open>What is written\<close>

definition net_msg_text :: "dbg_build \<Rightarrow> string \<Rightarrow> swicc_net_msg \<Rightarrow> string" where
  "net_msg_text bd prestr msg = net_msg_head bd prestr msg @
     (if net_msg_sane msg then concat (map (byte_text bd) (take (unat (msg_size msg) - NET_BUF_OFFSET) (msg_buf msg)))
      else CLR_VAL bd ''invalid '') @ net_msg_end"

lemma byte_text_ne: "byte_text bd d \<noteq> []"
  by (simp add: byte_text_def CLR_VAL_def)

lemma net_buf_run:
  fixes bd :: dbg_build and ds :: bytes
  assumes "length buf = room" "len \<le> room"
  defines "l \<equiv> len + length (concat (map (byte_text bd) ds))"
  shows "\<exists>ret b len'. net_buf_loop bd ds buf len room = Some (ret, b, len') \<and> length b = room \<and>
    (if ret = SWICC_RET_SUCCESS then len' = l \<and> l \<le> room \<and> (l < room \<longrightarrow> take l b = take len buf @ concat (map (byte_text bd) ds))
     else ret = SWICC_RET_BUFFER_TOO_SHORT \<and> room < l)"
  using assms(1,2) unfolding l_def
proof (induction ds arbitrary: buf len)
  case (Cons d ds)
  let ?s = "byte_text bd d"
  obtain b where b: "c_snprintf buf len (room - len) ?s = Some (length ?s, b)" "length b = room"
    "len + length ?s < room \<longrightarrow> take (len + length ?s) b = take len buf @ ?s"
    using snprintf_run [OF Cons.prems] by blast
  show ?case
  proof (cases "len + length ?s > room")
    case True
    then show ?thesis using b by simp
  next
    case False
    then have "len + length ?s \<le> room" by simp
    from Cons.IH [OF b(2) this] obtain ret b' len' where r:
      "net_buf_loop bd ds b (len + length ?s) room = Some (ret, b', len')" "length b' = room"
      "if ret = SWICC_RET_SUCCESS then len' = len + length ?s + length (concat (map (byte_text bd) ds)) \<and>
         len + length ?s + length (concat (map (byte_text bd) ds)) \<le> room \<and>
         (len + length ?s + length (concat (map (byte_text bd) ds)) < room \<longrightarrow>
           take (len + length ?s + length (concat (map (byte_text bd) ds))) b' =
           take (len + length ?s) b @ concat (map (byte_text bd) ds))
       else ret = SWICC_RET_BUFFER_TOO_SHORT \<and> room < len + length ?s + length (concat (map (byte_text bd) ds))"
      by blast
    have run: "net_buf_loop bd (d # ds) buf len room = Some (ret, b', len')" using b(1) r(1) False by simp
    show ?thesis
      by (rule exI [of _ ret], rule exI [of _ b'], rule exI [of _ len'])
        (use run r(2,3) b(3) in \<open>simp add: add.assoc split: if_splits\<close>)
  qed
qed simp

lemma net_body_run:
  fixes bd :: dbg_build and msg :: swicc_net_msg
  assumes "length buf = room" "len \<le> room"
  defines "body \<equiv> (if net_msg_sane msg then concat (map (byte_text bd) (take (unat (msg_size msg) - NET_BUF_OFFSET) (msg_buf msg)))
      else CLR_VAL bd ''invalid '')"
  shows "\<exists>ret b len'. net_msg_body bd msg buf len room = Some (ret, b, len') \<and> length b = room \<and>
    (if ret = SWICC_RET_SUCCESS then len' = len + length body \<and> len + length body \<le> room \<and>
       (len + length body < room \<longrightarrow> take (len + length body) b = take len buf @ body)
     else ret = SWICC_RET_BUFFER_TOO_SHORT \<and> room < len + length body)"
proof (cases "net_msg_sane msg")
  case True
  then have "rdn (msg_buf msg) 0 (unat (msg_size msg) - NET_BUF_OFFSET) = Some (take (unat (msg_size msg) - NET_BUF_OFFSET) (msg_buf msg))"
    by (auto simp: net_msg_sane_def net_data_len_def rdn_def)
  then have "net_msg_body bd msg buf len room = net_buf_loop bd (take (unat (msg_size msg) - NET_BUF_OFFSET) (msg_buf msg)) buf len room"
    using True by (simp add: net_msg_body_def)
  moreover have "body = concat (map (byte_text bd) (take (unat (msg_size msg) - NET_BUF_OFFSET) (msg_buf msg)))"
    using True by (simp add: body_def)
  ultimately show ?thesis
    using net_buf_run [OF assms(1,2), of bd "take (unat (msg_size msg) - NET_BUF_OFFSET) (msg_buf msg)"] by (simp only:)
next
  case False
  let ?s = "CLR_VAL bd ''invalid ''"
  have b: "body = ?s" using False by (simp add: body_def)
  show ?thesis
  proof (cases "len + length ?s > room")
    case True
    then show ?thesis unfolding b using False assms(1) by (simp add: net_msg_body_def)
  next
    case fits: False
    then obtain buf' where w: "wrn buf len ?s = Some buf'" using wrn_ex [of len ?s buf] assms(1) by auto
    have "take (len + length ?s) buf' = take len buf @ ?s" using w by (auto simp: wrn_Some)
    then show ?thesis unfolding b using False fits w length_wrn [OF w] assms(1) by (simp add: net_msg_body_def)
  qed
qed

lemma net_msg_str_run:
  fixes bd :: dbg_build and prestr :: string and msg :: swicc_net_msg
  assumes "db_debug bd" and "length buf = unat n"
  defines "t \<equiv> net_msg_text bd prestr msg"
  shows "if length t < unat n
    then \<exists>b. swicc_dbg_net_msg_str bd buf n prestr msg = Some (SWICC_RET_SUCCESS, b, word_of_nat (length t + 1)) \<and>
      take (length t + 1) b = t @ [NUL] \<and> length b = unat n
    else if length t = unat n then swicc_dbg_net_msg_str bd buf n prestr msg = None
    else \<exists>b. swicc_dbg_net_msg_str bd buf n prestr msg = Some (SWICC_RET_BUFFER_TOO_SHORT, b, n) \<and> length b = unat n"
proof -
  let ?h = "net_msg_head bd prestr msg" and ?r = "unat n"
  define body where "body = (if net_msg_sane msg then concat (map (byte_text bd) (take (unat (msg_size msg) - NET_BUF_OFFSET) (msg_buf msg)))
      else CLR_VAL bd ''invalid '')"
  have t: "t = ?h @ body @ net_msg_end" by (simp add: t_def net_msg_text_def body_def)
  have l: "length t = length ?h + length body + 4" by (simp add: t)
  have r16: "?r < 65536" using unsigned_less [of n] by simp
  obtain b1 where b1: "c_snprintf buf 0 ?r ?h = Some (length ?h, b1)" "length b1 = ?r" "length ?h < ?r \<longrightarrow> take (length ?h) b1 = ?h"
    using snprintf_run [OF assms(2), of 0 ?h] by auto
  show ?thesis
  proof (cases "length ?h > ?r \<or> length ?h \<ge> 65535")
    case True
    then have long: "?r < length t" unfolding l using r16 by linarith
    have "swicc_dbg_net_msg_str bd buf n prestr msg = Some (SWICC_RET_BUFFER_TOO_SHORT, b1, n)"
      unfolding swicc_dbg_net_msg_str_def using True b1(1) assms(1) by (simp add: Let_def)
    then show ?thesis using long b1(2) by simp
  next
    case False
    then have le: "length ?h \<le> ?r" by simp
    obtain ret b len' where b: "net_msg_body bd msg b1 (length ?h) ?r = Some (ret, b, len')" "length b = ?r"
      "if ret = SWICC_RET_SUCCESS then len' = length ?h + length body \<and> length ?h + length body \<le> ?r \<and>
         (length ?h + length body < ?r \<longrightarrow> take (length ?h + length body) b = take (length ?h) b1 @ body)
       else ret = SWICC_RET_BUFFER_TOO_SHORT \<and> ?r < length ?h + length body"
      using net_body_run [OF b1(2) le, of bd msg, folded body_def] by blast
    note run = swicc_dbg_net_msg_str_def b1(1) b(1)
    show ?thesis
    proof (cases "ret = SWICC_RET_SUCCESS")
      case True
      then have len': "len' = length ?h + length body" "length t = len' + 4" using b(3) l by simp_all
      show ?thesis
      proof (cases "len' + 4 > ?r")
        case short: True
        then show ?thesis using False True assms(1) b(2) len' by (simp add: run)
      next
        case fits: False
        show ?thesis
        proof (cases "len' + 4 = ?r")
          case True
          then have "wrn b len' (net_msg_end @ [NUL]) = None" using b(2) by (simp add: wrn_def)
          then show ?thesis using False True \<open>ret = _\<close> fits assms(1) len' by (simp add: run)
        next
          case room: False
          then have "len' + length (net_msg_end @ [NUL]) \<le> length b" using fits b(2) by simp
          then obtain b3 where w: "wrn b len' (net_msg_end @ [NUL]) = Some b3" using wrn_ex by blast
          have "take len' b = ?h @ body" using b(3) b1(3) True fits len' by auto
          then have "take (length t + 1) b3 = t @ [NUL]" using w len' by (auto simp: wrn_Some t)
          then show ?thesis
            using False True room fits assms(1) len' w length_wrn [OF w] b(2) by (simp add: run)
        qed
      qed
    next
      case short: False
      then have "?r < length t" using b(3) l by auto
      then show ?thesis using False short b(2,3) assms(1) by (simp add: run)
    qed
  qed
qed

text \<open>
  C39.  The string of a message in a buffer of the given size: when the text and its null byte fit, they are written and
  the length with the null byte is reported; when the text fits but not its null byte, the byte is written behind
  the buffer; when the text does not fit, that is said and nothing is written outside of the buffer.
\<close>

theorem net_msg_str_bounds:
  assumes "db_debug bd" and "length buf = unat n"
  shows "let t = net_msg_text bd prestr msg in
    if length t < unat n
    then \<exists>b. swicc_dbg_net_msg_str bd buf n prestr msg = Some (SWICC_RET_SUCCESS, b, word_of_nat (length t + 1)) \<and>
      take (length t + 1) b = t @ [NUL] \<and> length b = unat n
    else if length t = unat n then swicc_dbg_net_msg_str bd buf n prestr msg = None
    else \<exists>b. swicc_dbg_net_msg_str bd buf n prestr msg = Some (SWICC_RET_BUFFER_TOO_SHORT, b, n) \<and> length b = unat n"
  unfolding Let_def by (rule net_msg_str_run [OF assms])

definition demo_dbg_msg :: swicc_net_msg where
  "demo_dbg_msg = \<lparr>msg_size = 11, msg_cont_state = 0x6000, msg_buf_len_exp = 5, msg_ctrl = 0xF0, msg_buf = [0x90, 0x00]\<rparr>"

theorem net_msg_str_bounds_witness:
  "\<exists>b. swicc_dbg_net_msg_str \<lparr>db_debug = True, db_clr = False\<rparr> (replicate 200 (CHR '' '')) 200 ''RX '' demo_dbg_msg =
     Some (SWICC_RET_SUCCESS, b, word_of_nat (length (net_msg_text \<lparr>db_debug = True, db_clr = False\<rparr> ''RX '' demo_dbg_msg) + 1))"
proof -
  let ?bd = "\<lparr>db_debug = True, db_clr = False\<rparr>"
  have fmt: "length (fmt_u (unat (11 :: u32))) = 2" "length (fmt_X 2 (unat (0xF0 :: u8))) = 2"
    "length (fmt_X 8 (unat (0x6000 :: u32))) = 8" "length (fmt_u (unat (5 :: u32))) = 1"
    "length (fmt_X 2 (unat (0x90 :: u8))) = 2" "length (fmt_X 2 (unat (0 :: u8))) = 2"
    by (simp_all add: fmt_u.simps fmt_X_def fmt_hex.simps)
  have "net_msg_sane demo_dbg_msg" by (simp add: net_msg_sane_def demo_dbg_msg_def net_data_len_def)
  then have "length (net_msg_text ?bd ''RX '' demo_dbg_msg) < unat (200 :: u16)"
    using fmt by (simp add: net_msg_text_def net_msg_head_def byte_text_def knd_val_def CLR_KND_def CLR_VAL_def esc_def demo_dbg_msg_def)
  then show ?thesis
    using net_msg_str_bounds [of ?bd "replicate 200 (CHR '' '')" 200 "''RX ''" demo_dbg_msg] by (auto simp: Let_def)
qed

end
