(* ===== verification/Swicc_Dbg_Fs.thy ===== *)
theory Swicc_Dbg_Fs
  imports Swicc_Dbg Swicc_Disk_Tables
begin

text \<open>
  \<^verbatim>\<open>src/dbg/fs.c\<close>: the string of a disk.  All pieces are written into one buffer; what is left of it is counted
  down, so that the position of the next piece is the size of the buffer minus what is unused.
\<close>

section \<open>Items\<close>

definition dbg_item_type_str :: "string list" where
  "dbg_item_type_str = [''INV'', ''MF'', ''ADF'', ''DF'', ''EF Transparent'', ''EF Linear-Fixed'', ''EF Cyclic'',
     ''DO BER-TLV'', ''HEX'', ''ASCII'']"

text \<open>The number of entries passes the check of the index, although it is one too large for the array.\<close>

definition swicc_dbg_item_type_str :: "dbg_build \<Rightarrow> u32 \<Rightarrow> string option option" where
  "swicc_dbg_item_type_str bd item_type =
     (if \<not> db_debug bd then Some None
      else if unat item_type \<le> length dbg_item_type_str then do { s \<leftarrow> rd dbg_item_type_str (unat item_type); Some (Some s) }
      else Some (Some ''???''))"

text \<open>One piece: whether there is room behind it, the buffer, and what is left.\<close>

definition dbg_piece :: "nat \<Rightarrow> string \<Rightarrow> nat \<Rightarrow> string \<Rightarrow> (bool \<times> string \<times> nat) option" where
  "dbg_piece e buf unused s = do {
     (n, b) \<leftarrow> c_snprintf buf (e - unused) unused s;
     Some (if int unused - int n \<le> 0 then (False, b, unused) else (True, b, unused - n)) }"

text \<open>The margin; the depth is a byte.\<close>

definition depth_str :: "u8 \<Rightarrow> string" where
  "depth_str depth = replicate (unat depth * 4) (CHR '' '')"

definition item_text :: "dbg_build \<Rightarrow> u8 \<Rightarrow> swicc_fs_item_hdr \<Rightarrow> string" where
  "item_text bd depth item = (let ds = depth_str depth in
     NL @ ds @ ''('' @ CLR_KND bd (dbg_item_type_str ! unat (item_type_raw (ih_type item))) @
     NL @ ds @ ''  '' @ knd_val bd ''Size'' (fmt_u (unat (ih_size item))) @
     NL @ ds @ ''  '' @ knd_val bd ''LCS'' (fmt_u (unat (ih_lcs item))) @
     NL @ ds @ ''  '' @ knd_val bd ''Type'' (fmt_u (unat (item_type_raw (ih_type item)))))"

definition file_text :: "dbg_build \<Rightarrow> u8 \<Rightarrow> swicc_fs_file \<Rightarrow> string" where
  "file_text bd depth f = (let ds = depth_str depth in
     NL @ ds @ ''  '' @ knd_val bd ''ID'' (''0x'' @ fmt_X 4 (unat (fh_id (hdr_file f)))) @
     NL @ ds @ ''  '' @ knd_val bd ''SID'' (''0x'' @ fmt_X 2 (unat (fh_sid (hdr_file f)))))"

definition contents_text :: "dbg_build \<Rightarrow> u8 \<Rightarrow> swicc_fs_item_type \<Rightarrow> swicc_fs_file \<Rightarrow> string" where
  "contents_text bd depth t f = (let ds = depth_str depth in
     (if t = SWICC_FS_ITEM_TYPE_FILE_EF_LINEARFIXED \<or> t = SWICC_FS_ITEM_TYPE_FILE_EF_CYCLIC
      then NL @ ds @ ''  '' @ knd_val bd ''Record Length'' (fmt_u (unat (hdr_spec_rcrd_size f))) else []) @
     NL @ ds @ ''  ('' @ CLR_KND bd ''Contents'')"

text \<open>The three pieces in front of the contents of a file, and the file itself.\<close>

definition fs_item_head ::
    "dbg_build \<Rightarrow> nat \<Rightarrow> bytes \<Rightarrow> nat \<Rightarrow> swicc_fs_item_hdr \<Rightarrow> u8 \<Rightarrow> string \<Rightarrow> nat \<Rightarrow>
     (swicc_ret \<times> string \<times> nat \<times> swicc_fs_file) option" where
  "fs_item_head bd ti tb e item depth buf unused = do {
     (ok, b1, u1) \<leftarrow> dbg_piece e buf unused (item_text bd depth item);
     if \<not> ok then Some (SWICC_RET_BUFFER_TOO_SHORT, b1, u1, file_zero)
     else do {
       (ret, file) \<leftarrow> swicc_fs_file_prs ti tb (ih_offset_trel item) file_zero;
       if ret \<noteq> SWICC_RET_SUCCESS then Some (SWICC_RET_ERROR, b1, u1, file)
       else if \<not> (is_folder_type (ih_type item) \<or> is_rcrd_type (ih_type item) \<or>
                   ih_type item = SWICC_FS_ITEM_TYPE_FILE_EF_TRANSPARENT)
       then Some (SWICC_RET_ERROR, b1, u1, file)
       else do {
         (ok2, b2, u2) \<leftarrow> dbg_piece e b1 u1 (file_text bd depth file);
         if \<not> ok2 then Some (SWICC_RET_BUFFER_TOO_SHORT, b2, u2, file)
         else do {
           (ok3, b3, u3) \<leftarrow> dbg_piece e b2 u2 (contents_text bd depth (ih_type item) file);
           if \<not> ok3 then Some (SWICC_RET_BUFFER_TOO_SHORT, b3, u3, file)
           else Some (SWICC_RET_SUCCESS, b3, u3, file) } } } }"

text \<open>The contents of an elementary file: its bytes.\<close>

function ef_str_loop ::
    "dbg_build \<Rightarrow> bytes \<Rightarrow> nat \<Rightarrow> nat \<Rightarrow> nat \<Rightarrow> nat \<Rightarrow> string \<Rightarrow> nat \<Rightarrow> (swicc_ret \<times> string \<times> nat) option" where
  "ef_str_loop bd tb e start len_data data_idx buf unused =
     (if data_idx < len_data then do {
        data_byte \<leftarrow> rd tb (start + data_idx);
        (ok, b1, u1) \<leftarrow> dbg_piece e buf unused ('' '' @ CLR_VAL bd (fmt_X 2 (unat data_byte)));
        if \<not> ok then Some (SWICC_RET_BUFFER_TOO_SHORT, b1, u1)
        else ef_str_loop bd tb e start len_data (data_idx + 1) b1 u1 }
      else Some (SWICC_RET_SUCCESS, buf, unused))"
  by pat_completeness auto
termination by (relation "measure (\<lambda>(bd, tb, e, start, len_data, data_idx, buf, unused). len_data - data_idx)") auto

declare ef_str_loop.simps [simp del]

definition fs_item_ef ::
    "dbg_build \<Rightarrow> bytes \<Rightarrow> nat \<Rightarrow> swicc_fs_item_hdr \<Rightarrow> string \<Rightarrow> nat \<Rightarrow> (swicc_ret \<times> string \<times> nat) option" where
  "fs_item_ef bd tb e item buf unused =
     (let ef_hdr_extra = (if is_rcrd_type (ih_type item) then 1 else 0 :: u32);
          len_data = ih_size item - 13 - ef_hdr_extra;
          left = int unused - sint (len_data * 3) in
      if left > 2 ^ 31 - 1 then None
      else if left < 0 then Some (SWICC_RET_BUFFER_TOO_SHORT, buf, unused)
      else ef_str_loop bd tb e (unat (ef_hdr_extra + ih_offset_trel item) + 13) (unat len_data) 0 buf unused)"

text \<open>The end of an item; \<open>n\<close> is the size of the buffer that the item had got.\<close>

definition fs_item_end :: "nat \<Rightarrow> nat \<Rightarrow> swicc_ret \<Rightarrow> string \<Rightarrow> nat \<Rightarrow> (swicc_ret \<times> string \<times> nat) option" where
  "fs_item_end e n ret buf unused =
     (if int unused - 2 < 0 then Some (SWICC_RET_BUFFER_TOO_SHORT, buf, 0)
      else do { b \<leftarrow> wrn buf (e - unused) ''))''; Some (ret, b, n - (unused - 2)) })"

text \<open>
  The function for an item and the loop in it over the contents of a folder.  A file in a folder is parsed; the item
  that the function is called with for it is that of the folder.  The call of an item yields the length of the
  string, zero when it failed early; the loop yields what is unused.  The check that the offset of the contents does not pass
  32 bits is made on 32 bits and cannot fail.
\<close>

datatype str_mode =
    Str_item swicc_fs_item_hdr u8
  | Str_loop swicc_fs_file u8 u32 u32 u32 swicc_ret

partial_function (option) fs_item_run ::
    "dbg_build \<Rightarrow> nat \<Rightarrow> bytes \<Rightarrow> nat \<Rightarrow> str_mode \<Rightarrow> string \<Rightarrow> nat \<Rightarrow> (swicc_ret \<times> string \<times> nat) option" where
  "fs_item_run bd ti tb e mode buf unused = (case mode of
     Str_item item depth \<Rightarrow> do {
       (ret, b, u, file) \<leftarrow> fs_item_head bd ti tb e item depth buf unused;
       if ret \<noteq> SWICC_RET_SUCCESS then Some (ret, b, 0)
       else if is_folder_type (ih_type item) then
         (let hdr_len = swicc_fs_item_hdr_raw_size (ih_type item) in do {
            (ret_item, b1, u1) \<leftarrow> fs_item_run bd ti tb e
              (Str_loop file depth (ih_offset_trel item + hdr_len) (ih_size item - hdr_len) 0 SWICC_RET_SUCCESS) b u;
            fs_item_end e unused ret_item b1 u1 })
       else do {
         (ret_ef, b1, u1) \<leftarrow> fs_item_ef bd tb e item b u;
         if ret_ef \<noteq> SWICC_RET_SUCCESS then Some (ret_ef, b1, 0) else fs_item_end e unused ret_ef b1 u1 } }
   | Str_loop file depth data_offset_start len_data data_idx ret_item \<Rightarrow>
       if data_idx < len_data then do {
         (ret, file_nstd) \<leftarrow> swicc_fs_file_prs ti tb (data_offset_start + data_idx) file_zero;
         if ret \<noteq> SWICC_RET_SUCCESS then Some (ret_item, buf, unused)
         else do {
           (ret1, b1, len) \<leftarrow> fs_item_run bd ti tb e (Str_item (hdr_item file) (depth + 1)) buf unused;
           if ret1 \<noteq> SWICC_RET_SUCCESS then Some (ret1, b1, unused)
           else if int unused - int len \<le> 0 then Some (SWICC_RET_BUFFER_TOO_SHORT, b1, unused)
           else fs_item_run bd ti tb e (Str_loop file depth data_offset_start len_data
             (data_idx + ih_size (hdr_item file_nstd)) SWICC_RET_SUCCESS) b1 (unused - len) } }
       else Some (ret_item, buf, unused))"

definition fs_item_str ::
    "dbg_build \<Rightarrow> nat \<Rightarrow> bytes \<Rightarrow> nat \<Rightarrow> swicc_fs_item_hdr \<Rightarrow> u8 \<Rightarrow> string \<Rightarrow> nat \<Rightarrow> (swicc_ret \<times> string \<times> nat) option" where
  "fs_item_str bd ti tb e item depth buf buf_str_len = fs_item_run bd ti tb e (Str_item item depth) buf buf_str_len"

section \<open>The disk\<close>

partial_function (option) tree_str_loop ::
    "dbg_build \<Rightarrow> nat \<Rightarrow> swicc_disk_tree \<Rightarrow> nat \<Rightarrow> u32 \<Rightarrow> string \<Rightarrow> nat \<Rightarrow> (swicc_ret \<times> string \<times> nat) option" where
  "tree_str_loop bd ti tree e tree_idx buf unused =
     (if tree_idx < t_len tree then do {
        (ret, file) \<leftarrow> swicc_fs_file_prs ti (t_buf tree) tree_idx file_zero;
        if ret \<noteq> SWICC_RET_SUCCESS then Some (SWICC_RET_ERROR, buf, unused)
        else do {
          (ret_item, b1, len) \<leftarrow> fs_item_str bd ti (t_buf tree) e (hdr_item file) 1 buf unused;
          if ret_item \<noteq> SWICC_RET_SUCCESS then Some (ret_item, b1, unused)
          else if int unused - int len < 0 then Some (SWICC_RET_BUFFER_TOO_SHORT, b1, unused)
          else tree_str_loop bd ti tree e (tree_idx + ih_size (hdr_item file)) b1 (unused - len) } }
      else Some (SWICC_RET_SUCCESS, buf, unused))"

fun disk_str_loop ::
    "dbg_build \<Rightarrow> nat \<Rightarrow> swicc_disk_tree list \<Rightarrow> nat \<Rightarrow> string \<Rightarrow> nat \<Rightarrow> (swicc_ret \<times> string \<times> nat) option" where
  "disk_str_loop bd ti [] e buf unused = Some (SWICC_RET_SUCCESS, buf, unused)"
| "disk_str_loop bd ti (tree # trees) e buf unused = do {
     (ret, b1, u1) \<leftarrow> tree_str_loop bd ti tree e 0 buf unused;
     if ret \<noteq> SWICC_RET_SUCCESS then Some (ret, b1, u1)
     else disk_str_loop bd (ti + 1) trees e b1 u1 }"

definition disk_head_text :: "dbg_build \<Rightarrow> string" where
  "disk_head_text bd = ''('' @ CLR_KND bd ''Disk'' @ NL @ ''  ('' @ CLR_KND bd ''Contents'' @ '' ''"

abbreviation disk_end_text :: string where "disk_end_text \<equiv> ''))'' @ NL"

definition swicc_dbg_disk_str :: "dbg_build \<Rightarrow> string \<Rightarrow> u16 \<Rightarrow> swicc_disk \<Rightarrow> (swicc_ret \<times> string \<times> u16) option" where
  "swicc_dbg_disk_str bd buf_str buf_str_len disk =
     (if \<not> db_debug bd then Some (SWICC_RET_SUCCESS, buf_str, 0)
      else do {
        let e = unat buf_str_len;
        (ok, b1, u1) \<leftarrow> dbg_piece e buf_str e (disk_head_text bd);
        if \<not> ok then Some (SWICC_RET_BUFFER_TOO_SHORT, b1, 0)
        else do {
          (ret, b2, u2) \<leftarrow> disk_str_loop bd 0 (d_root disk) e b1 u1;
          if ret \<noteq> SWICC_RET_SUCCESS then Some (ret, b2, 0)
          else if int u2 - 4 < 0 then Some (SWICC_RET_BUFFER_TOO_SHORT, b2, 0)
          else do {
            b3 \<leftarrow> wrn b2 (e - u2) (disk_end_text @ [NUL]);
            Some (SWICC_RET_SUCCESS, b3, word_of_nat (e - (u2 - 4))) } } })"

section \<open>What is written\<close>

text \<open>A string has been put behind what was in the buffer.\<close>

definition written :: "nat \<Rightarrow> string \<Rightarrow> nat \<Rightarrow> string \<Rightarrow> string \<Rightarrow> nat \<Rightarrow> bool" where
  "written e buf unused s b u \<longleftrightarrow>
     length b = e \<and> length s \<le> unused \<and> u = unused - length s \<and> take (e - u) b = take (e - unused) buf @ s"

lemma written_trans:
  "written e buf unused s b u \<Longrightarrow> written e b u s' b' u' \<Longrightarrow> written e buf unused (s @ s') b' u'"
  by (auto simp: written_def)

lemma written_room: "written e buf unused s b u \<Longrightarrow> unused \<le> e \<Longrightarrow> length b = e \<and> u \<le> e"
  by (auto simp: written_def)

lemma written_wrn:
  assumes "wrn buf (e - unused) s = Some b" "length buf = e" "unused \<le> e" "length s \<le> unused"
  shows "written e buf unused s b (unused - length s)"
  using assms length_wrn [OF assms(1)] by (auto simp: written_def wrn_Some)

lemma dbg_piece_fits:
  assumes "length buf = e" "unused \<le> e" "length s < unused"
  obtains b u where "dbg_piece e buf unused s = Some (True, b, u)" "written e buf unused s b u"
proof -
  obtain b where "c_snprintf buf (e - unused) unused s = Some (length s, b)" "length b = e"
    "take (e - unused + length s) b = take (e - unused) buf @ s"
    using snprintf_run [of buf e "e - unused" s] assms by auto
  then show ?thesis using assms by (intro that [of b "unused - length s"]) (simp_all add: dbg_piece_def written_def)
qed

lemma dbg_piece_short:
  assumes "length buf = e" "unused \<le> e" "unused \<le> length s"
  obtains b where "dbg_piece e buf unused s = Some (False, b, unused)" "length b = e"
proof -
  obtain b where "c_snprintf buf (e - unused) unused s = Some (length s, b)" "length b = e"
    using snprintf_run [of buf e "e - unused" s] assms by auto
  then show ?thesis using assms by (intro that [of b]) (simp_all add: dbg_piece_def)
qed

subsection \<open>The head of an item\<close>

definition item_head_text :: "dbg_build \<Rightarrow> u8 \<Rightarrow> swicc_fs_file \<Rightarrow> string" where
  "item_head_text bd depth f =
     item_text bd depth (hdr_item f) @ file_text bd depth f @ contents_text bd depth (ih_type (hdr_item f)) f"

text \<open>The text has been written if there is room behind it, or the buffer is too short.\<close>

definition head_result :: "nat \<Rightarrow> string \<Rightarrow> nat \<Rightarrow> string \<Rightarrow> swicc_fs_file \<Rightarrow> (swicc_ret \<times> string \<times> nat \<times> swicc_fs_file) option \<Rightarrow> bool" where
  "head_result e buf unused s f m \<longleftrightarrow>
     (if length s < unused then \<exists>b u. m = Some (SWICC_RET_SUCCESS, b, u, f) \<and> written e buf unused s b u
      else \<exists>b u f'. m = Some (SWICC_RET_BUFFER_TOO_SHORT, b, u, f') \<and> length b = e)"

lemma head_result_done: "length buf = e \<Longrightarrow> unused \<le> e \<Longrightarrow> 0 < unused \<Longrightarrow> head_result e buf unused [] f (Some (SWICC_RET_SUCCESS, buf, unused, f))"
  by (simp add: head_result_def written_def)

lemma head_result_piece:
  assumes buf: "length buf = e" "unused \<le> e"
    and k: "\<And>b u. length b = e \<Longrightarrow> u \<le> e \<Longrightarrow> 0 < u \<Longrightarrow> head_result e b u s' f (k b u)"
  shows "head_result e buf unused (s @ s') f (do {
    (ok, b, u) \<leftarrow> dbg_piece e buf unused s;
    if \<not> ok then Some (SWICC_RET_BUFFER_TOO_SHORT, b, u, g) else k b u })"
proof (cases "length s < unused")
  case False
  then have "unused \<le> length s" by simp
  then obtain b where b: "dbg_piece e buf unused s = Some (False, b, unused)" "length b = e"
    using dbg_piece_short [OF buf] by blast
  then show ?thesis using False by (simp add: head_result_def)
next
  case True
  obtain b u where b: "dbg_piece e buf unused s = Some (True, b, u)" "written e buf unused s b u"
    using dbg_piece_fits [OF buf True] by blast
  have u: "length b = e" "u \<le> e" "u = unused - length s" "0 < u"
    using written_room [OF b(2) buf(2)] b(2) True by (simp_all add: written_def)
  have "length (s @ s') < unused \<longleftrightarrow> length s' < u" using u(3) True by auto
  then show ?thesis using k [OF u(1,2,4)] b(1) written_trans [OF b(2)] unfolding head_result_def by (auto split: if_splits)
qed

lemma fs_item_head_run:
  assumes prs: "swicc_fs_file_prs ti tb (ih_offset_trel (hdr_item f)) file_zero = Some (SWICC_RET_SUCCESS, f)"
    and ty: "is_folder_type (ih_type (hdr_item f))" and buf: "length buf = e" "unused \<le> e"
  shows "head_result e buf unused (item_head_text bd depth f) f (fs_item_head bd ti tb e (hdr_item f) depth buf unused)"
  unfolding item_head_text_def fs_item_head_def
proof (rule head_result_piece [OF buf])
  fix b1 :: string and u1 assume r1: "length b1 = e" "u1 \<le> e"
  have rest: "head_result e b1 u1 (file_text bd depth f @ contents_text bd depth (ih_type (hdr_item f)) f @ []) f (do {
         (ok2, b2, u2) \<leftarrow> dbg_piece e b1 u1 (file_text bd depth f);
         if \<not> ok2 then Some (SWICC_RET_BUFFER_TOO_SHORT, b2, u2, f)
         else do {
           (ok3, b3, u3) \<leftarrow> dbg_piece e b2 u2 (contents_text bd depth (ih_type (hdr_item f)) f);
           if \<not> ok3 then Some (SWICC_RET_BUFFER_TOO_SHORT, b3, u3, f) else Some (SWICC_RET_SUCCESS, b3, u3, f) } })"
    by (intro head_result_piece head_result_done r1)
  show "head_result e b1 u1 (file_text bd depth f @ contents_text bd depth (ih_type (hdr_item f)) f) f (do {
       (ret, file) \<leftarrow> swicc_fs_file_prs ti tb (ih_offset_trel (hdr_item f)) file_zero;
       if ret \<noteq> SWICC_RET_SUCCESS then Some (SWICC_RET_ERROR, b1, u1, file)
       else if \<not> (is_folder_type (ih_type (hdr_item f)) \<or> is_rcrd_type (ih_type (hdr_item f)) \<or>
                   ih_type (hdr_item f) = SWICC_FS_ITEM_TYPE_FILE_EF_TRANSPARENT)
       then Some (SWICC_RET_ERROR, b1, u1, file)
       else do {
         (ok2, b2, u2) \<leftarrow> dbg_piece e b1 u1 (file_text bd depth file);
         if \<not> ok2 then Some (SWICC_RET_BUFFER_TOO_SHORT, b2, u2, file)
         else do {
           (ok3, b3, u3) \<leftarrow> dbg_piece e b2 u2 (contents_text bd depth (ih_type (hdr_item f)) file);
           if \<not> ok3 then Some (SWICC_RET_BUFFER_TOO_SHORT, b3, u3, file) else Some (SWICC_RET_SUCCESS, b3, u3, file) } } })"
    using rest ty by (simp add: prs)
qed

subsection \<open>The root of a tree\<close>

text \<open>Printing an item with a folder that is not empty always ends because the buffer is too short.\<close>

lemma folder_never_printed:
  assumes prs: "swicc_fs_file_prs ti tb (ih_offset_trel (hdr_item f)) file_zero = Some (SWICC_RET_SUCCESS, f)"
    and ty: "is_folder_type (ih_type (hdr_item f))"
    and nstd: "swicc_fs_file_prs ti tb (ih_offset_trel (hdr_item f) + swicc_fs_item_hdr_raw_size (ih_type (hdr_item f))) file_zero =
      Some (SWICC_RET_SUCCESS, g)"
    and len: "0 < ih_size (hdr_item f) - swicc_fs_item_hdr_raw_size (ih_type (hdr_item f))"
    and buf: "length buf = e" "unused \<le> e"
  shows "\<exists>b u. fs_item_run bd ti tb e (Str_item (hdr_item f) depth) buf unused = Some (SWICC_RET_BUFFER_TOO_SHORT, b, u) \<and> length b = e"
  using buf
proof (induction unused arbitrary: buf depth rule: less_induct)
  case (less unused)
  let ?i = "hdr_item f"
  let ?hs = "swicc_fs_item_hdr_raw_size (ih_type ?i)"
  let ?m = "Str_loop f depth (ih_offset_trel ?i + ?hs) (ih_size ?i - ?hs) 0 SWICC_RET_SUCCESS"
  show ?case
  proof (cases "length (item_head_text bd depth f) < unused")
    case False
    then obtain b u f' where "fs_item_head bd ti tb e ?i depth buf unused = Some (SWICC_RET_BUFFER_TOO_SHORT, b, u, f')" "length b = e"
      using fs_item_head_run [OF prs ty less.prems, of bd depth] by (auto simp: head_result_def)
    then have "fs_item_run bd ti tb e (Str_item ?i depth) buf unused = Some (SWICC_RET_BUFFER_TOO_SHORT, b, 0)"
      by (subst fs_item_run.simps) simp
    then show ?thesis using \<open>length b = e\<close> by blast
  next
    case True
    then obtain b u where h: "fs_item_head bd ti tb e ?i depth buf unused = Some (SWICC_RET_SUCCESS, b, u, f)"
      "written e buf unused (item_head_text bd depth f) b u"
      using fs_item_head_run [OF prs ty less.prems, of bd depth] by (auto simp: head_result_def)
    have r: "length b = e" "u \<le> e" using written_room [OF h(2) less.prems(2)] by simp_all
    have "item_head_text bd depth f \<noteq> []" by (simp add: item_head_text_def item_text_def Let_def)
    then have lt: "u < unused" using h(2) True by (auto simp: written_def)
    obtain b1 u1 where b1: "fs_item_run bd ti tb e (Str_item ?i (depth + 1)) b u = Some (SWICC_RET_BUFFER_TOO_SHORT, b1, u1)" "length b1 = e"
      using less.IH [OF lt r] by blast
    have loop: "fs_item_run bd ti tb e ?m b u = Some (SWICC_RET_BUFFER_TOO_SHORT, b1, u)"
      by (subst fs_item_run.simps) (use nstd len b1 in simp)
    have run: "fs_item_run bd ti tb e (Str_item ?i depth) buf unused = fs_item_end e unused SWICC_RET_BUFFER_TOO_SHORT b1 u"
      by (subst fs_item_run.simps) (use h(1) ty loop in \<open>simp add: Let_def\<close>)
    show ?thesis
    proof (cases "u < 2")
      case True
      then show ?thesis using run b1(2) by (simp add: fs_item_end_def)
    next
      case False
      then have "e - u + length ''))'' \<le> length b1" using r b1(2) by simp
      then obtain b2 where w: "wrn b1 (e - u) ''))'' = Some b2" unfolding wrn_def by auto
      then show ?thesis using run False b1(2) length_wrn [OF w] by (simp add: fs_item_end_def)
    qed
  qed
qed

definition root_text :: "dbg_build \<Rightarrow> fsnode \<Rightarrow> string" where
  "root_text bd n = item_head_text bd 1 (file_of 0 0 0 n) @ ''))''"

lemma item_head_text_tree: "item_head_text bd depth (file_of ti 0 0 n) = item_head_text bd depth (file_of 0 0 0 n)"
  by (simp add: item_head_text_def item_text_def file_text_def contents_text_def file_of_def hdr_spec_rcrd_size_def Let_def)

lemma empty_folder_run:
  fixes bd :: dbg_build and depth :: u8 and f :: swicc_fs_file
  assumes prs: "swicc_fs_file_prs ti tb (ih_offset_trel (hdr_item f)) file_zero = Some (SWICC_RET_SUCCESS, f)"
    and ty: "is_folder_type (ih_type (hdr_item f))"
    and len: "ih_size (hdr_item f) = swicc_fs_item_hdr_raw_size (ih_type (hdr_item f))"
    and buf: "length buf = e" "unused \<le> e"
  defines "s \<equiv> item_head_text bd depth f @ ''))''"
  shows "if length s \<le> unused
    then \<exists>b. fs_item_run bd ti tb e (Str_item (hdr_item f) depth) buf unused = Some (SWICC_RET_SUCCESS, b, length s) \<and>
      written e buf unused s b (unused - length s)
    else \<exists>b u. fs_item_run bd ti tb e (Str_item (hdr_item f) depth) buf unused = Some (SWICC_RET_BUFFER_TOO_SHORT, b, u) \<and> length b = e"
proof -
  let ?i = "hdr_item f" and ?h = "item_head_text bd depth f"
  have ls: "length s = length ?h + 2" by (simp add: s_def)
  show ?thesis
  proof (cases "length ?h < unused")
    case False
    then obtain b u f' where "fs_item_head bd ti tb e ?i depth buf unused = Some (SWICC_RET_BUFFER_TOO_SHORT, b, u, f')" "length b = e"
      using fs_item_head_run [OF prs ty buf, of bd depth] by (auto simp: head_result_def)
    then have "fs_item_run bd ti tb e (Str_item ?i depth) buf unused = Some (SWICC_RET_BUFFER_TOO_SHORT, b, 0)"
      by (subst fs_item_run.simps) simp
    moreover have "\<not> length s \<le> unused" using False ls by simp
    ultimately show ?thesis using \<open>length b = e\<close> by simp
  next
    case True
    then obtain b u where h: "fs_item_head bd ti tb e ?i depth buf unused = Some (SWICC_RET_SUCCESS, b, u, f)" "written e buf unused ?h b u"
      using fs_item_head_run [OF prs ty buf, of bd depth] by (auto simp: head_result_def)
    have r: "length b = e" "u \<le> e" "u = unused - length ?h"
      using written_room [OF h(2) buf(2)] h(2) by (simp_all add: written_def)
    have loop: "fs_item_run bd ti tb e (Str_loop f depth x 0 0 SWICC_RET_SUCCESS) b u = Some (SWICC_RET_SUCCESS, b, u)" for x
      by (subst fs_item_run.simps) simp
    have run: "fs_item_run bd ti tb e (Str_item ?i depth) buf unused = fs_item_end e unused SWICC_RET_SUCCESS b u"
      by (subst fs_item_run.simps) (use h(1) ty loop len in \<open>simp add: Let_def\<close>)
    show ?thesis
    proof (cases "u < 2")
      case True
      then have "\<not> length s \<le> unused" using ls r(3) by simp
      then show ?thesis using run r(1) True by (simp add: fs_item_end_def)
    next
      case False
      then have fit: "length s \<le> unused" using ls r(3) \<open>length ?h < unused\<close> by simp
      have "e - u + length ''))'' \<le> length b" using r False by simp
      then obtain b2 where w: "wrn b (e - u) ''))'' = Some b2" unfolding wrn_def by auto
      have "written e b u ''))'' b2 (u - length ''))'')" by (rule written_wrn [OF w r(1,2)]) (use False in simp)
      from written_trans [OF h(2) this] have "written e buf unused s b2 (u - 2)" by (simp add: s_def numeral_2_eq_2)
      moreover have "u - 2 = unused - length s" "unused - (u - 2) = length s" using ls r(3) fit by simp_all
      ultimately show ?thesis using fit run w False by (simp add: fs_item_end_def)
    qed
  qed
qed

subsection \<open>Trees and the disk\<close>

fun files_of :: "fsnode \<Rightarrow> fsnode list" where
  "files_of (Folder h cs) = cs"
| "files_of (Ef h d) = []"

lemma tree_str_run:
  assumes rep: "tree_repr t n" and buf: "length buf = e" "unused \<le> e"
  shows "if files_of n = [] \<and> length (root_text bd n) \<le> unused
    then \<exists>b. tree_str_loop bd ti t e 0 buf unused = Some (SWICC_RET_SUCCESS, b, unused - length (root_text bd n)) \<and>
      written e buf unused (root_text bd n) b (unused - length (root_text bd n))
    else \<exists>b u. tree_str_loop bd ti t e 0 buf unused = Some (SWICC_RET_BUFFER_TOO_SHORT, b, u) \<and> length b = e"
proof -
  obtain h cs where n: "n = Folder h cs" using tree_folder [OF rep] by blast
  have ok: "node_ok n" and sz: "nsize n < 2 ^ 32 - 64" and tl: "unat (t_len t) = nsize n"
    and d: "drop 0 (t_buf t) = ser 0 n @ drop (nsize n) (t_buf t)"
    using rep tree_bytes [OF rep] by (simp_all add: tree_repr_def root_ok_def)
  let ?f = "file_of ti 0 0 n"
  let ?i = "hdr_item ?f"
  have prs: "swicc_fs_file_prs ti (t_buf t) 0 f = Some (SWICC_RET_SUCCESS, ?f)" for f
    using file_prs_node [OF ok d, of ti f] by simp
  have ty: "is_folder_type (ih_type ?i)" using ok n by (simp add: file_of_facts)
  have off: "ih_offset_trel ?i = 0" by (simp add: file_of_facts)
  have hs: "swicc_fs_item_hdr_raw_size (ih_type ?i) = word_of_nat (n_hsize n)"
    using item_hdr_raw_size_node [OF ok] by (simp add: file_of_facts)
  have isz: "ih_size ?i = word_of_nat (nsize n)" by (simp add: file_of_facts)
  have tlen: "t_len t = word_of_nat (nsize n)" unfolding tl [symmetric] by simp
  have pos: "0 < t_len t" using tl nsize_pos [of n] by (simp add: word_less_nat_alt)
  have ns: "nsize n = n_hsize n + sum_list (map nsize cs)" by (simp add: n n_hsize_def)
  have stop: "tree_str_loop bd ti t e (t_len t) b u = Some (SWICC_RET_SUCCESS, b, u)" for b u
    by (subst tree_str_loop.simps) simp
  have prs': "swicc_fs_file_prs ti (t_buf t) (ih_offset_trel ?i) file_zero = Some (SWICC_RET_SUCCESS, ?f)"
    using prs off by simp
  have rt: "item_head_text bd 1 ?f @ ''))'' = root_text bd n"
    by (simp add: root_text_def item_head_text_tree [of bd 1 ti n])
  show ?thesis
  proof (cases "files_of n = []")
    case True
    then have "nsize n = n_hsize n" using ns n by simp
    then have "ih_size ?i = swicc_fs_item_hdr_raw_size (ih_type ?i)" using hs isz by (simp only:)
    note e = empty_folder_run [OF prs' ty this buf, of bd 1, unfolded rt]
    show ?thesis
    proof (cases "length (root_text bd n) \<le> unused")
      case fit: True
      then obtain b where b: "fs_item_run bd ti (t_buf t) e (Str_item ?i 1) buf unused = Some (SWICC_RET_SUCCESS, b, length (root_text bd n))"
        "written e buf unused (root_text bd n) b (unused - length (root_text bd n))" using e by auto
      have "tree_str_loop bd ti t e 0 buf unused = Some (SWICC_RET_SUCCESS, b, unused - length (root_text bd n))"
        by (subst tree_str_loop.simps) (use pos prs b(1) fit stop isz tlen in \<open>simp add: fs_item_str_def\<close>)
      then show ?thesis using True fit b(2) by simp
    next
      case short: False
      then obtain b u where b: "fs_item_run bd ti (t_buf t) e (Str_item ?i 1) buf unused = Some (SWICC_RET_BUFFER_TOO_SHORT, b, u)" "length b = e"
        using e by auto
      have "tree_str_loop bd ti t e 0 buf unused = Some (SWICC_RET_BUFFER_TOO_SHORT, b, unused)"
        by (subst tree_str_loop.simps) (use pos prs b(1) in \<open>simp add: fs_item_str_def\<close>)
      then show ?thesis using short b(2) by simp
    qed
  next
    case False
    then obtain c cs' where cs: "cs = c # cs'" using n by (cases cs) auto
    have h16: "n_hsize n = 29" using ok n by (simp add: n_hsize_def)
    have dn: "drop (n_hsize n) (t_buf t) = ser (n_hsize n) c @ sers (n_hsize n + nsize c) cs' @ drop (nsize n) (t_buf t)"
      using drop_more [of 0 "t_buf t" "ser_hdr (nsize n) 0 h" "sers (n_hsize n) cs @ drop (nsize n) (t_buf t)"] d
      by (simp add: n cs n_hsize_def)
    have "swicc_fs_file_prs ti (t_buf t) (word_of_nat (n_hsize n)) file_zero = Some (SWICC_RET_SUCCESS, file_of ti (n_hsize n) (n_hsize n) c)"
      by (rule file_prs_node [OF _ dn]) (use ok n cs h16 in simp_all)
    then have nstd: "swicc_fs_file_prs ti (t_buf t) (ih_offset_trel ?i + swicc_fs_item_hdr_raw_size (ih_type ?i)) file_zero =
        Some (SWICC_RET_SUCCESS, file_of ti (n_hsize n) (n_hsize n) c)"
      using off hs by simp
    have "ih_size ?i - swicc_fs_item_hdr_raw_size (ih_type ?i) = word_of_nat (sum_list (map nsize cs))"
      using hs isz ns by simp
    moreover have "unat (word_of_nat (sum_list (map nsize cs)) :: u32) = sum_list (map nsize cs)"
      by (rule unat_of_nat_u32) (use ns sz in simp)
    ultimately have pos2: "0 < ih_size ?i - swicc_fs_item_hdr_raw_size (ih_type ?i)"
      using cs nsize_pos [of c] by (simp add: word_less_nat_alt)
    obtain b u where b: "fs_item_run bd ti (t_buf t) e (Str_item ?i 1) buf unused = Some (SWICC_RET_BUFFER_TOO_SHORT, b, u)" "length b = e"
      using folder_never_printed [OF prs' ty nstd pos2 buf] by blast
    have "tree_str_loop bd ti t e 0 buf unused = Some (SWICC_RET_BUFFER_TOO_SHORT, b, unused)"
      by (subst tree_str_loop.simps) (use pos prs b(1) in \<open>simp add: fs_item_str_def\<close>)
    then show ?thesis using False b(2) by simp
  qed
qed

lemma disk_loop_run:
  assumes "list_all2 tree_repr ts ns" and "length buf = e" "unused \<le> e"
  shows "if (\<forall>n \<in> set ns. files_of n = []) \<and> length (concat (map (root_text bd) ns)) \<le> unused
    then \<exists>b. disk_str_loop bd ti ts e buf unused = Some (SWICC_RET_SUCCESS, b, unused - length (concat (map (root_text bd) ns))) \<and>
      written e buf unused (concat (map (root_text bd) ns)) b (unused - length (concat (map (root_text bd) ns)))
    else \<exists>b u. disk_str_loop bd ti ts e buf unused = Some (SWICC_RET_BUFFER_TOO_SHORT, b, u) \<and> length b = e"
  using assms
proof (induction ts ns arbitrary: ti buf unused rule: list_all2_induct)
  case Nil
  then show ?case by (simp add: written_def)
next
  case (Cons t ts n ns)
  note one = tree_str_run [OF Cons(1) Cons.prems, of bd ti]
  let ?l = "length (root_text bd n)"
  show ?case
  proof (cases "files_of n = [] \<and> ?l \<le> unused")
    case True
    then obtain b where b: "tree_str_loop bd ti t e 0 buf unused = Some (SWICC_RET_SUCCESS, b, unused - ?l)"
      "written e buf unused (root_text bd n) b (unused - ?l)" using one by auto
    have r: "length b = e" "unused - ?l \<le> e" using written_room [OF b(2) Cons.prems(2)] by simp_all
    note rest = Cons.IH [OF r, of "ti + 1"]
    show ?thesis
    proof (cases "(\<forall>n \<in> set ns. files_of n = []) \<and> length (concat (map (root_text bd) ns)) \<le> unused - ?l")
      case all: True
      then obtain b' where "disk_str_loop bd (ti + 1) ts e b (unused - ?l) =
          Some (SWICC_RET_SUCCESS, b', unused - ?l - length (concat (map (root_text bd) ns)))"
        "written e b (unused - ?l) (concat (map (root_text bd) ns)) b' (unused - ?l - length (concat (map (root_text bd) ns)))"
        using rest by auto
      then show ?thesis using written_trans [OF b(2)] True all le_diff_conv2 [of ?l unused] b(1) by (simp add: add.commute)
    next
      case no: False
      then obtain b' u' where "disk_str_loop bd (ti + 1) ts e b (unused - ?l) = Some (SWICC_RET_BUFFER_TOO_SHORT, b', u')" "length b' = e"
        using rest unfolding if_not_P [OF no] by blast
      moreover have "\<not> ((\<forall>m \<in> set (n # ns). files_of m = []) \<and> length (concat (map (root_text bd) (n # ns))) \<le> unused)"
        using no by auto
      ultimately show ?thesis using b(1) by simp
    qed
  next
    case False
    then obtain b u where b: "tree_str_loop bd ti t e 0 buf unused = Some (SWICC_RET_BUFFER_TOO_SHORT, b, u)" "length b = e"
      using one by auto
    moreover have "\<not> ((\<forall>m \<in> set (n # ns). files_of m = []) \<and> length (concat (map (root_text bd) (n # ns))) \<le> unused)"
      using False by auto
    ultimately show ?thesis by simp
  qed
qed

definition disk_text :: "dbg_build \<Rightarrow> fsnode list \<Rightarrow> string" where
  "disk_text bd ns = disk_head_text bd @ concat (map (root_text bd) ns) @ disk_end_text"

lemma disk_str_run:
  fixes bd :: dbg_build and ns :: "fsnode list"
  assumes dbg: "db_debug bd" and rep: "forest_repr d ns" and buf: "length buf = unat n"
  defines "t \<equiv> disk_text bd ns"
  shows "if (\<forall>m \<in> set ns. files_of m = []) \<and> length t < unat n
    then \<exists>b. swicc_dbg_disk_str bd buf n d = Some (SWICC_RET_SUCCESS, b, word_of_nat (length t + 1)) \<and>
      take (length t + 1) b = t @ [NUL] \<and> length b = unat n
    else \<exists>b. swicc_dbg_disk_str bd buf n d = Some (SWICC_RET_BUFFER_TOO_SHORT, b, 0) \<and> length b = unat n"
proof -
  let ?e = "unat n" and ?h = "disk_head_text bd" and ?c = "concat (map (root_text bd) ns)"
  let ?ok = "\<forall>m \<in> set ns. files_of m = []"
  have l: "length t = length ?h + length ?c + 3" by (simp add: t_def disk_text_def)
  have ts: "list_all2 tree_repr (d_root d) ns" using rep by (simp add: forest_repr_def)
  show ?thesis
  proof (cases "length ?h < ?e")
    case False
    then have "?e \<le> length ?h" by simp
    then obtain b where "dbg_piece ?e buf ?e ?h = Some (False, b, ?e)" "length b = ?e"
      using dbg_piece_short [OF buf le_refl] by blast
    then have "swicc_dbg_disk_str bd buf n d = Some (SWICC_RET_BUFFER_TOO_SHORT, b, 0)"
      using dbg by (simp add: swicc_dbg_disk_str_def)
    then show ?thesis using \<open>length b = ?e\<close> False l by simp
  next
    case True
    obtain b1 u1 where b1: "dbg_piece ?e buf ?e ?h = Some (True, b1, u1)" "written ?e buf ?e ?h b1 u1"
      using dbg_piece_fits [OF buf le_refl True] by blast
    have r1: "length b1 = ?e" "u1 \<le> ?e" "u1 = ?e - length ?h"
      using written_room [OF b1(2) le_refl] b1(2) by (simp_all add: written_def)
    note loop = disk_loop_run [OF ts r1(1,2), of bd 0]
    show ?thesis
    proof (cases "?ok \<and> length ?c \<le> u1")
      case no: False
      then obtain b u where b: "disk_str_loop bd 0 (d_root d) ?e b1 u1 = Some (SWICC_RET_BUFFER_TOO_SHORT, b, u)" "length b = ?e"
        using loop unfolding if_not_P [OF no] by blast
      have "swicc_dbg_disk_str bd buf n d = Some (SWICC_RET_BUFFER_TOO_SHORT, b, 0)"
        using dbg b1(1) b(1) by (simp add: swicc_dbg_disk_str_def)
      moreover have "\<not> (?ok \<and> length t < ?e)" using no l r1(3) by auto
      ultimately show ?thesis using b(2) by auto
    next
      case all: True
      then obtain b where b: "disk_str_loop bd 0 (d_root d) ?e b1 u1 = Some (SWICC_RET_SUCCESS, b, u1 - length ?c)"
        "written ?e b1 u1 ?c b (u1 - length ?c)" using loop by auto
      have r: "length b = ?e" "u1 - length ?c \<le> ?e" using written_room [OF b(2) r1(2)] by simp_all
      have w: "written ?e buf ?e (?h @ ?c) b (u1 - length ?c)" by (rule written_trans [OF b1(2) b(2)])
      show ?thesis
      proof (cases "u1 - length ?c < 4")
        case True
        have "swicc_dbg_disk_str bd buf n d = Some (SWICC_RET_BUFFER_TOO_SHORT, b, 0)"
          using dbg b1(1) b(1) True by (simp add: swicc_dbg_disk_str_def)
        moreover have "\<not> length t < ?e" using True l r1(3) by auto
        ultimately show ?thesis using r(1) by simp
      next
        case False
        have "?e - (u1 - length ?c) + length (disk_end_text @ [NUL]) \<le> length b" using r False by simp
        then obtain b3 where w3: "wrn b (?e - (u1 - length ?c)) (disk_end_text @ [NUL]) = Some b3" unfolding wrn_def by auto
        have "length t + 1 = ?e - (u1 - length ?c - 4)" "length t < ?e" using False l r1(3) all by simp_all
        moreover have "written ?e b (u1 - length ?c) (disk_end_text @ [NUL]) b3 (u1 - length ?c - length (disk_end_text @ [NUL]))"
          by (rule written_wrn [OF w3 r]) (use False in simp)
        then have "written ?e buf ?e ((?h @ ?c) @ disk_end_text @ [NUL]) b3 (u1 - length ?c - length (disk_end_text @ [NUL]))"
          by (rule written_trans [OF w])
        then have "written ?e buf ?e (t @ [NUL]) b3 (u1 - length ?c - length (disk_end_text @ [NUL]))"
          unfolding t_def disk_text_def append_assoc .
        then have "take (length t + 1) b3 = t @ [NUL]" "length b3 = ?e" by (auto simp: written_def)
        moreover have "swicc_dbg_disk_str bd buf n d = Some (SWICC_RET_SUCCESS, b3, word_of_nat (?e - (u1 - length ?c - 4)))"
          using dbg b1(1) b(1) w3 False by (simp add: swicc_dbg_disk_str_def)
        ultimately show ?thesis using all by simp
      qed
    qed
  qed
qed

text \<open>
  C38.  The string of a disk.  A disk whose folders are all empty is printed when the text and its null byte fit into
  the buffer.  A disk with a file in a folder is never printed, however long the buffer is: the function that prints
  an item calls itself with the folder instead of the file until the buffer is full.  Nothing is written outside of the buffer.
\<close>

theorem disk_str_printed:
  assumes "db_debug bd" and "forest_repr d ns" and "length buf = unat n"
  shows "let t = disk_text bd ns in
    if (\<forall>m \<in> set ns. files_of m = []) \<and> length t < unat n
    then \<exists>b. swicc_dbg_disk_str bd buf n d = Some (SWICC_RET_SUCCESS, b, word_of_nat (length t + 1)) \<and>
      take (length t + 1) b = t @ [NUL] \<and> length b = unat n
    else \<exists>b. swicc_dbg_disk_str bd buf n d = Some (SWICC_RET_BUFFER_TOO_SHORT, b, 0) \<and> length b = unat n"
  unfolding Let_def by (rule disk_str_run [OF assms])

theorem disk_str_printed_witness:
  "\<exists>b. swicc_dbg_disk_str \<lparr>db_debug = True, db_clr = False\<rparr> (replicate 65000 (CHR '' '')) 65000 demo_disk =
    Some (SWICC_RET_BUFFER_TOO_SHORT, b, 0)"
proof -
  have "n_type (n_hdr demo_mf) = SWICC_FS_ITEM_TYPE_FILE_MF" by (simp add: demo_mf_def demo_hdr_def)
  then have "forest_repr demo_disk [demo_mf]"
    by (simp add: forest_repr_def demo_disk_def tree_repr_def root_ok_def demo_mf_ok)
  moreover have "files_of demo_mf \<noteq> []" by (simp add: demo_mf_def demo_files_def)
  ultimately show ?thesis
    using disk_str_printed [of "\<lparr>db_debug = True, db_clr = False\<rparr>" demo_disk "[demo_mf]" "replicate 65000 (CHR '' '')" 65000]
    by (auto simp: Let_def)
qed

end
