(* ===== verification/Swicc_Dbg_Atr.thy ===== *)
theory Swicc_Dbg_Atr
  imports Swicc_Dbg
begin

text \<open>
  \<^verbatim>\<open>src/dbg/atr.c\<close>: the string of an answer to reset.  The decoder follows the chain of the interface bytes; the
  presence indicator of one chunk tells what is in the next one.
\<close>

section \<open>The state of the decoder\<close>

record swicc_atr_chunk =
  c_y :: "bool list"
  c_tabcd :: bytes
  c_k :: u8
  c_t :: u8

definition chunk_zero :: swicc_atr_chunk where
  "chunk_zero = \<lparr>c_y = replicate 4 False, c_tabcd = replicate 4 0, c_k = 0, c_t = 0\<rparr>"

text \<open>The local variables, with the buffer of the string and the number of characters that were to be written.\<close>

record atr_dec =
  a_chunk :: swicc_atr_chunk
  a_prev :: swicc_atr_chunk
  a_chunk_idx :: u8
  a_atr_idx :: u16
  a_last :: bool
  a_t0 :: bool
  a_t15 :: bool
  a_other :: bool
  a_buf :: string
  a_written :: nat

text \<open>
  One piece; \<open>room\<close> is the size of the buffer.  The check is made before the piece is written, so that
  the last piece may be cut.
\<close>

definition atr_put :: "nat \<Rightarrow> string \<Rightarrow> atr_dec \<Rightarrow> (swicc_ret \<times> atr_dec) option" where
  "atr_put room s a =
     (if int room - int (a_written a) < 0 then Some (SWICC_RET_BUFFER_TOO_SHORT, a)
      else do {
        (n, b) \<leftarrow> c_snprintf (a_buf a) (a_written a) (room - a_written a) s;
        Some (SWICC_RET_SUCCESS, a\<lparr>a_buf := b, a_written := a_written a + n\<rparr>) })"

text \<open>The rest of the function is left out after an error.\<close>

definition on_success ::
    "(swicc_ret \<times> atr_dec) option \<Rightarrow> (atr_dec \<Rightarrow> (swicc_ret \<times> atr_dec) option) \<Rightarrow> (swicc_ret \<times> atr_dec) option" where
  "on_success m k = do { (ret, a) \<leftarrow> m; if ret \<noteq> SWICC_RET_SUCCESS then Some (ret, a) else k a }"

definition y_count :: "bool list \<Rightarrow> nat" where
  "y_count y = length (filter (\<lambda>b. b) y)"

section \<open>One chunk\<close>

definition chunk_head_text :: "dbg_build \<Rightarrow> u8 \<Rightarrow> string" where
  "chunk_head_text bd idx =
     (if idx = 0 then NL @ ''  ('' @ CLR_KND bd ''T00'' @ '' ''
      else NL @ ''  ('' @ CLR_KND bd (''Ti'' @ fmt_u (unat idx - 1)) @ '' '')"

definition structural_present :: "atr_dec \<Rightarrow> bool" where
  "structural_present a \<longleftrightarrow> c_y (a_prev a) ! 3 \<or> a_chunk_idx a = 0"

text \<open>
  The byte with the presence indicator for the next chunk: T0 first, then the TD of the chunk.  Without one nothing
  follows.
\<close>

definition chunk_structural :: "bytes \<Rightarrow> atr_dec \<Rightarrow> atr_dec option" where
  "chunk_structural buf_atr a =
     (if structural_present a then do {
        let td_offset = y_count (take 3 (c_y (a_prev a)));
        b \<leftarrow> rd buf_atr (unat (a_atr_idx a) + td_offset);
        let y = drop_bit 4 b;
        let k_or_t = b AND 0x0F;
        let c = (a_chunk a)\<lparr>c_y := map (\<lambda>y_mask. y AND y_mask > 0) [1, 2, 4, 8]\<rparr>;
        let a1 = (if a_chunk_idx a = 0 then a\<lparr>a_chunk := c\<lparr>c_k := k_or_t\<rparr>\<rparr>
                  else if k_or_t = 0 then a\<lparr>a_chunk := c\<lparr>c_t := k_or_t\<rparr>, a_t0 := True\<rparr>
                  else if k_or_t = 15 then a\<lparr>a_chunk := c\<lparr>c_t := k_or_t\<rparr>, a_t15 := True\<rparr>
                  else a\<lparr>a_chunk := c\<lparr>c_t := k_or_t\<rparr>, a_other := True\<rparr>);
        Some (if a_chunk_idx a = 0 \<and> y = 0 then a1\<lparr>a_last := True\<rparr> else a1) }
      else Some (a\<lparr>a_chunk := (a_chunk a)\<lparr>c_y := replicate 4 False\<rparr>\<rparr>))"

text \<open>The interface bytes that are present are printed; \<open>n\<close> are left.  The result has the number of bytes.\<close>

fun iface_loop ::
    "dbg_build \<Rightarrow> nat \<Rightarrow> bytes \<Rightarrow> nat \<Rightarrow> nat \<Rightarrow> nat \<Rightarrow> atr_dec \<Rightarrow> (swicc_ret \<times> atr_dec \<times> nat) option" where
  "iface_loop bd room buf_atr y_idx 0 chunk_size a = Some (SWICC_RET_SUCCESS, a, chunk_size)"
| "iface_loop bd room buf_atr y_idx (Suc n) chunk_size a =
     (if c_y (a_prev a) ! y_idx then do {
        b \<leftarrow> rd buf_atr (unat (a_atr_idx a) + chunk_size);
        (ret, a1) \<leftarrow> atr_put room
          (NL @ ''    '' @ knd_val bd (''T'' @ [''ABCD'' ! y_idx] @ fmt_u (unat (a_chunk_idx a))) (''0x'' @ fmt_X 2 (unat b)))
          (a\<lparr>a_chunk := (a_chunk a)\<lparr>c_tabcd := (c_tabcd (a_chunk a))[y_idx := b]\<rparr>\<rparr>);
        if ret \<noteq> SWICC_RET_SUCCESS then Some (ret, a1, chunk_size)
        else iface_loop bd room buf_atr (y_idx + 1) n (chunk_size + 1) a1 }
      else iface_loop bd room buf_atr (y_idx + 1) n chunk_size
        (a\<lparr>a_chunk := (a_chunk a)\<lparr>c_tabcd := (c_tabcd (a_chunk a))[y_idx := 0]\<rparr>\<rparr>))"

definition chunk_bytes :: "dbg_build \<Rightarrow> nat \<Rightarrow> bytes \<Rightarrow> atr_dec \<Rightarrow> (swicc_ret \<times> atr_dec \<times> nat) option" where
  "chunk_bytes bd room buf_atr a =
     (if a_chunk_idx a = 0 then Some (SWICC_RET_SUCCESS, a, 1) else iface_loop bd room buf_atr 0 4 0 a)"

definition indicator :: "dbg_build \<Rightarrow> string \<Rightarrow> bool \<Rightarrow> string" where
  "indicator bd name b = ''('' @ CLR_KND bd name @ '' '' @ CLR_VAL bd (quoted (if b then ''yes'' else ''no'')) @ '')''"

definition chunk_y_text :: "dbg_build \<Rightarrow> u8 \<Rightarrow> bool list \<Rightarrow> string" where
  "chunk_y_text bd idx y = NL @ ''    ('' @ CLR_KND bd (''Y'' @ fmt_u (unat idx + 1)) @ '' '' @
     indicator bd ''A'' (y ! 0) @ '' '' @ indicator bd ''B'' (y ! 1) @ '' '' @
     indicator bd ''C'' (y ! 2) @ '' '' @ indicator bd ''D'' (y ! 3) @ '')''"

definition chunk_end_text :: "dbg_build \<Rightarrow> u8 \<Rightarrow> swicc_atr_chunk \<Rightarrow> string" where
  "chunk_end_text bd idx c =
     (if idx > 0 then NL @ ''    '' @ knd_val bd (''T'' @ fmt_u (unat idx + 1)) (fmt_u (unat (c_t c))) @ '')''
      else NL @ ''    '' @ knd_val bd ''K'' (fmt_u (unat (c_k c))) @ '')'')"

text \<open>The presence indicator is not printed for the last chunk; the check of the room is made all the same.\<close>

definition chunk_trailer :: "dbg_build \<Rightarrow> nat \<Rightarrow> bool \<Rightarrow> atr_dec \<Rightarrow> (swicc_ret \<times> atr_dec) option" where
  "chunk_trailer bd room structural a =
     (if int room - int (a_written a) < 0 then Some (SWICC_RET_BUFFER_TOO_SHORT, a)
      else if a_last a \<or> \<not> structural then atr_put room '')'' a
      else on_success (atr_put room (chunk_y_text bd (a_chunk_idx a) (c_y (a_chunk a))) a)
        (\<lambda>a1. atr_put room (chunk_end_text bd (a_chunk_idx a1) (a_chunk a1)) a1))"

definition atr_chunk :: "dbg_build \<Rightarrow> nat \<Rightarrow> bytes \<Rightarrow> atr_dec \<Rightarrow> (swicc_ret \<times> atr_dec) option" where
  "atr_chunk bd room buf_atr a = on_success (atr_put room (chunk_head_text bd (a_chunk_idx a)) a) (\<lambda>a0. do {
     let structural = structural_present a0;
     a1 \<leftarrow> chunk_structural buf_atr a0;
     (ret, a2, chunk_size) \<leftarrow> chunk_bytes bd room buf_atr a1;
     if ret \<noteq> SWICC_RET_SUCCESS then Some (ret, a2)
     else on_success (chunk_trailer bd room structural (a2\<lparr>a_prev := a_chunk a2\<rparr>)) (\<lambda>a3.
       let a4 = a3\<lparr>a_chunk_idx := a_chunk_idx a3 + 1\<rparr> in
       if unat (a_atr_idx a4) + chunk_size > 65535 then Some (SWICC_RET_ATR_INVALID, a4)
       else Some (SWICC_RET_SUCCESS, a4\<lparr>a_atr_idx := a_atr_idx a4 + word_of_nat chunk_size\<rparr>)) })"

section \<open>The whole answer\<close>

text \<open>The \<^verbatim>\<open>do\<close> loop; the bytes left bound the number of chunks, since a chunk that is printed has a byte.\<close>

partial_function (option) atr_chunks :: "dbg_build \<Rightarrow> nat \<Rightarrow> bytes \<Rightarrow> u16 \<Rightarrow> atr_dec \<Rightarrow> (swicc_ret \<times> atr_dec) option" where
  "atr_chunks bd room buf_atr buf_atr_len a =
     (if a_chunk_idx a > 0 \<and> y_count (c_y (a_prev a)) = 0 then Some (SWICC_RET_SUCCESS, a\<lparr>a_last := True\<rparr>)
      else do {
        (ret, a1) \<leftarrow> atr_chunk bd room buf_atr a;
        if ret \<noteq> SWICC_RET_SUCCESS then Some (ret, a1)
        else if int (unat (a_atr_idx a1)) < int (unat buf_atr_len) - 1 \<and> a_last a1 = False
        then atr_chunks bd room buf_atr buf_atr_len a1
        else Some (SWICC_RET_SUCCESS, a1) })"

definition hist_text :: "dbg_build \<Rightarrow> nat \<Rightarrow> u8 \<Rightarrow> string" where
  "hist_text bd idx b = NL @ ''  '' @
     knd_val bd (''T'' @ (if idx < 10 then ''0'' else []) @ fmt_u idx) (''0x'' @ fmt_X 2 (unat b))"

text \<open>The historical bytes; \<open>n\<close> are left.\<close>

fun hist_loop :: "dbg_build \<Rightarrow> nat \<Rightarrow> bytes \<Rightarrow> nat \<Rightarrow> nat \<Rightarrow> atr_dec \<Rightarrow> (swicc_ret \<times> atr_dec) option" where
  "hist_loop bd room buf_atr hist_idx 0 a = Some (SWICC_RET_SUCCESS, a)"
| "hist_loop bd room buf_atr hist_idx (Suc n) a =
     (if int room - int (a_written a) < 0 then Some (SWICC_RET_BUFFER_TOO_SHORT, a)
      else do {
        b \<leftarrow> rd buf_atr (unat (a_atr_idx a) + hist_idx);
        (ret, a1) \<leftarrow> atr_put room (hist_text bd (hist_idx + 1) b) a;
        hist_loop bd room buf_atr (hist_idx + 1) n a1 })"

text \<open>
  The check byte is expected when a protocol other than T=0 has been seen, but also when none has been seen.  Without
  one the last piece is written without a check of the room, which is out of bounds when the text was cut.
\<close>

definition tck_text :: "dbg_build \<Rightarrow> string \<Rightarrow> string" where
  "tck_text bd s = NL @ ''  '' @ knd_val bd ''TCK'' (quoted s) @ '')''"

definition atr_tck :: "dbg_build \<Rightarrow> nat \<Rightarrow> bytes \<Rightarrow> u16 \<Rightarrow> atr_dec \<Rightarrow> (swicc_ret \<times> atr_dec) option" where
  "atr_tck bd room buf_atr buf_atr_len a =
     (if \<not> (a_t0 a \<and> \<not> a_t15 a \<and> \<not> a_other a) then
        (if int room - int (a_written a) < 0 then Some (SWICC_RET_BUFFER_TOO_SHORT, a)
         else if a_atr_idx a \<ge> buf_atr_len then do {
           (_, a1) \<leftarrow> atr_put room (tck_text bd ''missing'') a;
           Some (SWICC_RET_ATR_INVALID, a1) }
         else do {
           tck \<leftarrow> swicc_ck (drop 1 buf_atr) (ucast (ucast (buf_atr_len - 1) :: u8));
           atr_put room (tck_text bd (if tck \<noteq> 0 then ''invalid'' else ''valid'') @ NL) a })
      else if a_written a > room then None
      else atr_put room '')'' a)"

definition swicc_dbg_atr_str :: "dbg_build \<Rightarrow> string \<Rightarrow> u16 \<Rightarrow> bytes \<Rightarrow> u16 \<Rightarrow> (swicc_ret \<times> string \<times> u16) option" where
  "swicc_dbg_atr_str bd buf_str buf_str_len buf_atr buf_atr_len =
     (if \<not> db_debug bd then Some (SWICC_RET_SUCCESS, buf_str, 0)
      else do {
        let room = unat buf_str_len;
        let a0 = \<lparr>a_chunk = chunk_zero, a_prev = chunk_zero, a_chunk_idx = 0, a_atr_idx = 1, a_last = False,
                  a_t0 = False, a_t15 = False, a_other = False, a_buf = buf_str, a_written = 0\<rparr>;
        (ret, a) \<leftarrow> on_success (atr_put room (''('' @ CLR_KND bd ''ATR'' @ '' '') a0) (\<lambda>a1.
          if buf_atr_len < 2 then do {
            (ret, a2) \<leftarrow> atr_put room (CLR_VAL bd ''???'' @ '')'' @ NL) a1;
            Some (if ret \<noteq> SWICC_RET_SUCCESS then ret else SWICC_RET_ATR_INVALID, a2) }
          else on_success (atr_chunks bd room buf_atr buf_atr_len a1) (\<lambda>a2.
            on_success (hist_loop bd room buf_atr 0 (unat (c_k (a_chunk a2))) a2) (\<lambda>a3.
              if unat (a_atr_idx a3) + unat (c_k (a_chunk a3)) > 65535 then Some (SWICC_RET_ATR_INVALID, a3)
              else atr_tck bd room buf_atr buf_atr_len (a3\<lparr>a_atr_idx := a_atr_idx a3 + ucast (c_k (a_chunk a3))\<rparr>))));
        Some (ret, a_buf a, if ret = SWICC_RET_SUCCESS then word_of_nat (a_written a) else buf_str_len) })"

section \<open>Answers without interface bytes\<close>

text \<open>The text has been put together so far; what did not fit has been cut.\<close>

definition at_text :: "nat \<Rightarrow> string \<Rightarrow> atr_dec \<Rightarrow> bool" where
  "at_text room t a \<longleftrightarrow> length (a_buf a) = room \<and> a_written a = length t \<and>
     (length t < room \<longrightarrow> take (length t) (a_buf a) = t)"

lemma atr_put_text:
  assumes "at_text room t a" "length t \<le> room"
  obtains b where "atr_put room s a = Some (SWICC_RET_SUCCESS, a\<lparr>a_buf := b, a_written := length (t @ s)\<rparr>)"
    "at_text room (t @ s) (a\<lparr>a_buf := b, a_written := length (t @ s)\<rparr>)"
proof -
  have a: "length (a_buf a) = room" "a_written a = length t" using assms(1) by (simp_all add: at_text_def)
  obtain b where b: "c_snprintf (a_buf a) (length t) (room - length t) s = Some (length s, b)" "length b = room"
    "length t + length s < room \<longrightarrow> take (length t + length s) b = take (length t) (a_buf a) @ s"
    using snprintf_run [OF a(1) assms(2), of s] by blast
  have "atr_put room s a = Some (SWICC_RET_SUCCESS, a\<lparr>a_buf := b, a_written := length (t @ s)\<rparr>)"
    using a(2) b(1) assms(2) by (simp add: atr_put_def)
  moreover have "at_text room (t @ s) (a\<lparr>a_buf := b, a_written := length (t @ s)\<rparr>)"
    using assms(1) b(2,3) by (simp add: at_text_def)
  ultimately show ?thesis by (rule that)
qed

fun hists_text :: "dbg_build \<Rightarrow> nat \<Rightarrow> bytes \<Rightarrow> string" where
  "hists_text bd i [] = []"
| "hists_text bd i (h # hs) = hist_text bd (i + 1) h @ hists_text bd (i + 1) hs"

lemma hist_loop_text:
  assumes "drop (unat (a_atr_idx a) + i) buf_atr = hs @ rest" "at_text room t a" "length (t @ hists_text bd i hs) \<le> room"
  obtains b where "hist_loop bd room buf_atr i (length hs) a =
      Some (SWICC_RET_SUCCESS, a\<lparr>a_buf := b, a_written := length (t @ hists_text bd i hs)\<rparr>)"
    "at_text room (t @ hists_text bd i hs) (a\<lparr>a_buf := b, a_written := length (t @ hists_text bd i hs)\<rparr>)"
  using assms
proof (induction hs arbitrary: i t a thesis)
  case Nil
  have "a_written a = length t" using Nil.prems(3) by (simp add: at_text_def)
  then have "a\<lparr>a_buf := a_buf a, a_written := length t\<rparr> = a" by simp
  then show ?case using Nil.prems(1) [of "a_buf a"] Nil.prems(3) by simp
next
  case (Cons h hs)
  have d: "drop (unat (a_atr_idx a) + i) buf_atr = h # hs @ rest" using Cons.prems(2) by simp
  have le: "length t \<le> room" using Cons.prems(4) by simp
  obtain b where b: "atr_put room (hist_text bd (i + 1) h) a =
      Some (SWICC_RET_SUCCESS, a\<lparr>a_buf := b, a_written := length (t @ hist_text bd (i + 1) h)\<rparr>)"
    "at_text room (t @ hist_text bd (i + 1) h) (a\<lparr>a_buf := b, a_written := length (t @ hist_text bd (i + 1) h)\<rparr>)"
    using atr_put_text [OF Cons.prems(3) le] by blast
  let ?a = "a\<lparr>a_buf := b, a_written := length (t @ hist_text bd (i + 1) h)\<rparr>"
  have d': "drop (unat (a_atr_idx ?a) + (i + 1)) buf_atr = hs @ rest" using drop_more_Cons [OF d] by simp
  have le': "length ((t @ hist_text bd (i + 1) h) @ hists_text bd (i + 1) hs) \<le> room" using Cons.prems(4) by simp
  obtain b' where b': "hist_loop bd room buf_atr (i + 1) (length hs) ?a =
      Some (SWICC_RET_SUCCESS, ?a\<lparr>a_buf := b', a_written := length ((t @ hist_text bd (i + 1) h) @ hists_text bd (i + 1) hs)\<rparr>)"
    "at_text room ((t @ hist_text bd (i + 1) h) @ hists_text bd (i + 1) hs)
      (?a\<lparr>a_buf := b', a_written := length ((t @ hist_text bd (i + 1) h) @ hists_text bd (i + 1) hs)\<rparr>)"
    using Cons.IH [OF _ d' b(2) le'] by blast
  have "a_written a \<le> room" using Cons.prems(3) le by (simp add: at_text_def)
  then have "hist_loop bd room buf_atr i (length (h # hs)) a = hist_loop bd room buf_atr (i + 1) (length hs) ?a"
    using b(1) rd_drop [OF d] by simp
  then show ?case using Cons.prems(1) [of b'] b' by simp
qed

text \<open>The bytes are read where the answer should have them, also behind its end.\<close>

lemma hist_loop_overread:
  assumes "drop (unat (a_atr_idx a) + i) buf_atr = hs" "at_text room t a" "length (t @ hists_text bd i hs) \<le> room" "length hs < n"
  shows "hist_loop bd room buf_atr i n a = None"
  using assms
proof (induction hs arbitrary: i t a n)
  case Nil
  then have "rd buf_atr (unat (a_atr_idx a) + i) = None" by (simp add: rd_None)
  moreover have "a_written a \<le> room" using Nil.prems(2,3) by (simp add: at_text_def)
  ultimately show ?case using Nil.prems(4) by (cases n) simp_all
next
  case (Cons h hs)
  have le: "length t \<le> room" using Cons.prems(3) by simp
  obtain m where n: "n = Suc m" using Cons.prems(4) by (cases n) auto
  obtain b where b: "atr_put room (hist_text bd (i + 1) h) a =
      Some (SWICC_RET_SUCCESS, a\<lparr>a_buf := b, a_written := length (t @ hist_text bd (i + 1) h)\<rparr>)"
    "at_text room (t @ hist_text bd (i + 1) h) (a\<lparr>a_buf := b, a_written := length (t @ hist_text bd (i + 1) h)\<rparr>)"
    using atr_put_text [OF Cons.prems(2) le] by blast
  let ?a = "a\<lparr>a_buf := b, a_written := length (t @ hist_text bd (i + 1) h)\<rparr>"
  have "hist_loop bd room buf_atr (i + 1) m ?a = None"
  proof (rule Cons.IH [OF _ b(2)])
    show "drop (unat (a_atr_idx ?a) + (i + 1)) buf_atr = hs" using drop_more_Cons [OF Cons.prems(1)] by simp
    show "length ((t @ hist_text bd (i + 1) h) @ hists_text bd (i + 1) hs) \<le> room" using Cons.prems(3) by simp
    show "length hs < m" using Cons.prems(4) n by simp
  qed
  moreover have "a_written a \<le> room" using Cons.prems(2) le by (simp add: at_text_def)
  ultimately show ?case using b(1) rd_drop [OF Cons.prems(1)] by (simp add: n)
qed

text \<open>The state after the format byte, when it says that there are no interface bytes.\<close>

definition atr_begin_text :: "dbg_build \<Rightarrow> string" where
  "atr_begin_text bd = (''('' @ CLR_KND bd ''ATR'' @ '' '') @ chunk_head_text bd 0 @ '')''"

lemma format_byte:
  assumes "k < 16"
  shows "drop_bit 4 (word_of_nat k :: u8) = 0" "(word_of_nat k :: u8) AND 0x0F = word_of_nat k" "unat (word_of_nat k :: u8) = k"
proof -
  have bits: "\<forall>k \<in> set [0..<16]. drop_bit 4 (word_of_nat k :: u8) = 0 \<and> (word_of_nat k :: u8) AND 0x0F = word_of_nat k"
    by code_simp
  show u: "unat (word_of_nat k :: u8) = k" by (rule unat_of_nat_u8) (use assms in simp)
  show "drop_bit 4 (word_of_nat k :: u8) = 0" "(word_of_nat k :: u8) AND 0x0F = word_of_nat k"
    using bits assms by auto
qed

lemma atr_chunk_format:
  assumes "at_text room t a" "length (t @ chunk_head_text bd 0) \<le> room" "rd buf_atr 1 = Some (word_of_nat k)" "k < 16"
    and a: "a_chunk_idx a = 0" "a_atr_idx a = 1" "c_y (a_prev a) = replicate 4 False"
  obtains a' where "atr_chunk bd room buf_atr a = Some (SWICC_RET_SUCCESS, a')"
    "at_text room (t @ chunk_head_text bd 0 @ '')'') a'" "a_last a'" "a_atr_idx a' = 2" "c_k (a_chunk a') = word_of_nat k"
    "a_t0 a' = a_t0 a" "a_t15 a' = a_t15 a" "a_other a' = a_other a"
proof -
  let ?h = "chunk_head_text bd 0"
  have le: "length t \<le> room" using assms(2) by simp
  obtain b where b: "atr_put room ?h a = Some (SWICC_RET_SUCCESS, a\<lparr>a_buf := b, a_written := length (t @ ?h)\<rparr>)"
    "at_text room (t @ ?h) (a\<lparr>a_buf := b, a_written := length (t @ ?h)\<rparr>)"
    using atr_put_text [OF assms(1) le] by blast
  let ?a0 = "a\<lparr>a_buf := b, a_written := length (t @ ?h)\<rparr>"
  define c where "c = (a_chunk a)\<lparr>c_y := replicate 4 False, c_k := word_of_nat k\<rparr>"
  have r4: "replicate 4 False = [False, False, False, False]" by (simp add: eval_nat_numeral)
  have st: "chunk_structural buf_atr ?a0 = Some (?a0\<lparr>a_chunk := c, a_last := True\<rparr>)"
    using a assms(3) format_byte [OF assms(4)]
    by (simp add: chunk_structural_def structural_present_def y_count_def c_def Let_def r4)
  let ?a2 = "?a0\<lparr>a_chunk := c, a_last := True, a_prev := c\<rparr>"
  have "at_text room (t @ ?h) ?a2" using b(2) by (simp add: at_text_def)
  from atr_put_text [OF this assms(2)] obtain b2 where b2: "atr_put room '')'' ?a2 =
      Some (SWICC_RET_SUCCESS, ?a2\<lparr>a_buf := b2, a_written := length ((t @ ?h) @ '')'')\<rparr>)"
    "at_text room ((t @ ?h) @ '')'') (?a2\<lparr>a_buf := b2, a_written := length ((t @ ?h) @ '')'')\<rparr>)"
    by blast
  let ?a3 = "?a2\<lparr>a_buf := b2, a_written := length ((t @ ?h) @ '')'')\<rparr>"
  let ?a' = "?a3\<lparr>a_chunk_idx := 1, a_atr_idx := 2\<rparr>"
  have tr: "chunk_trailer bd room (structural_present ?a0) ?a2 = Some (SWICC_RET_SUCCESS, ?a3)"
    using b2(1) assms(2) by (simp add: chunk_trailer_def)
  have "atr_chunk bd room buf_atr a = Some (SWICC_RET_SUCCESS, ?a')"
    unfolding atr_chunk_def on_success_def using b(1) st tr a
    by (simp add: Let_def chunk_bytes_def)
  moreover have "at_text room (t @ ?h @ '')'') ?a'" using b2(2) by (simp add: at_text_def)
  ultimately show ?thesis by (rule that) (simp_all add: c_def)
qed

lemma byte_to_u16: "m < 256 \<Longrightarrow> ucast (word_of_nat m :: u8) = (word_of_nat m :: u16)"
  by (auto simp: word_unat_eq_iff unat_of_nat unsigned_ucast_eq take_bit_eq_mod)

lemma u16_to_byte: "m < 256 \<Longrightarrow> ucast (word_of_nat m :: u16) = (word_of_nat m :: u8)"
  by (auto simp: word_unat_eq_iff unat_of_nat unsigned_ucast_eq take_bit_eq_mod)

text \<open>What remains to be done after the format byte.\<close>

definition atr_rest :: "dbg_build \<Rightarrow> nat \<Rightarrow> bytes \<Rightarrow> u16 \<Rightarrow> nat \<Rightarrow> atr_dec \<Rightarrow> (swicc_ret \<times> atr_dec) option" where
  "atr_rest bd room atr len k a = on_success (hist_loop bd room atr 0 k a)
     (\<lambda>a3. atr_tck bd room atr len (a3\<lparr>a_atr_idx := word_of_nat (k + 2)\<rparr>))"

lemma hist_loop_keeps:
  "hist_loop bd room atr i n a = Some (ret, a') \<Longrightarrow> a_atr_idx a' = a_atr_idx a \<and> a_chunk a' = a_chunk a"
  by (induction n arbitrary: i a) (auto simp: atr_put_def split: if_splits bind_splits)

lemma atr_format_run:
  assumes "db_debug bd" and buf: "length buf = unat n" and "rd atr 1 = Some (word_of_nat k)" "k < 16" "\<not> len < 2"
    and room: "length (atr_begin_text bd) \<le> unat n"
  obtains a where "at_text (unat n) (atr_begin_text bd) a" "a_atr_idx a = 2" "\<not> a_t0 a"
    "swicc_dbg_atr_str bd buf n atr len = do {
       (ret, a) \<leftarrow> atr_rest bd (unat n) atr len k a;
       Some (ret, a_buf a, if ret = SWICC_RET_SUCCESS then word_of_nat (a_written a) else n) }"
proof -
  let ?r = "unat n" and ?h0 = "''('' @ CLR_KND bd ''ATR'' @ '' ''"
  define a0 where "a0 = \<lparr>a_chunk = chunk_zero, a_prev = chunk_zero, a_chunk_idx = 0, a_atr_idx = 1, a_last = False,
    a_t0 = False, a_t15 = False, a_other = False, a_buf = buf, a_written = 0\<rparr>"
  have "at_text ?r [] a0" using buf by (simp add: at_text_def a0_def)
  then obtain b1 where b1: "atr_put ?r ?h0 a0 = Some (SWICC_RET_SUCCESS, a0\<lparr>a_buf := b1, a_written := length ?h0\<rparr>)"
    "at_text ?r ?h0 (a0\<lparr>a_buf := b1, a_written := length ?h0\<rparr>)"
    using atr_put_text [of ?r "[]" a0 ?h0] by auto
  let ?a1 = "a0\<lparr>a_buf := b1, a_written := length ?h0\<rparr>"
  have room1: "length (?h0 @ chunk_head_text bd 0) \<le> ?r" using room by (simp add: atr_begin_text_def)
  obtain a where a: "atr_chunk bd ?r atr ?a1 = Some (SWICC_RET_SUCCESS, a)" "at_text ?r (?h0 @ chunk_head_text bd 0 @ '')'') a"
    "a_last a" "a_atr_idx a = 2" "c_k (a_chunk a) = word_of_nat k"
    "a_t0 a = a_t0 ?a1" "a_t15 a = a_t15 ?a1" "a_other a = a_other ?a1"
    using atr_chunk_format [OF b1(2) room1 assms(3,4)] by (auto simp: a0_def chunk_zero_def)
  have chunks: "atr_chunks bd ?r atr len ?a1 = Some (SWICC_RET_SUCCESS, a)"
    by (subst atr_chunks.simps) (use a(1,3) in \<open>simp add: a0_def\<close>)
  have idx: "2 + ucast (word_of_nat k :: u8) = (word_of_nat (k + 2) :: u16)" using byte_to_u16 [of k] assms(4) by simp
  have rest: "on_success (hist_loop bd ?r atr 0 k a) (\<lambda>a3.
        if unat (a_atr_idx a3) + unat (c_k (a_chunk a3)) > 65535 then Some (SWICC_RET_ATR_INVALID, a3)
        else atr_tck bd ?r atr len (a3\<lparr>a_atr_idx := a_atr_idx a3 + ucast (c_k (a_chunk a3))\<rparr>)) =
      atr_rest bd ?r atr len k a"
    using a(4,5) assms(4) format_byte(3) [OF assms(4)] idx
    by (cases "hist_loop bd ?r atr 0 k a") (auto simp: atr_rest_def on_success_def dest!: hist_loop_keeps)
  have "swicc_dbg_atr_str bd buf n atr len = do {
       (ret, a) \<leftarrow> atr_rest bd (unat n) atr len k a;
       Some (ret, a_buf a, if ret = SWICC_RET_SUCCESS then word_of_nat (a_written a) else n) }"
    using assms(1,5) b1(1) chunks format_byte(3) [OF assms(4)] a(5) rest
    by (simp add: swicc_dbg_atr_str_def on_success_def [of "Some _"] a0_def [symmetric])
  with a(2,4,6) show ?thesis by (intro that [of a]) (simp_all add: atr_begin_text_def a0_def)
qed

lemma atr_tck_missing:
  assumes "at_text room t a" "length t \<le> room" "\<not> a_t0 a" "a_atr_idx a \<ge> len"
  obtains a' where "atr_tck bd room atr len a = Some (SWICC_RET_ATR_INVALID, a')" "length (a_buf a') = room"
proof -
  obtain b where b: "atr_put room (tck_text bd ''missing'') a =
      Some (SWICC_RET_SUCCESS, a\<lparr>a_buf := b, a_written := length (t @ tck_text bd ''missing'')\<rparr>)"
    "at_text room (t @ tck_text bd ''missing'') (a\<lparr>a_buf := b, a_written := length (t @ tck_text bd ''missing'')\<rparr>)"
    using atr_put_text [OF assms(1,2)] by blast
  have "a_written a \<le> room" using assms(1,2) by (simp add: at_text_def)
  then have "atr_tck bd room atr len a =
      Some (SWICC_RET_ATR_INVALID, a\<lparr>a_buf := b, a_written := length (t @ tck_text bd ''missing'')\<rparr>)"
    using assms(3,4) b(1) by (simp add: atr_tck_def)
  then show ?thesis by (rule that) (use b(2) in \<open>simp add: at_text_def\<close>)
qed

lemma ck_whole:
  assumes "length atr \<le> 256" "atr \<noteq> []"
  shows "swicc_ck (drop 1 atr) (ucast (ucast (word_of_nat (length atr) - 1 :: u16) :: u8)) = Some (xor_all (tl atr))"
proof -
  have l: "length (tl atr) < 256" using assms by simp
  have "(word_of_nat (length atr) - 1 :: u16) = word_of_nat (length (tl atr))" using assms(2) by (cases atr) simp_all
  moreover have "(ucast (word_of_nat (length (tl atr)) :: u16) :: u8) = word_of_nat (length (tl atr))" by (rule u16_to_byte [OF l])
  ultimately have "ucast (ucast (word_of_nat (length atr) - 1 :: u16) :: u8) = (word_of_nat (length (tl atr)) :: u16)"
    using byte_to_u16 [OF l] by simp
  moreover have "unat (word_of_nat (length (tl atr)) :: u16) = length (tl atr)" by (rule unat_of_nat_u16) (use l in simp)
  ultimately show ?thesis using swicc_ck_eq [of "word_of_nat (length (tl atr))" "tl atr"] by (simp add: drop_Suc)
qed

definition tck_string :: "dbg_build \<Rightarrow> bytes \<Rightarrow> string" where
  "tck_string bd checked = tck_text bd (if xor_all checked \<noteq> 0 then ''invalid'' else ''valid'') @ NL"

lemma atr_tck_checked:
  assumes "at_text room t a" "length t \<le> room" "\<not> a_t0 a" "a_atr_idx a < word_of_nat (length atr)" "length atr \<le> 256" "atr \<noteq> []"
  obtains a' where "atr_tck bd room atr (word_of_nat (length atr)) a = Some (SWICC_RET_SUCCESS, a')"
    "at_text room (t @ tck_string bd (tl atr)) a'"
proof -
  let ?s = "tck_string bd (tl atr)"
  obtain b where b: "atr_put room ?s a = Some (SWICC_RET_SUCCESS, a\<lparr>a_buf := b, a_written := length (t @ ?s)\<rparr>)"
    "at_text room (t @ ?s) (a\<lparr>a_buf := b, a_written := length (t @ ?s)\<rparr>)"
    using atr_put_text [OF assms(1,2)] by blast
  have "a_written a \<le> room" using assms(1,2) by (simp add: at_text_def)
  then have "atr_tck bd room atr (word_of_nat (length atr)) a = Some (SWICC_RET_SUCCESS, a\<lparr>a_buf := b, a_written := length (t @ ?s)\<rparr>)"
    using assms(3,4) b(1) ck_whole [OF assms(5,6)] by (simp add: atr_tck_def tck_string_def not_le [symmetric])
  then show ?thesis using b(2) by (rule that)
qed

definition atr_hist_text :: "dbg_build \<Rightarrow> bytes \<Rightarrow> string" where
  "atr_hist_text bd hs = atr_begin_text bd @ hists_text bd 0 hs"

lemma atr_no_iface_run:
  fixes bd :: dbg_build and ts :: u8 and body :: bytes
  assumes dbg: "db_debug bd" and buf: "length buf = unat n" and k: "k < 16" and body: "length body < 255"
    and room: "length (atr_hist_text bd (take k body)) \<le> unat n"
  defines "atr \<equiv> ts # word_of_nat k # body"
  defines "t \<equiv> atr_hist_text bd (take k body) @ tck_string bd (tl atr)"
  shows "if length body < k then swicc_dbg_atr_str bd buf n atr (word_of_nat (length atr)) = None
    else \<exists>b. swicc_dbg_atr_str bd buf n atr (word_of_nat (length atr)) =
        (if length body = k then Some (SWICC_RET_ATR_INVALID, b, n) else Some (SWICC_RET_SUCCESS, b, word_of_nat (length t))) \<and>
      length b = unat n \<and> (length body \<noteq> k \<and> length t < unat n \<longrightarrow> take (length t) b = t)"
proof -
  let ?r = "unat n" and ?len = "word_of_nat (length atr) :: u16" and ?t = "atr_hist_text bd (take k body)"
  have len: "unat ?len = length body + 2" unfolding atr_def by (subst unat_of_nat_u16) (use body in simp_all)
  have ge: "\<not> ?len < 2" using len by (simp add: word_less_nat_alt)
  have rd1: "rd atr 1 = Some (word_of_nat k)" by (simp add: atr_def rd_def)
  have room1: "length (atr_begin_text bd) \<le> ?r" using room by (simp add: atr_hist_text_def)
  obtain a where a: "at_text ?r (atr_begin_text bd) a" "a_atr_idx a = 2" "\<not> a_t0 a"
    "swicc_dbg_atr_str bd buf n atr ?len = do {
       (ret, a) \<leftarrow> atr_rest bd ?r atr ?len k a;
       Some (ret, a_buf a, if ret = SWICC_RET_SUCCESS then word_of_nat (a_written a) else n) }"
    using atr_format_run [OF dbg buf rd1 k ge room1] by blast
  have d: "drop (unat (a_atr_idx a) + 0) atr = take k body @ drop k body" using a(2) by (simp add: atr_def)
  show ?thesis
  proof (cases "length body < k")
    case True
    then have "hist_loop bd ?r atr 0 k a = None"
      using hist_loop_overread [OF _ a(1), of 0 atr body bd k] d room by (simp add: atr_hist_text_def)
    then show ?thesis using True a(4) by (simp add: atr_rest_def on_success_def)
  next
    case False
    have lk: "length (take k body) = k" using False by simp
    obtain b where b: "hist_loop bd ?r atr 0 k a = Some (SWICC_RET_SUCCESS, a\<lparr>a_buf := b, a_written := length ?t\<rparr>)"
      "at_text ?r ?t (a\<lparr>a_buf := b, a_written := length ?t\<rparr>)"
      using hist_loop_text [OF d a(1), of bd, folded atr_hist_text_def, OF room, unfolded lk] by blast
    let ?a = "a\<lparr>a_buf := b, a_written := length ?t, a_atr_idx := word_of_nat (k + 2)\<rparr>"
    have t4: "at_text ?r ?t ?a" using b(2) by (simp add: at_text_def)
    have t0: "\<not> a_t0 ?a" using a(3) by simp
    have idx: "unat (a_atr_idx ?a) = k + 2" using unat_of_nat_u16 [of "k + 2"] k by simp
    have rest: "atr_rest bd ?r atr ?len k a = atr_tck bd ?r atr ?len ?a" using b(1) by (simp add: atr_rest_def on_success_def)
    show ?thesis
    proof (cases "length body = k")
      case True
      then have "a_atr_idx ?a \<ge> ?len" using idx len by (simp add: word_le_nat_alt)
      then obtain a' where "atr_tck bd ?r atr ?len ?a = Some (SWICC_RET_ATR_INVALID, a')" "length (a_buf a') = ?r"
        using atr_tck_missing [OF t4 room t0, of ?len bd atr] by blast
      then show ?thesis using True rest a(4) by simp
    next
      case more: False
      then have "a_atr_idx ?a < ?len" using idx len False by (simp add: word_less_nat_alt)
      then obtain a' where "atr_tck bd ?r atr ?len ?a = Some (SWICC_RET_SUCCESS, a')" "at_text ?r t a'"
        using atr_tck_checked [OF t4 room t0, of atr bd, folded t_def] body by (auto simp: atr_def)
      then show ?thesis using False more rest a(4) by (auto simp: at_text_def)
    qed
  qed
qed

text \<open>
  C40.  The string of an answer to reset without interface bytes, so with the default protocol T=0.  When it ends before the historical
  bytes that its format byte announces, the decoder reads behind it.  It then wants a check byte:
  the answer that ends with its historical bytes, as the standard has it for T=0, is reported as not valid.  With a byte more it is
  printed, with the result of the exclusive or of all bytes after the first one; the text may be cut at the end of the buffer, the length
  that is reported is that of the whole text.
\<close>

theorem atr_str_no_interface:
  assumes "db_debug bd" and "length buf = unat n" and "k < 16" and "length body < 255"
    and "length (atr_hist_text bd (take k body)) \<le> unat n"
  shows "let atr = ts # word_of_nat k # body; t = atr_hist_text bd (take k body) @ tck_string bd (tl atr) in
    if length body < k then swicc_dbg_atr_str bd buf n atr (word_of_nat (length atr)) = None
    else \<exists>b. swicc_dbg_atr_str bd buf n atr (word_of_nat (length atr)) =
        (if length body = k then Some (SWICC_RET_ATR_INVALID, b, n) else Some (SWICC_RET_SUCCESS, b, word_of_nat (length t))) \<and>
      length b = unat n \<and> (length body \<noteq> k \<and> length t < unat n \<longrightarrow> take (length t) b = t)"
  unfolding Let_def by (rule atr_no_iface_run [OF assms])

theorem atr_str_no_interface_witness:
  "\<exists>b. swicc_dbg_atr_str \<lparr>db_debug = True, db_clr = False\<rparr> (replicate 100 (CHR '' '')) 100 [0x3B, 0x00] 2 =
    Some (SWICC_RET_ATR_INVALID, b, 100)"
proof -
  let ?bd = "\<lparr>db_debug = True, db_clr = False\<rparr>"
  have "length (atr_hist_text ?bd (take 0 [])) \<le> unat (100 :: u16)"
    by (simp add: atr_hist_text_def atr_begin_text_def chunk_head_text_def CLR_KND_def esc_def)
  then show ?thesis
    using atr_str_no_interface [of ?bd "replicate 100 (CHR '' '')" 100 0 "[]" "0x3B"] by (simp add: Let_def) blast
qed

end
