(* ===== verification/Spec2Isabelle.thy ===== *)
theory Spec2Isabelle
  imports Swicc_Apdu Swicc_Apdu_Rc Swicc_Pps Swicc_Dato Swicc_Io Swicc_Fs_Common Swicc_Lut
    Swicc_Disk Swicc_Disk_Tables Swicc_Va Swicc_Va_Path Swicc_State Swicc_Fs Swicc_Apduh Swicc_Fsm Swicc_Run Swicc_Exchange
    Swicc_Commands Swicc_Records Swicc_Negotiation Swicc_Mock Swicc_Select Swicc_Diskjs_Spec Swicc_Disk_File
    Swicc_Net_Server Swicc_Net_Spec Swicc_Server_Dummy_Spec Swicc_Dbg_Net Swicc_Dbg_Fs Swicc_Dbg_Atr
begin

text \<open>
  A model of swICC, a smart card (ICC, UICC) in software, written in C.

  \<^bold>\<open>The program.\<close>
  A card is the structure \<^verbatim>\<open>swicc_st\<close>.  An interface device sets the contacts and the receive buffer of a
  card and calls \<^verbatim>\<open>swicc_io\<close>; every call makes one step of a state machine (\<^verbatim>\<open>src/fsm.c\<close>).  The machine
  goes through activation, cold reset and the answer to reset (\<^verbatim>\<open>src/atr.c\<close>), negotiates transmission
  parameters (\<^verbatim>\<open>src/pps.c\<close>, tables of \<^verbatim>\<open>src/io.c\<close>) and then serves commands: the five header bytes are collected and
  parsed (\<^verbatim>\<open>src/tpdu.c\<close>, \<^verbatim>\<open>src/apdu.c\<close>), a handler is chosen and called (\<^verbatim>\<open>src/apduh.c\<close>), a procedure byte
  asks for the data, and the response is written into the transmit buffer.  The handlers work on the
  validity area (\<^verbatim>\<open>src/fs/va.c\<close>), i.e. the currently selected MF, DF, EF and record of a disk
  (\<^verbatim>\<open>src/fs/disk.c\<close>), report a selected file as BER-TLV data objects (\<^verbatim>\<open>src/fs.c\<close>, \<^verbatim>\<open>src/dato.c\<close>) and keep
  long responses in a response buffer (\<^verbatim>\<open>src/apdu_rc.c\<close>) that GET RESPONSE empties.  A disk is a list of trees, each
  one byte buffer of nested items (\<^verbatim>\<open>src/fs/common.c\<close>) with a lookup table of short file identifiers;
  a table of file identifiers belongs to the disk.  Disks are created from a JSON description (\<^verbatim>\<open>src/fs/diskjs.c\<close>)
  or loaded from a file.  \<^verbatim>\<open>src/mock.c\<close> is an interface device that resets a card, and \<^verbatim>\<open>src/net.c\<close> connects
  a card to a server over a socket, with messages that either control the card or carry its bytes.

  \<^bold>\<open>Conventions\<close> (\<open>Swicc_Prelude\<close>).
  Integers have the width they have in C (\<open>u8\<close>, \<open>u16\<close>, \<open>u32\<close>) and wrap around; buffers are byte lists,
  accessed with \<open>rd\<close>, \<open>wr\<close>, \<open>rdn\<close> and \<open>wrn\<close>, which are \<open>None\<close> out of bounds.  A C function that may run into undefined
  behaviour or a failed \<^verbatim>\<open>assert\<close>, or that may not return, is a function into an option type, so that \<open>Some\<close> in a
  theorem says that it returns and stays in its buffers.  Return codes are values of \<open>swicc_ret\<close>, out parameters are
  results, the state is passed explicitly, and memory that is not initialised is a parameter.
  Structures are records with a prefix for each (\<open>st_\<close> card, \<open>in_\<close> internal state, \<open>cmd_\<close>, \<open>res_\<close>, \<open>va_\<close>).

  \<^bold>\<open>Theories.\<close>
  \<^item> \<open>Swicc_Common\<close>: \<^verbatim>\<open>common.h\<close>, \<^verbatim>\<open>common.c\<close>: return codes, elementary time unit, check byte, hex strings and
    their round trip.
  \<^item> \<open>Swicc_Apdu\<close>: \<^verbatim>\<open>apdu.c\<close>, \<^verbatim>\<open>tpdu.c\<close>: class byte, command headers, the wire form of responses.
  \<^item> \<open>Swicc_Apdu_Rc\<close>: \<^verbatim>\<open>apdu_rc.c\<close>: the response buffer is a queue of bytes.  The contract of a byte queue
    is the locale \<open>byte_fifo\<close>, interpreted on the buffer.
  \<^item> \<open>Swicc_Pps\<close>, \<open>Swicc_Negotiation\<close>: \<^verbatim>\<open>pps.c\<close> and the requests it accepts, whose PPS1 it takes with Fi and Di
    exchanged; the exchange that sets the parameters of the card from a request in pieces, refuses it or ignores it.
  \<^item> \<open>Swicc_Io\<close>: \<^verbatim>\<open>io.h\<close>, tables of \<^verbatim>\<open>io.c\<close>, \<^verbatim>\<open>atr.c\<close>: the answer to reset is well-formed.
  \<^item> \<open>Swicc_Dato\<close>, \<open>Swicc_Encoders\<close>: \<^verbatim>\<open>dato.c\<close>: the encoder, which writes from the end of its buffer to the
    front and is run once without a buffer to find the length; the decoder; that the encoder writes BER and
    that the decoder reads nested objects back, within its limits (tag numbers and lengths up to 127).
  \<^item> \<open>Swicc_Fs_Common\<close>: \<^verbatim>\<open>fs/common.h\<close>, \<^verbatim>\<open>fs/common.c\<close>: raw items and files; well-formed tree buffers are
    the images of abstract trees (\<open>fsnode\<close>), which the later theories use as the specification of a disk.
  \<^item> \<open>Swicc_Lut\<close>, \<open>Swicc_Disk\<close>, \<open>Swicc_Disk_Tables\<close>, \<open>Swicc_Disk_File\<close>: \<^verbatim>\<open>fs/disk.c\<close>: the sorted lookup tables
    meet the contract \<open>lookup_table\<close>; walking over a tree visits its files; the rebuilt tables find
    the file with an identifier; saving and loading a disk.
  \<^item> \<open>Swicc_Va\<close>, \<open>Swicc_Va_Path\<close>: \<^verbatim>\<open>fs/va.c\<close>: selection by identifier, short identifier, application, name and
    path; path selection resolves the path on the abstract tree; the invariant of the validity area.
  \<^item> \<open>Swicc_State\<close>: \<^verbatim>\<open>swicc.h\<close>, \<^verbatim>\<open>fsm.h\<close>, \<^verbatim>\<open>swicc_reset\<close>: the state of a card and what a reset leaves of it.
  \<^item> \<open>Swicc_Fs\<close>, \<open>Swicc_Apduh\<close>: \<^verbatim>\<open>fs.c\<close>, \<^verbatim>\<open>apduh.c\<close>: descriptions of files and the handlers.  What a handler may
    change is the contract \<open>apdu_handler\<close>, interpreted on every handler and on the demultiplexer; the state
    machine rests on it only.
  \<^item> \<open>Swicc_Fsm\<close>, \<open>Swicc_Run\<close>: \<^verbatim>\<open>fsm.c\<close>: the step of the machine, runs under an arbitrary interface, the graph a
    run follows, memory safety of every step outside the states that work on a complete PPS request or command.
  \<^item> \<open>Swicc_Exchange\<close>, \<open>Swicc_Commands\<close>, \<open>Swicc_Records\<close>, \<open>Swicc_Select\<close>: whole commands as the interface sees
    them, for SELECT by identifier, READ BINARY, READ RECORD, UPDATE RECORD and GET RESPONSE.
  \<^item> \<open>Swicc_Mock\<close>: \<^verbatim>\<open>mock.c\<close>: the mocked reset succeeds on every mounted disk with a master file, without handlers of a user.
  \<^item> \<open>Swicc_Diskjs\<close>, \<open>Swicc_Diskjs_Spec\<close>: \<^verbatim>\<open>fs/diskjs.c\<close>: the disk a JSON document creates is the one it describes.
  \<^item> \<open>Swicc_Net\<close>, \<open>Swicc_Net_Server\<close>, \<open>Swicc_Net_Spec\<close>: \<^verbatim>\<open>net.c\<close>: messages, client and server; the
    client answers every message by what the card makes of it, when each segment of the stream is a whole message
    (a split message is treated as broken, as the code does); the descriptors a server holds and loses.
  \<^item> \<open>Swicc_Text\<close>, \<open>Swicc_Server_Dummy\<close>, \<open>Swicc_Server_Dummy_Spec\<close>: \<^verbatim>\<open>tool/server-dummy/src/main.c\<close>: the
    example server, which sends the commands of a text file to a card and prints the responses; its session
    with a card from the file to the output; what is open while it waits and when it ends, by an error or a signal.
  \<^item> \<open>Swicc_Dbg\<close>, \<open>Swicc_Dbg_Net\<close>, \<open>Swicc_Dbg_Fs\<close>, \<open>Swicc_Dbg_Atr\<close>: \<^verbatim>\<open>src/dbg/*.c\<close>: the strings for the log, written
    into a buffer of characters.  What is written of a network message, of a disk and of an answer to reset without interface
    bytes, and where the printing fails.

  \<^bold>\<open>How the parts meet.\<close>
  The properties of the exchanges compose the assembly of the header (\<open>Swicc_Exchange\<close>), the contract of the
  handlers, the functional behaviour of one handler and the wire form of the response; \<open>update_then_read\<close> and
  \<open>select_then_get_response\<close> compose two exchanges; \<open>net_select_session\<close> follows a session over the socket from the reset to the
  description of the selected file.
  \<open>dummy_server_session\<close> puts the two ends of the connection together: for every list of commands that the card can
  exchange, the messages of the example server and of the network client are each other's input, and the server prints
  the responses.

  \<^bold>\<open>Loops and fuel.\<close>
  Loops over indices are recursions with a measure or structural.  Loops that the code does not bound, the walk over a tree,
  the binary search, the growing of a buffer, the loading of a file, the loop of the client, the string of a disk and of an answer to reset, are
  \<open>partial_function (option)\<close>: not returning is \<open>None\<close>, and the theorems show \<open>Some\<close>.  The recursion over a JSON
  document has a fuel for its depth, and \<open>diskjs_creates_described\<close> shows that some fuel is enough and every
  bigger one is too.

  \<^bold>\<open>Parameters.\<close>
  The cJSON library, given by the accessors the code calls on a document; the memory allocator, which may
  fail; the handlers a user registers (\<open>H\<close>); the contents of local variables that are not initialised (\<open>res0\<close>,
  \<open>msg_rx\<close>, \<open>msg_tx\<close>); the calls of the host on sockets, files and signals, given by what they return.

  \<^bold>\<open>Not modelled.\<close>
  Messages to the standard error and to the logger, and tracing; the registration of the logger.
  The unit tests in \<^verbatim>\<open>test\<close>, which call the functions on examples.
\<close>

end
